(* ===== verification/Prelude.thy ===== *)
theory Prelude
  imports Main "HOL-Library.AList" "HOL-Library.Sublist"
    "HOL-Library.List_Lexorder" "HOL-Library.Char_ord"
begin

text \<open>
  Shared vocabulary of the development: the errors the TypeScript code throws, fallible results,
  insertion-ordered maps (a JavaScript \<open>Map\<close> or plain object), the string functions the sources
  call, and the parameters that stand for code outside the repository (clock formatting, HMAC,
  JSON parsing).
\<close>

section \<open>Collections of facts\<close>

named_theorems res_simps \<open>elimination rules for fallible results\<close>
named_theorems store_simps \<open>lookup laws of the insertion-ordered maps\<close>

section \<open>Errors and fallible results\<close>

text \<open>
  One constructor per error class of the sources that some model raises. \<open>Error\<close> is a plain
  \<open>new Error(message)\<close>, \<open>IoError\<close> an error of \<open>node:fs\<close> or of a remote call with its code. A \<open>DeployError\<close> has its code, its
  message, whether it may be retried, and the outcome of a rollback that was attempted.
\<close>

datatype deploy_code =
    InvalidParams | BuildFailed | DeployFailed | HealthFailed | RollbackFailed
  | ImagePullFailed | CredentialInvalid

datatype error =
    TypeError string
  | Error string
  | IoError string
  | ConfigurationError string string string
  | ApprovalDeniedError string string
  | BackupRequiredError string string
  | AuditWriteError string string
  | CorruptAuditLogError string
  | InvalidAuditKeyError string
  | MutationBarrierError string
  | DeployError deploy_code string bool "(bool \<times> string list) option"
  | GraphStoreError string string
  | InventoryError string string

text \<open>The \<open>message\<close> property.\<close>

fun error_message :: "error \<Rightarrow> string" where
  "error_message (TypeError m) = m"
| "error_message (Error m) = m"
| "error_message (IoError m) = m"
| "error_message (ConfigurationError d c f) =
     ''Operator config sets auto_approval.'' @ d @ ''='' @ c @ '', but the destructiveness floor requires '' @ f
       @ '' or stricter (TDD '' @ [CHR 0xC2, CHR 0xA7] @ ''8).''"
| "error_message (ApprovalDeniedError i m) = ''Action '' @ i @ '' denied: '' @ m"
| "error_message (BackupRequiredError i t) =
     ''Action '' @ i @ '' requires a fresh backup of '' @ t @ ''; none found in manifest.''"
| "error_message (AuditWriteError c m) = m"
| "error_message (CorruptAuditLogError m) = m"
| "error_message (InvalidAuditKeyError m) = m"
| "error_message (MutationBarrierError m) = m"
| "error_message (DeployError c m r d) = m"
| "error_message (GraphStoreError c m) = m"
| "error_message (InventoryError c m) = m"

type_synonym 'a res = "error + 'a"

fun rbind :: "'a res \<Rightarrow> ('a \<Rightarrow> 'b res) \<Rightarrow> 'b res" where
  "rbind (Inl e) f = Inl e"
| "rbind (Inr x) f = f x"

lemma rbind_Inr_iff [res_simps]: "rbind r f = Inr y \<longleftrightarrow> (\<exists>x. r = Inr x \<and> f x = Inr y)"
  by (cases r) auto

lemma rbind_Inl_iff [res_simps]:
  "rbind r f = Inl e \<longleftrightarrow> r = Inl e \<or> (\<exists>x. r = Inr x \<and> f x = Inl e)"
  by (cases r) auto

text \<open>The first error of a list of results, or all values: a loop whose body may throw.\<close>

fun collect :: "'a res list \<Rightarrow> 'a list res" where
  "collect [] = Inr []"
| "collect (Inl e # rs) = Inl e"
| "collect (Inr x # rs) = rbind (collect rs) (\<lambda>xs. Inr (x # xs))"

lemma collect_map_Inr [simp]: "collect (map Inr xs) = Inr xs"
  by (induction xs) auto

lemma collect_map_Inr_comp [simp]: "collect (map (\<lambda>x. Inr (f x)) xs) = Inr (map f xs)"
  using collect_map_Inr [of "map f xs"] by (simp add: comp_def)

lemma collect_Inr_iff: "collect rs = Inr xs \<longleftrightarrow> rs = map Inr xs"
proof (induction rs arbitrary: xs rule: collect.induct)
  case (3 x rs)
  then show ?case by (cases xs) (auto simp: res_simps)
qed auto

text \<open>A file as \<open>fs.readFile\<close> finds it: missing (\<open>ENOENT\<close>), failing with another code, or with
  contents.\<close>

datatype 'a disk_file = Absent | Unreadable string | Content 'a

section \<open>Insertion-ordered maps\<close>

text \<open>
  A JavaScript \<open>Map\<close> keeps insertion order and overwrites in place. It is an association list with
  \<open>AList.update\<close> (\<open>set\<close>), \<open>AList.delete\<close> (\<open>delete\<close>) and \<open>map_of\<close> (\<open>get\<close>).
\<close>

type_synonym ('k, 'v) jsmap = "('k \<times> 'v) list"

abbreviation jm_get :: "('k, 'v) jsmap \<Rightarrow> 'k \<Rightarrow> 'v option" where
  "jm_get m k \<equiv> map_of m k"

abbreviation jm_set :: "'k \<Rightarrow> 'v \<Rightarrow> ('k, 'v) jsmap \<Rightarrow> ('k, 'v) jsmap" where
  "jm_set k v m \<equiv> AList.update k v m"

abbreviation jm_del :: "'k \<Rightarrow> ('k, 'v) jsmap \<Rightarrow> ('k, 'v) jsmap" where
  "jm_del k m \<equiv> AList.delete k m"

abbreviation jm_wf :: "('k, 'v) jsmap \<Rightarrow> bool" where
  "jm_wf m \<equiv> distinct (map fst m)"

lemma jm_get_set [store_simps]: "jm_get (jm_set k v m) j = (if j = k then Some v else jm_get m j)"
  by (simp add: update_conv')

lemma jm_get_del [store_simps]: "jm_get (jm_del k m) j = (if j = k then None else jm_get m j)"
  by (simp add: delete_conv')

text \<open>
  The contract every keyed store of the program offers to its clients: what a lookup returns after
  a write or a removal, and that both keep the store well formed.
\<close>

locale keyed_store =
  fixes wf :: "'m \<Rightarrow> bool"
    and get :: "'m \<Rightarrow> 'k \<Rightarrow> 'v option"
    and put :: "'k \<Rightarrow> 'v \<Rightarrow> 'm \<Rightarrow> 'm"
    and remove :: "'k \<Rightarrow> 'm \<Rightarrow> 'm"
  assumes get_put: "wf m \<Longrightarrow> get (put k v m) j = (if j = k then Some v else get m j)"
    and get_remove: "wf m \<Longrightarrow> get (remove k m) j = (if j = k then None else get m j)"
    and wf_put: "wf m \<Longrightarrow> wf (put k v m)"
    and wf_remove: "wf m \<Longrightarrow> wf (remove k m)"
begin

lemma put_put_get: "wf m \<Longrightarrow> get (put k v (put k u m)) = get (put k v m)"
  by (rule ext) (simp add: get_put wf_put)

lemma remove_put_get: "wf m \<Longrightarrow> get (remove k (put k v m)) = get (remove k m)"
  by (rule ext) (simp add: get_put get_remove wf_put)

lemma put_swap_get: "wf m \<Longrightarrow> j \<noteq> k \<Longrightarrow> get (put j u (put k v m)) = get (put k v (put j u m))"
  by (rule ext) (simp add: get_put wf_put)

end

interpretation jm: keyed_store jm_wf jm_get jm_set jm_del
  by unfold_locales (simp_all add: store_simps distinct_update distinct_delete)

section \<open>Strings\<close>

text \<open>A JavaScript string is a list of characters of one byte each: \<open>length\<close> counts bytes, and a
  text outside Latin-1 stands for its UTF-8 bytes.\<close>

abbreviation nl :: char where
  "nl \<equiv> CHR 0x0A"

definition is_space :: "char \<Rightarrow> bool" where
  "is_space c \<longleftrightarrow> c \<in> {CHR '' '', CHR 0x09, CHR 0x0A, CHR 0x0B, CHR 0x0C, CHR 0x0D}"

definition trim_end :: "string \<Rightarrow> string" where
  "trim_end s = rev (dropWhile is_space (rev s))"

definition trim :: "string \<Rightarrow> string" where
  "trim s = trim_end (dropWhile is_space s)"

abbreviation starts_with :: "string \<Rightarrow> string \<Rightarrow> bool" where
  "starts_with p s \<equiv> take (length p) s = p"

abbreviation ends_with :: "string \<Rightarrow> string \<Rightarrow> bool" where
  "ends_with p s \<equiv> starts_with (rev p) (rev s)"

fun contains :: "string \<Rightarrow> string \<Rightarrow> bool" where
  "contains p [] = (p = [])"
| "contains p (c # s) = (starts_with p (c # s) \<or> contains p s)"

fun join :: "string \<Rightarrow> string list \<Rightarrow> string" where
  "join sep [] = []"
| "join sep [s] = s"
| "join sep (s # ss) = s @ sep @ join sep ss"

definition is_digit :: "char \<Rightarrow> bool" where
  "is_digit c \<longleftrightarrow> c \<in> set ''0123456789''"

definition is_upper :: "char \<Rightarrow> bool" where
  "is_upper c \<longleftrightarrow> c \<in> set ''ABCDEFGHIJKLMNOPQRSTUVWXYZ''"

definition is_lower :: "char \<Rightarrow> bool" where
  "is_lower c \<longleftrightarrow> c \<in> set ''abcdefghijklmnopqrstuvwxyz''"

text \<open>The class \<open>[A-Za-z0-9]\<close> of the regular expressions in the sources.\<close>

definition is_alnum :: "char \<Rightarrow> bool" where
  "is_alnum c \<longleftrightarrow> is_digit c \<or> is_upper c \<or> is_lower c"

definition lower_char :: "char \<Rightarrow> char" where
  "lower_char c = (if is_upper c then char_of (of_char c + 32 :: nat) else c)"

abbreviation to_lower :: "string \<Rightarrow> string" where
  "to_lower s \<equiv> map lower_char s"

text \<open>Splitting at a one-character separator, as \<open>String.prototype.split\<close> does.\<close>

fun split_on :: "char \<Rightarrow> string \<Rightarrow> string list" where
  "split_on d [] = [[]]"
| "split_on d (c # s) =
     (if c = d then [] # split_on d s
      else (case split_on d s of [] \<Rightarrow> [[c]] | w # ws \<Rightarrow> (c # w) # ws))"

lemma split_on_nonempty [simp]: "split_on d s \<noteq> []"
  by (cases s) (auto split: list.splits)

lemma split_on_clean: "d \<notin> set w \<Longrightarrow> split_on d w = [w]"
  by (induction w) auto

lemma split_on_append: "d \<notin> set w \<Longrightarrow> split_on d (w @ d # s) = w # split_on d s"
  by (induction w) auto

text \<open>Decimal digits of a natural number, and the value of a string of digits.\<close>

definition digit_char :: "nat \<Rightarrow> char" where
  "digit_char n = char_of (48 + n)"

fun nat_str :: "nat \<Rightarrow> string" where
  "nat_str n = (if n < 10 then [digit_char n] else nat_str (n div 10) @ [digit_char (n mod 10)])"

declare nat_str.simps [simp del]

definition int_str :: "int \<Rightarrow> string" where
  "int_str i = (if i < 0 then ''-'' @ nat_str (nat (- i)) else nat_str (nat i))"

definition digit_val :: "char \<Rightarrow> nat" where
  "digit_val c = of_char c - 48"

definition str_nat :: "string \<Rightarrow> nat" where
  "str_nat s = foldl (\<lambda>n c. 10 * n + digit_val c) 0 s"

lemma is_digit_iff: "is_digit c \<longleftrightarrow> 48 \<le> (of_char c :: nat) \<and> (of_char c :: nat) \<le> 57"
proof
  assume "48 \<le> (of_char c :: nat) \<and> (of_char c :: nat) \<le> 57"
  then have "(of_char c :: nat) \<in> {48, 49, 50, 51, 52, 53, 54, 55, 56, 57}"
    by (simp only: insert_iff empty_iff) arith
  then have "char_of (of_char c :: nat) \<in> (char_of ` {48, 49, 50, 51, 52, 53, 54, 55, 56, 57 :: nat} :: char set)"
    by (rule imageI)
  then show "is_digit c"
    by (simp add: is_digit_def del: char_of_nat)
       (auto simp: char_of_def bit_simps)
qed (auto simp: is_digit_def)

lemma digit_char_digit: "n < 10 \<Longrightarrow> is_digit (digit_char n)"
  by (simp add: is_digit_iff digit_char_def)

lemma digit_val_char: "n < 10 \<Longrightarrow> digit_val (digit_char n) = n"
  by (simp add: digit_val_def digit_char_def)

lemma nat_str_digits: "\<forall>c \<in> set (nat_str n). is_digit c"
proof (induction n rule: nat_str.induct)
  case (1 n)
  then show ?case
    by (subst nat_str.simps) (auto simp: digit_char_digit)
qed

lemma nat_str_nonempty [simp]: "nat_str n \<noteq> []"
  by (subst nat_str.simps) simp

lemma str_nat_nat_str [simp]: "str_nat (nat_str n) = n"
proof (induction n rule: nat_str.induct)
  case (1 n)
  then show ?case
    by (subst nat_str.simps) (auto simp: str_nat_def digit_val_char)
qed

section \<open>Machines with an invariant\<close>

text \<open>
  The contract of every state machine of the development: the steps a scenario allows keep an
  invariant. Its clients get the invariant along any finite run of allowed steps.
\<close>

locale invariant_machine =
  fixes step :: "'e \<Rightarrow> 's \<Rightarrow> 's"
    and allowed :: "'e \<Rightarrow> bool"
    and inv :: "'s \<Rightarrow> bool"
  assumes step_keeps: "inv s \<Longrightarrow> allowed e \<Longrightarrow> inv (step e s)"
begin

lemma run_keeps: "inv s \<Longrightarrow> list_all allowed es \<Longrightarrow> inv (fold step es s)"
  by (induction es arbitrary: s) (auto intro: step_keeps)

lemma run_keeps_prefix:
  "inv s \<Longrightarrow> list_all allowed es \<Longrightarrow> inv (fold step (take n es) s)"
  by (rule run_keeps) (auto simp: list_all_iff dest: in_set_takeD)

end

section \<open>Refinement of a machine by a detailed one\<close>

text \<open>A run of a machine whose steps answer, with all its answers.\<close>

fun run_out :: "('e \<Rightarrow> 's \<Rightarrow> 's \<times> 'o) \<Rightarrow> 'e list \<Rightarrow> 's \<Rightarrow> 's \<times> 'o list" where
  "run_out step [] s = (s, [])"
| "run_out step (e # es) s =
     (case step e s of (s1, x) \<Rightarrow> (case run_out step es s1 of (s2, xs) \<Rightarrow> (s2, x # xs)))"

text \<open>Every step of the run is one its state allows.\<close>

fun run_allowed :: "('e \<Rightarrow> 's \<Rightarrow> 's \<times> 'o) \<Rightarrow> ('e \<Rightarrow> 's \<Rightarrow> bool) \<Rightarrow> 'e list \<Rightarrow> 's \<Rightarrow> bool" where
  "run_allowed step allowed [] s = True"
| "run_allowed step allowed (e # es) s =
     (allowed e s \<and> run_allowed step allowed es (fst (step e s)))"

text \<open>
  The contract between a component and its specification: an abstraction that commutes with every
  allowed step and keeps the answers. Its clients get the answers of any run from the specification.
\<close>

locale refined_machine =
  fixes step :: "'e \<Rightarrow> 's \<Rightarrow> 's \<times> 'o"
    and spec :: "'e \<Rightarrow> 'a \<Rightarrow> 'a \<times> 'o"
    and inv :: "'s \<Rightarrow> bool"
    and abs :: "'s \<Rightarrow> 'a"
    and allowed :: "'e \<Rightarrow> 's \<Rightarrow> bool"
  assumes step_inv: "inv s \<Longrightarrow> allowed e s \<Longrightarrow> step e s = (s', x) \<Longrightarrow> inv s'"
    and step_refines: "inv s \<Longrightarrow> allowed e s \<Longrightarrow> step e s = (s', x) \<Longrightarrow> spec e (abs s) = (abs s', x)"
begin

lemma run_refines:
  "inv s \<Longrightarrow> run_allowed step allowed es s \<Longrightarrow> run_out step es s = (s', xs)
   \<Longrightarrow> inv s' \<and> run_out spec es (abs s) = (abs s', xs)"
proof (induction es arbitrary: s xs)
  case (Cons e es)
  obtain s1 x where first: "step e s = (s1, x)" by fastforce
  obtain ys where rest: "run_out step es s1 = (s', ys)" "xs = x # ys"
    using Cons.prems(3) first by (auto split: prod.splits)
  have "inv s1" "spec e (abs s) = (abs s1, x)"
    using step_inv [OF _ _ first] step_refines [OF _ _ first] Cons.prems by auto
  moreover have "run_allowed step allowed es s1" using Cons.prems(2) first by simp
  ultimately show ?case using Cons.IH [OF _ _ rest(1)] rest(2) by simp
qed simp

end

end
