(* ===== verification/Json.thy ===== *)
theory Json
  imports Prelude
begin

text \<open>
  JavaScript values and \<open>src/audit/canonical-json.ts\<close>: the deterministic serialisation every
  signature of the program is computed over. The theory models \<open>encode\<close>, relates it to a rendering
  of the value with its keys sorted, and proves that rendering uniquely decodable, so that two
  values with the same canonical text are the same value up to the order of object keys.
\<close>

section \<open>JavaScript values\<close>

text \<open>
  A finite number is an integer (every number the program signs is one: counters, sizes, epoch
  milliseconds below \<open>2 ^ 53\<close>); the three non-finite numbers are kept, since \<open>encode\<close> rejects them.
  An object is its list of own enumerable properties in insertion order.
\<close>

datatype jsnum = Fin int | NaN | PosInf | NegInf

datatype jsval =
    JNull | JUndef | JBool bool | JNum jsnum | JBigInt | JFun | JSym
  | JStr string | JArr "jsval list" | JObj "(string \<times> jsval) list"

abbreviation JInt :: "int \<Rightarrow> jsval" where
  "JInt n \<equiv> JNum (Fin n)"

section \<open>String literals\<close>

text \<open>\<open>JSON.stringify\<close> of a string: quotes, backslash and control characters are escaped.\<close>

definition hex_digit :: "nat \<Rightarrow> char" where
  "hex_digit n = char_of (if n < 10 then 48 + n else 87 + n)"

definition esc_char :: "char \<Rightarrow> string" where
  "esc_char c =
    (if c = CHR 0x22 then [CHR 0x5C, CHR 0x22]
     else if c = CHR 0x5C then [CHR 0x5C, CHR 0x5C]
     else if c = CHR 0x08 then [CHR 0x5C, CHR ''b'']
     else if c = CHR 0x0C then [CHR 0x5C, CHR ''f'']
     else if c = CHR 0x0A then [CHR 0x5C, CHR ''n'']
     else if c = CHR 0x0D then [CHR 0x5C, CHR ''r'']
     else if c = CHR 0x09 then [CHR 0x5C, CHR ''t'']
     else if of_char c < (32 :: nat) then
       [CHR 0x5C, CHR ''u'', CHR ''0'', CHR ''0'',
        hex_digit (of_char c div 16), hex_digit (of_char c mod 16)]
     else [c])"

definition quote :: "string \<Rightarrow> string" where
  "quote s = CHR 0x22 # concat (map esc_char s) @ [CHR 0x22]"

section \<open>The canonical serialiser\<close>

definition ser_err :: "string \<Rightarrow> error" where
  "ser_err what = TypeError (''canonicalJson: '' @ what @ '' not JSON-serializable'')"

text \<open>
  \<open>Object.keys(obj).sort()\<close> is a stable sort by key. The loop over the sorted keys throws at the
  first member that does not serialise, so every member is encoded first and the first failure in
  key order is the result.
\<close>

fun encode :: "jsval \<Rightarrow> string res"
  and encode_vals :: "jsval list \<Rightarrow> string res list"
  and encode_members :: "(string \<times> jsval) list \<Rightarrow> (string \<times> string res) list"
where
  "encode JNull = Inr ''null''"
| "encode (JBool b) = Inr (if b then ''true'' else ''false'')"
| "encode (JNum n) =
     (case n of Fin i \<Rightarrow> Inr (int_str i) | _ \<Rightarrow> Inl (ser_err ''non-finite number is''))"
| "encode (JStr s) = Inr (quote s)"
| "encode JBigInt = Inl (ser_err ''BigInt is'')"
| "encode JUndef = Inl (ser_err ''undefined is'')"
| "encode JFun = Inl (ser_err ''function is'')"
| "encode JSym = Inl (ser_err ''symbol is'')"
| "encode (JArr vs) =
     rbind (collect (encode_vals vs)) (\<lambda>ps. Inr (''['' @ join '','' ps @ '']''))"
| "encode (JObj kvs) =
     rbind (collect (map snd (sort_key fst (encode_members kvs))))
       (\<lambda>ps. Inr (''{'' @ join '','' ps @ ''}''))"
| "encode_vals [] = []"
| "encode_vals (v # vs) = encode v # encode_vals vs"
| "encode_members [] = []"
| "encode_members (kv # kvs) =
     (fst kv,
      if snd kv = JUndef then Inl (ser_err (''undefined value at key '' @ fst kv @ '' is''))
      else rbind (encode (snd kv)) (\<lambda>t. Inr (quote (fst kv) @ '':'' @ t)))
     # encode_members kvs"

definition canonical_json :: "jsval \<Rightarrow> string res" where
  "canonical_json v = encode v"

section \<open>Sorted values and their rendering\<close>

text \<open>The value with the keys of every object sorted, and the text of a value in the order given.\<close>

fun canon :: "jsval \<Rightarrow> jsval"
  and canon_vals :: "jsval list \<Rightarrow> jsval list"
  and canon_members :: "(string \<times> jsval) list \<Rightarrow> (string \<times> jsval) list"
where
  "canon (JArr vs) = JArr (canon_vals vs)"
| "canon (JObj kvs) = JObj (sort_key fst (canon_members kvs))"
| "canon v = v"
| "canon_vals [] = []"
| "canon_vals (v # vs) = canon v # canon_vals vs"
| "canon_members [] = []"
| "canon_members (kv # kvs) = (fst kv, canon (snd kv)) # canon_members kvs"

text \<open>\<open>JSON.stringify\<close> of a value without \<open>undefined\<close> members: no spaces, keys in insertion order.\<close>

fun render :: "jsval \<Rightarrow> string"
  and render_elems :: "jsval list \<Rightarrow> string list"
  and render_members :: "(string \<times> jsval) list \<Rightarrow> string list"
where
  "render (JBool b) = (if b then ''true'' else ''false'')"
| "render (JNum n) = (case n of Fin i \<Rightarrow> int_str i | _ \<Rightarrow> ''null'')"
| "render (JStr s) = quote s"
| "render (JArr vs) = ''['' @ join '','' (render_elems vs) @ '']''"
| "render (JObj kvs) = ''{'' @ join '','' (render_members kvs) @ ''}''"
| "render _ = ''null''"
| "render_elems [] = []"
| "render_elems (v # vs) = render v # render_elems vs"
| "render_members [] = []"
| "render_members (kv # kvs) = (quote (fst kv) @ '':'' @ render (snd kv)) # render_members kvs"

text \<open>A value that JSON can represent.\<close>

fun is_json :: "jsval \<Rightarrow> bool"
  and all_json :: "jsval list \<Rightarrow> bool"
  and all_json_members :: "(string \<times> jsval) list \<Rightarrow> bool"
where
  "is_json JNull = True"
| "is_json (JBool b) = True"
| "is_json (JNum n) = (case n of Fin i \<Rightarrow> True | _ \<Rightarrow> False)"
| "is_json (JStr s) = True"
| "is_json (JArr vs) = all_json vs"
| "is_json (JObj kvs) = all_json_members kvs"
| "is_json _ = False"
| "all_json [] = True"
| "all_json (v # vs) = (is_json v \<and> all_json vs)"
| "all_json_members [] = True"
| "all_json_members (kv # kvs) = (is_json (snd kv) \<and> all_json_members kvs)"

lemma canon_vals_map: "canon_vals vs = map canon vs"
  by (induction vs) auto

lemma canon_members_map: "canon_members kvs = map (\<lambda>(k, v). (k, canon v)) kvs"
  by (induction kvs) auto

lemma all_json_iff: "all_json vs \<longleftrightarrow> (\<forall>v \<in> set vs. is_json v)"
  by (induction vs) auto

lemma all_json_members_iff: "all_json_members kvs \<longleftrightarrow> (\<forall>kv \<in> set kvs. is_json (snd kv))"
  by (induction kvs) auto

lemma render_elems_map: "render_elems vs = map render vs"
  by (induction vs) auto

lemma render_members_map:
  "render_members kvs = map (\<lambda>kv. quote (fst kv) @ '':'' @ render (snd kv)) kvs"
  by (induction kvs) auto

lemma encode_vals_map: "encode_vals vs = map encode vs"
  by (induction vs) auto

section \<open>What the serialiser computes\<close>

lemma insort_key_map:
  assumes "\<And>x. fst (g x) = fst x"
  shows "insort_key fst (g x) (map g xs) = map g (insort_key fst x xs)"
  by (induction xs) (auto simp: assms)

lemma sort_key_map:
  assumes "\<And>x. fst (g x) = fst x"
  shows "sort_key fst (map g xs) = map g (sort_key fst xs)"
  by (induction xs) (simp_all add: insort_key_map assms)

abbreviation member_text :: "string \<times> jsval \<Rightarrow> string" where
  "member_text kv \<equiv> quote (fst kv) @ '':'' @ render (snd kv)"

lemma is_json_not_undef: "is_json v \<Longrightarrow> v \<noteq> JUndef"
  by auto

lemma encode_is_json:
  "is_json v \<Longrightarrow> encode v = Inr (render (canon v))"
  "all_json vs \<Longrightarrow> encode_vals vs = map Inr (render_elems (canon_vals vs))"
  "all_json_members kvs \<Longrightarrow>
     encode_members kvs = map (\<lambda>kv. (fst kv, Inr (member_text kv))) (canon_members kvs)"
proof (induction v and vs and kvs rule: encode_encode_vals_encode_members.induct)
  case (10 kvs)
  then show ?case
    by (simp add: sort_key_map render_members_map flip: map_map) (simp add: comp_def)
next
  case (14 kv kvs)
  then show ?case by (auto dest: is_json_not_undef)
qed (auto split: jsnum.splits simp: collect_Inr_iff)

lemma collect_sorted_Inr:
  "collect (map snd (sort_key fst (ms :: (string \<times> 'a res) list))) = Inr ps \<Longrightarrow>
   (\<forall>m \<in> set ms. \<exists>t. snd m = Inr t)"
proof
  fix m assume "collect (map snd (sort_key fst ms)) = Inr ps" and m: "m \<in> set ms"
  then have "map snd (sort_key fst ms) = map Inr ps" by (simp add: collect_Inr_iff)
  then have "set (map snd (sort_key fst ms)) = set (map Inr ps)" by (rule arg_cong)
  moreover from m have "snd m \<in> set (map snd (sort_key fst ms))" by simp
  ultimately show "\<exists>t. snd m = Inr t" by auto
qed

lemma encode_Inr_is_json:
  "encode v = Inr s \<Longrightarrow> is_json v"
  "collect (encode_vals vs) = Inr ss \<Longrightarrow> all_json vs"
  "\<forall>m \<in> set (encode_members kvs). \<exists>t. snd m = Inr t \<Longrightarrow> all_json_members kvs"
proof (induction v and vs and kvs arbitrary: s and ss
    rule: encode_encode_vals_encode_members.induct)
  case (10 kvs)
  then show ?case by (auto simp: res_simps dest: collect_sorted_Inr)
next
  case (12 v vs)
  then show ?case by (cases "encode v") (auto simp: res_simps)
next
  case (14 kv kvs)
  then show ?case by (auto simp: res_simps split: if_splits)
qed (auto simp: res_simps split: jsnum.splits)

lemma canonical_json_eq: "is_json v \<Longrightarrow> canonical_json v = Inr (render (canon v))"
  by (simp add: canonical_json_def encode_is_json)

lemma canonical_json_ok_iff: "(\<exists>s. canonical_json v = Inr s) \<longleftrightarrow> is_json v"
  by (auto simp: canonical_json_def encode_is_json dest: encode_Inr_is_json)

lemma canonical_json_Inr: "canonical_json v = Inr s \<longleftrightarrow> is_json v \<and> s = render (canon v)"
  using canonical_json_ok_iff canonical_json_eq by fastforce

section \<open>String literals decode uniquely\<close>

lemma hex_digit_inj:
  assumes "a < 16" "b < 16" "hex_digit a = hex_digit b"
  shows "a = b"
proof -
  have "(of_char (hex_digit a) :: nat) = of_char (hex_digit b)"
    using assms(3) by simp
  with assms(1,2) show ?thesis
    by (simp add: hex_digit_def split: if_splits)
qed

lemma esc_char_prefix:
  assumes "esc_char c @ r = esc_char d @ r'"
  shows "c = d \<and> r = r'"
proof (cases "(of_char c :: nat) < 32 \<and> (of_char d :: nat) < 32")
  case True
  have div: "(of_char c :: nat) div 16 < 16" "(of_char d :: nat) div 16 < 16"
    using True by auto
  have hexes: "c = d" if "hex_digit (of_char c div 16) = hex_digit (of_char d div 16)"
    "hex_digit (of_char c mod 16) = hex_digit (of_char d mod 16)"
  proof -
    have "(of_char c :: nat) div 16 = of_char d div 16" using that(1) div by (auto intro: hex_digit_inj)
    moreover have "(of_char c :: nat) mod 16 = of_char d mod 16"
      using that(2) by (auto intro: hex_digit_inj)
    ultimately have "(of_char c :: nat) = of_char d" by (metis div_mod_decomp)
    then show ?thesis by simp
  qed
  show ?thesis using assms hexes by (simp add: esc_char_def True split: if_splits)
next
  case False
  then show ?thesis using assms by (auto simp: esc_char_def split: if_splits)
qed

lemma esc_char_not_quote: "esc_char c @ r \<noteq> CHR 0x22 # r'"
  by (auto simp: esc_char_def)

lemma quote_body_prefix:
  "concat (map esc_char s) @ CHR 0x22 # r = concat (map esc_char t) @ CHR 0x22 # r' \<Longrightarrow>
   s = t \<and> r = r'"
proof (induction s arbitrary: t)
  case Nil
  then show ?case by (cases t) (auto dest: esc_char_not_quote [THEN notE, OF sym])
next
  case (Cons c s)
  then show ?case
  proof (cases t)
    case Nil
    with Cons.prems show ?thesis by (auto dest: esc_char_not_quote [THEN notE])
  next
    case (Cons d t')
    with Cons.prems have "esc_char c @ (concat (map esc_char s) @ CHR 0x22 # r)
        = esc_char d @ (concat (map esc_char t') @ CHR 0x22 # r')" by simp
    from esc_char_prefix [OF this] Cons.IH [of t'] Cons show ?thesis by auto
  qed
qed

lemma quote_prefix: "quote s @ r = quote t @ r' \<longleftrightarrow> s = t \<and> r = r'"
  using quote_body_prefix [of s r t r'] by (auto simp: quote_def)

section \<open>Numbers decode uniquely\<close>

definition delim :: "string \<Rightarrow> bool" where
  "delim r \<longleftrightarrow> r = [] \<or> \<not> is_digit (hd r)"

lemma delim_simps [simp]: "delim []" "delim (c # r) \<longleftrightarrow> \<not> is_digit c"
  by (simp_all add: delim_def)

lemma takeWhile_nat_str: "delim r \<Longrightarrow> takeWhile is_digit (nat_str n @ r) = nat_str n"
  using nat_str_digits [of n] by (cases r) (auto simp: takeWhile_append takeWhile_eq_all_conv)

lemma nat_str_prefix:
  assumes "nat_str m @ r = nat_str n @ r'" "delim r" "delim r'"
  shows "m = n \<and> r = r'"
proof -
  have "nat_str m = nat_str n"
    using assms takeWhile_nat_str by metis
  then show ?thesis using assms(1) str_nat_nat_str by (metis append_same_eq same_append_eq)
qed

lemma nat_str_not_minus: "nat_str n @ r \<noteq> CHR ''-'' # s"
  using nat_str_digits [of n] nat_str_nonempty [of n]
  by (cases "nat_str n") (auto simp: is_digit_def)

lemma int_str_prefix:
  assumes eq: "int_str i @ r = int_str j @ r'" and r: "delim r" "delim r'"
  shows "i = j \<and> r = r'"
proof (cases "i < 0"; cases "j < 0")
  assume s: "i < 0" "j < 0"
  with eq have "nat_str (nat (- i)) @ r = nat_str (nat (- j)) @ r'" by (simp add: int_str_def)
  from nat_str_prefix [OF this r] have "nat (- i) = nat (- j)" "r = r'" by simp_all
  with s show ?thesis by arith
next
  assume s: "i < 0" "\<not> j < 0"
  with eq show ?thesis by (simp add: int_str_def nat_str_not_minus [symmetric])
next
  assume s: "\<not> i < 0" "j < 0"
  with eq show ?thesis by (simp add: int_str_def nat_str_not_minus)
next
  assume s: "\<not> i < 0" "\<not> j < 0"
  with eq have "nat_str (nat i) @ r = nat_str (nat j) @ r'" by (simp add: int_str_def)
  from nat_str_prefix [OF this r] have "nat i = nat j" "r = r'" by simp_all
  with s show ?thesis by arith
qed

lemma int_str_head: "int_str i @ r = c # s \<Longrightarrow> c = CHR ''-'' \<or> is_digit c"
  using nat_str_digits [of "nat i"] nat_str_nonempty [of "nat i"]
  by (cases "nat_str (nat i)") (auto simp: int_str_def split: if_splits)

section \<open>Values decode uniquely\<close>

lemma join_Cons: "join sep (s # ss) = s @ (if ss = [] then [] else sep @ join sep ss)"
  by (cases ss) auto

lemma quote_head [simp]: "quote s @ r = c # x \<longleftrightarrow> c = CHR 0x22 \<and> concat (map esc_char s) @ CHR 0x22 # r = x"
  by (auto simp: quote_def)

lemma int_str_not_quote [simp]:
  "int_str i @ r \<noteq> quote s @ r'" "quote s @ r' \<noteq> int_str i @ r"
proof -
  show "int_str i @ r \<noteq> quote s @ r'"
    using int_str_head [of i r "CHR 0x22"] by (auto simp: quote_def is_digit_def)
  then show "quote s @ r' \<noteq> int_str i @ r" by metis
qed

lemma head_quote [simp]: "c # x = quote s @ r \<longleftrightarrow> c = CHR 0x22 \<and> x = concat (map esc_char s) @ CHR 0x22 # r"
  by (auto simp: quote_def)

text \<open>The first character of a text tells its kind of value.\<close>

definition closer :: "char \<Rightarrow> bool" where
  "closer c \<longleftrightarrow> c \<in> {CHR '']'', CHR ''}'', CHR '',''}"

lemma closer_delim [simp]: "closer c \<Longrightarrow> \<not> is_digit c"
  by (auto simp: closer_def is_digit_def)

lemma render_not_closer: "is_json v \<Longrightarrow> closer c \<Longrightarrow> render v @ r \<noteq> c # s"
  by (cases v) (auto simp: closer_def quote_def is_digit_def split: jsnum.splits dest: int_str_head)

lemma not_closer_render: "is_json v \<Longrightarrow> closer c \<Longrightarrow> c # s \<noteq> render v @ r"
  using render_not_closer [of v c r s] by metis

lemma render_arr_head: "is_json w \<Longrightarrow> render w @ r = CHR ''['' # s \<Longrightarrow>
   \<exists>ws. w = JArr ws \<and> all_json ws \<and> s = join '','' (render_elems ws) @ CHR '']'' # r"
  by (cases w) (auto simp: quote_def is_digit_def split: jsnum.splits if_splits dest: int_str_head)

lemma render_obj_head: "is_json w \<Longrightarrow> render w @ r = CHR ''{'' # s \<Longrightarrow>
   \<exists>kws. w = JObj kws \<and> all_json_members kws \<and> s = join '','' (render_members kws) @ CHR ''}'' # r"
  by (cases w) (auto simp: quote_def is_digit_def split: jsnum.splits if_splits dest: int_str_head)

lemma render_prefix:
  "is_json v \<Longrightarrow> is_json w \<Longrightarrow> delim r \<Longrightarrow> delim r' \<Longrightarrow> render v @ r = render w @ r' \<Longrightarrow>
     v = w \<and> r = r'"
  "all_json vs \<Longrightarrow> all_json ws \<Longrightarrow>
     join '','' (render_elems vs) @ CHR '']'' # r = join '','' (render_elems ws) @ CHR '']'' # r' \<Longrightarrow>
     vs = ws \<and> r = r'"
  "all_json_members kvs \<Longrightarrow> all_json_members kws \<Longrightarrow>
     join '','' (render_members kvs) @ CHR ''}'' # r = join '','' (render_members kws) @ CHR ''}'' # r' \<Longrightarrow>
     kvs = kws \<and> r = r'"
proof (induction v and vs and kvs arbitrary: w r r' and ws r r' and kws r r'
    rule: render_render_elems_render_members.induct)
  case (1 b)
  then show ?case
    by (cases w) (auto simp: quote_def is_digit_def split: jsnum.splits if_splits dest: int_str_head [OF sym])
next
  case (2 n)
  then show ?case
    by (cases w) (auto simp: quote_def is_digit_def split: jsnum.splits if_splits
        dest: int_str_head int_str_prefix)
next
  case (3 s)
  then show ?case
    by (cases w) (auto simp: quote_prefix is_digit_def split: jsnum.splits if_splits dest: int_str_head [OF sym])
next
  case (4 vs)
  from "4.prems"(5) have "render w @ r' = CHR ''['' # join '','' (render_elems vs) @ CHR '']'' # r"
    by simp
  with render_arr_head "4.prems"(2) obtain ws where w: "w = JArr ws" "all_json ws"
    "join '','' (render_elems vs) @ CHR '']'' # r = join '','' (render_elems ws) @ CHR '']'' # r'"
    by blast
  from "4.IH" [OF _ w(2,3)] "4.prems"(1) w(1) show ?case by simp
next
  case (5 kvs)
  from "5.prems"(5) have "render w @ r' = CHR ''{'' # join '','' (render_members kvs) @ CHR ''}'' # r"
    by simp
  with render_obj_head "5.prems"(2) obtain kws where w: "w = JObj kws" "all_json_members kws"
    "join '','' (render_members kvs) @ CHR ''}'' # r = join '','' (render_members kws) @ CHR ''}'' # r'"
    by blast
  from "5.IH" [OF _ w(2,3)] "5.prems"(1) w(1) show ?case by simp
next
  case "6_1"
  then show ?case
    by (cases w) (auto simp: quote_def is_digit_def split: jsnum.splits if_splits dest: int_str_head [OF sym])
next
  case (7 ws)
  then show ?case
    by (cases ws) (auto simp: join_Cons closer_def render_not_closer not_closer_render)
next
  case (8 v vs)
  then show ?case
  proof (cases ws)
    case Nil
    with 8 show ?thesis by (simp add: join_Cons closer_def render_not_closer not_closer_render)
  next
    case (Cons x xs)
    define k where "k ys q = (if render_elems ys = [] then [] else '','' @ join '','' (render_elems ys)) @ CHR '']'' # q" for ys q
    have d: "delim (k ys q)" for ys q by (auto simp: is_digit_def k_def)
    from "8.prems"(3) have e1: "render v @ k vs r = render x @ k xs r'"
      by (simp add: join_Cons Cons k_def)
    with "8.IH"(1) [OF _ _ d d] "8.prems" Cons have e2: "v = x" "k vs r = k xs r'"
      by auto
    from e2(2) have "join '','' (render_elems vs) @ CHR '']'' # r = join '','' (render_elems xs) @ CHR '']'' # r'"
      by (auto simp: k_def split: if_splits)
    with "8.IH"(2) [of xs r r'] "8.prems" Cons e2(1) show ?thesis by auto
  qed
next
  case (9 kws)
  then show ?case by (cases kws) (auto simp: join_Cons)
next
  case (10 kv kvs)
  show ?case
  proof (cases kws)
    case Nil
    with 10 show ?thesis by (simp add: join_Cons)
  next
    case (Cons x xs)
    define k where "k ys q = (if render_members ys = [] then [] else '','' @ join '','' (render_members ys)) @ CHR ''}'' # q" for ys q
    have d: "delim (k ys q)" for ys q by (auto simp: is_digit_def k_def)
    from "10.prems"(3) have "quote (fst kv) @ ('':'' @ render (snd kv) @ k kvs r) = quote (fst x) @ ('':'' @ render (snd x) @ k xs r')"
      by (simp add: join_Cons Cons k_def)
    then have e1: "fst kv = fst x" "render (snd kv) @ k kvs r = render (snd x) @ k xs r'"
      by (auto simp: quote_prefix simp del: quote_head)
    with "10.IH"(1) [OF _ _ d d] "10.prems" Cons have e2: "snd kv = snd x" "k kvs r = k xs r'"
      by auto
    from e2(2) have "join '','' (render_members kvs) @ CHR ''}'' # r = join '','' (render_members xs) @ CHR ''}'' # r'"
      by (auto simp: k_def split: if_splits)
    with "10.IH"(2) [of xs r r'] "10.prems" Cons e1(1) e2(1) show ?thesis by (auto simp: prod_eq_iff)
  qed
qed auto

lemma render_inj: "is_json v \<Longrightarrow> is_json w \<Longrightarrow> render v = render w \<Longrightarrow> v = w"
  using render_prefix(1) [of v w "[]" "[]"] by simp

section \<open>Two values have one canonical text exactly when they agree up to key order\<close>

lemma is_json_canon:
  "is_json v \<Longrightarrow> is_json (canon v)"
  "all_json vs \<Longrightarrow> all_json (canon_vals vs)"
  "all_json_members kvs \<Longrightarrow> all_json_members (canon_members kvs)"
  by (induction v and vs and kvs rule: canon_canon_vals_canon_members.induct)
     (auto simp: all_json_members_iff)

lemma canonical_json_same:
  "canonical_json v = Inr s \<Longrightarrow> canonical_json w = Inr s \<Longrightarrow> canon v = canon w"
  by (auto simp: canonical_json_Inr intro: render_inj is_json_canon)

lemma sort_key_distinct_perm:
  fixes xs ys :: "('a :: linorder \<times> 'b) list"
  assumes "distinct (map fst xs)" "distinct (map fst ys)" "set xs = set ys"
  shows "sort_key fst xs = sort_key fst ys"
proof (rule map_sorted_distinct_set_unique [where f = fst])
  have "inj_on fst (set xs)" using assms(1) by (simp add: distinct_map)
  then show "inj_on fst (set (sort_key fst xs) \<union> set (sort_key fst ys))"
    using assms(3) by simp
  show "distinct (map fst (sort_key fst xs))"
    using assms(1) by (simp add: distinct_map)
  show "distinct (map fst (sort_key fst ys))"
    using assms(2) by (simp add: distinct_map)
qed (use assms(3) in auto)

lemma canon_perm:
  assumes "distinct (map fst kvs)" "distinct (map fst kws)" "set kvs = set kws"
  shows "canon (JObj kvs) = canon (JObj kws)"
proof -
  have "fst \<circ> (\<lambda>(k, v). (k, canon v)) = (fst :: string \<times> jsval \<Rightarrow> string)" by auto
  with assms have "sort_key fst (canon_members kvs) = sort_key fst (canon_members kws)"
    by (intro sort_key_distinct_perm) (simp_all add: canon_members_map)
  then show ?thesis by simp
qed

section \<open>Property access\<close>

text \<open>\<open>v[k]\<close> on a value that came from \<open>JSON.parse\<close>.\<close>

definition field :: "jsval \<Rightarrow> string \<Rightarrow> jsval" where
  "field v k = (case v of JObj kvs \<Rightarrow> (case map_of kvs k of Some x \<Rightarrow> x | None \<Rightarrow> JUndef) | _ \<Rightarrow> JUndef)"

lemma field_JObj [simp]:
  "field (JObj ((k, v) # kvs)) j = (if j = k then v else field (JObj kvs) j)"
  "field (JObj []) j = JUndef"
  by (simp_all add: field_def)

fun is_obj :: "jsval \<Rightarrow> bool" where
  "is_obj (JObj _) = True"
| "is_obj _ = False"

fun is_str :: "jsval \<Rightarrow> bool" where
  "is_str (JStr _) = True"
| "is_str _ = False"

fun is_num :: "jsval \<Rightarrow> bool" where
  "is_num (JNum _) = True"
| "is_num _ = False"

fun is_arr :: "jsval \<Rightarrow> bool" where
  "is_arr (JArr _) = True"
| "is_arr _ = False"

text \<open>Reading a value back at its type; \<open>None\<close> when it is not of the type the code casts it to.\<close>

definition opt_field :: "string \<Rightarrow> jsval option \<Rightarrow> (string \<times> jsval) list" where
  "opt_field k v = (case v of None \<Rightarrow> [] | Some x \<Rightarrow> [(k, x)])"

definition as_str :: "jsval \<Rightarrow> string option" where
  "as_str v = (case v of JStr s \<Rightarrow> Some s | _ \<Rightarrow> None)"

definition as_int :: "jsval \<Rightarrow> int option" where
  "as_int v = (case v of JNum (Fin n) \<Rightarrow> Some n | _ \<Rightarrow> None)"

definition as_opt :: "(jsval \<Rightarrow> 'a option) \<Rightarrow> jsval \<Rightarrow> 'a option option" where
  "as_opt f v = (if v = JUndef then Some None else map_option Some (f v))"

definition as_enum :: "('a \<times> string) list \<Rightarrow> jsval \<Rightarrow> 'a option" where
  "as_enum tab v = (case v of JStr s \<Rightarrow> map_of (map (\<lambda>(a, t). (t, a)) tab) s | _ \<Rightarrow> None)"

fun all_some :: "'a option list \<Rightarrow> 'a list option" where
  "all_some [] = Some []"
| "all_some (None # xs) = None"
| "all_some (Some x # xs) = map_option (\<lambda>ys. x # ys) (all_some xs)"

lemma as_simps [simp]:
  "as_str (JStr s) = Some s" "as_int (JInt n) = Some n" "as_opt f JUndef = Some None"
  by (simp_all add: as_str_def as_int_def as_opt_def)

lemma all_some_map [simp]: "all_some (map Some xs) = Some xs"
  by (induction xs) auto

text \<open>
  C9: the serialiser throws exactly on the values JSON cannot represent, and for two values it
  accepts the texts are equal exactly when the values are equal up to the order of object keys at
  every level. A signature over the canonical text therefore fixes the whole signed value.
\<close>

theorem canonical_json_faithful:
  "(\<exists>s. canonical_json v = Inr s) = is_json v
   \<and> (is_json v \<and> is_json w \<longrightarrow> (canonical_json v = canonical_json w) = (canon v = canon w))"
proof -
  have "canon v = canon w" if "is_json v" "is_json w" "canonical_json v = canonical_json w"
    using that canonical_json_same [of v "render (canon v)" w] by (simp add: canonical_json_eq)
  then show ?thesis
    using canonical_json_ok_iff [of v] by (auto simp: canonical_json_eq)
qed

theorem canonical_json_faithful_witness:
  "canonical_json (JObj [(''b'', JInt 1), (''a'', JStr ''x'')])
     = canonical_json (JObj [(''a'', JStr ''x''), (''b'', JInt 1)])"
proof -
  let ?v = "JObj [(''b'', JInt 1), (''a'', JStr ''x'')]"
  let ?w = "JObj [(''a'', JStr ''x''), (''b'', JInt 1)]"
  have "canon ?v = canon ?w" by simp
  then show ?thesis using canonical_json_faithful [of ?v ?w] by simp
qed

text \<open>
  The canonical text does not depend on the order in which the properties of an object were
  inserted, so a record that is written, parsed and re-serialised verifies.
\<close>

theorem canonical_json_key_order:
  assumes "distinct (map fst kvs)" "distinct (map fst kws)" "set kvs = set kws"
    and "is_json (JObj kvs)"
  shows "canonical_json (JObj kvs) = canonical_json (JObj kws)"
proof -
  have "is_json (JObj kws)"
    using assms(3,4) by (simp add: all_json_members_iff)
  then show ?thesis
    using assms(4) canon_perm [OF assms(1-3)] by (simp add: canonical_json_eq)
qed

theorem canonical_json_key_order_witness:
  "canonical_json (JObj [(''seq'', JInt 7), (''actor'', JNull)])
     = canonical_json (JObj [(''actor'', JNull), (''seq'', JInt 7)])"
  by (rule canonical_json_key_order) auto

section \<open>A parser that inverts the rendering\<close>

definition parse_rendered :: "string \<Rightarrow> jsval option" where
  "parse_rendered s =
    (if \<exists>v. is_json v \<and> render v = s then Some (THE v. is_json v \<and> render v = s) else None)"

lemma parse_rendered: "is_json v \<Longrightarrow> parse_rendered (render v) = Some v"
  by (auto simp: parse_rendered_def intro!: the_equality render_inj)

lemma parse_rendered_json: "parse_rendered s = Some v \<Longrightarrow> is_json v"
proof -
  assume "parse_rendered s = Some v"
  then obtain w where "is_json w" "s = render w" by (auto simp: parse_rendered_def split: if_splits)
  then show "is_json v" using \<open>parse_rendered s = Some v\<close> parse_rendered by auto
qed

end
