(* ===== verification/Signed.thy ===== *)
theory Signed
  imports Json
begin

text \<open>
  \<open>src/safety/hmac.ts\<close> and \<open>src/backup/manifest-hmac.ts\<close>: signing and verifying a payload. The
  theory also fixes the parameters of the whole development that stand for code outside the
  repository, and the contract the stores of signed records rely on.
\<close>

section \<open>Code outside the repository\<close>

text \<open>
  \<open>rt_env\<close> is \<open>process.env\<close>; \<open>rt_hmac key text\<close> the digest bytes of \<open>createHmac('sha256', key)\<close>;
  \<open>rt_iso\<close> is \<open>new Date(ms).toISOString()\<close> and \<open>rt_parse\<close> is \<open>Date.parse\<close> (\<open>None\<close> for \<open>NaN\<close>);
  \<open>rt_json\<close> is \<open>JSON.parse\<close> (\<open>None\<close> when it throws). Nothing is assumed of them here; a theorem that
  needs documented behaviour of one of them names it as a hypothesis.
\<close>

record runtime =
  rt_env :: "string \<Rightarrow> string option"
  rt_hmac :: "string \<Rightarrow> string \<Rightarrow> string"
  rt_iso :: "int \<Rightarrow> string"
  rt_parse :: "string \<Rightarrow> int option"
  rt_json :: "string \<Rightarrow> jsval option"

section \<open>Hexadecimal text\<close>

definition hex_val :: "char \<Rightarrow> nat option" where
  "hex_val c =
    (let n = of_char c in
     if 48 \<le> n \<and> n \<le> 57 then Some (n - 48)
     else if 97 \<le> n \<and> n \<le> 102 then Some (n - 87)
     else if 65 \<le> n \<and> n \<le> 70 then Some (n - 55)
     else None)"

definition byte_hex :: "char \<Rightarrow> string" where
  "byte_hex c = [hex_digit (of_char c div 16), hex_digit (of_char c mod 16)]"

text \<open>\<open>digest('hex')\<close>, and \<open>Buffer.from(s, 'hex')\<close>, which stops at the first pair that is not hex.\<close>

definition to_hex :: "string \<Rightarrow> string" where
  "to_hex bs = concat (map byte_hex bs)"

fun from_hex :: "string \<Rightarrow> string" where
  "from_hex (a # b # s) =
     (case (hex_val a, hex_val b) of
        (Some x, Some y) \<Rightarrow> char_of (16 * x + y) # from_hex s
      | _ \<Rightarrow> [])"
| "from_hex _ = []"

lemma hex_val_digit: "n < 16 \<Longrightarrow> hex_val (hex_digit n) = Some n"
  by (auto simp: hex_val_def hex_digit_def Let_def)

lemma from_to_hex [simp]: "from_hex (to_hex bs) = bs"
proof (induction bs)
  case (Cons c bs)
  have "(of_char c :: nat) div 16 < 16"
    using less_mult_imp_div_less [of "of_char c" 16 16] nat_of_char_less_256 [of c] by simp
  with Cons show ?case
    by (simp add: to_hex_def byte_hex_def hex_val_digit)
qed (simp add: to_hex_def)

lemma to_hex_inj: "to_hex a = to_hex b \<Longrightarrow> a = b"
  by (metis from_to_hex)

section \<open>Signing and verifying\<close>

definition hmac_env :: string where
  "hmac_env = ''HOMELAB_HMAC_SECRET''"

definition get_secret :: "runtime \<Rightarrow> string \<Rightarrow> string res" where
  "get_secret rt var =
    (case rt_env rt var of
       None \<Rightarrow> Inl (Error (var @ '' must be set and >= 32 chars (got 0).''))
     | Some v \<Rightarrow>
         if length v < 32
         then Inl (Error (var @ '' must be set and >= 32 chars (got '' @ nat_str (length v) @ '').''))
         else Inr v)"

definition signed :: "jsval \<Rightarrow> string \<Rightarrow> jsval" where
  "signed payload h = JObj [(''payload'', payload), (''hmac'', JStr h)]"

definition sign_payload :: "runtime \<Rightarrow> string \<Rightarrow> jsval \<Rightarrow> jsval res" where
  "sign_payload rt var payload =
     rbind (canonical_json payload) (\<lambda>text.
     rbind (get_secret rt var) (\<lambda>key.
     Inr (signed payload (to_hex (rt_hmac rt key text)))))"

text \<open>The argument is the parsed file: any value. A secret or payload that throws gives false.\<close>

definition verify_payload :: "runtime \<Rightarrow> string \<Rightarrow> jsval \<Rightarrow> bool" where
  "verify_payload rt var s =
    (case field s ''hmac'' of
       JStr h \<Rightarrow>
         (case get_secret rt var of
            Inl e \<Rightarrow> False
          | Inr key \<Rightarrow>
              (case canonical_json (field s ''payload'') of
                 Inl e \<Rightarrow> False
               | Inr text \<Rightarrow> from_hex h = rt_hmac rt key text))
     | _ \<Rightarrow> False)"

section \<open>The contract of a signed envelope\<close>

text \<open>What every store of signed records relies on, whatever it stores.\<close>

locale envelope =
  fixes sign :: "jsval \<Rightarrow> jsval res"
    and verify :: "jsval \<Rightarrow> bool"
  assumes sign_verifies: "sign p = Inr s \<Longrightarrow> verify s"
    and sign_keeps_payload: "sign p = Inr s \<Longrightarrow> field s ''payload'' = p"
    and sign_shape: "sign p = Inr s \<Longrightarrow> is_obj s \<and> is_str (field s ''hmac'')"
begin

text \<open>A signed payload that is read back passes every check of the reader and decodes as written.\<close>

lemma sign_read:
  "sign p = Inr s \<Longrightarrow>
   (if is_obj s \<and> is_str (field s ''hmac'') \<and> verify s then decode (field s ''payload'') else x)
   = decode p"
  by (simp add: sign_verifies sign_keeps_payload sign_shape)

end

lemma sign_payload_Inr:
  "sign_payload rt var p = Inr s \<longleftrightarrow>
     (\<exists>key. is_json p \<and> get_secret rt var = Inr key
        \<and> s = signed p (to_hex (rt_hmac rt key (render (canon p)))))"
  by (auto simp: sign_payload_def res_simps canonical_json_Inr)

lemma signed_fields [simp]:
  "field (signed p h) ''payload'' = p"
  "field (signed p h) ''hmac'' = JStr h"
  "is_obj (signed p h)"
  by (simp_all add: signed_def)

interpretation env: envelope "sign_payload rt var" "verify_payload rt var" for rt var
  by unfold_locales
     (auto simp: sign_payload_Inr verify_payload_def canonical_json_eq)

lemma verify_payload_mac:
  "verify_payload rt var s \<longleftrightarrow>
     (\<exists>h key. field s ''hmac'' = JStr h \<and> get_secret rt var = Inr key
        \<and> is_json (field s ''payload'')
        \<and> from_hex h = rt_hmac rt key (render (canon (field s ''payload''))))"
  by (auto simp: verify_payload_def canonical_json_eq split: jsval.splits sum.splits
      simp: canonical_json_Inr)

text \<open>
  C10: a signature made with a usable secret verifies; a file that carries the signature of one
  payload and verifies with another one has the same value up to key order, or its canonical text
  is a MAC collision with the signed text; and nothing verifies while the secret is missing or
  shorter than 32 characters.
\<close>

theorem signature_binds_payload:
  assumes signed: "sign_payload rt var p = Inr s"
  shows "verify_payload rt var s
    \<and> (\<forall>t. verify_payload rt var t \<and> field t ''hmac'' = field s ''hmac'' \<longrightarrow>
         canon (field t ''payload'') = canon p
         \<or> (\<exists>key. get_secret rt var = Inr key
              \<and> render (canon (field t ''payload'')) \<noteq> render (canon p)
              \<and> rt_hmac rt key (render (canon (field t ''payload''))) = rt_hmac rt key (render (canon p))))
    \<and> length (the (rt_env rt var)) \<ge> 32"
proof -
  obtain key where key: "is_json p" "get_secret rt var = Inr key"
    "s = Signed.signed p (to_hex (rt_hmac rt key (render (canon p))))"
    using signed by (auto simp: sign_payload_Inr)
  have "32 \<le> length (the (rt_env rt var))"
    using key(2) by (auto simp: get_secret_def split: option.splits if_splits)
  moreover have "canon (field t ''payload'') = canon p
       \<or> (render (canon (field t ''payload'')) \<noteq> render (canon p)
          \<and> rt_hmac rt key (render (canon (field t ''payload''))) = rt_hmac rt key (render (canon p)))"
    if "verify_payload rt var t" "field t ''hmac'' = field s ''hmac''" for t
  proof -
    from that key have t: "is_json (field t ''payload'')"
      "rt_hmac rt key (render (canon (field t ''payload''))) = rt_hmac rt key (render (canon p))"
      by (auto simp: verify_payload_mac)
    then show ?thesis
      using key(1) by (auto intro: render_inj is_json_canon)
  qed
  ultimately show ?thesis
    using env.sign_verifies [OF signed] key(2) by blast
qed

section \<open>A runtime for examples\<close>

text \<open>Concrete parameters for the witnesses: a digest that depends on key and text, and timestamps
  written in decimal.\<close>

definition demo_rt :: runtime where
  "demo_rt =
    \<lparr>rt_env = (\<lambda>v. if v = hmac_env then Some (replicate 32 (CHR ''k'')) else None),
     rt_hmac = (\<lambda>k t. k @ t),
     rt_iso = (\<lambda>t. CHR ''T'' # int_str t),
     rt_parse = (\<lambda>s. if s = [] \<or> hd s \<noteq> CHR ''T'' then None
                     else if starts_with ''-'' (tl s) then Some (- int (str_nat (tl (tl s))))
                     else Some (int (str_nat (tl s)))),
     rt_json = (\<lambda>s. None)\<rparr>"

lemma demo_secret [simp]: "get_secret demo_rt hmac_env = Inr (replicate 32 (CHR ''k''))"
  by (simp add: get_secret_def demo_rt_def)

lemma demo_iso [simp]: "rt_parse demo_rt (rt_iso demo_rt t) = Some t"
proof -
  have "take 1 (nat_str n) \<noteq> ''-''" for n
    using nat_str_not_minus [of n "[]" "drop 1 (nat_str n)"] by (cases "nat_str n") auto
  then show ?thesis
    by (simp add: demo_rt_def int_str_def)
qed

theorem signature_binds_payload_witness:
  "verify_payload demo_rt hmac_env
     (Signed.signed (JInt 5) (to_hex (rt_hmac demo_rt (replicate 32 (CHR ''k'')) (render (JInt 5)))))"
proof -
  have "sign_payload demo_rt hmac_env (JInt 5) =
    Inr (Signed.signed (JInt 5) (to_hex (rt_hmac demo_rt (replicate 32 (CHR ''k'')) (render (JInt 5)))))"
    by (simp add: sign_payload_Inr)
  from signature_binds_payload [OF this] show ?thesis by blast
qed

end
