(* ===== verification/AuditLog.thy ===== *)
theory AuditLog
  imports Signed
begin

text \<open>
  The audit log: entries and errors (\<open>src/audit/types.ts\<close>), the key store (\<open>key-store.ts\<close>), the
  hash-chained writer with its recovery from the tail of the file (\<open>writer.ts\<close>), and the verification
  command (\<open>runAuditVerify\<close> of \<open>src/cli/commands/audit.ts\<close>). The log is its bytes: recovery reads the
  last 4096 of them.
\<close>

section \<open>The key store\<close>

record key_store =
  ks_cached :: "string option"
  ks_file :: "string disk_file"
  ks_mode :: nat
  ks_warnings :: nat

definition hex64 :: "string \<Rightarrow> bool" where
  "hex64 s \<longleftrightarrow> length s = 64 \<and> list_all (\<lambda>c. hex_val c \<noteq> None) s"

text \<open>\<open>random\<close> is \<open>crypto.randomBytes(32)\<close>; \<open>write_ok\<close> the outcome of the atomic write. 384 is \<open>0o600\<close>.\<close>

definition get_key :: "string \<Rightarrow> bool \<Rightarrow> key_store \<Rightarrow> key_store \<times> string res" where
  "get_key random write_ok ks =
    (case ks_cached ks of
       Some k \<Rightarrow> (ks, Inr k)
     | None \<Rightarrow>
         (case ks_file ks of
            Unreadable e \<Rightarrow> (ks, Inl (IoError e))
          | Absent \<Rightarrow>
              if \<not> write_ok then (ks, Inl (IoError ''EIO''))
              else (ks\<lparr>ks_file := Content (to_hex random @ [CHR 0x0A]), ks_mode := 384,
                       ks_cached := Some random\<rparr>, Inr random)
          | Content raw \<Rightarrow>
              (let t = trim_end raw in
               if \<not> hex64 t
               then (ks, Inl (InvalidAuditKeyError (''audit key is not 64 hex chars (got '' @
                      nat_str (length t) @ '')'')))
               else (ks\<lparr>ks_warnings := ks_warnings ks + (if ks_mode ks = 384 then 0 else 1),
                        ks_cached := Some (from_hex t)\<rparr>, Inr (from_hex t)))))"

definition clear_cache :: "key_store \<Rightarrow> key_store" where
  "clear_cache ks = ks\<lparr>ks_cached := None\<rparr>"

definition key_file_exists :: "key_store \<Rightarrow> bool" where
  "key_file_exists ks \<longleftrightarrow> ks_file ks \<noteq> Absent"

section \<open>Entries\<close>

definition GENESIS_PREV_HMAC :: string where
  "GENESIS_PREV_HMAC = replicate 64 (CHR ''0'')"

record append_opts =
  ao_platform :: "string option"
  ao_actor :: "string option"

definition entry_fields :: "string \<Rightarrow> string \<Rightarrow> jsval \<Rightarrow> jsval \<Rightarrow> int \<Rightarrow> string \<Rightarrow> (string \<times> jsval) list" where
  "entry_fields actor event payload platform seq ts =
     [(''actor'', JStr actor), (''event'', JStr event), (''payload'', payload),
      (''platform'', platform), (''seq'', JInt seq), (''timestamp'', JStr ts)]"

text \<open>The signed part of a parsed entry: the six fields, whatever else it carries.\<close>

definition minus_of :: "jsval \<Rightarrow> jsval" where
  "minus_of v = JObj (map (\<lambda>k. (k, field v k))
     [''actor'', ''event'', ''payload'', ''platform'', ''seq'', ''timestamp''])"

definition chain_hmac :: "runtime \<Rightarrow> string \<Rightarrow> string \<Rightarrow> jsval \<Rightarrow> string res" where
  "chain_hmac rt key prev body =
     rbind (canonical_json body) (\<lambda>text. Inr (to_hex (rt_hmac rt key (prev @ text))))"

section \<open>The writer\<close>

definition TAIL_CHUNK_BYTES :: nat where
  "TAIL_CHUNK_BYTES = 4096"

text \<open>The two cached values are set together. \<open>al_text\<close> is \<open>None\<close> when the log does not exist.\<close>

record audit_log =
  al_text :: "string option"
  al_prev :: "(string \<times> int) option"
  al_default_actor :: string

text \<open>\<open>appendFile\<close> succeeds, or fails after writing some of the bytes.\<close>

datatype append_io = AppendOk | AppendFails nat

definition last_line :: "string \<Rightarrow> string" where
  "last_line s = rev (takeWhile (\<lambda>c. c \<noteq> nl) (rev s))"

definition recover_state :: "runtime \<Rightarrow> string option \<Rightarrow> (string \<times> int) res" where
  "recover_state rt file =
    (if file = None \<or> file = Some [] then Inr (GENESIS_PREV_HMAC, 0)
     else
       let size = length (the file);
           text = drop (size - min TAIL_CHUNK_BYTES size) (the file)
       in if last text \<noteq> nl then Inl (CorruptAuditLogError ''last line lacks trailing newline'')
          else case rt_json rt (last_line (butlast text)) of
            None \<Rightarrow> Inl (CorruptAuditLogError ''last line is not valid JSON'')
          | Some v \<Rightarrow>
              if v = JNull then Inl (TypeError ''Cannot read properties of null'')
              else case (field v ''hmac'', field v ''seq'') of
                (JStr h, JNum (Fin n)) \<Rightarrow> Inr (h, n)
              | _ \<Rightarrow> Inl (CorruptAuditLogError ''last line is missing seq/hmac fields''))"

text \<open>A failed recovery is always reported as an \<open>AuditWriteError\<close>.\<close>

definition recovered :: "runtime \<Rightarrow> audit_log \<Rightarrow> audit_log \<times> (string \<times> int) res" where
  "recovered rt al =
    (case al_prev al of
       Some p \<Rightarrow> (al, Inr p)
     | None \<Rightarrow> (case recover_state rt (al_text al) of
                  Inl e \<Rightarrow> (al, Inl (AuditWriteError ''RECOVER_FAILED'' ''failed to recover audit state''))
                | Inr p \<Rightarrow> (al\<lparr>al_prev := Some p\<rparr>, Inr p)))"

definition get_last_hmac :: "runtime \<Rightarrow> audit_log \<Rightarrow> audit_log \<times> string res" where
  "get_last_hmac rt al =
    (case al_prev al of
       Some p \<Rightarrow> (al, Inr (fst p))
     | None \<Rightarrow> (case recover_state rt (al_text al) of
                  Inl e \<Rightarrow> (al, Inl e)
                | Inr p \<Rightarrow> (al\<lparr>al_prev := Some p\<rparr>, Inr (fst p))))"

definition al_append ::
  "runtime \<Rightarrow> string res \<Rightarrow> append_io \<Rightarrow> int \<Rightarrow> string \<Rightarrow> jsval \<Rightarrow> append_opts \<Rightarrow> audit_log
   \<Rightarrow> audit_log \<times> jsval res" where
  "al_append rt key io now event payload opts al =
    (case recovered rt al of
       (al1, Inl e) \<Rightarrow> (al1, Inl e)
     | (al1, Inr (prev, pseq)) \<Rightarrow>
         let fields = entry_fields
               (case ao_actor opts of None \<Rightarrow> al_default_actor al | Some a \<Rightarrow> a) event payload
               (case ao_platform opts of None \<Rightarrow> JNull | Some p \<Rightarrow> JStr p) (pseq + 1) (rt_iso rt now)
         in case rbind key (\<lambda>k. chain_hmac rt k prev (JObj fields)) of
              Inl e \<Rightarrow> (al1, Inl e)
            | Inr h \<Rightarrow>
                let entry = JObj (fields @ [(''hmac'', JStr h)]);
                    line = render entry @ [nl];
                    old = (case al_text al1 of None \<Rightarrow> [] | Some t \<Rightarrow> t)
                in (case io of
                      AppendOk \<Rightarrow>
                        (al1\<lparr>al_text := Some (old @ line), al_prev := Some (h, pseq + 1)\<rparr>, Inr entry)
                    | AppendFails n \<Rightarrow>
                        (al1\<lparr>al_text := (if n = 0 then al_text al1 else Some (old @ take n line))\<rparr>,
                         Inl (AuditWriteError ''WRITE_FAILED'' ''failed to append audit entry''))))"

text \<open>\<open>NullAuditWriter\<close> persists nothing; \<open>emitAudit\<close> passes on to the writer when there is one.\<close>

definition null_append :: "string \<Rightarrow> jsval \<Rightarrow> append_opts \<Rightarrow> jsval" where
  "null_append event payload opts =
     JObj [(''seq'', JInt 0), (''timestamp'', JStr ''1970-01-01T00:00:00.000Z''),
       (''actor'', JStr (case ao_actor opts of None \<Rightarrow> ''null'' | Some a \<Rightarrow> a)),
       (''platform'', case ao_platform opts of None \<Rightarrow> JNull | Some p \<Rightarrow> JStr p),
       (''event'', JStr event), (''payload'', payload), (''hmac'', JStr '''')]"

definition emit_audit ::
  "runtime \<Rightarrow> string res \<Rightarrow> append_io \<Rightarrow> int \<Rightarrow> string \<Rightarrow> jsval \<Rightarrow> append_opts \<Rightarrow> audit_log option
   \<Rightarrow> audit_log option \<times> jsval option res" where
  "emit_audit rt key io now event payload opts w =
    (case w of
       None \<Rightarrow> (None, Inr None)
     | Some al \<Rightarrow>
         (case al_append rt key io now event payload opts al of
            (al1, r) \<Rightarrow> (Some al1, rbind r (\<lambda>e. Inr (Some e)))))"

section \<open>The verification command\<close>

datatype verify_reason = HmacMismatch | SeqGap | ParseError

record verify_result =
  vr_entries :: nat
  vr_first :: "int option"
  vr_last :: "int option"
  vr_failed :: "(int \<times> verify_reason) option"

fun verify_lines ::
  "runtime \<Rightarrow> string \<Rightarrow> string list \<Rightarrow> string \<Rightarrow> int \<Rightarrow> verify_result \<Rightarrow> verify_result res" where
  "verify_lines rt key [] prev pseq acc = Inr acc"
| "verify_lines rt key (line # lines) prev pseq acc =
    (if line = [] then verify_lines rt key lines prev pseq acc
     else case rt_json rt line of
       None \<Rightarrow> Inr (acc\<lparr>vr_failed := Some (pseq + 1, ParseError)\<rparr>)
     | Some v \<Rightarrow>
         if v = JNull then Inl (TypeError ''Cannot read properties of null'')
         else case (field v ''seq'', field v ''hmac'') of
           (JNum (Fin n), JStr h) \<Rightarrow>
             if n \<noteq> pseq + 1 then Inr (acc\<lparr>vr_failed := Some (n, SeqGap)\<rparr>)
             else (case chain_hmac rt key prev (minus_of v) of
                     Inl e \<Rightarrow> Inl e
                   | Inr expected \<Rightarrow>
                       if expected \<noteq> h then Inr (acc\<lparr>vr_failed := Some (n, HmacMismatch)\<rparr>)
                       else verify_lines rt key lines h n
                              (acc\<lparr>vr_first := Some (case vr_first acc of None \<Rightarrow> n | Some f \<Rightarrow> f),
                                   vr_last := Some n, vr_entries := vr_entries acc + 1\<rparr>))
         | _ \<Rightarrow> Inr (acc\<lparr>vr_failed := Some (pseq + 1, ParseError)\<rparr>))"

definition verify_zero :: verify_result where
  "verify_zero = \<lparr>vr_entries = 0, vr_first = None, vr_last = None, vr_failed = None\<rparr>"

definition log_lines :: "string \<Rightarrow> string list" where
  "log_lines raw = split_on nl (if raw \<noteq> [] \<and> last raw = nl then butlast raw else raw)"

definition run_audit_verify ::
  "runtime \<Rightarrow> string res \<Rightarrow> string disk_file \<Rightarrow> verify_result res" where
  "run_audit_verify rt key f =
    (case f of
       Absent \<Rightarrow> Inr verify_zero
     | Unreadable e \<Rightarrow> Inl (IoError e)
     | Content raw \<Rightarrow>
         rbind key (\<lambda>k. verify_lines rt k (log_lines raw) GENESIS_PREV_HMAC 0 verify_zero))"

text \<open>\<open>EXIT_OK\<close> is 0 and \<open>EXIT_USAGE\<close> is 1.\<close>

definition verify_exit :: "verify_result \<Rightarrow> nat" where
  "verify_exit v = (if vr_failed v = None then 0 else 1)"

section \<open>One line per entry\<close>

lemma hex_digit_not_nl:
  assumes "n < 16"
  shows "hex_digit n \<noteq> nl"
proof
  assume "hex_digit n = nl"
  with hex_val_digit [OF assms] show False by (simp add: hex_val_def)
qed

lemma esc_char_not_nl: "nl \<notin> set (esc_char c)"
proof -
  have "(of_char c :: nat) div 16 < 16"
    using less_mult_imp_div_less [of "of_char c" 16 16] nat_of_char_less_256 [of c] by simp
  then show ?thesis
    using hex_digit_not_nl [of "of_char c div 16"] hex_digit_not_nl [of "of_char c mod 16"]
    by (auto simp: esc_char_def)
qed

lemma quote_not_nl: "nl \<notin> set (quote s)"
  using esc_char_not_nl by (auto simp: quote_def)

lemma int_str_not_nl: "nl \<notin> set (int_str i)"
proof -
  have "nl \<notin> set (nat_str n)" for n
  proof -
    have "\<not> is_digit nl" by (simp add: is_digit_def)
    then show ?thesis using nat_str_digits [of n] by blast
  qed
  then show ?thesis by (simp add: int_str_def)
qed

lemma join_not_nl: "(\<forall>s \<in> set ss. nl \<notin> set s) \<Longrightarrow> nl \<notin> set (join '','' ss)"
  by (induction ss rule: induct_list012) auto

lemma render_not_nl:
  "nl \<notin> set (render v)"
  "\<forall>s \<in> set (render_elems vs). nl \<notin> set s"
  "\<forall>s \<in> set (render_members kvs). nl \<notin> set s"
proof (induction v and vs and kvs rule: render_render_elems_render_members.induct)
  case (2 n)
  then show ?case using int_str_not_nl by (auto split: jsnum.splits)
next
  case (10 kv kvs)
  then show ?case using quote_not_nl by auto
qed (auto simp: quote_not_nl join_not_nl)

lemma render_nonempty [simp]: "render v \<noteq> []"
proof (cases v)
  case (JNum n)
  then show ?thesis by (cases n) (auto simp: int_str_def)
qed (auto simp: quote_def)

definition log_text :: "jsval list \<Rightarrow> string" where
  "log_text vs = concat (map (\<lambda>v. render v @ [nl]) vs)"

lemma log_text_Nil [simp]: "log_text [] = []"
  and log_text_Cons [simp]: "log_text (v # vs) = render v @ nl # log_text vs"
  and log_text_snoc: "log_text (vs @ [v]) = log_text vs @ render v @ [nl]"
  by (simp_all add: log_text_def)

lemma log_text_empty [simp]: "log_text vs = [] \<longleftrightarrow> vs = []"
  by (cases vs) auto

lemma split_log_text: "split_on nl (log_text vs @ s) = map render vs @ split_on nl s"
  by (induction vs) (auto simp: split_on_append render_not_nl(1))

lemma log_lines_text: "log_lines (log_text vs) = (if vs = [] then [[]] else map render vs)"
proof (cases vs rule: rev_cases)
  case (snoc us u)
  then have "log_lines (log_text vs) = split_on nl (log_text us @ render u)"
    by (simp add: log_lines_def log_text_snoc butlast_append)
  with snoc show ?thesis
    by (simp add: split_log_text split_on_clean render_not_nl(1))
qed (simp add: log_lines_def)

lemma last_line_clean:
  assumes "nl \<notin> set s"
  shows "last_line s = s"
proof -
  have "takeWhile (\<lambda>c. c \<noteq> nl) (rev s) = rev s"
    by (subst takeWhile_eq_all_conv) (use assms in auto)
  then show ?thesis by (simp only: last_line_def rev_rev_ident)
qed

lemma last_line_text:
  assumes "length (render v) < TAIL_CHUNK_BYTES"
  shows "last_line (butlast (drop (length (log_text (vs @ [v])) - min TAIL_CHUNK_BYTES (length (log_text (vs @ [v]))))
      (log_text (vs @ [v])))) = render v"
    "last (drop (length (log_text (vs @ [v])) - min TAIL_CHUNK_BYTES (length (log_text (vs @ [v]))))
      (log_text (vs @ [v]))) = nl"
proof -
  let ?t = "log_text vs" and ?n = "length (log_text (vs @ [v])) - min TAIL_CHUNK_BYTES (length (log_text (vs @ [v])))"
  have n: "?n \<le> length ?t"
    using assms by (simp add: log_text_snoc)
  then have d: "drop ?n (log_text (vs @ [v])) = drop ?n ?t @ render v @ [nl]"
    by (simp add: log_text_snoc)
  have "last ?t = nl" if "?t \<noteq> []"
    using that by (cases vs rule: rev_cases) (simp_all add: log_text_snoc)
  then have dl: "drop ?n ?t = [] \<or> last (drop ?n ?t) = nl"
    by (cases "?n < length ?t") (auto intro: \<open>?t \<noteq> [] \<Longrightarrow> last ?t = nl\<close>)
  have "last_line (drop ?n ?t @ render v) = render v"
  proof -
    have tw: "\<forall>c \<in> set (rev (render v)). c \<noteq> nl"
      using render_not_nl(1) [of v] by auto
    have "takeWhile (\<lambda>c. c \<noteq> nl) (rev (render v) @ r) = rev (render v) @ takeWhile (\<lambda>c. c \<noteq> nl) r" for r
      by (rule takeWhile_append2) (use tw in blast)
    with dl show ?thesis
      by (cases "drop ?n ?t" rule: rev_cases) (simp_all add: last_line_def, metis append_Nil2 rev_rev_ident takeWhile.simps(1))
  qed
  then show "last_line (butlast (drop ?n (log_text (vs @ [v])))) = render v"
    by (simp add: d butlast_append)
  show "last (drop ?n (log_text (vs @ [v]))) = nl"
    by (simp add: d)
qed

section \<open>The abstract chain\<close>

text \<open>
  What the log promises, without files, lines or caches: entries numbered from 1, each carrying the
  digest of its predecessor's digest and its own signed part. The result is the end of the chain.
\<close>

fun chain_end :: "runtime \<Rightarrow> string \<Rightarrow> string \<Rightarrow> int \<Rightarrow> jsval list \<Rightarrow> (string \<times> int) option" where
  "chain_end rt key prev n [] = Some (prev, n)"
| "chain_end rt key prev n (v # vs) =
    (case (field v ''hmac'', chain_hmac rt key prev (minus_of v)) of
       (JStr h, Inr e) \<Rightarrow>
         if field v ''seq'' = JInt (n + 1) \<and> e = h then chain_end rt key h (n + 1) vs else None
     | _ \<Rightarrow> None)"

lemma chain_end_append:
  "chain_end rt key prev n (us @ vs) =
     (case chain_end rt key prev n us of None \<Rightarrow> None | Some (h, m) \<Rightarrow> chain_end rt key h m vs)"
  by (induction us arbitrary: prev n) (auto split: jsval.splits sum.splits)

lemma chain_end_Cons_Some:
  "chain_end rt key prev n (v # vs) = Some e \<longleftrightarrow>
     (\<exists>h. field v ''hmac'' = JStr h \<and> chain_hmac rt key prev (minus_of v) = Inr h
        \<and> field v ''seq'' = JInt (n + 1) \<and> chain_end rt key h (n + 1) vs = Some e)"
  by (auto split: jsval.splits sum.splits)

lemma chain_end_seq: "chain_end rt key prev n vs = Some (h, m) \<Longrightarrow> m = n + int (length vs)"
proof (induction vs arbitrary: prev n)
  case (Cons v vs)
  then obtain h' where "chain_end rt key h' (n + 1) vs = Some (h, m)"
    by (auto simp: chain_end_Cons_Some simp del: chain_end.simps(2))
  from Cons.IH [OF this] show ?case by simp
qed simp

text \<open>The verification loop accepts exactly the chains, and counts their entries.\<close>

definition chain_of :: "runtime \<Rightarrow> string \<Rightarrow> string \<Rightarrow> int \<Rightarrow> string list \<Rightarrow> jsval list \<Rightarrow> bool" where
  "chain_of rt key prev n lines vs \<longleftrightarrow>
     map (rt_json rt) (filter (\<lambda>l. l \<noteq> []) lines) = map Some vs \<and> chain_end rt key prev n vs \<noteq> None"

lemma chain_of_Cons:
  assumes "l \<noteq> []" "rt_json rt l = Some v"
  shows "chain_of rt key prev n (l # ls) ws \<longleftrightarrow>
    (\<exists>vs h. ws = v # vs \<and> field v ''hmac'' = JStr h \<and> chain_hmac rt key prev (minus_of v) = Inr h
       \<and> field v ''seq'' = JInt (n + 1) \<and> chain_of rt key h (n + 1) ls vs)"
  using assms unfolding chain_of_def
  by (cases ws) (auto simp: chain_end_Cons_Some simp del: chain_end.simps(2))

lemma verify_lines_chain:
  assumes "verify_lines rt key lines prev n acc = Inr r" "vr_failed acc = None"
  shows "if vr_failed r = None
    then \<exists>vs. chain_of rt key prev n lines vs \<and> vr_entries r = vr_entries acc + length vs
    else \<nexists>vs. chain_of rt key prev n lines vs"
  using assms
proof (induction lines arbitrary: prev n acc)
  case (Cons l ls)
  show ?case
  proof (cases "l = []")
    case True
    with Cons.prems have "verify_lines rt key ls prev n acc = Inr r" by simp
    moreover have "chain_of rt key prev n (l # ls) = chain_of rt key prev n ls"
      by (rule ext) (simp add: chain_of_def True)
    ultimately show ?thesis using Cons.IH Cons.prems(2) by simp
  next
    case False
    show ?thesis
    proof (cases "rt_json rt l")
      case None
      with False Cons.prems have "r = acc\<lparr>vr_failed := Some (n + 1, ParseError)\<rparr>" by simp
      with None False show ?thesis by (auto simp: chain_of_def map_eq_Cons_conv)
    next
      case (Some v)
      note cons = chain_of_Cons [OF False Some, of key prev n ls]
      show ?thesis
      proof (cases "\<exists>h. field v ''hmac'' = JStr h \<and> chain_hmac rt key prev (minus_of v) = Inr h
          \<and> field v ''seq'' = JInt (n + 1)")
        case True
        then obtain h where h: "field v ''hmac'' = JStr h" "chain_hmac rt key prev (minus_of v) = Inr h"
          "field v ''seq'' = JInt (n + 1)" by blast
        then have "v \<noteq> JNull" by (auto simp: field_def)
        let ?acc = "acc\<lparr>vr_first := Some (case vr_first acc of None \<Rightarrow> n + 1 | Some f \<Rightarrow> f),
          vr_last := Some (n + 1), vr_entries := vr_entries acc + 1\<rparr>"
        have "verify_lines rt key ls h (n + 1) ?acc = Inr r"
          using Cons.prems(1) False Some h \<open>v \<noteq> JNull\<close> by simp
        from Cons.IH [OF this] Cons.prems(2) h show ?thesis
          unfolding cons by (auto split: if_splits)
      next
        case no: False
        then have "\<nexists>vs. chain_of rt key prev n (l # ls) vs" unfolding cons by blast
        moreover have "vr_failed r \<noteq> None"
          using Cons.prems False Some no
          by (auto split: if_splits jsval.splits jsnum.splits sum.splits)
        ultimately show ?thesis by simp
      qed
    qed
  qed
qed (auto simp: chain_of_def)

section \<open>Appending\<close>

text \<open>\<open>JSON.parse\<close> reads back what \<open>JSON.stringify\<close> wrote.\<close>

definition json_roundtrip :: "runtime \<Rightarrow> bool" where
  "json_roundtrip rt \<longleftrightarrow> (\<forall>v. is_json v \<longrightarrow> rt_json rt (render v) = Some v)"

text \<open>A log that holds the entries \<open>vs\<close>, with the cache empty or at the end of the chain.\<close>

definition holds_log :: "runtime \<Rightarrow> string \<Rightarrow> jsval list \<Rightarrow> audit_log \<Rightarrow> bool" where
  "holds_log rt key vs al \<longleftrightarrow>
     (al_text al = Some (log_text vs) \<or> vs = [] \<and> al_text al = None)
     \<and> list_all is_json vs
     \<and> (\<exists>e. chain_end rt key GENESIS_PREV_HMAC 0 vs = Some e \<and> (al_prev al = None \<or> al_prev al = Some e))"

lemma recover_holds:
  assumes rt: "json_roundtrip rt" and log: "holds_log rt key vs al"
    and short: "vs = [] \<or> length (render (last vs)) < TAIL_CHUNK_BYTES"
    and e: "chain_end rt key GENESIS_PREV_HMAC 0 vs = Some e"
  shows "recover_state rt (al_text al) = Inr e"
proof (cases vs rule: rev_cases)
  case Nil
  with log e show ?thesis by (auto simp: holds_log_def recover_state_def)
next
  case (snoc us v)
  obtain h m where h: "chain_end rt key GENESIS_PREV_HMAC 0 us = Some (h, m)"
    using e snoc by (auto simp: chain_end_append split: option.splits)
  then have v: "field v ''hmac'' = JStr (fst e)" "field v ''seq'' = JInt (snd e)"
    using e snoc by (auto simp: chain_end_append chain_end_Cons_Some simp del: chain_end.simps(2))
  then have nn: "v \<noteq> JNull" by (auto simp: field_def)
  have j: "rt_json rt (render v) = Some v"
    using rt log snoc by (simp add: json_roundtrip_def holds_log_def)
  have t: "al_text al = Some (log_text (us @ [v]))"
    using log snoc by (simp add: holds_log_def)
  have len: "length (render v) < TAIL_CHUNK_BYTES" using short snoc by simp
  show ?thesis
    using last_line_text [OF len, of us] v nn j unfolding t
    by (simp add: recover_state_def Let_def)
qed

lemma minus_of_entry [simp]:
  "minus_of (JObj (entry_fields a e p pl n t @ [(''hmac'', h)])) = JObj (entry_fields a e p pl n t)"
  "field (JObj (entry_fields a e p pl n t @ [(''hmac'', h)])) ''hmac'' = h"
  "field (JObj (entry_fields a e p pl n t @ [(''hmac'', h)])) ''seq'' = JInt n"
  by (simp_all add: minus_of_def entry_fields_def)

lemma append_holds:
  assumes rt: "json_roundtrip rt" and log: "holds_log rt key vs al"
    and short: "al_prev al \<noteq> None \<or> vs = [] \<or> length (render (last vs)) < TAIL_CHUNK_BYTES"
    and run: "al_append rt (Inr key) AppendOk now event payload opts al = (al', Inr entry)"
  shows "holds_log rt key (vs @ [entry]) al' \<and> al_prev al' \<noteq> None
    \<and> field entry ''payload'' = payload \<and> field entry ''event'' = JStr event
    \<and> field entry ''seq'' = JInt (int (length vs) + 1)"
proof -
  obtain h m where e: "chain_end rt key GENESIS_PREV_HMAC 0 vs = Some (h, m)"
    using log by (auto simp: holds_log_def)
  have m: "m = int (length vs)" using chain_end_seq [OF e] by simp
  obtain al1 where rec: "recovered rt al = (al1, Inr (h, m))" "al_text al1 = al_text al"
    using recover_holds [OF rt log _ e] short log e
    by (cases "al_prev al") (auto simp: recovered_def holds_log_def)
  define fs where "fs = entry_fields (case ao_actor opts of None \<Rightarrow> al_default_actor al | Some a \<Rightarrow> a) event payload
     (case ao_platform opts of None \<Rightarrow> JNull | Some p \<Rightarrow> JStr p) (m + 1) (rt_iso rt now)"
  obtain d where d: "chain_hmac rt key h (JObj fs) = Inr d" "entry = JObj (fs @ [(''hmac'', JStr d)])"
    "al_prev al' = Some (d, m + 1)"
    "al_text al' = Some ((case al_text al of None \<Rightarrow> [] | Some t \<Rightarrow> t) @ render entry @ [nl])"
    using run rec by (auto simp: al_append_def fs_def [symmetric] Let_def split: sum.splits)
  have "is_json (JObj fs)"
    using d(1) by (auto simp: chain_hmac_def res_simps canonical_json_Inr)
  then have j: "is_json entry" by (simp add: d(2) all_json_members_iff)
  have "chain_end rt key h m [entry] = Some (d, m + 1)"
    using d(1) by (simp add: d(2) fs_def)
  then have c: "chain_end rt key GENESIS_PREV_HMAC 0 (vs @ [entry]) = Some (d, m + 1)"
    by (simp add: chain_end_append e)
  have "al_text al' = Some (log_text (vs @ [entry]))"
    using d(4) log by (auto simp: holds_log_def log_text_snoc)
  with c j log d(3) have "holds_log rt key (vs @ [entry]) al'"
    by (auto simp: holds_log_def)
  then show ?thesis
    by (simp add: d(2,3) fs_def entry_fields_def m)
qed

lemma chain_of_verifies:
  "chain_of rt key prev n lines vs \<Longrightarrow> \<exists>r. verify_lines rt key lines prev n acc = Inr r"
proof (induction lines arbitrary: prev n acc vs)
  case (Cons l ls)
  show ?case
  proof (cases "l = []")
    case True
    with Cons show ?thesis by (simp add: chain_of_def)
  next
    case False
    with Cons.prems obtain v where v: "rt_json rt l = Some v"
      by (auto simp: chain_of_def map_eq_Cons_conv)
    with chain_of_Cons [OF False v] Cons.prems obtain us h where h: "field v ''hmac'' = JStr h"
      "chain_hmac rt key prev (minus_of v) = Inr h" "field v ''seq'' = JInt (n + 1)"
      "chain_of rt key h (n + 1) ls us" by blast
    then have "v \<noteq> JNull" by (auto simp: field_def)
    with Cons.IH [OF h(4)] False v h show ?thesis by simp
  qed
qed simp

lemma verify_exact:
  "(\<exists>r. verify_lines rt key lines prev n verify_zero = Inr r \<and> vr_failed r = None \<and> vr_entries r = k)
     \<longleftrightarrow> (\<exists>vs. chain_of rt key prev n lines vs \<and> length vs = k)"
proof
  assume "\<exists>r. verify_lines rt key lines prev n verify_zero = Inr r \<and> vr_failed r = None \<and> vr_entries r = k"
  then show "\<exists>vs. chain_of rt key prev n lines vs \<and> length vs = k"
    using verify_lines_chain [of rt key lines prev n verify_zero] by (force simp: verify_zero_def)
next
  assume "\<exists>vs. chain_of rt key prev n lines vs \<and> length vs = k"
  then obtain vs where vs: "chain_of rt key prev n lines vs" "length vs = k" by blast
  then obtain r where r: "verify_lines rt key lines prev n verify_zero = Inr r"
    using chain_of_verifies by blast
  from verify_lines_chain [OF this] vs obtain us where
    us: "chain_of rt key prev n lines us" "vr_entries r = length us" "vr_failed r = None"
    by (auto simp: verify_zero_def split: if_splits)
  with vs have "map Some us = map Some vs" by (simp add: chain_of_def)
  then have "us = vs" by (simp add: map_injective)
  with r us vs show "\<exists>r. verify_lines rt key lines prev n verify_zero = Inr r \<and> vr_failed r = None
      \<and> vr_entries r = k" by auto
qed

lemma holds_chain_of:
  assumes "json_roundtrip rt" "holds_log rt key vs al"
  shows "chain_of rt key GENESIS_PREV_HMAC 0 (log_lines (log_text vs)) vs"
proof -
  have "map (rt_json rt) (map render vs) = map Some vs"
    using assms by (auto simp: holds_log_def json_roundtrip_def list_all_iff)
  moreover have "filter (\<lambda>l. l \<noteq> []) (map render vs) = map render vs"
    by (auto simp: filter_id_conv)
  ultimately show ?thesis
    using assms(2) by (auto simp: chain_of_def log_lines_text holds_log_def)
qed

text \<open>
  C11: appending to an intact log, right after a restart or with the cache warm, gives a log
  that the verification command accepts with one entry more; the entry carries the event and payload
  given and the next number, and the log is again intact. The last line has to fit the 4096 bytes
  that recovery reads when the cache is empty.
\<close>

theorem audit_append_verifies:
  assumes rt: "json_roundtrip rt" and log: "holds_log rt key vs al"
    and short: "al_prev al \<noteq> None \<or> vs = [] \<or> length (render (last vs)) < TAIL_CHUNK_BYTES"
    and run: "al_append rt (Inr key) AppendOk now event payload opts al = (al', Inr entry)"
  shows "(\<exists>txt r. al_text al' = Some txt \<and> run_audit_verify rt (Inr key) (Content txt) = Inr r
       \<and> vr_failed r = None \<and> vr_entries r = length vs + 1)
    \<and> holds_log rt key (vs @ [entry]) al'
    \<and> field entry ''payload'' = payload \<and> field entry ''event'' = JStr event
    \<and> field entry ''seq'' = JInt (int (length vs) + 1)"
proof -
  have h: "holds_log rt key (vs @ [entry]) al'" "field entry ''payload'' = payload"
    "field entry ''event'' = JStr event" "field entry ''seq'' = JInt (int (length vs) + 1)"
    using append_holds [OF rt log short run] by simp_all
  have "\<exists>r. verify_lines rt key (log_lines (log_text (vs @ [entry]))) GENESIS_PREV_HMAC 0 verify_zero = Inr r
      \<and> vr_failed r = None \<and> vr_entries r = length vs + 1"
    unfolding verify_exact using holds_chain_of [OF rt h(1)] by (intro exI [of _ "vs @ [entry]"]) simp
  then show ?thesis
    using h by (auto simp: run_audit_verify_def holds_log_def)
qed

section \<open>What a verified log binds\<close>

text \<open>The texts whose digests make up the chain.\<close>

fun chain_texts :: "string \<Rightarrow> jsval list \<Rightarrow> string list" where
  "chain_texts prev [] = []"
| "chain_texts prev (v # vs) =
     (prev @ render (canon (minus_of v))) # chain_texts (case field v ''hmac'' of JStr h \<Rightarrow> h | _ \<Rightarrow> []) vs"

lemma chain_texts_append:
  "chain_end rt key prev n us = Some (h, m) \<Longrightarrow> chain_texts prev (us @ vs) = chain_texts prev us @ chain_texts h vs"
proof (induction us arbitrary: prev n)
  case (Cons u us)
  then show ?case by (auto simp: chain_end_Cons_Some simp del: chain_end.simps(2))
qed simp

lemma chain_end_hex:
  assumes "chain_end rt key GENESIS_PREV_HMAC 0 vs = Some (h, n)" "\<forall>k t. length (rt_hmac rt k t) = 32"
  shows "length h = 64"
proof (cases vs rule: rev_cases)
  case Nil
  with assms(1) show ?thesis by (auto simp: GENESIS_PREV_HMAC_def)
next
  case (snoc us v)
  then obtain g where "chain_hmac rt key g (minus_of v) = Inr h"
    using assms(1) by (auto simp: chain_end_append chain_end_Cons_Some simp del: chain_end.simps(2)
        split: option.splits)
  moreover have "length (to_hex b) = 2 * length b" for b
    by (induction b) (simp_all add: to_hex_def byte_hex_def)
  ultimately show ?thesis
    using assms(2) by (auto simp: chain_hmac_def res_simps)
qed

lemma chains_agree:
  assumes "chain_end rt key GENESIS_PREV_HMAC 0 us = Some e" "chain_end rt key GENESIS_PREV_HMAC 0 vs = Some e"
    and digest: "\<forall>k t. length (rt_hmac rt k t) = 32"
  shows "map (\<lambda>v. canon (minus_of v)) us = map (\<lambda>v. canon (minus_of v)) vs
    \<or> (\<exists>x \<in> set (chain_texts GENESIS_PREV_HMAC us). \<exists>y \<in> set (chain_texts GENESIS_PREV_HMAC vs).
         x \<noteq> y \<and> rt_hmac rt key x = rt_hmac rt key y)"
  using assms(1,2)
proof (induction us arbitrary: vs e rule: rev_induct)
  case Nil
  then show ?case using chain_end_seq [of rt key GENESIS_PREV_HMAC 0 vs] by auto
next
  case (snoc u us)
  have "length vs = length (us @ [u])"
  proof -
    obtain h0 n0 where e: "e = (h0, n0)" by (cases e)
    show ?thesis
      using chain_end_seq [OF snoc.prems(1) [unfolded e]] chain_end_seq [OF snoc.prems(2) [unfolded e]]
      by simp
  qed
  then obtain ws w where vs: "vs = ws @ [w]" by (cases vs rule: rev_cases) auto
  obtain g m where g: "chain_end rt key GENESIS_PREV_HMAC 0 us = Some (g, m)"
    using snoc.prems by (auto simp: chain_end_append split: option.splits)
  obtain g' m' where g': "chain_end rt key GENESIS_PREV_HMAC 0 ws = Some (g', m')"
    using snoc.prems by (auto simp: vs chain_end_append split: option.splits)
  have u: "chain_hmac rt key g (minus_of u) = Inr (fst e)" "chain_hmac rt key g' (minus_of w) = Inr (fst e)"
    "m = m'"
    using snoc.prems g g'
    by (auto simp: vs chain_end_append chain_end_Cons_Some simp del: chain_end.simps(2))
  let ?x = "g @ render (canon (minus_of u))" and ?y = "g' @ render (canon (minus_of w))"
  have j: "is_json (minus_of u)" "is_json (minus_of w)" and same: "rt_hmac rt key ?x = rt_hmac rt key ?y"
    using u(1,2) by (auto simp: chain_hmac_def res_simps canonical_json_Inr) (metis to_hex_inj)
  have texts: "chain_texts GENESIS_PREV_HMAC (us @ [u]) = chain_texts GENESIS_PREV_HMAC us @ [?x]"
    "chain_texts GENESIS_PREV_HMAC (ws @ [w]) = chain_texts GENESIS_PREV_HMAC ws @ [?y]"
    by (simp_all add: chain_texts_append [OF g] chain_texts_append [OF g'])
  show ?case
  proof (cases "?x = ?y")
    case True
    then have "g = g'" and r: "render (canon (minus_of u)) = render (canon (minus_of w))"
      using chain_end_hex [OF g digest] chain_end_hex [OF g' digest] by simp_all
    then have "canon (minus_of u) = canon (minus_of w)"
      using j by (intro render_inj is_json_canon)
    moreover have "chain_end rt key GENESIS_PREV_HMAC 0 ws = Some (g, m)"
      using g' \<open>g = g'\<close> u(3) by simp
    note snoc.IH [OF g this]
    ultimately show ?thesis unfolding vs texts by auto
  next
    case False
    with same show ?thesis unfolding vs texts by auto
  qed
qed

text \<open>
  C12: the digest and the number of the last entry fix the whole log. Two logs that the
  verification command accepts and that end in the same entry number and digest contain, entry by
  entry, the same actor, event, payload, platform, number and time, or two different texts of their
  chains collide under the key. So no entry of an accepted log can be altered, dropped, inserted or
  reordered without changing the final digest.
\<close>

theorem audit_chain_binds:
  assumes a: "run_audit_verify rt (Inr key) (Content a) = Inr ra" "vr_failed ra = None"
    and b: "run_audit_verify rt (Inr key) (Content b) = Inr rb" "vr_failed rb = None"
    and digest: "\<forall>k t. length (rt_hmac rt k t) = 32"
  shows "\<exists>us vs. chain_of rt key GENESIS_PREV_HMAC 0 (log_lines a) us
    \<and> chain_of rt key GENESIS_PREV_HMAC 0 (log_lines b) vs
    \<and> (chain_end rt key GENESIS_PREV_HMAC 0 us = chain_end rt key GENESIS_PREV_HMAC 0 vs \<longrightarrow>
        map (\<lambda>v. canon (minus_of v)) us = map (\<lambda>v. canon (minus_of v)) vs
        \<or> (\<exists>x \<in> set (chain_texts GENESIS_PREV_HMAC us). \<exists>y \<in> set (chain_texts GENESIS_PREV_HMAC vs).
             x \<noteq> y \<and> rt_hmac rt key x = rt_hmac rt key y))"
proof -
  have ex: "\<exists>vs. chain_of rt key GENESIS_PREV_HMAC 0 (log_lines f) vs"
    if "run_audit_verify rt (Inr key) (Content f) = Inr r" "vr_failed r = None" for f r
    using that verify_exact [of rt key "log_lines f" GENESIS_PREV_HMAC 0 "vr_entries r"]
    by (auto simp: run_audit_verify_def)
  obtain us vs where uv: "chain_of rt key GENESIS_PREV_HMAC 0 (log_lines a) us"
    "chain_of rt key GENESIS_PREV_HMAC 0 (log_lines b) vs"
    using ex [OF a] ex [OF b] by blast
  then obtain e where "chain_end rt key GENESIS_PREV_HMAC 0 us = Some e"
    by (auto simp: chain_of_def)
  with uv chains_agree [OF _ _ digest, of key us e vs] show ?thesis by metis
qed

text \<open>
  Cutting entries off the end goes unnoticed. Every prefix of a log that the command
  accepts is accepted as well, with as many entries as were kept: nothing outside the file records how
  long the chain was.
\<close>

theorem audit_truncation_unnoticed:
  assumes "json_roundtrip rt" "holds_log rt key (us @ vs) al"
  shows "\<exists>r. run_audit_verify rt (Inr key) (Content (log_text us)) = Inr r
    \<and> vr_failed r = None \<and> vr_entries r = length us"
proof -
  have "holds_log rt key us \<lparr>al_text = Some (log_text us), al_prev = None, al_default_actor = []\<rparr>"
    using assms(2) by (auto simp: holds_log_def chain_end_append split: option.splits)
  from holds_chain_of [OF assms(1) this]
  have "\<exists>r. verify_lines rt key (log_lines (log_text us)) GENESIS_PREV_HMAC 0 verify_zero = Inr r
      \<and> vr_failed r = None \<and> vr_entries r = length us"
    unfolding verify_exact by blast
  then show ?thesis by (auto simp: run_audit_verify_def)
qed

text \<open>
  An entry whose line does not fit the 4096 bytes that recovery reads stops the log for
  good: after a restart, when what those bytes hold of it is not JSON, every later append fails with
  \<open>RECOVER_FAILED\<close> and leaves the log as it is.
\<close>

theorem long_entry_blocks_log:
  assumes log: "al_text al = Some (t @ render v @ [nl])" "al_prev al = None"
    and long: "TAIL_CHUNK_BYTES \<le> length (render v)"
    and tail: "rt_json rt (drop (length (render v) + 1 - TAIL_CHUNK_BYTES) (render v)) = None"
  shows "al_append rt key io now event payload opts al
    = (al, Inl (AuditWriteError ''RECOVER_FAILED'' ''failed to recover audit state''))"
proof -
  let ?s = "t @ render v @ [nl]" and ?k = "length (render v) + 1 - TAIL_CHUNK_BYTES"
  have "length ?s - min TAIL_CHUNK_BYTES (length ?s) = length t + ?k"
    using long by simp
  then have d: "drop (length ?s - min TAIL_CHUNK_BYTES (length ?s)) ?s = drop ?k (render v) @ [nl]"
    using long by (simp add: TAIL_CHUNK_BYTES_def)
  have "nl \<notin> set (drop ?k (render v))"
    using render_not_nl(1) [of v] by (auto dest: in_set_dropD)
  then have l: "last_line (drop ?k (render v)) = drop ?k (render v)"
    by (rule last_line_clean)
  have "recover_state rt (Some ?s) = Inl (CorruptAuditLogError ''last line is not valid JSON'')"
    using d l tail by (simp add: recover_state_def Let_def del: drop_append append_assoc)
  then show ?thesis
    by (simp add: al_append_def recovered_def log)
qed

section \<open>A runtime whose parser inverts its printer\<close>

definition demo_json_rt :: runtime where
  "demo_json_rt = demo_rt\<lparr>rt_json := parse_rendered, rt_hmac := (\<lambda>k t. replicate 32 (CHR ''h''))\<rparr>"

lemma demo_json_roundtrip: "json_roundtrip demo_json_rt"
  by (simp add: json_roundtrip_def demo_json_rt_def parse_rendered)

definition demo_log :: audit_log where
  "demo_log = \<lparr>al_text = None, al_prev = None, al_default_actor = ''ops''\<rparr>"

lemma demo_log_holds: "holds_log rt key [] demo_log"
  by (simp add: holds_log_def demo_log_def)

abbreviation no_opts :: append_opts where
  "no_opts \<equiv> \<lparr>ao_platform = None, ao_actor = None\<rparr>"

lemma demo_audit_append:
  obtains al entry where "al_append demo_json_rt (Inr k) AppendOk 5 ''cert_signed'' JNull no_opts demo_log
    = (al, Inr entry)"
proof -
  have "recovered demo_json_rt demo_log = (demo_log\<lparr>al_prev := Some (GENESIS_PREV_HMAC, 0)\<rparr>, Inr (GENESIS_PREV_HMAC, 0))"
    by (simp add: recovered_def recover_state_def demo_log_def)
  moreover have "is_json (JObj (entry_fields a e JNull JNull n t))" for a e n t
    by (simp add: entry_fields_def)
  ultimately show thesis
    using that by (simp add: al_append_def chain_hmac_def canonical_json_eq Let_def demo_log_def)
qed

theorem audit_append_verifies_witness:
  "\<exists>al entry. al_append demo_json_rt (Inr ''key'') AppendOk 5 ''cert_signed'' JNull no_opts demo_log = (al, Inr entry)
     \<and> (\<exists>txt r. al_text al = Some txt \<and> run_audit_verify demo_json_rt (Inr ''key'') (Content txt) = Inr r
          \<and> vr_entries r = 1)"
proof -
  obtain al entry where run: "al_append demo_json_rt (Inr ''key'') AppendOk 5 ''cert_signed'' JNull no_opts demo_log
    = (al, Inr entry)" by (rule demo_audit_append)
  from audit_append_verifies [OF demo_json_roundtrip demo_log_holds _ run] run show ?thesis by auto
qed

lemma demo_two_entries:
  obtains al u v where "holds_log demo_json_rt k [u, v] al" "field v ''event'' = JStr event"
proof -
  obtain al u where run: "al_append demo_json_rt (Inr k) AppendOk 5 ''cert_signed'' JNull no_opts demo_log
    = (al, Inr u)" by (rule demo_audit_append)
  have h: "holds_log demo_json_rt k [u] al" "al_prev al \<noteq> None"
    using append_holds [OF demo_json_roundtrip demo_log_holds _ run] by auto
  then obtain p where p: "al_prev al = Some p" by auto
  have "is_json (JObj (entry_fields a e JNull JNull n t))" for a e n t
    by (simp add: entry_fields_def)
  then have "\<exists>al' v. al_append demo_json_rt (Inr k) AppendOk 6 event JNull no_opts al = (al', Inr v)"
    using p by (cases p) (simp add: al_append_def recovered_def chain_hmac_def canonical_json_eq Let_def)
  then obtain al' v where "al_append demo_json_rt (Inr k) AppendOk 6 event JNull no_opts al = (al', Inr v)"
    by blast
  from append_holds [OF demo_json_roundtrip h(1) _ this] h(2) that [of u v al'] show thesis by simp
qed

theorem audit_truncation_unnoticed_witness:
  "\<exists>u v r. holds_log demo_json_rt ''key'' [u, v] \<lparr>al_text = Some (log_text [u, v]), al_prev = None, al_default_actor = []\<rparr>
     \<and> run_audit_verify demo_json_rt (Inr ''key'') (Content (log_text [u])) = Inr r \<and> vr_failed r = None"
proof -
  obtain al u v where "holds_log demo_json_rt ''key'' [u, v] al" by (rule demo_two_entries)
  then have h: "holds_log demo_json_rt ''key'' ([u] @ [v])
      \<lparr>al_text = Some (log_text [u, v]), al_prev = None, al_default_actor = []\<rparr>"
    by (auto simp: holds_log_def)
  from audit_truncation_unnoticed [OF demo_json_roundtrip h] h show ?thesis by auto
qed

lemma demo_log_verifies:
  assumes "holds_log demo_json_rt k vs al"
  shows "\<exists>r. run_audit_verify demo_json_rt (Inr k) (Content (log_text vs)) = Inr r
    \<and> vr_failed r = None \<and> vr_entries r = length vs"
  using holds_chain_of [OF demo_json_roundtrip assms]
    verify_exact [of demo_json_rt k "log_lines (log_text vs)" GENESIS_PREV_HMAC 0 "length vs"]
  by (auto simp: run_audit_verify_def)

text \<open>Two logs of two entries that differ in the event of the second are accepted and their chains read.\<close>

theorem audit_chain_binds_witness:
  "\<exists>u v w x ra rb. field v ''event'' = JStr ''cert_signed'' \<and> field x ''event'' = JStr ''cert_revoked''
    \<and> run_audit_verify demo_json_rt (Inr ''key'') (Content (log_text [u, v])) = Inr ra \<and> vr_entries ra = 2
    \<and> run_audit_verify demo_json_rt (Inr ''key'') (Content (log_text [w, x])) = Inr rb \<and> vr_entries rb = 2
    \<and> chain_of demo_json_rt ''key'' GENESIS_PREV_HMAC 0 (log_lines (log_text [u, v])) [u, v]
    \<and> chain_of demo_json_rt ''key'' GENESIS_PREV_HMAC 0 (log_lines (log_text [w, x])) [w, x]"
proof -
  obtain al u v where a: "holds_log demo_json_rt ''key'' [u, v] al" "field v ''event'' = JStr ''cert_signed''"
    by (rule demo_two_entries)
  obtain bl w x where b: "holds_log demo_json_rt ''key'' [w, x] bl" "field x ''event'' = JStr ''cert_revoked''"
    by (rule demo_two_entries)
  obtain ra where ra: "run_audit_verify demo_json_rt (Inr ''key'') (Content (log_text [u, v])) = Inr ra"
    "vr_failed ra = None" "vr_entries ra = 2"
    using demo_log_verifies [OF a(1)] by auto
  obtain rb where rb: "run_audit_verify demo_json_rt (Inr ''key'') (Content (log_text [w, x])) = Inr rb"
    "vr_failed rb = None" "vr_entries rb = 2"
    using demo_log_verifies [OF b(1)] by auto
  have "\<forall>k t. length (rt_hmac demo_json_rt k t) = 32" by (simp add: demo_json_rt_def)
  from audit_chain_binds [OF ra(1,2) rb(1,2) this]
  obtain us vs where "chain_of demo_json_rt ''key'' GENESIS_PREV_HMAC 0 (log_lines (log_text [u, v])) us"
    "chain_of demo_json_rt ''key'' GENESIS_PREV_HMAC 0 (log_lines (log_text [w, x])) vs"
    by blast
  moreover have "ys = zs" if "chain_of rt key h n ls ys" "chain_of rt key h n ls zs" for rt key h n ls ys zs
    using that unfolding chain_of_def by (metis list.inj_map_strong option.inject)
  ultimately have "us = [u, v]" "vs = [w, x]"
    using holds_chain_of [OF demo_json_roundtrip] a(1) b(1) by metis+
  then show ?thesis
    using a(2) b(2) ra rb \<open>chain_of _ _ _ _ (log_lines (log_text [u, v])) us\<close>
      \<open>chain_of _ _ _ _ (log_lines (log_text [w, x])) vs\<close> by metis
qed

theorem long_entry_blocks_log_witness:
  "\<exists>al e. al_append demo_rt (Inr ''key'') AppendOk 0 ''cert_signed'' JNull no_opts al = (al, Inl e)"
proof -
  let ?v = "JStr (replicate 5000 (CHR ''x''))"
  let ?al = "\<lparr>al_text = Some ([] @ render ?v @ [nl]), al_prev = None, al_default_actor = []\<rparr>"
  have "concat (map esc_char (replicate n (CHR ''x''))) = replicate n (CHR ''x'')" for n
    by (induction n) (simp_all add: esc_char_def)
  then have "TAIL_CHUNK_BYTES \<le> length (render ?v)"
    by (simp add: quote_def TAIL_CHUNK_BYTES_def)
  moreover have "rt_json demo_rt s = None" for s by (simp add: demo_rt_def)
  ultimately have "al_append demo_rt (Inr ''key'') AppendOk 0 ''cert_signed'' JNull no_opts ?al
      = (?al, Inl (AuditWriteError ''RECOVER_FAILED'' ''failed to recover audit state''))"
    by (intro long_entry_blocks_log [of ?al "[]" ?v]) (simp_all del: render.simps)
  then show ?thesis by blast
qed

end
