(* ===== verification/Metrics.thy ===== *)
theory Metrics
  imports Signed Complex_Main
begin

text \<open>
  \<open>src/metrics/types.ts\<close> and \<open>src/metrics/emitters.ts\<close>: the metric events, the sink they go to, and
  the persisted false-positive counters behind \<open>homelab_fp_rate\<close>.
\<close>

section \<open>The destructiveness ladder\<close>

text \<open>\<open>src/safety/destructiveness.ts\<close>, used as a label here and by the gate.\<close>

datatype destructiveness =
    ReadOnly | Reversible | PersistentModifying | DataAffecting | Architectural

fun destr_str :: "destructiveness \<Rightarrow> string" where
  "destr_str ReadOnly = ''read-only''"
| "destr_str Reversible = ''reversible''"
| "destr_str PersistentModifying = ''persistent-modifying''"
| "destr_str DataAffecting = ''data-affecting''"
| "destr_str Architectural = ''architectural''"

section \<open>Events and the sink\<close>

datatype action_type = Bug | Infra | Hotfix
datatype bypass_reason = ConfigBelowFloor | WrongConfirm | MissingAdmin
datatype metric_name = MTTR | FPRate | GateLatency | BypassAttempts
datatype metric_kind = Histogram | Gauge | Counter

fun action_type_str :: "action_type \<Rightarrow> string" where
  "action_type_str Bug = ''bug''"
| "action_type_str Infra = ''infra''"
| "action_type_str Hotfix = ''hotfix''"

fun bypass_str :: "bypass_reason \<Rightarrow> string" where
  "bypass_str ConfigBelowFloor = ''config-below-floor''"
| "bypass_str WrongConfirm = ''wrong-confirm''"
| "bypass_str MissingAdmin = ''missing-admin''"

record metric_event =
  m_name :: metric_name
  m_kind :: metric_kind
  m_value :: rat
  m_labels :: "(string \<times> string) list"

text \<open>The sink is absent, or takes an event or throws; what it took and the warnings are recorded.\<close>

record metrics =
  sink :: "(metric_event \<Rightarrow> bool) option"
  emitted :: "metric_event list"
  warnings :: "string list"

definition safe_emit :: "metric_event \<Rightarrow> metrics \<Rightarrow> metrics" where
  "safe_emit e m =
    (case sink m of
       None \<Rightarrow> m
     | Some ok \<Rightarrow>
         if ok e then m\<lparr>emitted := emitted m @ [e]\<rparr>
         else m\<lparr>warnings := warnings m @ [''metrics emit failed'']\<rparr>)"

definition emit_mttr :: "string \<Rightarrow> string \<Rightarrow> int \<Rightarrow> metrics \<Rightarrow> metrics" where
  "emit_mttr platform pattern ms =
    safe_emit \<lparr>m_name = MTTR, m_kind = Histogram, m_value = of_int ms / 1000,
      m_labels = [(''platform'', platform), (''pattern'', pattern)]\<rparr>"

definition emit_gate_latency :: "action_type \<Rightarrow> destructiveness \<Rightarrow> int \<Rightarrow> metrics \<Rightarrow> metrics" where
  "emit_gate_latency t d ms =
    safe_emit \<lparr>m_name = GateLatency, m_kind = Histogram, m_value = of_int ms / 1000,
      m_labels = [(''action_type'', action_type_str t), (''destructiveness'', destr_str d)]\<rparr>"

definition bypass_event :: "string \<Rightarrow> bypass_reason \<Rightarrow> metric_event" where
  "bypass_event operator r =
    \<lparr>m_name = BypassAttempts, m_kind = Counter, m_value = 1,
     m_labels = [(''operator'', operator), (''reason'', bypass_str r)]\<rparr>"

definition emit_bypass_attempt :: "string \<Rightarrow> bypass_reason \<Rightarrow> metrics \<Rightarrow> metrics" where
  "emit_bypass_attempt operator r = safe_emit (bypass_event operator r)"

lemma safe_emit_sink [simp]: "sink (safe_emit e m) = sink m"
  by (simp add: safe_emit_def split: option.splits)

lemma emit_bypass_sink [simp]: "sink (emit_bypass_attempt op r m) = sink m"
  by (simp add: emit_bypass_attempt_def)

section \<open>False-positive counters\<close>

record fp_counter =
  fp_total :: nat
  obs_total :: nat
  last_updated :: string

definition counter_json :: "fp_counter \<Rightarrow> jsval" where
  "counter_json c = JObj [(''fp_total'', JInt (int (fp_total c))),
     (''obs_total'', JInt (int (obs_total c))), (''last_updated_iso'', JStr (last_updated c))]"

definition counters_json :: "(string, fp_counter) jsmap \<Rightarrow> jsval" where
  "counters_json cs = JObj [(''probes'', JObj (map (\<lambda>(k, c). (k, counter_json c)) cs))]"

definition counter_of_json :: "jsval \<Rightarrow> fp_counter option" where
  "counter_of_json v =
    (case (field v ''fp_total'', field v ''obs_total'', field v ''last_updated_iso'') of
       (JNum (Fin f), JNum (Fin n), JStr t) \<Rightarrow>
         if 0 \<le> f \<and> 0 \<le> n then Some \<lparr>fp_total = nat f, obs_total = nat n, last_updated = t\<rparr>
         else None
     | _ \<Rightarrow> None)"

fun counters_of_members :: "(string \<times> jsval) list \<Rightarrow> (string, fp_counter) jsmap option" where
  "counters_of_members [] = Some []"
| "counters_of_members (kv # kvs) =
     (case (counter_of_json (snd kv), counters_of_members kvs) of
        (Some c, Some cs) \<Rightarrow> Some ((fst kv, c) # cs)
      | _ \<Rightarrow> None)"

definition counters_of_json :: "jsval \<Rightarrow> (string, fp_counter) jsmap option" where
  "counters_of_json v =
    (case field v ''probes'' of JObj kvs \<Rightarrow> counters_of_members kvs | _ \<Rightarrow> None)"

text \<open>
  \<open>loadCounters\<close>: a missing file and a failed signature both start from no counters (the second with
  a warning); a file that cannot be read or parsed is an error. The contents are \<open>None\<close> when the text
  is not JSON. A signed payload that is not a counters object is outside the code's types; the model
  reports it as an error of the load.
\<close>

definition load_counters ::
  "runtime \<Rightarrow> jsval option disk_file \<Rightarrow> metrics \<Rightarrow> metrics \<times> (string, fp_counter) jsmap res" where
  "load_counters rt f m =
    (case f of
       Absent \<Rightarrow> (m, Inr [])
     | Unreadable e \<Rightarrow> (m, Inl (IoError e))
     | Content None \<Rightarrow> (m, Inl (Error ''JSON''))
     | Content (Some s) \<Rightarrow>
         if \<not> verify_payload rt hmac_env s
         then (m\<lparr>warnings := warnings m @ [''fp counters HMAC mismatch - resetting'']\<rparr>, Inr [])
         else (m, case counters_of_json (field s ''payload'') of
                    None \<Rightarrow> Inl (TypeError ''counters'') | Some cs \<Rightarrow> Inr cs))"

text \<open>\<open>saveCounters\<close>: signing may throw; the atomic write keeps the old file when it fails.\<close>

definition save_counters ::
  "runtime \<Rightarrow> bool \<Rightarrow> (string, fp_counter) jsmap \<Rightarrow> jsval option disk_file res" where
  "save_counters rt disk_ok cs =
     rbind (sign_payload rt hmac_env (counters_json cs))
       (\<lambda>s. if disk_ok then Inr (Content (Some s)) else Inl (IoError ''EIO''))"

definition fp_zero :: "runtime \<Rightarrow> fp_counter" where
  "fp_zero rt = \<lparr>fp_total = 0, obs_total = 0, last_updated = rt_iso rt 0\<rparr>"

definition fp_bump :: "bool \<Rightarrow> string \<Rightarrow> fp_counter \<Rightarrow> fp_counter" where
  "fp_bump is_fp now c =
    \<lparr>fp_total = (if is_fp then fp_total c + 1 else fp_total c),
     obs_total = obs_total c + 1, last_updated = now\<rparr>"

definition fp_ratio :: "fp_counter \<Rightarrow> rat" where
  "fp_ratio c = (if obs_total c = 0 then 0 else of_nat (fp_total c) / of_nat (obs_total c))"

definition fp_event :: "string \<Rightarrow> fp_counter \<Rightarrow> metric_event" where
  "fp_event probe c =
    \<lparr>m_name = FPRate, m_kind = Gauge, m_value = fp_ratio c, m_labels = [(''probe'', probe)]\<rparr>"

definition emit_fp_rate ::
  "runtime \<Rightarrow> int \<Rightarrow> bool \<Rightarrow> string \<Rightarrow> bool \<Rightarrow> jsval option disk_file \<Rightarrow> metrics
   \<Rightarrow> jsval option disk_file \<times> metrics" where
  "emit_fp_rate rt now disk_ok probe is_fp f m =
    (case load_counters rt f m of
       (m1, Inl e) \<Rightarrow> (f, m1\<lparr>warnings := warnings m1 @ [''fp counters load failed'']\<rparr>)
     | (m1, Inr cs) \<Rightarrow>
         (let cur = fp_bump is_fp (rt_iso rt now)
                      (case jm_get cs probe of Some c \<Rightarrow> c | None \<Rightarrow> fp_zero rt)
          in case save_counters rt disk_ok (jm_set probe cur cs) of
               Inr f1 \<Rightarrow> (f1, safe_emit (fp_event probe cur) m1)
             | Inl e \<Rightarrow> (f, safe_emit (fp_event probe cur)
                         (m1\<lparr>warnings := warnings m1 @ [''fp counters save failed'']\<rparr>))))"

subsection \<open>The counters file round-trips\<close>

lemma counter_roundtrip [simp]: "counter_of_json (counter_json c) = Some c"
  by (simp add: counter_of_json_def counter_json_def)

lemma counters_members_roundtrip [simp]:
  "counters_of_members (map (\<lambda>(k, c). (k, counter_json c)) cs) = Some cs"
  by (induction cs) auto

lemma counters_roundtrip [simp]: "counters_of_json (counters_json cs) = Some cs"
  by (simp add: counters_of_json_def counters_json_def)

lemma load_after_save:
  "save_counters rt ok cs = Inr f \<Longrightarrow> load_counters rt f m = (m, Inr cs)"
  using env.sign_verifies env.sign_keeps_payload
  by (auto simp: save_counters_def load_counters_def res_simps split: if_splits)

text \<open>What the file may hold: no probe has more false positives than observations.\<close>

definition counters_ok :: "(string, fp_counter) jsmap \<Rightarrow> bool" where
  "counters_ok cs \<longleftrightarrow> (\<forall>(k, c) \<in> set cs. fp_total c \<le> obs_total c)"

lemma counters_ok_get: "counters_ok cs \<Longrightarrow> jm_get cs k = Some c \<Longrightarrow> fp_total c \<le> obs_total c"
  by (auto simp: counters_ok_def dest: map_of_SomeD)

lemma set_jm_set: "set (jm_set k v m) \<subseteq> insert (k, v) (set m)"
  by (induction m) auto

lemma counters_ok_set:
  "counters_ok cs \<Longrightarrow> fp_total c \<le> obs_total c \<Longrightarrow> counters_ok (jm_set k c cs)"
  using set_jm_set [of k c cs] by (fastforce simp: counters_ok_def)

lemma fp_ratio_bounds: "fp_total c \<le> obs_total c \<Longrightarrow> 0 \<le> fp_ratio c \<and> fp_ratio c \<le> 1"
  by (simp add: fp_ratio_def divide_le_eq)

lemma safe_emit_emitted: "e \<in> set (emitted (safe_emit x m)) \<Longrightarrow> e = x \<or> e \<in> set (emitted m)"
  by (auto simp: safe_emit_def split: option.splits if_splits)

lemma load_counters_emitted: "load_counters rt f m = (m1, r) \<Longrightarrow> emitted m1 = emitted m"
  by (auto simp: load_counters_def split: disk_file.splits option.splits if_splits)

lemma fp_bump_ok:
  assumes "counters_ok cs"
  shows "let c = fp_bump b t (case jm_get cs p of Some c \<Rightarrow> c | None \<Rightarrow> fp_zero rt) in
    fp_total c \<le> obs_total c"
  using counters_ok_get [OF assms, of p]
  by (auto simp: fp_bump_def fp_zero_def Let_def split: option.splits)

text \<open>
  One observation counted by \<open>emitFPRate\<close> on counters that load keeps every probe's
  false positives at or below its observations, changes no other probe, adds one observation to this
  probe (and one false positive exactly when the flag says so), leaves the file untouched when it
  cannot be written, and the gauge it emits, if any, lies between 0 and 1.
\<close>

theorem emit_fp_rate_sound:
  assumes load: "load_counters rt f m = (m1, Inr cs)"
    and ok: "counters_ok cs"
    and run: "emit_fp_rate rt now disk_ok probe is_fp f m = (f', m')"
  shows "(f' = f
      \<or> (\<exists>cs'. load_counters rt f' m' = (m', Inr cs') \<and> counters_ok cs'
          \<and> (\<forall>p. p \<noteq> probe \<longrightarrow> jm_get cs' p = jm_get cs p)
          \<and> (\<exists>c. jm_get cs' probe = Some c
               \<and> obs_total c = (case jm_get cs probe of None \<Rightarrow> 0 | Some d \<Rightarrow> obs_total d) + 1
               \<and> fp_total c = (case jm_get cs probe of None \<Rightarrow> 0 | Some d \<Rightarrow> fp_total d)
                            + (if is_fp then 1 else 0))))
    \<and> (\<not> disk_ok \<longrightarrow> f' = f)
    \<and> (\<forall>e \<in> set (emitted m'). e \<in> set (emitted m) \<or> 0 \<le> m_value e \<and> m_value e \<le> 1)"
proof -
  define cur where "cur = fp_bump is_fp (rt_iso rt now)
    (case jm_get cs probe of Some c \<Rightarrow> c | None \<Rightarrow> fp_zero rt)"
  have cur: "fp_total cur \<le> obs_total cur"
    using fp_bump_ok [OF ok] by (simp add: cur_def Let_def)
  have gauge: "0 \<le> m_value (fp_event probe cur) \<and> m_value (fp_event probe cur) \<le> 1"
    using fp_ratio_bounds [OF cur] by (simp add: fp_event_def)
  have emits: "e \<in> set (emitted m) \<or> 0 \<le> m_value e \<and> m_value e \<le> 1"
    if "e \<in> set (emitted (safe_emit (fp_event probe cur) n))" "emitted n = emitted m1" for e n
    using safe_emit_emitted [OF that(1)] gauge that(2) load_counters_emitted [OF load] by auto
  show ?thesis
  proof (cases "save_counters rt disk_ok (jm_set probe cur cs)")
    case (Inl e)
    with load run have "f' = f" "m' = safe_emit (fp_event probe cur)
        (m1\<lparr>warnings := warnings m1 @ [''fp counters save failed'']\<rparr>)"
      by (auto simp: emit_fp_rate_def Let_def cur_def [symmetric])
    with emits show ?thesis by auto
  next
    case (Inr f1)
    with load run have f': "f' = f1" and m': "m' = safe_emit (fp_event probe cur) m1"
      by (auto simp: emit_fp_rate_def Let_def cur_def [symmetric])
    have "load_counters rt f' m' = (m', Inr (jm_set probe cur cs))"
      using load_after_save [OF Inr] f' by simp
    moreover have "counters_ok (jm_set probe cur cs)"
      by (rule counters_ok_set [OF ok cur])
    moreover have "disk_ok"
      using Inr by (auto simp: save_counters_def res_simps split: if_splits)
    moreover have "jm_get (jm_set probe cur cs) probe = Some cur"
      by (simp add: store_simps)
    ultimately show ?thesis
      using emits m' by (auto simp: store_simps cur_def fp_bump_def fp_zero_def split: option.splits)
  qed
qed

theorem emit_fp_rate_sound_witness:
  "\<exists>f' m'. emit_fp_rate demo_rt 7 True ''disk'' True Absent
      \<lparr>sink = None, emitted = [], warnings = []\<rparr> = (f', m')
    \<and> (f' = Absent \<or> (\<exists>cs'. load_counters demo_rt f' m' = (m', Inr cs') \<and> counters_ok cs'))"
proof -
  let ?m = "\<lparr>sink = None, emitted = [], warnings = []\<rparr>"
  obtain f' m' where run: "emit_fp_rate demo_rt 7 True ''disk'' True Absent ?m = (f', m')"
    by fastforce
  have "load_counters demo_rt Absent ?m = (?m, Inr [])" "counters_ok []"
    by (simp_all add: load_counters_def counters_ok_def)
  from emit_fp_rate_sound [OF this run] run show ?thesis by blast
qed

end
