(* ===== verification/Safety.thy ===== *)
theory Safety
  imports Metrics
begin

text \<open>
  The leaf modules of \<open>src/safety\<close>: the destructiveness ladder and its trust-level floor
  (\<open>destructiveness.ts\<close>), the shared types (\<open>types.ts\<close>), the configuration check
  (\<open>validator.ts\<close>), the typed-CONFIRM prompt (\<open>typed-confirm.ts\<close>) and the dry-run barrier around a
  connection (\<open>mutation-barrier.ts\<close>).
\<close>

section \<open>Trust levels and the floor\<close>

datatype trust_level = L0 | L1 | L2 | L3

fun TRUST_RANK :: "trust_level \<Rightarrow> nat" where
  "TRUST_RANK L0 = 0"
| "TRUST_RANK L1 = 1"
| "TRUST_RANK L2 = 2"
| "TRUST_RANK L3 = 3"

fun FLOOR :: "destructiveness \<Rightarrow> trust_level" where
  "FLOOR ReadOnly = L3"
| "FLOOR Reversible = L1"
| "FLOOR PersistentModifying = L0"
| "FLOOR DataAffecting = L0"
| "FLOOR Architectural = L0"

text \<open>The strictness order of the code is a linear order: the library's lemmas on orders apply.\<close>

lemma TRUST_RANK_inj: "TRUST_RANK a = TRUST_RANK b \<Longrightarrow> a = b"
  by (cases a; cases b) simp_all

instantiation trust_level :: linorder
begin

definition less_eq_trust_level :: "trust_level \<Rightarrow> trust_level \<Rightarrow> bool" where
  "less_eq_trust_level a b \<longleftrightarrow> TRUST_RANK a \<le> TRUST_RANK b"

definition less_trust_level :: "trust_level \<Rightarrow> trust_level \<Rightarrow> bool" where
  "less_trust_level a b \<longleftrightarrow> TRUST_RANK a < TRUST_RANK b"

instance
  by standard (auto simp: less_eq_trust_level_def less_trust_level_def intro: TRUST_RANK_inj)

end

fun trust_str :: "trust_level \<Rightarrow> string" where
  "trust_str L0 = ''L0''"
| "trust_str L1 = ''L1''"
| "trust_str L2 = ''L2''"
| "trust_str L3 = ''L3''"

definition meets_floor :: "trust_level \<Rightarrow> trust_level \<Rightarrow> bool" where
  "meets_floor configured required \<longleftrightarrow> TRUST_RANK configured \<le> TRUST_RANK required"

lemma meets_floor_le: "meets_floor c r \<longleftrightarrow> c \<le> r"
  by (simp add: meets_floor_def less_eq_trust_level_def)

section \<open>Configuration\<close>

text \<open>
  The configuration comes from a file, so a trust level is any text: \<open>TRUST_RANK\<close> of an unknown one is
  \<open>undefined\<close> and every comparison with it is false. \<open>None\<close> is \<open>undefined\<close> or \<open>null\<close>.
\<close>

fun trust_of :: "string \<Rightarrow> trust_level option" where
  "trust_of s = map_of [(''L0'', L0), (''L1'', L1), (''L2'', L2), (''L3'', L3)] s"

record operator_config =
  auto_approval :: "(destructiveness \<Rightarrow> string option) option"
  confirm_ttl :: "int option"

definition LADDER :: "destructiveness list" where
  "LADDER = [ReadOnly, Reversible, PersistentModifying, DataAffecting, Architectural]"

definition configured_level :: "operator_config \<Rightarrow> destructiveness \<Rightarrow> string option" where
  "configured_level cfg d = (case auto_approval cfg of None \<Rightarrow> None | Some f \<Rightarrow> f d)"

definition level_ok :: "operator_config \<Rightarrow> destructiveness \<Rightarrow> bool" where
  "level_ok cfg d =
    (case configured_level cfg d of
       None \<Rightarrow> False
     | Some s \<Rightarrow> (case trust_of s of None \<Rightarrow> False | Some t \<Rightarrow> meets_floor t (FLOOR d)))"

fun validate_levels ::
  "operator_config \<Rightarrow> string \<Rightarrow> destructiveness list \<Rightarrow> metrics \<Rightarrow> metrics \<times> unit res" where
  "validate_levels cfg op [] m = (m, Inr ())"
| "validate_levels cfg op (d # ds) m =
     (case configured_level cfg d of
        None \<Rightarrow> (emit_bypass_attempt op ConfigBelowFloor m,
                 Inl (ConfigurationError (destr_str d) ''undefined'' (trust_str (FLOOR d))))
      | Some s \<Rightarrow>
          if \<not> (case trust_of s of None \<Rightarrow> False | Some t \<Rightarrow> meets_floor t (FLOOR d))
          then (emit_bypass_attempt op ConfigBelowFloor m,
                Inl (ConfigurationError (destr_str d) s (trust_str (FLOOR d))))
          else validate_levels cfg op ds m)"

definition validate_operator_config ::
  "operator_config \<Rightarrow> string option \<Rightarrow> metrics \<Rightarrow> metrics \<times> unit res" where
  "validate_operator_config cfg op m =
     validate_levels cfg (case op of None \<Rightarrow> ''unknown'' | Some s \<Rightarrow> s) LADDER m"

definition record_missing_admin_bypass :: "string \<Rightarrow> metrics \<Rightarrow> metrics" where
  "record_missing_admin_bypass op = emit_bypass_attempt op MissingAdmin"

lemma validate_levels_ok:
  "(\<forall>d \<in> set ds. level_ok cfg d) \<Longrightarrow> validate_levels cfg op ds m = (m, Inr ())"
  by (induction ds) (auto simp: level_ok_def split: option.splits)

lemma validate_levels_bad:
  "validate_levels cfg op (ds @ d # es) m =
     (emit_bypass_attempt op ConfigBelowFloor m,
      Inl (ConfigurationError (destr_str d)
        (case configured_level cfg d of None \<Rightarrow> ''undefined'' | Some s \<Rightarrow> s) (trust_str (FLOOR d))))"
  if "\<forall>x \<in> set ds. level_ok cfg x" "\<not> level_ok cfg d"
  using that by (induction ds) (auto simp: level_ok_def split: option.splits)

lemma first_bad:
  "(\<forall>d \<in> set xs. P d) \<or> (\<exists>ys d zs. xs = ys @ d # zs \<and> (\<forall>y \<in> set ys. P y) \<and> \<not> P d)"
  using split_list_first_prop [of xs "\<lambda>d. \<not> P d"] by blast

text \<open>Every level is on the ladder.\<close>

lemma LADDER_all [simp]: "d \<in> set LADDER"
  by (cases d) (simp_all add: LADDER_def)

text \<open>
  The configuration check accepts exactly the configurations that give every destructiveness
  level a known trust level at or below its floor, and then touches no metric; any other one is
  rejected with the first offending level of the ladder, its configured text and its floor, after
  exactly one bypass-attempt metric.
\<close>

theorem validate_operator_config_exact:
  "if \<forall>d. \<exists>s t. configured_level cfg d = Some s \<and> trust_of s = Some t \<and> t \<le> FLOOR d
   then validate_operator_config cfg op m = (m, Inr ())
   else \<exists>ds d es. LADDER = ds @ d # es
     \<and> list_all (\<lambda>x. \<exists>s t. configured_level cfg x = Some s \<and> trust_of s = Some t \<and> t \<le> FLOOR x) ds
     \<and> (\<nexists>s t. configured_level cfg d = Some s \<and> trust_of s = Some t \<and> t \<le> FLOOR d)
     \<and> validate_operator_config cfg op m =
         (emit_bypass_attempt (case op of None \<Rightarrow> ''unknown'' | Some o' \<Rightarrow> o') ConfigBelowFloor m,
          Inl (ConfigurationError (destr_str d)
            (case configured_level cfg d of None \<Rightarrow> ''undefined'' | Some s \<Rightarrow> s)
            (trust_str (FLOOR d))))"
proof -
  have ok: "(\<exists>s t. configured_level cfg d = Some s \<and> trust_of s = Some t \<and> t \<le> FLOOR d)
      \<longleftrightarrow> level_ok cfg d" for d
    by (auto simp: level_ok_def meets_floor_le simp del: trust_of.simps split: option.splits)
  show ?thesis
  proof (cases "\<forall>d. level_ok cfg d")
    case True
    then show ?thesis
      unfolding ok by (simp add: validate_operator_config_def validate_levels_ok)
  next
    case False
    then obtain ds d es where split: "LADDER = ds @ d # es" "\<forall>x \<in> set ds. level_ok cfg x" "\<not> level_ok cfg d"
      using first_bad [of LADDER "level_ok cfg"] LADDER_all by blast
    have "validate_operator_config cfg op m =
         (emit_bypass_attempt (case op of None \<Rightarrow> ''unknown'' | Some o' \<Rightarrow> o') ConfigBelowFloor m,
          Inl (ConfigurationError (destr_str d)
            (case configured_level cfg d of None \<Rightarrow> ''undefined'' | Some s \<Rightarrow> s)
            (trust_str (FLOOR d))))"
      unfolding validate_operator_config_def split(1) by (rule validate_levels_bad [OF split(2,3)])
    with False split show ?thesis
      unfolding ok list_all_iff by auto
  qed
qed

section \<open>Actions and audit events of the gate\<close>

record action =
  a_id :: string
  a_destr :: destructiveness
  a_platform :: string
  a_resource :: string
  a_description :: string
  a_dry_run :: "string option"
  a_requested_by :: string
  a_initiated :: string

datatype gate_event_type = GateAllowed | GateDenied | GateBypass | ConfigRejected

record gate_event =
  g_type :: gate_event_type
  g_action :: "string option"
  g_reason :: string
  g_occurred :: string

section \<open>Timers\<close>

text \<open>\<open>setTimeout\<close> keeps its delay in 31 bits: one below 1 or above that bound fires after 1 ms.\<close>

definition MAX_TIMEOUT :: int where
  "MAX_TIMEOUT = 2147483647"

definition timeout_ms :: "int \<Rightarrow> int" where
  "timeout_ms d = (if d < 1 \<or> MAX_TIMEOUT < d then 1 else d)"

lemma timeout_ms_pos [simp]: "0 < timeout_ms d"
  by (simp add: timeout_ms_def)

lemma timeout_ms_nonneg [simp]: "0 \<le> timeout_ms d"
  by (simp add: timeout_ms_def)

lemma timeout_ms_id: "1 \<le> d \<Longrightarrow> d \<le> MAX_TIMEOUT \<Longrightarrow> timeout_ms d = d"
  by (simp add: timeout_ms_def)

section \<open>Typed CONFIRM\<close>

text \<open>
  What \<open>promptLine\<close> (standard input) does: answers after some milliseconds, fails, or never settles.
  The result holds the boolean the modal resolves to, the time it took (\<open>None\<close>: the promise is never
  settled, which the timer rules out) and the metrics after any answer, late ones included.
\<close>

datatype prompt_reply = Reply string nat | PromptError nat | NoReply

definition CONFIRM :: string where
  "CONFIRM = ''CONFIRM''"

definition typed_confirm ::
  "string option \<Rightarrow> int \<Rightarrow> string option \<Rightarrow> prompt_reply \<Rightarrow> metrics \<Rightarrow> bool \<times> int \<times> metrics" where
  "typed_confirm expected_word ttl_seconds operator reply m =
    (let expected = (case expected_word of None \<Rightarrow> CONFIRM | Some w \<Rightarrow> w);
         ttl = timeout_ms (ttl_seconds * 1000)
     in case reply of
          Reply answer t \<Rightarrow>
            (let matched = (answer = expected);
                 m1 = (if matched then m
                       else emit_bypass_attempt (case operator of None \<Rightarrow> ''unknown'' | Some o' \<Rightarrow> o')
                              WrongConfirm m)
             in if int t < ttl then (matched, int t, m1) else (False, ttl, m1))
        | PromptError t \<Rightarrow> (False, min (int t) ttl, m)
        | NoReply \<Rightarrow> (False, ttl, m))"

lemma typed_confirm_True:
  "typed_confirm None ttl op reply m = (True, dt, m') \<longleftrightarrow>
     (\<exists>t. reply = Reply CONFIRM t \<and> dt = int t \<and> int t < timeout_ms (ttl * 1000) \<and> m' = m)"
  by (auto simp: typed_confirm_def Let_def split: prompt_reply.splits if_splits)

lemma typed_confirm_time:
  "typed_confirm w ttl op reply m = (b, dt, m') \<Longrightarrow> 0 \<le> dt \<and> dt \<le> timeout_ms (ttl * 1000)"
  by (cases reply) (auto simp: typed_confirm_def Let_def split: if_splits)

text \<open>
  The modal settles within its (31-bit) time-to-live; it says yes exactly to the expected
  word typed before the deadline, counts a bypass attempt exactly for a different answer, early or
  late, and for nothing else, and a word with extra blanks or another case is never the expected one.
\<close>

theorem typed_confirm_exact:
  "case typed_confirm None ttl op reply m of (b, dt, m') \<Rightarrow>
     (b \<longleftrightarrow> (\<exists>t. reply = Reply ''CONFIRM'' t \<and> int t < timeout_ms (ttl * 1000)))
     \<and> 0 \<le> dt \<and> dt \<le> timeout_ms (ttl * 1000)
     \<and> (if \<exists>w t. reply = Reply w t \<and> w \<noteq> ''CONFIRM''
        then m' = emit_bypass_attempt (case op of None \<Rightarrow> ''unknown'' | Some o' \<Rightarrow> o') WrongConfirm m
        else m' = m)"
proof -
  obtain b dt m' where run: "typed_confirm None ttl op reply m = (b, dt, m')"
    by (cases "typed_confirm None ttl op reply m") auto
  have "0 \<le> dt \<and> dt \<le> timeout_ms (ttl * 1000)"
    by (rule typed_confirm_time [OF run])
  with run show ?thesis
    by (cases reply) (auto simp: typed_confirm_def CONFIRM_def Let_def split: if_splits)
qed

section \<open>The mutation barrier\<close>

text \<open>
  A property read through the proxy gives a value, a method bound to the connection, or a function that
  throws. A connection is its properties: methods act on its remote state \<open>'s\<close>.
\<close>

datatype prop_key = PName string | PSymbol "string option" string

datatype 's conn_prop = NoProp | DataProp jsval | Method "jsval list \<Rightarrow> 's \<Rightarrow> 's \<times> jsval res"

type_synonym 's conn_props = "string \<Rightarrow> 's conn_prop"

definition READ_OP_EXACT :: "string list" where
  "READ_OP_EXACT = [''ping'', ''close'', ''disconnect'', ''isConnected'', ''getCapabilities'',
     ''getLastUsedAt'']"

definition READ_OP_PREFIXES :: "string list" where
  "READ_OP_PREFIXES = [''read'', ''get'', ''list'', ''stat'', ''inspect'']"

definition NON_METHOD_PROPS :: "string list" where
  "NON_METHOD_PROPS = [''platformId'', ''connected'', ''capabilities'', ''lastUsedAt'',
     ''constructor'', ''__auditWrapped'', ''Symbol(Symbol.toPrimitive)'',
     ''Symbol(Symbol.toStringTag)'', ''then'']"

definition is_read_op :: "string \<Rightarrow> bool" where
  "is_read_op name \<longleftrightarrow>
     name \<in> set READ_OP_EXACT \<or> (\<exists>p \<in> set READ_OP_PREFIXES. starts_with p name)"

fun prop_name :: "prop_key \<Rightarrow> string" where
  "prop_name (PName n) = n"
| "prop_name (PSymbol (Some k) d) = k"
| "prop_name (PSymbol None d) = ''Symbol('' @ d @ '')''"

definition barrier_get :: "'s conn_props \<Rightarrow> prop_key \<Rightarrow> 's conn_prop" where
  "barrier_get conn prop =
    (let name = prop_name prop;
         blocked = Method (\<lambda>args s. (s, Inl (MutationBarrierError name)))
     in if is_read_op name then conn name
        else if name \<in> set NON_METHOD_PROPS then conn name
        else case conn name of
               NoProp \<Rightarrow> blocked
             | DataProp v \<Rightarrow> if v = JNull \<or> v = JUndef then blocked else DataProp v
             | Method f \<Rightarrow> blocked)"

text \<open>Calling a property of a connection, through the barrier or not; calling a non-function throws.\<close>

fun call_prop :: "'s conn_prop \<Rightarrow> jsval list \<Rightarrow> 's \<Rightarrow> 's \<times> jsval res" where
  "call_prop (Method f) args s = f args s"
| "call_prop p args s = (s, Inl (TypeError ''not a function''))"

fun barrier_calls :: "'s conn_props \<Rightarrow> (prop_key \<times> jsval list) list \<Rightarrow> 's \<Rightarrow> 's \<times> jsval res list" where
  "barrier_calls conn [] s = (s, [])"
| "barrier_calls conn ((k, args) # cs) s =
     (let (s1, r) = call_prop (barrier_get conn k) args s;
          (s2, rs) = barrier_calls conn cs s1
      in (s2, r # rs))"

definition barrier_allows :: "string \<Rightarrow> bool" where
  "barrier_allows name \<longleftrightarrow> is_read_op name \<or> name \<in> set NON_METHOD_PROPS"

lemma barrier_get_blocked:
  "\<not> barrier_allows (prop_name k) \<Longrightarrow>
     (\<exists>v. barrier_get conn k = DataProp v \<and> conn (prop_name k) = DataProp v)
     \<or> barrier_get conn k = Method (\<lambda>args s. (s, Inl (MutationBarrierError (prop_name k))))"
  by (auto simp: barrier_get_def barrier_allows_def Let_def split: conn_prop.splits)

lemma call_blocked:
  assumes "\<not> barrier_allows (prop_name k)"
  shows "fst (call_prop (barrier_get conn k) args s) = s"
  using barrier_get_blocked [OF assms, of conn] by (elim disjE exE conjE) simp_all

lemma call_allowed: "barrier_allows (prop_name k) \<Longrightarrow> barrier_get conn k = conn (prop_name k)"
  by (auto simp: barrier_get_def barrier_allows_def Let_def)

text \<open>
  A dry run that only reaches a connection through the barrier leaves the remote state as
  it was, whatever it calls and in whatever order, provided the methods the barrier lets through
  (the read operations and the two listed method names) do not change it; and every other method, known or
  not, throws \<open>MutationBarrierError\<close> with its own name.
\<close>

theorem barrier_no_mutation:
  assumes reads_pure:
    "\<forall>name f. barrier_allows name \<and> conn name = Method f \<longrightarrow> (\<forall>args s. fst (f args s) = s)"
  shows "fst (barrier_calls conn cs s) = s
    \<and> (\<forall>k. \<not> barrier_allows (prop_name k) \<and> (\<forall>v. conn (prop_name k) \<noteq> DataProp v) \<longrightarrow>
         call_prop (barrier_get conn k) args s = (s, Inl (MutationBarrierError (prop_name k))))"
proof -
  have step: "fst (call_prop (barrier_get conn k) as t) = t" for k as t
  proof (cases "barrier_allows (prop_name k)")
    case True
    with reads_pure show ?thesis
      by (cases "conn (prop_name k)") (auto simp: call_allowed)
  qed (rule call_blocked)
  have "fst (barrier_calls conn cs s) = s"
  proof (induction cs arbitrary: s)
    case (Cons c cs)
    obtain k as where c: "c = (k, as)" by (cases c) auto
    obtain t r where 1: "call_prop (barrier_get conn k) as s = (t, r)" by fastforce
    obtain u rs where 2: "barrier_calls conn cs t = (u, rs)" by fastforce
    from 1 have "t = s" using step [of k as s] by simp
    moreover have "u = t" using Cons.IH [of t] 2 by simp
    ultimately show ?case using c 1 2 by simp
  qed simp
  then show ?thesis
    using barrier_get_blocked [of _ conn] by fastforce
qed

theorem barrier_no_mutation_witness:
  "fst (barrier_calls (\<lambda>n. if n = ''exec'' then Method (\<lambda>a (s::nat). (s + 1, Inr JNull))
                           else if n = ''readFile'' then Method (\<lambda>a s. (s, Inr JNull)) else NoProp)
     [(PName ''exec'', []), (PName ''readFile'', []), (PName ''drop'', [])] 3) = 3"
proof -
  have "is_read_op ''exec'' = False"
    by (simp add: is_read_op_def READ_OP_EXACT_def READ_OP_PREFIXES_def)
  then have "\<not> barrier_allows ''exec''"
    by (simp add: barrier_allows_def NON_METHOD_PROPS_def)
  then show ?thesis
    by (intro barrier_no_mutation [THEN conjunct1]) auto
qed

end
