(* ===== verification/Delay.thy ===== *)
theory Delay
  imports Safety
begin

text \<open>
  \<open>src/safety/delay.ts\<close> and \<open>src/safety/state-paths.ts\<close>: the delay before an architectural action,
  with its signed state files, in-memory timers and promises. One step of the machine is one handler
  run to completion (the awaits of two handlers are not interleaved); which handler runs next, and how
  the disk behaves in it, is free.
\<close>

section \<open>State\<close>

text \<open>
  \<open>d_files\<close> is the pending-actions directory by file name: parsed JSON, or \<open>None\<close> for text that does not
  parse. A timer has a handle, the action id its callback closes over and the time it is due. The
  maps \<open>liveTimers\<close>, \<open>pendingResolvers\<close>, \<open>pendingRejecters\<close> are keyed by action id; a promise is a
  number, and \<open>d_outcomes\<close> records the result and the time of each settled one.
\<close>

record timer =
  tm_handle :: nat
  tm_id :: string
  tm_due :: int

record delay_state =
  d_clock :: int
  d_files :: "(string, jsval option) jsmap"
  d_timers :: "timer list"
  d_live :: "(string, nat) jsmap"
  d_resolvers :: "(string, nat) jsmap"
  d_rejecters :: "(string, nat) jsmap"
  d_outcomes :: "(nat, unit res \<times> int) jsmap"
  d_next :: nat

text \<open>\<open>fs.writeFile\<close> succeeds, or fails and leaves the old file, or fails and leaves a torn one.\<close>

datatype disk = DiskOk | DiskFails bool

record schedule_input =
  si_id :: string
  si_delay :: int
  si_report :: "string option"

section \<open>Records and files\<close>

definition safe_id :: "string \<Rightarrow> bool" where
  "safe_id s \<longleftrightarrow> s \<noteq> [] \<and> list_all (\<lambda>c. is_alnum c \<or> c = CHR ''_'' \<or> c = CHR ''-'') s"

text \<open>The path inside the pending-actions directory.\<close>

definition pending_action_path :: "string \<Rightarrow> string res" where
  "pending_action_path i =
    (if \<not> safe_id i then Inl (Error (''Invalid action_id: '' @ i)) else Inr (i @ ''.json''))"

definition pending_action :: "runtime \<Rightarrow> int \<Rightarrow> schedule_input \<Rightarrow> jsval" where
  "pending_action rt now inp =
    JObj ([(''action_id'', JStr (si_id inp)),
           (''scheduled_at'', JStr (rt_iso rt now)),
           (''fire_at'', JStr (rt_iso rt (now + si_delay inp))),
           (''delay_ms'', JInt (si_delay inp)),
           (''status'', JStr ''pending'')]
          @ (case si_report inp of None \<Rightarrow> [] | Some r \<Rightarrow> [(''dry_run_report'', JStr r)]))"

fun set_field :: "string \<Rightarrow> jsval \<Rightarrow> jsval \<Rightarrow> jsval" where
  "set_field k v (JObj kvs) = JObj (jm_set k v kvs)"
| "set_field k v x = x"

fun str_of :: "jsval \<Rightarrow> string" where
  "str_of (JStr s) = s"
| "str_of _ = []"

definition is_signed_pending_action :: "jsval \<Rightarrow> bool" where
  "is_signed_pending_action v \<longleftrightarrow>
     is_obj v \<and> is_str (field v ''hmac'') \<and> is_obj (field v ''payload'')
     \<and> (let p = field v ''payload'' in
          is_str (field p ''action_id'') \<and> is_str (field p ''scheduled_at'')
          \<and> is_str (field p ''fire_at'') \<and> is_num (field p ''delay_ms'')
          \<and> field p ''status'' \<in> {JStr ''pending'', JStr ''cancelled'', JStr ''fired''})"

definition persist :: "runtime \<Rightarrow> disk \<Rightarrow> jsval \<Rightarrow> delay_state \<Rightarrow> delay_state \<times> unit res" where
  "persist rt dk rec st =
    (case rbind (sign_payload rt hmac_env rec) (\<lambda>s.
          rbind (pending_action_path (str_of (field rec ''action_id''))) (\<lambda>p. Inr (s, p))) of
       Inl e \<Rightarrow> (st, Inl e)
     | Inr (s, p) \<Rightarrow>
         (case dk of
            DiskOk \<Rightarrow> (st\<lparr>d_files := jm_set p (Some s) (d_files st)\<rparr>, Inr ())
          | DiskFails torn \<Rightarrow>
              (if torn then st\<lparr>d_files := jm_set p None (d_files st)\<rparr> else st, Inl (IoError ''EIO''))))"

text \<open>\<open>readRecord\<close>: \<open>None\<close> when the file is missing; a file that does not parse or verify throws.\<close>

definition read_record :: "runtime \<Rightarrow> string \<Rightarrow> delay_state \<Rightarrow> jsval option res" where
  "read_record rt i st =
    (case pending_action_path i of
       Inl e \<Rightarrow> Inl e
     | Inr p \<Rightarrow>
         (case jm_get (d_files st) p of
            None \<Rightarrow> Inr None
          | Some None \<Rightarrow> Inl (Error ''JSON'')
          | Some (Some raw) \<Rightarrow>
              if \<not> is_signed_pending_action raw \<or> \<not> verify_payload rt hmac_env raw
              then Inl (Error (''HMAC mismatch on '' @ i))
              else Inr (Some (field raw ''payload''))))"

section \<open>Operations\<close>

text \<open>A promise settles once: later calls of its resolver do nothing.\<close>

definition settle :: "nat \<Rightarrow> unit res \<Rightarrow> delay_state \<Rightarrow> delay_state" where
  "settle p r st =
    (if jm_get (d_outcomes st) p = None
     then st\<lparr>d_outcomes := d_outcomes st @ [(p, (r, d_clock st))]\<rparr> else st)"

definition arm_timer :: "string \<Rightarrow> int \<Rightarrow> delay_state \<Rightarrow> delay_state" where
  "arm_timer i delay st =
     st\<lparr>d_timers := d_timers st @
          [\<lparr>tm_handle = d_next st, tm_id = i, tm_due = d_clock st + timeout_ms delay\<rparr>],
        d_live := jm_set i (d_next st) (d_live st),
        d_next := d_next st + 1\<rparr>"

definition schedule_delayed_action ::
  "runtime \<Rightarrow> disk \<Rightarrow> schedule_input \<Rightarrow> delay_state \<Rightarrow> delay_state \<times> nat res" where
  "schedule_delayed_action rt dk inp st =
    (case persist rt dk (pending_action rt (d_clock st) inp) st of
       (st1, Inl e) \<Rightarrow> (st1, Inl e)
     | (st1, Inr _) \<Rightarrow>
         (let p = d_next st1;
              st2 = st1\<lparr>d_resolvers := jm_set (si_id inp) p (d_resolvers st1),
                        d_rejecters := jm_set (si_id inp) p (d_rejecters st1),
                        d_next := p + 1\<rparr>
          in (arm_timer (si_id inp) (si_delay inp) st2, Inr p)))"

definition clear_timeout :: "nat \<Rightarrow> delay_state \<Rightarrow> delay_state" where
  "clear_timeout h st = st\<lparr>d_timers := filter (\<lambda>t. tm_handle t \<noteq> h) (d_timers st)\<rparr>"

definition cancel_delayed_action ::
  "runtime \<Rightarrow> disk \<Rightarrow> string \<Rightarrow> delay_state \<Rightarrow> delay_state \<times> unit res" where
  "cancel_delayed_action rt dk i st =
    (case read_record rt i st of
       Inl e \<Rightarrow> (st, Inl e)
     | Inr None \<Rightarrow> (st, Inr ())
     | Inr (Some rec) \<Rightarrow>
         if field rec ''status'' \<noteq> JStr ''pending'' then (st, Inr ())
         else (case persist rt dk (set_field ''status'' (JStr ''cancelled'') rec) st of
                 (st1, Inl e) \<Rightarrow> (st1, Inl e)
               | (st1, Inr _) \<Rightarrow>
                   (let st2 = (case jm_get (d_live st1) i of
                                 None \<Rightarrow> st1
                               | Some h \<Rightarrow> (clear_timeout h st1)\<lparr>d_live := jm_del i (d_live st1)\<rparr>)
                    in (case jm_get (d_rejecters st2) i of
                          None \<Rightarrow> st2
                        | Some p \<Rightarrow>
                            settle p (Inl (Error (''Action '' @ i @ '' cancelled by operator'')))
                              (st2\<lparr>d_resolvers := jm_del i (d_resolvers st2),
                                   d_rejecters := jm_del i (d_rejecters st2)\<rparr>),
                        Inr ()))))"

text \<open>The resolver map and the rejecter map may differ: \<open>fireAction\<close> looks up the resolver.\<close>

definition fire_action ::
  "runtime \<Rightarrow> disk \<Rightarrow> string \<Rightarrow> delay_state \<Rightarrow> delay_state \<times> unit res" where
  "fire_action rt dk i st =
    (case read_record rt i st of
       Inl e \<Rightarrow> (st, Inl e)
     | Inr None \<Rightarrow> (st, Inr ())
     | Inr (Some rec) \<Rightarrow>
         if field rec ''status'' \<noteq> JStr ''pending'' then (st, Inr ())
         else (case persist rt dk (set_field ''status'' (JStr ''fired'') rec) st of
                 (st1, Inl e) \<Rightarrow> (st1, Inl e)
               | (st1, Inr _) \<Rightarrow>
                   (let st2 = st1\<lparr>d_live := jm_del i (d_live st1)\<rparr>
                    in (case jm_get (d_resolvers st2) i of
                          None \<Rightarrow> st2
                        | Some p \<Rightarrow>
                            settle p (Inr ())
                              (st2\<lparr>d_resolvers := jm_del i (d_resolvers st2),
                                   d_rejecters := jm_del i (d_rejecters st2)\<rparr>),
                        Inr ()))))"

text \<open>
  \<open>loadPendingActions\<close>: the files in sorted order, those that do not end in \<open>.json\<close> skipped. A throw
  leaves the timers armed so far. An unparseable \<open>fire_at\<close> makes the remaining time \<open>NaN\<close>, which is
  not past due and arms a timer that \<open>setTimeout\<close> fires after 1 ms.
\<close>

definition rearm :: "runtime \<Rightarrow> jsval \<Rightarrow> delay_state \<Rightarrow> delay_state" where
  "rearm rt rec st =
    (case rt_parse rt (str_of (field rec ''fire_at'')) of
       None \<Rightarrow> arm_timer (str_of (field rec ''action_id'')) 0 st
     | Some t \<Rightarrow>
         if t - d_clock st \<le> 0 then st
         else arm_timer (str_of (field rec ''action_id'')) (t - d_clock st) st)"

fun load_files ::
  "runtime \<Rightarrow> string list \<Rightarrow> delay_state \<Rightarrow> delay_state \<times> jsval list res" where
  "load_files rt [] st = (st, Inr [])"
| "load_files rt (f # fs) st =
    (if \<not> ends_with ''.json'' f then load_files rt fs st
     else case jm_get (d_files st) f of
       None \<Rightarrow> (st, Inl (IoError ''ENOENT''))
     | Some None \<Rightarrow> (st, Inl (Error ''JSON''))
     | Some (Some raw) \<Rightarrow>
         if \<not> is_signed_pending_action raw \<or> \<not> verify_payload rt hmac_env raw
         then (st, Inl (Error (''Tampered or corrupt pending-action file: '' @ f)))
         else
           let rec = field raw ''payload'' in
           if field rec ''status'' \<noteq> JStr ''pending'' then load_files rt fs st
           else
             (case load_files rt fs (rearm rt rec st) of
                   (st2, Inl e) \<Rightarrow> (st2, Inl e)
                 | (st2, Inr rs) \<Rightarrow> (st2, Inr (rec # rs))))"

definition load_pending_actions :: "runtime \<Rightarrow> delay_state \<Rightarrow> delay_state \<times> jsval list res" where
  "load_pending_actions rt st = load_files rt (sort (map fst (d_files st))) st"

text \<open>A daemon restart: the disk and what has settled stay, the process memory is gone.\<close>

definition restart :: "delay_state \<Rightarrow> delay_state" where
  "restart st = st\<lparr>d_timers := [], d_live := [], d_resolvers := [], d_rejecters := []\<rparr>"

section \<open>The machine\<close>

datatype delay_event =
    Schedule disk schedule_input
  | Cancel disk string
  | Fire disk nat
  | Load
  | Restart
  | Tick nat

text \<open>The event loop runs the callback of a due timer, which is gone before it runs.\<close>

definition fire_timer :: "runtime \<Rightarrow> disk \<Rightarrow> nat \<Rightarrow> delay_state \<Rightarrow> delay_state" where
  "fire_timer rt dk h st =
    (case find (\<lambda>t. tm_handle t = h \<and> tm_due t \<le> d_clock st) (d_timers st) of
       None \<Rightarrow> st
     | Some t \<Rightarrow> fst (fire_action rt dk (tm_id t) (clear_timeout h st)))"

fun delay_step :: "runtime \<Rightarrow> delay_event \<Rightarrow> delay_state \<Rightarrow> delay_state" where
  "delay_step rt (Schedule dk inp) st = fst (schedule_delayed_action rt dk inp st)"
| "delay_step rt (Cancel dk i) st = fst (cancel_delayed_action rt dk i st)"
| "delay_step rt (Fire dk h) st = fire_timer rt dk h st"
| "delay_step rt Load st = fst (load_pending_actions rt st)"
| "delay_step rt Restart st = restart st"
| "delay_step rt (Tick n) st = st\<lparr>d_clock := d_clock st + int n\<rparr>"

abbreviation delay_run :: "runtime \<Rightarrow> delay_event list \<Rightarrow> delay_state \<Rightarrow> delay_state" where
  "delay_run rt evs st \<equiv> fold (delay_step rt) evs st"

section \<open>Well-formed state\<close>

definition signed_ok :: "runtime \<Rightarrow> jsval \<Rightarrow> bool" where
  "signed_ok rt raw \<longleftrightarrow> is_signed_pending_action raw \<and> verify_payload rt hmac_env raw"

abbreviation file_of :: "string \<Rightarrow> string" where
  "file_of i \<equiv> i @ ''.json''"

abbreviation act_of :: "jsval \<Rightarrow> string" where
  "act_of rec \<equiv> str_of (field rec ''action_id'')"

abbreviation is_pending :: "jsval \<Rightarrow> bool" where
  "is_pending rec \<equiv> field rec ''status'' = JStr ''pending''"

text \<open>A file that verifies is stored under the id it records: what \<open>persist\<close> keeps.\<close>

definition files_ok :: "runtime \<Rightarrow> delay_state \<Rightarrow> bool" where
  "files_ok rt st \<longleftrightarrow>
     (\<forall>f raw. jm_get (d_files st) f = Some (Some raw) \<and> signed_ok rt raw \<longrightarrow>
        f = file_of (act_of (field raw ''payload'')))"

text \<open>The two promise maps agree, and the promises in them are distinct, old and unsettled.\<close>

definition promises_ok :: "delay_state \<Rightarrow> bool" where
  "promises_ok st \<longleftrightarrow>
     d_rejecters st = d_resolvers st
     \<and> (\<forall>j q. jm_get (d_resolvers st) j = Some q \<longrightarrow> q < d_next st \<and> jm_get (d_outcomes st) q = None)
     \<and> (\<forall>j k q. jm_get (d_resolvers st) j = Some q \<and> jm_get (d_resolvers st) k = Some q \<longrightarrow> j = k)
     \<and> (\<forall>q. d_next st \<le> q \<longrightarrow> jm_get (d_outcomes st) q = None)"

definition delay_wf :: "runtime \<Rightarrow> delay_state \<Rightarrow> bool" where
  "delay_wf rt st \<longleftrightarrow> files_ok rt st \<and> promises_ok st"

lemma field_set_field [simp]:
  "is_obj v \<Longrightarrow> field (set_field k x v) j = (if j = k then x else field v j)"
  by (cases v) (auto simp: field_def update_conv' split: option.splits)

lemma is_obj_set_field [simp]: "is_obj (set_field k x v) = is_obj v"
  by (cases v) auto

lemma persist_cases:
  assumes "persist rt dk rec st = (st', r)"
  obtains (ok) s where "r = Inr ()" "sign_payload rt hmac_env rec = Inr s" "safe_id (act_of rec)"
      "st' = st\<lparr>d_files := jm_set (file_of (act_of rec)) (Some s) (d_files st)\<rparr>"
    | (torn) e where "r = Inl e" "st' = st\<lparr>d_files := jm_set (file_of (act_of rec)) None (d_files st)\<rparr>"
    | (kept) e where "r = Inl e" "st' = st"
proof -
  note defs = persist_def pending_action_path_def
  show thesis
  proof (cases "sign_payload rt hmac_env rec")
    case (Inl e)
    with assms kept show thesis by (auto simp: defs)
  next
    case (Inr s)
    show thesis
    proof (cases "safe_id (act_of rec)")
      case False
      with assms Inr kept show thesis by (auto simp: defs)
    next
      case True
      with assms Inr ok torn kept show thesis
        by (cases dk) (auto simp: defs split: if_splits)
    qed
  qed
qed

lemma read_record_at:
  assumes "safe_id i"
  shows "jm_get (d_files st) (file_of i) = None \<Longrightarrow> read_record rt i st = Inr None"
    "jm_get (d_files st) (file_of i) = Some None \<Longrightarrow> read_record rt i st = Inl (Error ''JSON'')"
    "jm_get (d_files st) (file_of i) = Some (Some raw) \<Longrightarrow> read_record rt i st =
       (if signed_ok rt raw then Inr (Some (field raw ''payload''))
        else Inl (Error (''HMAC mismatch on '' @ i)))"
  using assms by (auto simp: read_record_def pending_action_path_def signed_ok_def)

lemma read_record_unsafe:
  "\<not> safe_id i \<Longrightarrow> read_record rt i st = Inl (Error (''Invalid action_id: '' @ i))"
  by (simp add: read_record_def pending_action_path_def)

lemma read_record_SomeD:
  assumes "read_record rt i st = Inr (Some rec)"
  obtains raw where "safe_id i" "jm_get (d_files st) (file_of i) = Some (Some raw)"
    "signed_ok rt raw" "field raw ''payload'' = rec"
proof (cases "safe_id i")
  case True
  with assms that show thesis
    by (cases "jm_get (d_files st) (file_of i)"; cases "the (jm_get (d_files st) (file_of i))")
       (simp_all add: read_record_at split: if_splits)
qed (use assms in \<open>simp add: read_record_unsafe\<close>)

lemma signed_ok_payload: "signed_ok rt raw \<Longrightarrow> is_obj (field raw ''payload'')"
  by (simp add: signed_ok_def is_signed_pending_action_def)

lemma read_record_act:
  assumes "files_ok rt st" "read_record rt i st = Inr (Some rec)"
  shows "act_of rec = i" "is_obj rec"
proof -
  from assms(2) obtain raw where raw: "jm_get (d_files st) (file_of i) = Some (Some raw)"
    "signed_ok rt raw" "field raw ''payload'' = rec"
    by (rule read_record_SomeD)
  with assms(1) have "file_of i = file_of (act_of rec)"
    unfolding files_ok_def by blast
  then show "act_of rec = i" by simp
  show "is_obj rec" using signed_ok_payload [OF raw(2)] raw(3) by simp
qed

lemma files_okI:
  "(\<And>f raw. jm_get (d_files st) f = Some (Some raw) \<Longrightarrow> signed_ok rt raw \<Longrightarrow>
      f = file_of (act_of (field raw ''payload''))) \<Longrightarrow> files_ok rt st"
  by (simp add: files_ok_def)

lemma files_okD:
  "files_ok rt st \<Longrightarrow> jm_get (d_files st) f = Some (Some raw) \<Longrightarrow> signed_ok rt raw \<Longrightarrow>
     f = file_of (act_of (field raw ''payload''))"
  unfolding files_ok_def by blast

lemma files_ok_set:
  assumes "files_ok rt st"
    and "\<And>raw. v = Some raw \<Longrightarrow> f = file_of (act_of (field raw ''payload''))"
  shows "files_ok rt (st\<lparr>d_files := jm_set f v (d_files st)\<rparr>)"
proof (rule files_okI)
  fix g raw assume g: "jm_get (d_files (st\<lparr>d_files := jm_set f v (d_files st)\<rparr>)) g = Some (Some raw)"
    and s: "signed_ok rt raw"
  show "g = file_of (act_of (field raw ''payload''))"
  proof (cases "g = f")
    case True
    with g have "v = Some raw" by (simp add: store_simps)
    with assms(2) True show ?thesis by blast
  next
    case False
    with g have "jm_get (d_files st) g = Some (Some raw)" by (simp add: store_simps)
    then show ?thesis by (rule files_okD [OF assms(1) _ s])
  qed
qed

lemma promises_ok_files [simp]: "promises_ok (st\<lparr>d_files := x\<rparr>) = promises_ok st"
  by (simp add: promises_ok_def)

lemma persist_wf:
  assumes "persist rt dk rec st = (st', r)" "delay_wf rt st"
  shows "delay_wf rt st'"
  using assms(1)
proof (cases rule: persist_cases)
  case (ok s)
  have "field s ''payload'' = rec"
    by (rule env.sign_keeps_payload [OF ok(2)])
  then have "files_ok rt (st\<lparr>d_files := jm_set (file_of (act_of rec)) (Some s) (d_files st)\<rparr>)"
    using assms(2) by (intro files_ok_set) (simp_all add: delay_wf_def)
  with ok assms(2) show ?thesis by (simp add: delay_wf_def)
next
  case (torn e)
  have "files_ok rt (st\<lparr>d_files := jm_set (file_of (act_of rec)) None (d_files st)\<rparr>)"
    using assms(2) by (intro files_ok_set) (simp_all add: delay_wf_def)
  with torn assms(2) show ?thesis by (simp add: delay_wf_def)
qed (use assms(2) in simp)

lemma persist_fields:
  assumes "persist rt dk rec st = (st', r)"
  shows "d_clock st' = d_clock st" "d_timers st' = d_timers st" "d_live st' = d_live st"
    "d_resolvers st' = d_resolvers st" "d_rejecters st' = d_rejecters st"
    "d_outcomes st' = d_outcomes st" "d_next st' = d_next st"
  using assms by (cases rule: persist_cases; simp)+

lemma persist_other_file:
  assumes "persist rt dk rec st = (st', r)" "f \<noteq> file_of (act_of rec)"
  shows "jm_get (d_files st') f = jm_get (d_files st) f"
  using assms(1) by (cases rule: persist_cases) (simp_all add: store_simps assms(2))

section \<open>Every handler keeps the state well formed\<close>

lemma settle_fields [simp]:
  "d_clock (settle p r st) = d_clock st" "d_files (settle p r st) = d_files st"
  "d_timers (settle p r st) = d_timers st" "d_live (settle p r st) = d_live st"
  "d_resolvers (settle p r st) = d_resolvers st" "d_rejecters (settle p r st) = d_rejecters st"
  "d_next (settle p r st) = d_next st"
  by (simp_all add: settle_def)

lemma settle_outcome:
  "jm_get (d_outcomes (settle p r st)) q =
     (case jm_get (d_outcomes st) q of
        Some x \<Rightarrow> Some x | None \<Rightarrow> if q = p then Some (r, d_clock st) else None)"
  by (auto simp: settle_def map_add_def split: option.splits)

definition forget :: "string \<Rightarrow> delay_state \<Rightarrow> delay_state" where
  "forget i st = st\<lparr>d_resolvers := jm_del i (d_resolvers st), d_rejecters := jm_del i (d_rejecters st)\<rparr>"

lemma forget_fields [simp]:
  "d_clock (forget i st) = d_clock st" "d_files (forget i st) = d_files st"
  "d_timers (forget i st) = d_timers st" "d_live (forget i st) = d_live st"
  "d_outcomes (forget i st) = d_outcomes st" "d_next (forget i st) = d_next st"
  "d_resolvers (forget i st) = jm_del i (d_resolvers st)"
  "d_rejecters (forget i st) = jm_del i (d_rejecters st)"
  by (simp_all add: forget_def)

lemma promises_okD:
  assumes "promises_ok st"
  shows "d_rejecters st = d_resolvers st"
    "jm_get (d_resolvers st) j = Some q \<Longrightarrow> q < d_next st"
    "jm_get (d_resolvers st) j = Some q \<Longrightarrow> jm_get (d_outcomes st) q = None"
    "jm_get (d_resolvers st) j = Some q \<Longrightarrow> jm_get (d_resolvers st) k = Some q \<Longrightarrow> j = k"
    "d_next st \<le> q \<Longrightarrow> jm_get (d_outcomes st) q = None"
  using assms unfolding promises_ok_def by blast+

lemma promises_settle:
  assumes ok: "promises_ok st" and p: "jm_get (d_resolvers st) i = Some p"
  shows "promises_ok (settle p r (forget i st))"
proof -
  note D = promises_okD [OF ok]
  have "q \<noteq> p" if "jm_get (jm_del i (d_resolvers st)) j = Some q" for j q
    using that p D(4) by (auto simp: store_simps split: if_splits)
  moreover have "\<not> d_next st \<le> p" using D(2) [OF p] by simp
  ultimately show ?thesis
    using D p unfolding promises_ok_def
    by (auto simp: settle_outcome store_simps split: if_splits option.splits)
qed

lemma promises_ok_cong:
  assumes "promises_ok st" "d_rejecters st' = d_rejecters st" "d_resolvers st' = d_resolvers st"
    "d_outcomes st' = d_outcomes st" "d_next st \<le> d_next st'"
  shows "promises_ok st'"
proof -
  note D = promises_okD [OF assms(1)]
  have "q < d_next st'" if "jm_get (d_resolvers st) j = Some q" for j q
    using D(2) [OF that] assms(5) by simp
  with D show ?thesis
    unfolding promises_ok_def assms(2-4) using assms(5) by auto
qed

lemma files_ok_cong: "files_ok rt st \<Longrightarrow> d_files st' = d_files st \<Longrightarrow> files_ok rt st'"
  by (simp add: files_ok_def)

lemma wf_cong:
  assumes "delay_wf rt st" "d_files st' = d_files st" "d_rejecters st' = d_rejecters st"
    "d_resolvers st' = d_resolvers st" "d_outcomes st' = d_outcomes st" "d_next st \<le> d_next st'"
  shows "delay_wf rt st'"
  using assms files_ok_cong promises_ok_cong unfolding delay_wf_def by blast

lemma arm_timer_fields [simp]:
  "d_clock (arm_timer i d st) = d_clock st" "d_files (arm_timer i d st) = d_files st"
  "d_timers (arm_timer i d st) = d_timers st @
     [\<lparr>tm_handle = d_next st, tm_id = i, tm_due = d_clock st + timeout_ms d\<rparr>]"
  "d_resolvers (arm_timer i d st) = d_resolvers st" "d_rejecters (arm_timer i d st) = d_rejecters st"
  "d_outcomes (arm_timer i d st) = d_outcomes st" "d_next (arm_timer i d st) = d_next st + 1"
  by (simp_all add: arm_timer_def)

text \<open>What cancelling and firing share: take the pending record, write its new status, finish.\<close>

definition finish :: "string \<Rightarrow> unit res \<Rightarrow> delay_state \<Rightarrow> delay_state" where
  "finish i r st =
    (case jm_get (d_resolvers st) i of None \<Rightarrow> st | Some p \<Rightarrow> settle p r (forget i st))"

lemma finish_fields [simp]:
  "d_clock (finish i r st) = d_clock st" "d_files (finish i r st) = d_files st"
  "d_timers (finish i r st) = d_timers st" "d_next (finish i r st) = d_next st"
  by (simp_all add: finish_def split: option.split)

lemma finish_wf: "delay_wf rt st \<Longrightarrow> delay_wf rt (finish i r st)"
  unfolding delay_wf_def finish_def
  by (auto intro: promises_settle files_ok_cong split: option.split)

lemma finish_outcome:
  assumes "promises_ok st" "jm_get (d_outcomes (finish i r st)) q = Some (x, t)"
  shows "jm_get (d_outcomes st) q = Some (x, t)
    \<or> jm_get (d_resolvers st) i = Some q \<and> x = r \<and> t = d_clock st"
  using assms by (auto simp: finish_def settle_outcome split: option.splits if_splits)

lemma finish_resolvers:
  "jm_get (d_resolvers (finish i r st)) j = Some q \<Longrightarrow> jm_get (d_resolvers st) j = Some q"
  by (auto simp: finish_def store_simps split: option.splits if_splits)

text \<open>\<open>st2\<close> is \<open>st1\<close> up to the timers that were cleared and the map of live timers.\<close>

definition fewer_timers :: "delay_state \<Rightarrow> delay_state \<Rightarrow> bool" where
  "fewer_timers st2 st1 \<longleftrightarrow>
     d_clock st2 = d_clock st1 \<and> d_files st2 = d_files st1 \<and> d_resolvers st2 = d_resolvers st1
     \<and> d_rejecters st2 = d_rejecters st1 \<and> d_outcomes st2 = d_outcomes st1 \<and> d_next st2 = d_next st1
     \<and> set (d_timers st2) \<subseteq> set (d_timers st1)"

lemma fewer_wf: "fewer_timers st2 st1 \<Longrightarrow> delay_wf rt st1 \<Longrightarrow> delay_wf rt st2"
  by (rule wf_cong [of rt st1]) (auto simp: fewer_timers_def)

lemma clear_timeout_fewer: "fewer_timers (clear_timeout h st) st"
  by (auto simp: fewer_timers_def clear_timeout_def)

text \<open>A status change of action \<open>i\<close>: nothing to do, the write failed, or written and finished.\<close>

definition status_change ::
  "runtime \<Rightarrow> disk \<Rightarrow> string \<Rightarrow> string \<Rightarrow> unit res \<Rightarrow> delay_state \<Rightarrow> delay_state \<Rightarrow> bool" where
  "status_change rt dk i status r st st' \<longleftrightarrow>
     st' = st
     \<or> (\<exists>rec st1 x. read_record rt i st = Inr (Some rec) \<and> is_pending rec
          \<and> persist rt dk (set_field ''status'' (JStr status) rec) st = (st1, x)
          \<and> (case x of Inl e \<Rightarrow> st' = st1
              | Inr _ \<Rightarrow> \<exists>st2. fewer_timers st2 st1 \<and> st' = finish i r st2))"

lemma status_changeI:
  assumes "read_record rt i st = Inr (Some rec)" "is_pending rec"
    "persist rt dk (set_field ''status'' (JStr status) rec) st = (st1, x)"
  shows "x = Inl e \<Longrightarrow> status_change rt dk i status r st st1"
    and "x = Inr u \<Longrightarrow> fewer_timers st2 st1 \<Longrightarrow> status_change rt dk i status r st (finish i r st2)"
  using assms unfolding status_change_def by (auto split: sum.split)

lemma status_change_refl [simp]: "status_change rt dk i status r st st"
  by (simp add: status_change_def)

lemma fire_action_change: "status_change rt dk i ''fired'' (Inr ()) st (fst (fire_action rt dk i st))"
proof (cases "\<exists>rec. read_record rt i st = Inr (Some rec) \<and> is_pending rec")
  case True
  then obtain rec where rec: "read_record rt i st = Inr (Some rec)" "is_pending rec" by blast
  obtain st1 x where p: "persist rt dk (set_field ''status'' (JStr ''fired'') rec) st = (st1, x)"
    by fastforce
  show ?thesis
  proof (cases x)
    case (Inl e)
    with rec p show ?thesis
      by (auto simp: fire_action_def intro: status_changeI(1))
  next
    case (Inr u)
    have "fst (fire_action rt dk i st) = finish i (Inr ()) (st1\<lparr>d_live := jm_del i (d_live st1)\<rparr>)"
      using rec p Inr by (simp add: fire_action_def Let_def finish_def forget_def split: option.split)
    moreover have "fewer_timers (st1\<lparr>d_live := jm_del i (d_live st1)\<rparr>) st1"
      by (simp add: fewer_timers_def)
    ultimately show ?thesis
      using status_changeI(2) [OF rec p Inr] by simp
  qed
next
  case False
  then have "fst (fire_action rt dk i st) = st"
    by (auto simp: fire_action_def split: sum.split option.split)
  then show ?thesis by simp
qed

abbreviation cancelled_by :: "string \<Rightarrow> unit res" where
  "cancelled_by i \<equiv> Inl (Error (''Action '' @ i @ '' cancelled by operator''))"

lemma cancel_finish:
  assumes "promises_ok st" "read_record rt i st = Inr (Some rec)" "is_pending rec"
    "persist rt dk (set_field ''status'' (JStr ''cancelled'') rec) st = (st1, Inr u)"
  obtains st2 where "fewer_timers st2 st1"
    "cancel_delayed_action rt dk i st = (finish i (cancelled_by i) st2, Inr ())"
proof -
  define st2 where "st2 = (case jm_get (d_live st1) i of None \<Rightarrow> st1
    | Some h \<Rightarrow> (clear_timeout h st1)\<lparr>d_live := jm_del i (d_live st1)\<rparr>)"
  have few: "fewer_timers st2 st1"
    by (auto simp: st2_def fewer_timers_def clear_timeout_def split: option.split)
  then have "d_rejecters st2 = d_resolvers st2"
    using promises_okD(1) [OF assms(1)] persist_fields [OF assms(4)] by (simp add: fewer_timers_def)
  then have "cancel_delayed_action rt dk i st = (finish i (cancelled_by i) st2, Inr ())"
    using assms(2-4)
    by (simp add: cancel_delayed_action_def Let_def finish_def forget_def
          st2_def [symmetric] split: option.split)
  with few that show thesis by blast
qed

lemma cancel_change:
  assumes "promises_ok st"
  shows "status_change rt dk i ''cancelled'' (cancelled_by i) st (fst (cancel_delayed_action rt dk i st))"
proof (cases "\<exists>rec. read_record rt i st = Inr (Some rec) \<and> is_pending rec")
  case True
  then obtain rec where rec: "read_record rt i st = Inr (Some rec)" "is_pending rec" by blast
  obtain st1 x where p: "persist rt dk (set_field ''status'' (JStr ''cancelled'') rec) st = (st1, x)"
    by fastforce
  show ?thesis
  proof (cases x)
    case (Inl e)
    with rec p show ?thesis
      by (auto simp: cancel_delayed_action_def intro: status_changeI(1))
  next
    case (Inr u)
    with cancel_finish [OF assms rec] p obtain st2 where "fewer_timers st2 st1"
      "cancel_delayed_action rt dk i st = (finish i (cancelled_by i) st2, Inr ())" by metis
    then show ?thesis
      using status_changeI(2) [OF rec p Inr] by simp
  qed
next
  case False
  then have "fst (cancel_delayed_action rt dk i st) = st"
    by (auto simp: cancel_delayed_action_def split: sum.split option.split)
  then show ?thesis by simp
qed

text \<open>What a status change of action \<open>i\<close> may do to the rest of the state.\<close>

lemma finish_keeps: "jm_get (d_outcomes st) q = Some x \<Longrightarrow> jm_get (d_outcomes (finish i r st)) q = Some x"
  by (simp add: finish_def settle_outcome split: option.split)

definition effect ::
  "runtime \<Rightarrow> string \<Rightarrow> string \<Rightarrow> unit res \<Rightarrow> delay_state \<Rightarrow> delay_state \<Rightarrow> bool" where
  "effect rt i status r st st' \<longleftrightarrow>
     d_clock st' = d_clock st \<and> d_next st' = d_next st \<and> set (d_timers st') \<subseteq> set (d_timers st)
     \<and> (\<forall>f. f \<noteq> file_of i \<longrightarrow> jm_get (d_files st') f = jm_get (d_files st) f)
     \<and> (\<forall>j q. jm_get (d_resolvers st') j = Some q \<longrightarrow> jm_get (d_resolvers st) j = Some q)
     \<and> (\<forall>q x t. jm_get (d_outcomes st') q = Some (x, t) \<longrightarrow> jm_get (d_outcomes st) q = Some (x, t)
          \<or> jm_get (d_resolvers st) i = Some q \<and> x = r \<and> t = d_clock st)
     \<and> (\<forall>q y. jm_get (d_outcomes st) q = Some y \<longrightarrow> jm_get (d_outcomes st') q = Some y)
     \<and> (jm_get (d_files st') (file_of i) = jm_get (d_files st) (file_of i)
        \<or> (\<exists>rec. read_record rt i st = Inr (Some rec) \<and> is_pending rec
             \<and> (\<forall>s. jm_get (d_files st') (file_of i) = Some (Some s) \<longrightarrow>
                  field s ''payload'' = set_field ''status'' (JStr status) rec
                  \<or> jm_get (d_files st) (file_of i) = Some (Some s))))"

lemma effectD:
  assumes "effect rt i status r st st'"
  shows "d_clock st' = d_clock st" "d_next st' = d_next st" "set (d_timers st') \<subseteq> set (d_timers st)"
    "f \<noteq> file_of i \<Longrightarrow> jm_get (d_files st') f = jm_get (d_files st) f"
    "jm_get (d_resolvers st') j = Some q \<Longrightarrow> jm_get (d_resolvers st) j = Some q"
    "jm_get (d_outcomes st') q = Some (x, t) \<Longrightarrow> jm_get (d_outcomes st) q = Some (x, t)
          \<or> jm_get (d_resolvers st) i = Some q \<and> x = r \<and> t = d_clock st"
    "jm_get (d_outcomes st) q = Some y \<Longrightarrow> jm_get (d_outcomes st') q = Some y"
    "jm_get (d_files st') (file_of i) = jm_get (d_files st) (file_of i)
        \<or> (\<exists>rec. read_record rt i st = Inr (Some rec) \<and> is_pending rec
             \<and> (\<forall>s. jm_get (d_files st') (file_of i) = Some (Some s) \<longrightarrow>
                  field s ''payload'' = set_field ''status'' (JStr status) rec
                  \<or> jm_get (d_files st) (file_of i) = Some (Some s)))"
  using assms unfolding effect_def by blast+

lemma persist_effect:
  assumes wf: "delay_wf rt st" and rec: "read_record rt i st = Inr (Some rec)" "is_pending rec"
    and p: "persist rt dk (set_field ''status'' (JStr status) rec) st = (st1, x)"
  shows "effect rt i status r st st1"
proof -
  have act: "act_of (set_field ''status'' (JStr status) rec) = i"
    using read_record_act [OF _ rec(1)] wf by (simp add: delay_wf_def)
  have "\<forall>s. jm_get (d_files st1) (file_of i) = Some (Some s) \<longrightarrow>
      field s ''payload'' = set_field ''status'' (JStr status) rec
      \<or> jm_get (d_files st) (file_of i) = Some (Some s)"
    using p by (cases rule: persist_cases)
      (auto simp: store_simps act dest: env.sign_keeps_payload)
  moreover have "\<forall>f. f \<noteq> file_of i \<longrightarrow> jm_get (d_files st1) f = jm_get (d_files st) f"
    using persist_other_file [OF p] act by simp
  ultimately show ?thesis
    using rec persist_fields [OF p] by (simp add: effect_def)
qed

lemma finish_effect:
  assumes eff: "effect rt i status r st st1" and few: "fewer_timers st2 st1"
    and same: "d_resolvers st1 = d_resolvers st" and ok: "promises_ok st2"
  shows "effect rt i status r st (finish i r st2)"
proof -
  have "jm_get (d_resolvers st) j = Some q" if "jm_get (d_resolvers (finish i r st2)) j = Some q" for j q
    using finish_resolvers [OF that] few same by (simp add: fewer_timers_def)
  moreover have "jm_get (d_outcomes st) q = Some (x, t)
      \<or> jm_get (d_resolvers st) i = Some q \<and> x = r \<and> t = d_clock st"
    if "jm_get (d_outcomes (finish i r st2)) q = Some (x, t)" for q x t
  proof -
    have "jm_get (d_outcomes st1) q = Some (x, t)
      \<or> jm_get (d_resolvers st) i = Some q \<and> x = r \<and> t = d_clock st"
      using finish_outcome [OF ok that] few same eff by (simp add: fewer_timers_def effect_def)
    then show ?thesis using effectD(6) [OF eff] by blast
  qed
  moreover have "jm_get (d_outcomes (finish i r st2)) q = Some y"
    if "jm_get (d_outcomes st) q = Some y" for q y
    using effectD(7) [OF eff that] few by (intro finish_keeps) (simp add: fewer_timers_def)
  moreover have "d_clock st2 = d_clock st" "d_next st2 = d_next st" "d_files st2 = d_files st1"
    "set (d_timers st2) \<subseteq> set (d_timers st)"
    using eff few by (auto simp: fewer_timers_def effect_def)
  ultimately show ?thesis
    using eff unfolding effect_def by simp
qed

lemma status_change_effect:
  assumes ch: "status_change rt dk i status r st st'" and wf: "delay_wf rt st"
  shows "delay_wf rt st' \<and> effect rt i status r st st'"
  using ch unfolding status_change_def
proof (elim disjE exE conjE)
  assume "st' = st"
  with wf show ?thesis by (simp add: effect_def)
next
  fix rec st1 x
  assume rec: "read_record rt i st = Inr (Some rec)" "is_pending rec"
    and p: "persist rt dk (set_field ''status'' (JStr status) rec) st = (st1, x)"
    and x: "case x of Inl e \<Rightarrow> st' = st1 | Inr _ \<Rightarrow> \<exists>st2. fewer_timers st2 st1 \<and> st' = finish i r st2"
  have wf1: "delay_wf rt st1" by (rule persist_wf [OF p wf])
  have eff1: "effect rt i status r st st1" by (rule persist_effect [OF wf rec p])
  show ?thesis
  proof (cases x)
    case (Inl e)
    with x wf1 eff1 show ?thesis by simp
  next
    case (Inr u)
    with x obtain st2 where few: "fewer_timers st2 st1" and st': "st' = finish i r st2" by auto
    have wf2: "delay_wf rt st2" by (rule fewer_wf [OF few wf1])
    then have "effect rt i status r st st'"
      using finish_effect [OF eff1 few persist_fields(4) [OF p]] st' by (simp add: delay_wf_def)
    with finish_wf [OF wf2] st' show ?thesis by simp
  qed
qed

text \<open>The same for the steps \<open>Cancel\<close> and \<open>Fire\<close> of the machine.\<close>

lemma cancel_effect:
  "delay_wf rt st \<Longrightarrow> delay_wf rt (fst (cancel_delayed_action rt dk i st))
     \<and> effect rt i ''cancelled'' (cancelled_by i) st (fst (cancel_delayed_action rt dk i st))"
  using status_change_effect [OF cancel_change] by (simp add: delay_wf_def)

lemma fire_timer_effect:
  assumes "delay_wf rt st"
  shows "fire_timer rt dk h st = st
    \<or> (\<exists>t. t \<in> set (d_timers st) \<and> tm_due t \<le> d_clock st
         \<and> delay_wf rt (fire_timer rt dk h st)
         \<and> effect rt (tm_id t) ''fired'' (Inr ()) (clear_timeout h st) (fire_timer rt dk h st))"
proof (cases "find (\<lambda>t. tm_handle t = h \<and> tm_due t \<le> d_clock st) (d_timers st)")
  case (Some t)
  then have "t \<in> set (d_timers st)" "tm_due t \<le> d_clock st"
    by (auto simp: find_Some_iff in_set_conv_nth)
  moreover have "delay_wf rt (clear_timeout h st)"
    using fewer_wf [OF clear_timeout_fewer assms] .
  ultimately show ?thesis
    using Some status_change_effect [OF fire_action_change] by (auto simp: fire_timer_def)
qed (simp add: fire_timer_def)

text \<open>A scheduled action: the write failed, or a promise and a timer were made.\<close>

definition enqueue :: "schedule_input \<Rightarrow> delay_state \<Rightarrow> delay_state" where
  "enqueue inp st = arm_timer (si_id inp) (si_delay inp)
     (st\<lparr>d_resolvers := jm_set (si_id inp) (d_next st) (d_resolvers st),
         d_rejecters := jm_set (si_id inp) (d_next st) (d_rejecters st), d_next := d_next st + 1\<rparr>)"

lemma schedule_eq:
  "schedule_delayed_action rt dk inp st =
     (case persist rt dk (pending_action rt (d_clock st) inp) st of
        (st1, Inl e) \<Rightarrow> (st1, Inl e) | (st1, Inr _) \<Rightarrow> (enqueue inp st1, Inr (d_next st)))"
proof -
  obtain st1 x where p: "persist rt dk (pending_action rt (d_clock st) inp) st = (st1, x)" by fastforce
  show ?thesis
    using persist_fields(7) [OF p]
    by (cases x) (simp_all add: schedule_delayed_action_def p enqueue_def Let_def)
qed

lemma pending_action_fields [simp]:
  "is_obj (pending_action rt now inp)"
  "field (pending_action rt now inp) ''action_id'' = JStr (si_id inp)"
  "field (pending_action rt now inp) ''fire_at'' = JStr (rt_iso rt (now + si_delay inp))"
  "field (pending_action rt now inp) ''status'' = JStr ''pending''"
  "field (pending_action rt now inp) ''scheduled_at'' = JStr (rt_iso rt now)"
  "field (pending_action rt now inp) ''delay_ms'' = JInt (si_delay inp)"
  by (simp_all add: pending_action_def)

lemma enqueue_fields [simp]:
  "d_clock (enqueue inp st) = d_clock st" "d_files (enqueue inp st) = d_files st"
  "d_outcomes (enqueue inp st) = d_outcomes st" "d_next (enqueue inp st) = d_next st + 2"
  "d_resolvers (enqueue inp st) = jm_set (si_id inp) (d_next st) (d_resolvers st)"
  "d_rejecters (enqueue inp st) = jm_set (si_id inp) (d_next st) (d_rejecters st)"
  "d_timers (enqueue inp st) = d_timers st @ [\<lparr>tm_handle = d_next st + 1, tm_id = si_id inp,
     tm_due = d_clock st + timeout_ms (si_delay inp)\<rparr>]"
  by (simp_all add: enqueue_def)

lemma enqueue_wf:
  assumes "delay_wf rt st"
  shows "delay_wf rt (enqueue inp st)"
proof -
  have ok: "promises_ok st" and files: "files_ok rt st" using assms by (simp_all add: delay_wf_def)
  note D = promises_okD [OF ok]
  have old: "q < d_next st" if "jm_get (d_resolvers st) j = Some q" for j q by (rule D(2) [OF that])
  have old2: "q < Suc (Suc (d_next st))" if "jm_get (d_resolvers st) j = Some q" for j q
    using old [OF that] by simp
  have "promises_ok (enqueue inp st)"
    unfolding promises_ok_def
  proof (intro conjI allI impI)
    fix j k q
    assume jk: "jm_get (d_resolvers (enqueue inp st)) j = Some q
      \<and> jm_get (d_resolvers (enqueue inp st)) k = Some q"
    show "j = k"
    proof (rule ccontr)
      assume "j \<noteq> k"
      with jk old [of j q] old [of k q] D(4) [of j q k] show False
        by (auto simp: store_simps split: if_splits)
    qed
  qed (use D old2 in \<open>auto simp: store_simps split: if_splits\<close>)
  with files show ?thesis
    by (auto simp: delay_wf_def intro: files_ok_cong)
qed

lemma schedule_wf:
  assumes "delay_wf rt st"
  shows "delay_wf rt (fst (schedule_delayed_action rt dk inp st))"
proof -
  obtain st1 x where p: "persist rt dk (pending_action rt (d_clock st) inp) st = (st1, x)" by fastforce
  show ?thesis
    using persist_wf [OF p assms] enqueue_wf by (cases x) (simp_all add: schedule_eq p)
qed

text \<open>Loading only adds timers, one per pending record of a file that verifies.\<close>

definition rearmed :: "runtime \<Rightarrow> delay_state \<Rightarrow> timer \<Rightarrow> bool" where
  "rearmed rt st t \<longleftrightarrow>
     (\<exists>f raw. jm_get (d_files st) f = Some (Some raw) \<and> signed_ok rt raw
        \<and> is_pending (field raw ''payload'') \<and> tm_id t = act_of (field raw ''payload'')
        \<and> (case rt_parse rt (str_of (field (field raw ''payload'') ''fire_at'')) of
             None \<Rightarrow> tm_due t = d_clock st + 1
           | Some due \<Rightarrow> d_clock st < due \<and> tm_due t = d_clock st + timeout_ms (due - d_clock st)))"

definition same_but_timers :: "delay_state \<Rightarrow> delay_state \<Rightarrow> bool" where
  "same_but_timers st st' \<longleftrightarrow>
     d_clock st' = d_clock st \<and> d_files st' = d_files st \<and> d_resolvers st' = d_resolvers st
     \<and> d_rejecters st' = d_rejecters st \<and> d_outcomes st' = d_outcomes st \<and> d_next st \<le> d_next st'
     \<and> set (d_timers st) \<subseteq> set (d_timers st')"

lemma rearm_same: "same_but_timers st (rearm rt rec st)"
  by (auto simp: same_but_timers_def rearm_def split: option.split)

lemma rearm_timers:
  assumes "jm_get (d_files st) f = Some (Some raw)" "signed_ok rt raw" "is_pending (field raw ''payload'')"
    and "t \<in> set (d_timers (rearm rt (field raw ''payload'') st))"
  shows "t \<in> set (d_timers st) \<or> rearmed rt st t"
proof -
  let ?rec = "field raw ''payload''"
  have "t \<in> set (d_timers st)
    \<or> (tm_id t = act_of ?rec \<and> (case rt_parse rt (str_of (field ?rec ''fire_at'')) of
             None \<Rightarrow> tm_due t = d_clock st + 1
           | Some due \<Rightarrow> d_clock st < due \<and> tm_due t = d_clock st + timeout_ms (due - d_clock st)))"
    using assms(4) by (auto simp: rearm_def timeout_ms_def [of 0] split: option.splits if_splits)
  with assms(1-3) show ?thesis unfolding rearmed_def by blast
qed

lemma same_but_timers_trans:
  "same_but_timers a b \<Longrightarrow> same_but_timers b c \<Longrightarrow> same_but_timers a c"
  unfolding same_but_timers_def by auto

lemma rearmed_cong: "same_but_timers st st1 \<Longrightarrow> rearmed rt st1 t = rearmed rt st t"
  by (auto simp: rearmed_def same_but_timers_def cong: option.case_cong)

text \<open>The four ways in which the loop handles a file.\<close>

lemma load_files_cases:
  obtains (skip) "\<not> ends_with ''.json'' f" "load_files rt (f # fs) st = load_files rt fs st"
    | (bad) e where "ends_with ''.json'' f" "\<And>raw. jm_get (d_files st) f = Some (Some raw) \<Longrightarrow> \<not> signed_ok rt raw"
        "load_files rt (f # fs) st = (st, Inl e)"
    | (over) raw where "ends_with ''.json'' f" "jm_get (d_files st) f = Some (Some raw)" "signed_ok rt raw"
        "\<not> is_pending (field raw ''payload'')" "load_files rt (f # fs) st = load_files rt fs st"
    | (pending) raw where "ends_with ''.json'' f" "jm_get (d_files st) f = Some (Some raw)" "signed_ok rt raw"
        "is_pending (field raw ''payload'')"
        "load_files rt (f # fs) st =
           (let (st2, r) = load_files rt fs (rearm rt (field raw ''payload'') st)
            in (st2, rbind r (\<lambda>rs. Inr (field raw ''payload'' # rs))))"
proof (cases "ends_with ''.json'' f")
  case True
  show thesis
  proof (cases "\<exists>raw. jm_get (d_files st) f = Some (Some raw) \<and> signed_ok rt raw")
    case ex: True
    then obtain raw where raw: "jm_get (d_files st) f = Some (Some raw)" "signed_ok rt raw" by blast
    show thesis
    proof (cases "is_pending (field raw ''payload'')")
      case False
      with True raw have "load_files rt (f # fs) st = load_files rt fs st"
        by (simp add: signed_ok_def)
      with True raw False over show thesis by blast
    next
      case p: True
      obtain st2 r where l: "load_files rt fs (rearm rt (field raw ''payload'') st) = (st2, r)"
        by fastforce
      have "load_files rt (f # fs) st = (st2, rbind r (\<lambda>rs. Inr (field raw ''payload'' # rs)))"
        using True raw p by (cases r) (simp_all add: signed_ok_def l)
      with True raw p l pending show thesis by simp
    qed
  next
    case False
    then have "\<exists>e. load_files rt (f # fs) st = (st, Inl e)"
      using True by (auto simp: signed_ok_def split: option.split)
    with True False bad show thesis by blast
  qed
qed (use skip in simp)

lemma load_files_same: "same_but_timers st (fst (load_files rt fs st))"
proof (induction fs arbitrary: st)
  case (Cons f fs)
  show ?case
  proof (cases rule: load_files_cases [of f rt fs st])
    case (pending raw)
    with same_but_timers_trans [OF rearm_same Cons.IH] show ?thesis by (simp add: case_prod_beta Let_def)
  qed (use Cons.IH in \<open>simp_all add: same_but_timers_def\<close>)
qed (simp add: same_but_timers_def)

lemma load_files_timers:
  "t \<in> set (d_timers (fst (load_files rt fs st))) \<Longrightarrow> t \<in> set (d_timers st) \<or> rearmed rt st t"
proof (induction fs arbitrary: st)
  case (Cons f fs)
  show ?case
  proof (cases rule: load_files_cases [of f rt fs st])
    case (pending raw)
    let ?st = "rearm rt (field raw ''payload'') st"
    have "t \<in> set (d_timers ?st) \<or> rearmed rt ?st t"
      using Cons pending by (simp add: case_prod_beta Let_def)
    then show ?thesis
      using rearm_timers [OF pending(2-4)] rearmed_cong [OF rearm_same] by blast
  qed (use Cons in auto)
qed simp

lemma load_wf: "delay_wf rt st \<Longrightarrow> delay_wf rt (fst (load_pending_actions rt st))"
  using load_files_same [of st rt "sort (map fst (d_files st))"]
  by (auto simp: load_pending_actions_def same_but_timers_def elim: wf_cong)

lemma restart_wf: "delay_wf rt st \<Longrightarrow> delay_wf rt (restart st)"
  by (auto simp: delay_wf_def promises_ok_def files_ok_def restart_def)

lemma delay_step_wf: "delay_wf rt st \<Longrightarrow> delay_wf rt (delay_step rt ev st)"
proof (cases ev)
  case (Fire dk h)
  then show "delay_wf rt st \<Longrightarrow> ?thesis" using fire_timer_effect [of rt st dk h] by auto
next
  case (Tick n)
  then show "delay_wf rt st \<Longrightarrow> ?thesis" by (auto elim!: wf_cong)
qed (simp_all add: schedule_wf cancel_effect load_wf restart_wf)

interpretation delay_machine: invariant_machine "delay_step rt" "\<lambda>_. True" "delay_wf rt" for rt
  by unfold_locales (rule delay_step_wf)

section \<open>An action never fires before its time\<close>

fun schedules :: "string \<Rightarrow> delay_event \<Rightarrow> bool" where
  "schedules i (Schedule dk inp) = (si_id inp = i)"
| "schedules i _ = False"

text \<open>What holds of action \<open>i\<close>, its promise \<open>p\<close> and its time \<open>due\<close> from the moment it is scheduled.\<close>

definition not_before :: "runtime \<Rightarrow> string \<Rightarrow> nat \<Rightarrow> int \<Rightarrow> delay_state \<Rightarrow> bool" where
  "not_before rt i p due st \<longleftrightarrow>
     delay_wf rt st \<and> p < d_next st \<and> due - d_clock st \<le> MAX_TIMEOUT
     \<and> (\<forall>t \<in> set (d_timers st). tm_id t = i \<longrightarrow> due \<le> tm_due t)
     \<and> (\<forall>raw. jm_get (d_files st) (file_of i) = Some (Some raw) \<and> signed_ok rt raw
            \<and> is_pending (field raw ''payload'') \<longrightarrow>
          rt_parse rt (str_of (field (field raw ''payload'') ''fire_at'')) = Some due)
     \<and> (\<forall>j. jm_get (d_resolvers st) j = Some p \<longrightarrow> j = i)
     \<and> (\<forall>t. jm_get (d_outcomes st) p = Some (Inr (), t) \<longrightarrow> due \<le> t \<and> t \<le> d_clock st)"

lemma not_beforeD:
  assumes "not_before rt i p due st"
  shows "delay_wf rt st" "p < d_next st" "due - d_clock st \<le> MAX_TIMEOUT"
    "t \<in> set (d_timers st) \<Longrightarrow> tm_id t = i \<Longrightarrow> due \<le> tm_due t"
    "jm_get (d_files st) (file_of i) = Some (Some raw) \<Longrightarrow> signed_ok rt raw \<Longrightarrow>
       is_pending (field raw ''payload'') \<Longrightarrow>
       rt_parse rt (str_of (field (field raw ''payload'') ''fire_at'')) = Some due"
    "jm_get (d_resolvers st) j = Some p \<Longrightarrow> j = i"
    "jm_get (d_outcomes st) p = Some (Inr (), u) \<Longrightarrow> due \<le> u \<and> u \<le> d_clock st"
  using assms unfolding not_before_def by blast+

lemma not_before_effect:
  assumes nb: "not_before rt i p due st" and wf: "delay_wf rt st'"
    and eff: "effect rt j status r st st'" and status: "status \<noteq> ''pending''"
    and time: "r = Inr () \<Longrightarrow> j = i \<Longrightarrow> due \<le> d_clock st"
  shows "not_before rt i p due st'"
  unfolding not_before_def
proof (intro conjI allI ballI impI)
  note D = not_beforeD [OF nb] and E = effectD [OF eff]
  show "delay_wf rt st'" by fact
  show "p < d_next st'" "due - d_clock st' \<le> MAX_TIMEOUT" using D(2,3) E(1,2) by simp_all
  show "due \<le> tm_due t" if "t \<in> set (d_timers st')" "tm_id t = i" for t using D(4) E(3) that by blast
  show "k = i" if "jm_get (d_resolvers st') k = Some p" for k using D(6) E(5) that by blast
  show "due \<le> t" "t \<le> d_clock st'" if "jm_get (d_outcomes st') p = Some (Inr (), t)" for t
    using E(6) [OF that] E(1) D(6) D(7) time by auto
  fix raw assume raw: "jm_get (d_files st') (file_of i) = Some (Some raw) \<and> signed_ok rt raw
    \<and> is_pending (field raw ''payload'')"
  have "jm_get (d_files st) (file_of i) = Some (Some raw)"
  proof (cases "j = i")
    case True
    have "files_ok rt st" using D(1) by (simp add: delay_wf_def)
    then have "is_obj rec" if "read_record rt j st = Inr (Some rec)" for rec
      using read_record_act(2) that by blast
    then show ?thesis
      using E(8) raw True status by auto
  next
    case False
    with E(4) [of "file_of i"] raw show ?thesis by simp
  qed
  then show "rt_parse rt (str_of (field (field raw ''payload'') ''fire_at'')) = Some due"
    using raw by (intro D(5)) auto
qed

lemma not_before_same:
  assumes nb: "not_before rt i p due st" and same: "same_but_timers st st'"
    and timers: "\<And>t. t \<in> set (d_timers st') \<Longrightarrow> t \<in> set (d_timers st) \<or> rearmed rt st t"
  shows "not_before rt i p due st'"
proof -
  note D = not_beforeD [OF nb]
  have eqs: "d_clock st' = d_clock st" "d_files st' = d_files st" "d_resolvers st' = d_resolvers st"
    "d_rejecters st' = d_rejecters st" "d_outcomes st' = d_outcomes st" "d_next st \<le> d_next st'"
    using same by (simp_all add: same_but_timers_def)
  have wf: "delay_wf rt st'" by (rule wf_cong [OF D(1)]) (use eqs in simp_all)
  have "due \<le> tm_due t" if t: "t \<in> set (d_timers st')" "tm_id t = i" for t
    using timers [OF t(1)]
  proof
    assume "rearmed rt st t"
    then obtain f raw where raw: "jm_get (d_files st) f = Some (Some raw)" "signed_ok rt raw"
      "is_pending (field raw ''payload'')" "tm_id t = act_of (field raw ''payload'')"
      "case rt_parse rt (str_of (field (field raw ''payload'') ''fire_at'')) of
         None \<Rightarrow> tm_due t = d_clock st + 1
       | Some d \<Rightarrow> d_clock st < d \<and> tm_due t = d_clock st + timeout_ms (d - d_clock st)"
      unfolding rearmed_def by blast
    have "f = file_of i"
      using files_okD [OF _ raw(1,2)] D(1) raw(4) t(2) by (simp add: delay_wf_def)
    then have "rt_parse rt (str_of (field (field raw ''payload'') ''fire_at'')) = Some due"
      using D(5) raw by blast
    with raw(5) D(3) show ?thesis by (simp add: timeout_ms_id)
  qed (use D(4) t in blast)
  with D eqs wf show ?thesis unfolding not_before_def by auto
qed

lemma not_before_schedule:
  assumes nb: "not_before rt i p due st" and other: "si_id inp \<noteq> i"
  shows "not_before rt i p due (fst (schedule_delayed_action rt dk inp st))"
proof -
  obtain st1 x where p: "persist rt dk (pending_action rt (d_clock st) inp) st = (st1, x)" by fastforce
  note D = not_beforeD [OF nb] and pf = persist_fields [OF p]
  have fl: "jm_get (d_files st1) (file_of i) = jm_get (d_files st) (file_of i)"
    using persist_other_file [OF p] other by simp
  have nb1: "not_before rt i p due st1"
    using nb persist_wf [OF p D(1)] unfolding not_before_def fl pf by simp
  show ?thesis
  proof (cases x)
    case (Inl e)
    with nb1 show ?thesis by (simp add: schedule_eq p)
  next
    case (Inr u)
    note D1 = not_beforeD [OF nb1]
    have "not_before rt i p due (enqueue inp st1)"
      using D1 enqueue_wf [OF D1(1)] other unfolding not_before_def
      by (auto simp: store_simps split: if_splits)
    with Inr show ?thesis by (simp add: schedule_eq p)
  qed
qed

lemma not_before_step:
  assumes nb: "not_before rt i p due st" and ev: "\<not> schedules i ev"
  shows "not_before rt i p due (delay_step rt ev st)"
proof (cases ev)
  case (Schedule dk inp)
  with nb ev show ?thesis by (simp add: not_before_schedule)
next
  case (Cancel dk j)
  have "delay_wf rt (fst (cancel_delayed_action rt dk j st))"
    "effect rt j ''cancelled'' (cancelled_by j) st (fst (cancel_delayed_action rt dk j st))"
    using cancel_effect not_beforeD(1) [OF nb] by blast+
  from not_before_effect [OF nb this] show ?thesis by (simp add: Cancel)
next
  case (Fire dk h)
  show ?thesis
  proof (cases "fire_timer rt dk h st = st")
    case False
    with fire_timer_effect [OF not_beforeD(1) [OF nb]] obtain t where
      t: "t \<in> set (d_timers st)" "tm_due t \<le> d_clock st" "delay_wf rt (fire_timer rt dk h st)"
        "effect rt (tm_id t) ''fired'' (Inr ()) (clear_timeout h st) (fire_timer rt dk h st)"
      by blast
    have "same_but_timers (clear_timeout h st) st" "fewer_timers (clear_timeout h st) st"
      by (auto simp: same_but_timers_def clear_timeout_def fewer_timers_def)
    then have nb1: "not_before rt i p due (clear_timeout h st)"
      using nb fewer_wf unfolding not_before_def fewer_timers_def by fastforce
    have "due \<le> d_clock (clear_timeout h st)" if "tm_id t = i"
      using not_beforeD(4) [OF nb t(1) that] t(2) by (simp add: clear_timeout_def)
    with not_before_effect [OF nb1 t(3,4)] show ?thesis by (simp add: Fire)
  qed (use nb Fire in simp)
next
  case Load
  show ?thesis
    unfolding Load delay_step.simps load_pending_actions_def
    by (rule not_before_same [OF nb load_files_same load_files_timers])
next
  case Restart
  with nb restart_wf show ?thesis
    by (auto simp: not_before_def restart_def)
next
  case (Tick n)
  have "delay_wf rt (st\<lparr>d_clock := d_clock st + int n\<rparr>)"
    using delay_step_wf [OF not_beforeD(1) [OF nb], of "Tick n"] by simp
  with nb show ?thesis unfolding Tick by (auto simp: not_before_def)
qed

interpretation timed_action: invariant_machine "delay_step rt" "\<lambda>ev. \<not> schedules i ev" "not_before rt i p due"
  for rt i p due
  by unfold_locales (rule not_before_step)

lemma schedule_not_before:
  assumes wf: "delay_wf rt st" and run: "schedule_delayed_action rt dk inp st = (st', Inr p)"
    and fresh: "\<forall>t \<in> set (d_timers st). tm_id t \<noteq> si_id inp"
    and delay: "1 \<le> si_delay inp" "si_delay inp \<le> MAX_TIMEOUT"
    and iso: "rt_parse rt (rt_iso rt (d_clock st + si_delay inp)) = Some (d_clock st + si_delay inp)"
  shows "not_before rt (si_id inp) p (d_clock st + si_delay inp) st'"
proof -
  obtain st1 x where ps: "persist rt dk (pending_action rt (d_clock st) inp) st = (st1, x)" by fastforce
  with run obtain u where x: "x = Inr u" and st': "st' = enqueue inp st1" and p: "p = d_next st"
    by (cases x) (auto simp: schedule_eq)
  note pf = persist_fields [OF ps]
  have "delay_wf rt st'" using schedule_wf [OF wf, of dk inp] run by simp
  moreover have "field raw ''payload'' = pending_action rt (d_clock st) inp"
    if "jm_get (d_files st1) (file_of (si_id inp)) = Some (Some raw)" for raw
    using ps x that by (cases rule: persist_cases) (auto simp: store_simps dest: env.sign_keeps_payload)
  moreover have "promises_ok st" using wf by (simp add: delay_wf_def)
  note P = promises_okD [OF this]
  ultimately show ?thesis
    using P(2) [of _ "d_next st"] P(5) [of "d_next st"] fresh delay iso
    by (auto simp: not_before_def st' p pf timeout_ms_id store_simps split: if_splits)
qed

text \<open>
  C2: once an action is scheduled with a delay that \<open>setTimeout\<close> can hold and no earlier timer
  of that id is armed, its promise never resolves before the delay has passed: not after restarts and
  reloads of the state files, nor failed or torn writes, nor schedules, cancellations and timers of
  any other action, in any order and with any passage of time, as long as the same id is not
  scheduled again. Only the round trip of the time stamp is assumed of the platform.
\<close>

theorem delay_never_early:
  assumes disk: "delay_wf rt st0"
    and run: "schedule_delayed_action rt dk inp (delay_run rt evs st0) = (st, Inr p)"
    and fresh: "\<forall>t \<in> set (d_timers (delay_run rt evs st0)). tm_id t \<noteq> si_id inp"
    and delay: "1 \<le> si_delay inp" "si_delay inp \<le> MAX_TIMEOUT"
    and iso: "\<forall>t. rt_parse rt (rt_iso rt t) = Some t"
    and later: "list_all (\<lambda>ev. \<not> schedules (si_id inp) ev) evs'"
    and resolved: "jm_get (d_outcomes (delay_run rt evs' st)) p = Some (Inr (), t)"
  shows "d_clock (delay_run rt evs st0) + si_delay inp \<le> t"
proof -
  have "delay_wf rt (delay_run rt evs st0)"
    by (rule delay_machine.run_keeps [OF disk]) (simp add: list_all_iff)
  then have "not_before rt (si_id inp) p (d_clock (delay_run rt evs st0) + si_delay inp) st"
    using schedule_not_before run fresh delay iso by blast
  from not_beforeD(7) [OF timed_action.run_keeps [OF this later] resolved] show ?thesis
    by simp
qed

subsection \<open>And it does fire\<close>

lemma scheduled_file:
  assumes "schedule_delayed_action rt dk inp st = (st', Inr p)"
  obtains s where "safe_id (si_id inp)" "jm_get (d_files st') (file_of (si_id inp)) = Some (Some s)"
    "signed_ok rt s" "field s ''payload'' = pending_action rt (d_clock st) inp"
proof -
  obtain st1 x where ps: "persist rt dk (pending_action rt (d_clock st) inp) st = (st1, x)" by fastforce
  with assms obtain u where x: "x = Inr u" and st': "st' = enqueue inp st1"
    by (cases x) (auto simp: schedule_eq)
  from ps show thesis
  proof (cases rule: persist_cases)
    case (ok s)
    have "signed_ok rt s"
      using env.sign_verifies [OF ok(2)] env.sign_keeps_payload [OF ok(2)] env.sign_shape [OF ok(2)]
      by (simp add: signed_ok_def is_signed_pending_action_def)
    with ok that st' env.sign_keeps_payload [OF ok(2)] show thesis by (simp add: store_simps)
  qed (use x in simp_all)
qed

lemma persist_DiskOk:
  assumes "signed_ok rt s" "safe_id (act_of (field s ''payload''))"
    and "is_json (set_field ''status'' (JStr x) (field s ''payload''))"
  obtains s' where "persist rt DiskOk (set_field ''status'' (JStr x) (field s ''payload'')) st =
    (st\<lparr>d_files := jm_set (file_of (act_of (field s ''payload''))) (Some s') (d_files st)\<rparr>, Inr ())"
    "field s' ''payload'' = set_field ''status'' (JStr x) (field s ''payload'')"
proof -
  let ?rec = "set_field ''status'' (JStr x) (field s ''payload'')"
  obtain key where key: "get_secret rt hmac_env = Inr key"
    using assms(1) by (auto simp: signed_ok_def verify_payload_mac)
  then obtain s' where s': "sign_payload rt hmac_env ?rec = Inr s'"
    using assms(3) sign_payload_Inr by blast
  have "act_of ?rec = act_of (field s ''payload'')"
    using signed_ok_payload [OF assms(1)] by simp
  with s' assms(2) env.sign_keeps_payload [OF s'] that show thesis
    by (simp add: persist_def pending_action_path_def)
qed

lemma is_json_set_field: "is_json v \<Longrightarrow> is_json (set_field k (JStr x) v)"
proof (cases v)
  case (JObj kvs)
  have "kv \<in> set (jm_set k (JStr x) kvs) \<Longrightarrow> kv = (k, JStr x) \<or> kv \<in> set kvs" for kv
    using set_jm_set [of k "JStr x" kvs] by auto
  then show "is_json v \<Longrightarrow> ?thesis" by (fastforce simp: JObj all_json_members_iff)
qed auto

lemma signed_ok_is_json: "signed_ok rt s \<Longrightarrow> is_json (field s ''payload'')"
  by (auto simp: signed_ok_def verify_payload_mac)

lemma fire_action_pending:
  assumes "safe_id i" "jm_get (d_files st) (file_of i) = Some (Some s)" "signed_ok rt s"
    "is_pending (field s ''payload'')" "act_of (field s ''payload'') = i"
  obtains s' where "field s' ''payload'' = set_field ''status'' (JStr ''fired'') (field s ''payload'')"
    "fire_action rt DiskOk i st =
       (finish i (Inr ()) (st\<lparr>d_files := jm_set (file_of i) (Some s') (d_files st),
                              d_live := jm_del i (d_live st)\<rparr>), Inr ())"
proof -
  have rec: "read_record rt i st = Inr (Some (field s ''payload''))"
    using assms by (simp add: read_record_at)
  obtain s' where s': "field s' ''payload'' = set_field ''status'' (JStr ''fired'') (field s ''payload'')"
    "persist rt DiskOk (set_field ''status'' (JStr ''fired'') (field s ''payload'')) st =
      (st\<lparr>d_files := jm_set (file_of i) (Some s') (d_files st)\<rparr>, Inr ())"
    using persist_DiskOk [OF assms(3), of "''fired''" st] assms
      is_json_set_field [OF signed_ok_is_json [OF assms(3)]] by metis
  have "fire_action rt DiskOk i st =
       (finish i (Inr ()) (st\<lparr>d_files := jm_set (file_of i) (Some s') (d_files st),
                              d_live := jm_del i (d_live st)\<rparr>), Inr ())"
    using rec assms(4) s'(2)
    by (simp add: fire_action_def Let_def finish_def forget_def split: option.split)
  with s'(1) that show thesis by blast
qed

lemma fire_timer_resolves:
  assumes wf: "delay_wf rt st" and p: "jm_get (d_resolvers st) i = Some p"
    and t: "find (\<lambda>t. tm_handle t = h \<and> tm_due t \<le> d_clock st) (d_timers st) = Some t" "tm_id t = i"
    and s: "safe_id i" "jm_get (d_files st) (file_of i) = Some (Some s)" "signed_ok rt s"
      "is_pending (field s ''payload'')"
  shows "jm_get (d_outcomes (fire_timer rt DiskOk h st)) p = Some (Inr (), d_clock st)"
proof -
  define st2 where "st2 = clear_timeout h st"
  have st2: "d_files st2 = d_files st" "d_resolvers st2 = d_resolvers st" "d_outcomes st2 = d_outcomes st"
    "d_clock st2 = d_clock st"
    by (simp_all add: st2_def clear_timeout_def)
  have "files_ok rt st" "promises_ok st" using wf by (simp_all add: delay_wf_def)
  then have act: "act_of (field s ''payload'') = i" and new: "jm_get (d_outcomes st) p = None"
    using files_okD s(2,3) promises_okD(3) p by fastforce+
  obtain s' where "fire_action rt DiskOk i st2 =
     (finish i (Inr ()) (st2\<lparr>d_files := jm_set (file_of i) (Some s') (d_files st2),
                             d_live := jm_del i (d_live st2)\<rparr>), Inr ())"
    using fire_action_pending [of i st2 s rt] s st2 act by auto
  with p new t show ?thesis
    by (simp add: fire_timer_def st2_def [symmetric] finish_def settle_outcome st2)
qed

text \<open>A state with one timer, just scheduled: it fires after its (31-bit) delay.\<close>

lemma schedule_then_fire:
  assumes wf: "delay_wf rt st" and idle: "d_timers st = []"
    and run: "schedule_delayed_action rt dk inp st = (st1, Inr p)"
    and delay: "timeout_ms (si_delay inp) \<le> int n"
  shows "jm_get (d_outcomes (delay_run rt [Tick n, Fire DiskOk (p + 1)] st1)) p
    = Some (Inr (), d_clock st + int n)"
proof -
  let ?i = "si_id inp" and ?st = "st1\<lparr>d_clock := d_clock st1 + int n\<rparr>"
  obtain st0 x where ps: "persist rt dk (pending_action rt (d_clock st) inp) st = (st0, x)" by fastforce
  with run obtain u where st1: "st1 = enqueue inp st0" and p: "p = d_next st"
    by (cases x) (auto simp: schedule_eq)
  note pf = persist_fields [OF ps]
  obtain s where s: "safe_id ?i" "jm_get (d_files st1) (file_of ?i) = Some (Some s)"
    "signed_ok rt s" "field s ''payload'' = pending_action rt (d_clock st) inp"
    using scheduled_file [OF run] by blast
  have "delay_wf rt st1" using schedule_wf [OF wf, of dk inp] run by simp
  then have wf1: "delay_wf rt ?st" using delay_step_wf [of rt st1 "Tick n"] by simp
  have "jm_get (d_outcomes (fire_timer rt DiskOk (p + 1) ?st)) p = Some (Inr (), d_clock ?st)"
    by (rule fire_timer_resolves [OF wf1, where i = ?i and s = s and
          t = "\<lparr>tm_handle = p + 1, tm_id = ?i, tm_due = d_clock st + timeout_ms (si_delay inp)\<rparr>"])
       (use s delay in \<open>simp_all add: st1 pf p store_simps idle\<close>)
  then show ?thesis by (simp add: st1 pf)
qed

definition demo_delay :: delay_state where
  "demo_delay = \<lparr>d_clock = 100, d_files = [], d_timers = [], d_live = [], d_resolvers = [],
     d_rejecters = [], d_outcomes = [], d_next = 0\<rparr>"

lemma demo_delay_wf: "delay_wf rt demo_delay"
  by (simp add: demo_delay_def delay_wf_def files_ok_def promises_ok_def)

definition demo_input :: schedule_input where
  "demo_input = \<lparr>si_id = ''upgrade-1'', si_delay = 5000, si_report = Some ''ok''\<rparr>"

lemma schedule_succeeds:
  assumes "get_secret rt hmac_env = Inr key" "safe_id (si_id inp)"
  shows "\<exists>st'. schedule_delayed_action rt DiskOk inp st = (st', Inr (d_next st))"
proof -
  have "is_json (pending_action rt (d_clock st) inp)"
    by (cases "si_report inp") (simp_all add: pending_action_def)
  with assms(1) obtain s where "sign_payload rt hmac_env (pending_action rt (d_clock st) inp) = Inr s"
    using sign_payload_Inr by blast
  then show ?thesis
    by (simp add: schedule_eq persist_def pending_action_path_def assms(2))
qed

lemma demo_schedule_any:
  assumes "si_id inp = ''upgrade-1''"
  shows "\<exists>st'. schedule_delayed_action demo_rt DiskOk inp st = (st', Inr (d_next st))"
  by (rule schedule_succeeds [OF demo_secret])
     (simp add: assms safe_id_def is_alnum_def is_digit_def is_upper_def is_lower_def)

lemma demo_schedule:
  obtains st where "schedule_delayed_action demo_rt DiskOk demo_input demo_delay = (st, Inr 0)"
  using demo_schedule_any [of demo_input demo_delay] by (auto simp: demo_input_def demo_delay_def)

theorem delay_never_early_witness:
  "\<exists>st t. schedule_delayed_action demo_rt DiskOk demo_input demo_delay = (st, Inr 0)
     \<and> jm_get (d_outcomes (delay_run demo_rt [Tick 6000, Fire DiskOk 1] st)) 0 = Some (Inr (), t)
     \<and> 5100 \<le> t"
proof -
  obtain st where st: "schedule_delayed_action demo_rt DiskOk demo_input demo_delay = (st, Inr 0)"
    by (rule demo_schedule)
  have "jm_get (d_outcomes (delay_run demo_rt [Tick 6000, Fire DiskOk (0 + 1)] st)) 0
    = Some (Inr (), d_clock demo_delay + int 6000)"
    by (rule schedule_then_fire [OF demo_delay_wf _ st])
       (simp_all add: demo_delay_def demo_input_def MAX_TIMEOUT_def timeout_ms_def)
  then have r: "jm_get (d_outcomes (delay_run demo_rt [Tick 6000, Fire DiskOk 1] st)) 0
    = Some (Inr (), d_clock demo_delay + int 6000)" by (simp only: One_nat_def add_0)
  have "d_clock (delay_run demo_rt [] demo_delay) + si_delay demo_input \<le> d_clock demo_delay + int 6000"
  proof (rule delay_never_early [OF demo_delay_wf, of _ DiskOk _ _ st 0 "[Tick 6000, Fire DiskOk 1]"])
    show "schedule_delayed_action demo_rt DiskOk demo_input (delay_run demo_rt [] demo_delay) = (st, Inr 0)"
      using st by simp
    show "jm_get (d_outcomes (delay_run demo_rt [Tick 6000, Fire DiskOk 1] st)) 0
      = Some (Inr (), d_clock demo_delay + int 6000)" by (rule r)
  qed (simp_all add: demo_delay_def demo_input_def MAX_TIMEOUT_def)
  with st r show ?thesis by (auto simp: demo_delay_def demo_input_def)
qed

subsection \<open>A settled promise stays settled\<close>

definition settled_as :: "runtime \<Rightarrow> nat \<Rightarrow> unit res \<times> int \<Rightarrow> delay_state \<Rightarrow> bool" where
  "settled_as rt p r st \<longleftrightarrow> delay_wf rt st \<and> jm_get (d_outcomes st) p = Some r"

lemma settled_as_step:
  assumes s: "settled_as rt p r st"
  shows "settled_as rt p r (delay_step rt ev st)"
proof -
  have wf: "delay_wf rt st" using s by (simp add: settled_as_def)
  have "jm_get (d_outcomes (delay_step rt ev st)) p = Some r"
  proof (cases ev)
    case (Schedule dk inp)
    obtain st1 x where ps: "persist rt dk (pending_action rt (d_clock st) inp) st = (st1, x)" by fastforce
    with persist_fields [OF ps] s show ?thesis
      by (cases x) (simp_all add: Schedule schedule_eq settled_as_def)
  next
    case (Cancel dk j)
    with effectD(7) [OF cancel_effect [OF wf, THEN conjunct2]] s show ?thesis
      by (simp add: settled_as_def)
  next
    case (Fire dk h)
    have "jm_get (d_outcomes (clear_timeout h st)) p = Some r"
      using s by (simp add: settled_as_def clear_timeout_def)
    with fire_timer_effect [OF wf, of dk h] s effectD(7) show ?thesis
      by (metis Fire delay_step.simps(3) settled_as_def)
  next
    case Load
    with s load_files_same [of st rt "sort (map fst (d_files st))"] show ?thesis
      by (simp add: load_pending_actions_def same_but_timers_def settled_as_def)
  qed (use s in \<open>simp_all add: settled_as_def restart_def\<close>)
  with delay_step_wf [OF wf] show ?thesis by (simp add: settled_as_def)
qed

interpretation settled_promise: invariant_machine "delay_step rt" "\<lambda>_. True" "settled_as rt p r" for rt p r
  by unfold_locales (rule settled_as_step)

section \<open>A cancelled action never fires\<close>








lemma demo_scheduled:
  obtains st rec where "schedule_delayed_action demo_rt DiskOk demo_input demo_delay = (st, Inr 0)"
    "jm_get (d_resolvers st) ''upgrade-1'' = Some 0" "d_clock st = 100" "d_next st = 2"
    "read_record demo_rt ''upgrade-1'' st = Inr (Some rec)" "rec = pending_action demo_rt 100 demo_input"
    "delay_wf demo_rt st" "st = delay_run demo_rt [Schedule DiskOk demo_input] demo_delay"
    "map fst (d_files st) = [file_of ''upgrade-1'']"
proof -
  obtain st where st: "schedule_delayed_action demo_rt DiskOk demo_input demo_delay = (st, Inr 0)"
    by (rule demo_schedule)
  obtain s where s: "safe_id ''upgrade-1''" "jm_get (d_files st) (file_of ''upgrade-1'') = Some (Some s)"
    "signed_ok demo_rt s" "field s ''payload'' = pending_action demo_rt 100 demo_input"
    using scheduled_file [OF st] by (auto simp: demo_input_def demo_delay_def)
  obtain st1 x where ps: "persist demo_rt DiskOk (pending_action demo_rt (d_clock demo_delay) demo_input) demo_delay = (st1, x)"
    by fastforce
  with st have "st = enqueue demo_input st1" by (cases x) (auto simp: schedule_eq)
  with persist_fields [OF ps] have "jm_get (d_resolvers st) ''upgrade-1'' = Some 0" "d_clock st = 100"
    "d_next st = 2"
    by (simp_all add: demo_delay_def demo_input_def)
  moreover have "map fst (d_files st) = [file_of ''upgrade-1'']"
    using ps
  proof (cases rule: persist_cases)
    case (ok s)
    with \<open>st = enqueue demo_input st1\<close> show ?thesis
      by (simp add: demo_delay_def demo_input_def)
  qed (use ps st in \<open>simp_all add: schedule_eq\<close>)
  moreover have "read_record demo_rt ''upgrade-1'' st = Inr (Some (pending_action demo_rt 100 demo_input))"
    using s by (simp add: read_record_at)
  ultimately show thesis
    using that st schedule_wf [OF demo_delay_wf, of demo_rt DiskOk demo_input] by simp
qed


section \<open>Loading the state files after a restart\<close>

text \<open>A directory the daemon may start on: every state file parses and verifies.\<close>

definition clean_files :: "runtime \<Rightarrow> delay_state \<Rightarrow> bool" where
  "clean_files rt st \<longleftrightarrow>
     (\<forall>f c. jm_get (d_files st) f = Some c \<and> ends_with ''.json'' f \<longrightarrow>
        (\<exists>raw. c = Some raw \<and> signed_ok rt raw))"

lemma load_files_result:
  assumes "set fs \<subseteq> fst ` set (d_files st)"
  shows "(\<exists>rs. snd (load_files rt fs st) = Inr rs) \<longleftrightarrow>
    (\<forall>f \<in> set fs. ends_with ''.json'' f \<longrightarrow>
       (\<exists>raw. jm_get (d_files st) f = Some (Some raw) \<and> signed_ok rt raw))"
  using assms
proof (induction fs arbitrary: st)
  case (Cons f fs)
  show ?case
  proof (cases rule: load_files_cases [of f rt fs st])
    case (pending raw)
    let ?st = "rearm rt (field raw ''payload'') st"
    have "d_files ?st = d_files st"
      using rearm_same [of st rt] by (simp add: same_but_timers_def)
    with Cons.IH [of ?st] Cons.prems pending show ?thesis
      by (auto simp: case_prod_beta Let_def res_simps)
  qed (use Cons in auto)
qed simp

text \<open>
  C7: the daemon starts exactly when every state file parses and verifies: one torn, forged,
  altered or unsigned file, wherever it sorts among the others, makes the load throw, and a load never
  changes the files, the promises or what has settled.
\<close>

theorem load_fails_closed:
  "((\<exists>rs. snd (load_pending_actions rt st) = Inr rs) = clean_files rt st)
   \<and> d_files (fst (load_pending_actions rt st)) = d_files st
   \<and> d_resolvers (fst (load_pending_actions rt st)) = d_resolvers st
   \<and> d_outcomes (fst (load_pending_actions rt st)) = d_outcomes st"
proof -
  let ?fs = "sort (map fst (d_files st))"
  have "(\<exists>rs. snd (load_files rt ?fs st) = Inr rs) = clean_files rt st"
    unfolding clean_files_def
  proof (subst load_files_result)
    have mem: "f \<in> set ?fs \<longleftrightarrow> (\<exists>c. jm_get (d_files st) f = Some c)" for f
      by (metis domIff dom_map_of_conv_image_fst image_set not_None_eq set_sort)
    show "set ?fs \<subseteq> fst ` set (d_files st)" by auto
    show "(\<forall>f \<in> set ?fs. ends_with ''.json'' f \<longrightarrow>
        (\<exists>raw. jm_get (d_files st) f = Some (Some raw) \<and> signed_ok rt raw)) \<longleftrightarrow>
      (\<forall>f c. jm_get (d_files st) f = Some c \<and> ends_with ''.json'' f \<longrightarrow>
        (\<exists>raw. c = Some raw \<and> signed_ok rt raw))"
      unfolding Ball_def mem by (metis option.inject)
  qed
  then show ?thesis
    using load_files_same [of st rt ?fs] by (simp add: load_pending_actions_def same_but_timers_def)
qed

fun cancels :: "string \<Rightarrow> delay_event \<Rightarrow> bool" where
  "cancels i (Cancel dk j) = (j = i)"
| "cancels i _ = False"

definition kept_pending :: "runtime \<Rightarrow> string \<Rightarrow> nat \<Rightarrow> int \<Rightarrow> jsval \<Rightarrow> delay_state \<Rightarrow> bool" where
  "kept_pending rt i p due rec st \<longleftrightarrow>
     not_before rt i p due st
     \<and> (d_clock st < due \<longrightarrow>
          (\<exists>s. jm_get (d_files st) (file_of i) = Some (Some s) \<and> signed_ok rt s \<and> field s ''payload'' = rec))"

lemma kept_pendingI:
  "not_before rt i p due st' \<Longrightarrow> kept_pending rt i p due rec st \<Longrightarrow> d_clock st \<le> d_clock st' \<Longrightarrow>
   jm_get (d_files st') (file_of i) = jm_get (d_files st) (file_of i) \<Longrightarrow> kept_pending rt i p due rec st'"
  by (simp add: kept_pending_def)

lemma kept_pending_step:
  assumes kp: "kept_pending rt i p due rec st" and ev: "\<not> schedules i ev \<and> \<not> cancels i ev"
  shows "kept_pending rt i p due rec (delay_step rt ev st)"
proof -
  have nb: "not_before rt i p due st" using kp by (simp add: kept_pending_def)
  note wf = not_beforeD(1) [OF nb]
  have nb': "not_before rt i p due (delay_step rt ev st)" using not_before_step [OF nb] ev by blast
  show ?thesis
  proof (cases ev)
    case (Schedule dk inp)
    obtain st1 x where ps: "persist rt dk (pending_action rt (d_clock st) inp) st = (st1, x)" by fastforce
    have "jm_get (d_files st1) (file_of i) = jm_get (d_files st) (file_of i)"
      using persist_other_file [OF ps] Schedule ev by simp
    with nb' persist_fields(1) [OF ps] show ?thesis
      by (cases x) (auto simp: Schedule schedule_eq ps intro!: kept_pendingI [OF _ kp])
  next
    case (Cancel dk j)
    have eff: "effect rt j ''cancelled'' (cancelled_by j) st (delay_step rt ev st)"
      using cancel_effect [OF wf] by (simp add: Cancel)
    show ?thesis
      using effectD(1,4) [OF eff] nb' ev by (intro kept_pendingI [OF _ kp]) (auto simp: Cancel)
  next
    case (Fire dk h)
    show ?thesis
    proof (cases "fire_timer rt dk h st = st")
      case False
      with fire_timer_effect [OF wf] obtain t where t: "t \<in> set (d_timers st)" "tm_due t \<le> d_clock st"
        "effect rt (tm_id t) ''fired'' (Inr ()) (clear_timeout h st) (fire_timer rt dk h st)"
        by blast
      note E = effectD [OF t(3)]
      show ?thesis
      proof (cases "tm_id t = i")
        case True
        then have "due \<le> d_clock st" using not_beforeD(4) [OF nb t(1)] t(2) by simp
        with nb' E(1) show ?thesis by (simp add: kept_pending_def Fire clear_timeout_def)
      next
        case False
        with nb' E(1) E(4) [of "file_of i"] show ?thesis
          by (intro kept_pendingI [OF _ kp]) (auto simp: Fire clear_timeout_def)
      qed
    qed (use kp Fire in simp)
  next
    case Load
    with nb' load_files_same [of st rt "sort (map fst (d_files st))"] show ?thesis
      by (intro kept_pendingI [OF _ kp]) (simp_all add: load_pending_actions_def same_but_timers_def)
  qed (use nb' in \<open>auto intro!: kept_pendingI [OF _ kp] simp: restart_def\<close>)
qed

interpretation kept_action: invariant_machine "delay_step rt"
  "\<lambda>ev. \<not> schedules i ev \<and> \<not> cancels i ev" "kept_pending rt i p due rec" for rt i p due rec
  by unfold_locales (rule kept_pending_step)

lemma load_files_rearms:
  assumes "load_files rt fs st = (st', Inr rs)" "f \<in> set fs" "ends_with ''.json'' f"
    "jm_get (d_files st) f = Some (Some raw)" "is_pending (field raw ''payload'')"
    "rt_parse rt (str_of (field (field raw ''payload'') ''fire_at'')) = Some due"
    "d_clock st < due" "due - d_clock st \<le> MAX_TIMEOUT"
  shows "field raw ''payload'' \<in> set rs
    \<and> (\<exists>t \<in> set (d_timers st'). tm_id t = act_of (field raw ''payload'') \<and> tm_due t = due)"
  using assms
proof (induction fs arbitrary: st st' rs)
  case (Cons g fs)
  let ?rec = "field raw ''payload''"
  show ?case
  proof (cases rule: load_files_cases [of g rt fs st])
    case (pending raw')
    let ?st = "rearm rt (field raw' ''payload'') st"
    have same: "d_files ?st = d_files st" "d_clock ?st = d_clock st"
      using rearm_same [of st rt "field raw' ''payload''"] by (simp_all add: same_but_timers_def)
    obtain st2 r where r: "load_files rt fs ?st = (st2, r)" by fastforce
    with Cons.prems(1) pending(5) obtain rs' where
      l: "load_files rt fs ?st = (st', Inr rs')" "rs = field raw' ''payload'' # rs'"
      by (auto simp: res_simps simp del: load_files.simps)
    show ?thesis
    proof (cases "f = g")
      case True
      with pending Cons.prems(4) have [simp]: "raw' = raw" by simp
      have "\<exists>t \<in> set (d_timers ?st). tm_id t = act_of ?rec \<and> tm_due t = due"
        using Cons.prems(6-8) by (simp add: rearm_def timeout_ms_id)
      moreover have "set (d_timers ?st) \<subseteq> set (d_timers st')"
        using load_files_same [of ?st rt fs] l(1) by (simp add: same_but_timers_def)
      ultimately show ?thesis using l(2) by auto
    next
      case False
      then have "f \<in> set fs" using Cons.prems(2) by simp
      from Cons.IH [OF l(1) this Cons.prems(3)] Cons.prems same l(2) show ?thesis by simp
    qed
  next
    case skip
    then have "f \<in> set fs" "load_files rt fs st = (st', Inr rs)" using Cons.prems(1-3) by auto
    from Cons.IH [OF this(2,1)] Cons.prems show ?thesis by simp
  next
    case (over raw')
    then have "f \<in> set fs" "load_files rt fs st = (st', Inr rs)" using Cons.prems(1-5) by auto
    from Cons.IH [OF this(2,1)] Cons.prems show ?thesis by simp
  qed (use Cons.prems(1) in simp)
qed simp

lemma schedule_kept_pending:
  assumes "not_before rt (si_id inp) p due st'" "schedule_delayed_action rt dk inp st = (st', Inr p)"
  shows "kept_pending rt (si_id inp) p due (pending_action rt (d_clock st) inp) st'"
  using assms(2) by (rule scheduled_file) (use assms(1) in \<open>auto simp: kept_pending_def\<close>)

text \<open>
  C6: a scheduled action survives a crash. Whatever happens to the daemon and to other actions
  after it was scheduled, if the process restarts before the action is due, no one cancelled or
  rescheduled it, and the load succeeds, then the load returns its record unchanged and arms a timer
  for it that is due exactly at the original time.
\<close>

theorem pending_survives_restart:
  assumes disk: "delay_wf rt st0" and st: "st = delay_run rt evs st0"
    and run: "schedule_delayed_action rt dk inp st = (st1, Inr p)"
    and fresh: "\<forall>t \<in> set (d_timers st). tm_id t \<noteq> si_id inp"
    and delay: "1 \<le> si_delay inp" "si_delay inp \<le> MAX_TIMEOUT"
    and iso: "\<forall>t. rt_parse rt (rt_iso rt t) = Some t"
    and later: "list_all (\<lambda>ev. \<not> schedules (si_id inp) ev \<and> \<not> cancels (si_id inp) ev) evs'"
    and early: "d_clock (delay_run rt evs' st1) < d_clock st + si_delay inp"
    and load: "load_pending_actions rt (restart (delay_run rt evs' st1)) = (st2, Inr rs)"
  shows "pending_action rt (d_clock st) inp \<in> set rs
    \<and> (\<exists>t \<in> set (d_timers st2). tm_id t = si_id inp \<and> tm_due t = d_clock st + si_delay inp)"
proof -
  let ?due = "d_clock st + si_delay inp" and ?rec = "pending_action rt (d_clock st) inp"
  let ?st = "restart (delay_run rt evs' st1)"
  have "delay_wf rt st"
    unfolding st by (rule delay_machine.run_keeps [OF disk]) (simp add: list_all_iff)
  then have "not_before rt (si_id inp) p ?due st1"
    using schedule_not_before run fresh delay iso by blast
  then have "kept_pending rt (si_id inp) p ?due ?rec (delay_run rt evs' st1)"
    using kept_action.run_keeps [OF schedule_kept_pending later] run by blast
  then have "kept_pending rt (si_id inp) p ?due ?rec ?st"
    using kept_pending_step [of rt "si_id inp" p ?due ?rec _ Restart] by simp
  then obtain s where s: "jm_get (d_files ?st) (file_of (si_id inp)) = Some (Some s)" "field s ''payload'' = ?rec"
    and bound: "?due - d_clock ?st \<le> MAX_TIMEOUT"
    using early by (auto simp: kept_pending_def not_before_def restart_def)
  have "file_of (si_id inp) \<in> set (sort (map fst (d_files ?st)))"
    using s(1) by (force dest: map_of_SomeD)
  from load_files_rearms [OF load [unfolded load_pending_actions_def] this _ s(1)]
  show ?thesis
    using s(2) early bound iso by (simp add: restart_def)
qed

text \<open>
  A delay beyond 31 bits of milliseconds (24.8 days) does not wait: the promise resolves one
  millisecond after the action was scheduled. The code passes \<open>delayMs\<close> to \<open>setTimeout\<close> unchecked.
\<close>

theorem long_delay_fires_at_once:
  assumes "delay_wf rt st" "d_timers st = []"
    and "schedule_delayed_action rt dk inp st = (st1, Inr p)" "MAX_TIMEOUT < si_delay inp"
  shows "jm_get (d_outcomes (delay_run rt [Tick 1, Fire DiskOk (p + 1)] st1)) p
    = Some (Inr (), d_clock st + 1)"
  using schedule_then_fire [OF assms(1-3), of 1] assms(4) by (simp add: timeout_ms_def)

theorem pending_survives_restart_witness:
  "\<exists>st1 st2 rs. schedule_delayed_action demo_rt DiskOk demo_input demo_delay = (st1, Inr 0)
     \<and> load_pending_actions demo_rt (restart (delay_run demo_rt [Tick 1000] st1)) = (st2, Inr rs)
     \<and> (\<exists>t \<in> set (d_timers st2). tm_id t = ''upgrade-1'' \<and> tm_due t = 5100)"
proof -
  obtain st1 rec where st1: "schedule_delayed_action demo_rt DiskOk demo_input demo_delay = (st1, Inr 0)"
    "d_clock st1 = 100" "read_record demo_rt ''upgrade-1'' st1 = Inr (Some rec)"
    "map fst (d_files st1) = [file_of ''upgrade-1'']"
    by (rule demo_scheduled)
  let ?st = "restart (delay_run demo_rt [Tick 1000] st1)"
  have files: "d_files ?st = d_files st1" by (simp add: restart_def)
  obtain raw where raw: "jm_get (d_files st1) (file_of ''upgrade-1'') = Some (Some raw)" "signed_ok demo_rt raw"
    using st1(3) by (rule read_record_SomeD)
  have "\<exists>rs. snd (load_files demo_rt [file_of ''upgrade-1''] ?st) = Inr rs"
  proof (subst load_files_result)
    show "set [file_of ''upgrade-1''] \<subseteq> fst ` set (d_files ?st)"
      unfolding files using raw(1) by (force dest: map_of_SomeD)
  qed (unfold files, use raw in simp)
  moreover have "load_pending_actions demo_rt ?st = load_files demo_rt [file_of ''upgrade-1''] ?st"
    unfolding load_pending_actions_def files st1(4) by (simp del: load_files.simps append.simps)
  ultimately obtain rs where "snd (load_pending_actions demo_rt ?st) = Inr rs" by metis
  then obtain st2 where load: "load_pending_actions demo_rt ?st = (st2, Inr rs)"
    by (cases "load_pending_actions demo_rt ?st") simp
  have "pending_action demo_rt (d_clock demo_delay) demo_input \<in> set rs
    \<and> (\<exists>t \<in> set (d_timers st2). tm_id t = si_id demo_input \<and> tm_due t = d_clock demo_delay + si_delay demo_input)"
    by (rule pending_survives_restart [OF demo_delay_wf, of _ _ "[]" DiskOk _ st1 0 "[Tick 1000]", OF _ st1(1)])
       (use load st1(2) in \<open>simp_all add: demo_delay_def demo_input_def MAX_TIMEOUT_def\<close>)
  with st1(1) load show ?thesis by (auto simp: demo_delay_def demo_input_def)
qed

theorem long_delay_fires_at_once_witness:
  "\<exists>st. schedule_delayed_action demo_rt DiskOk (demo_input\<lparr>si_delay := 2592000000\<rparr>) demo_delay = (st, Inr 0)
     \<and> jm_get (d_outcomes (delay_run demo_rt [Tick 1, Fire DiskOk 1] st)) 0 = Some (Inr (), 101)"
proof -
  let ?inp = "demo_input\<lparr>si_delay := 2592000000\<rparr>"
  obtain st where st: "schedule_delayed_action demo_rt DiskOk ?inp demo_delay = (st, Inr 0)"
    using demo_schedule_any [of ?inp demo_delay] by (auto simp: demo_input_def demo_delay_def)
  have "jm_get (d_outcomes (delay_run demo_rt [Tick 1, Fire DiskOk (0 + 1)] st)) 0
    = Some (Inr (), d_clock demo_delay + 1)"
    by (rule long_delay_fires_at_once [OF demo_delay_wf _ st])
       (simp_all add: demo_delay_def demo_input_def MAX_TIMEOUT_def)
  then show ?thesis using st by (simp add: demo_delay_def)
qed

text \<open>
  Scheduling an id again does not disarm its first timer: the new promise resolves when the
  first delay is over, whatever the second delay is. \<open>scheduleDelayedAction\<close> overwrites the entry of
  \<open>liveTimers\<close> without \<open>clearTimeout\<close>.
\<close>

theorem rescheduled_fires_with_first_timer:
  assumes wf: "delay_wf rt st" and idle: "d_timers st = []"
    and run1: "schedule_delayed_action rt dk inp st = (st1, Inr p)"
    and run2: "schedule_delayed_action rt dk' inp' (delay_run rt [Tick a] st1) = (st2, Inr p')"
    and same: "si_id inp' = si_id inp"
    and over: "timeout_ms (si_delay inp) \<le> int a + int b"
  shows "jm_get (d_outcomes (delay_run rt [Tick b, Fire DiskOk (p + 1)] st2)) p'
    = Some (Inr (), d_clock st + int a + int b)"
proof -
  let ?i = "si_id inp" and ?st1 = "delay_run rt [Tick a] st1"
    and ?st2 = "st2\<lparr>d_clock := d_clock st2 + int b\<rparr>"
  obtain x where ps: "persist rt dk (pending_action rt (d_clock st) inp) st = x" by blast
  obtain s1 u where s1: "persist rt dk (pending_action rt (d_clock st) inp) st = (s1, Inr u)"
    and st1: "st1 = enqueue inp s1" and p: "p = d_next st"
    using run1 by (auto simp: schedule_eq split: prod.splits sum.splits)
  obtain s2 v where s2: "persist rt dk' (pending_action rt (d_clock ?st1) inp') ?st1 = (s2, Inr v)"
    and st2: "st2 = enqueue inp' s2" and p': "p' = d_next ?st1"
    using run2 by (auto simp: schedule_eq split: prod.splits sum.splits)
  note pf = persist_fields [OF s1] persist_fields [OF s2]
  obtain s where s: "safe_id ?i" "jm_get (d_files st2) (file_of ?i) = Some (Some s)"
    "signed_ok rt s" "field s ''payload'' = pending_action rt (d_clock ?st1) inp'"
    using scheduled_file [OF run2] same by metis
  have "delay_wf rt st1" using schedule_wf [OF wf, of dk inp] run1 by simp
  then have "delay_wf rt ?st1" using delay_step_wf [of rt st1 "Tick a"] by simp
  then have "delay_wf rt st2" using schedule_wf [of rt ?st1 dk' inp'] run2 by simp
  then have wf2: "delay_wf rt ?st2" using delay_step_wf [of rt st2 "Tick b"] by simp
  have "jm_get (d_outcomes (fire_timer rt DiskOk (p + 1) ?st2)) p' = Some (Inr (), d_clock ?st2)"
    by (rule fire_timer_resolves [OF wf2, where i = ?i and s = s and
          t = "\<lparr>tm_handle = p + 1, tm_id = ?i, tm_due = d_clock st + timeout_ms (si_delay inp)\<rparr>"])
       (use s over same in \<open>simp_all add: st1 st2 pf p p' store_simps idle\<close>)
  then show ?thesis by (simp add: st1 st2 pf)
qed

theorem rescheduled_fires_with_first_timer_witness:
  "\<exists>st1 st2 p'. schedule_delayed_action demo_rt DiskOk demo_input demo_delay = (st1, Inr 0)
     \<and> schedule_delayed_action demo_rt DiskOk (demo_input\<lparr>si_delay := 86400000\<rparr>)
          (delay_run demo_rt [Tick 1000] st1) = (st2, Inr p')
     \<and> jm_get (d_outcomes (delay_run demo_rt [Tick 4000, Fire DiskOk 1] st2)) p' = Some (Inr (), 5100)"
proof -
  obtain st1 where st1: "schedule_delayed_action demo_rt DiskOk demo_input demo_delay = (st1, Inr 0)"
    by (rule demo_schedule)
  let ?inp = "demo_input\<lparr>si_delay := 86400000\<rparr>"
  obtain st2 p' where st2: "schedule_delayed_action demo_rt DiskOk ?inp (delay_run demo_rt [Tick 1000] st1)
      = (st2, Inr p')"
    using demo_schedule_any [of ?inp "delay_run demo_rt [Tick 1000] st1"] by (auto simp: demo_input_def)
  have "jm_get (d_outcomes (delay_run demo_rt [Tick 4000, Fire DiskOk (0 + 1)] st2)) p'
    = Some (Inr (), d_clock demo_delay + int 1000 + int 4000)"
    by (rule rescheduled_fires_with_first_timer [OF demo_delay_wf _ st1 st2])
       (simp_all add: demo_delay_def demo_input_def timeout_ms_def MAX_TIMEOUT_def)
  with st1 st2 show ?thesis by (auto simp: demo_delay_def)
qed

end
