(* ===== verification/Backup.thy ===== *)
theory Backup
  imports Delay
begin

text \<open>
  The backup manifest: entry signatures (\<open>src/backup/manifest-hmac.ts\<close>), reading, upgrading, writing
  and appending (\<open>manifest-io.ts\<close>, \<open>types.ts\<close>), the freshness rules (\<open>freshness-rules.ts\<close>), and
  \<open>verifyBackup\<close>, the check the approval gate rests on (\<open>orchestrator.ts\<close>). A manifest comes from
  \<open>JSON.parse\<close> and is not checked against its type by the code, so entries are arbitrary values.
\<close>

section \<open>Reading values of unknown type\<close>

text \<open>\<open>v.k\<close> throws on \<open>null\<close> and \<open>undefined\<close>.\<close>

definition prop_of :: "jsval \<Rightarrow> string \<Rightarrow> jsval res" where
  "prop_of v k =
    (if v = JNull \<or> v = JUndef then Inl (TypeError (''Cannot read properties of '' @
        (if v = JNull then ''null'' else ''undefined''))) else Inr (field v k))"

text \<open>\<open>a ?? b\<close>, \<open>Number(v)\<close> (a text is its decimal digits or \<open>NaN\<close>) and \<open>Date.parse(v)\<close>.\<close>

definition nullish :: "jsval \<Rightarrow> bool" where
  "nullish v \<longleftrightarrow> v = JNull \<or> v = JUndef"

definition coalesce :: "jsval \<Rightarrow> jsval \<Rightarrow> jsval" where
  "coalesce a b = (if nullish a then b else a)"

fun to_number :: "jsval \<Rightarrow> jsnum" where
  "to_number (JNum n) = n"
| "to_number (JBool b) = Fin (if b then 1 else 0)"
| "to_number JNull = Fin 0"
| "to_number (JStr s) = (if list_all is_digit s then Fin (int (str_nat s)) else NaN)"
| "to_number _ = NaN"

definition date_parse :: "runtime \<Rightarrow> jsval \<Rightarrow> int option" where
  "date_parse rt v =
    (case v of
       JStr s \<Rightarrow> rt_parse rt s
     | JNum (Fin n) \<Rightarrow> rt_parse rt (int_str n)
     | _ \<Rightarrow> None)"

section \<open>Entry signatures\<close>

fun drop_field :: "string \<Rightarrow> jsval \<Rightarrow> jsval" where
  "drop_field k (JObj kvs) = JObj (jm_del k kvs)"
| "drop_field k v = v"

definition sign_manifest_entry :: "runtime \<Rightarrow> jsval \<Rightarrow> jsval res" where
  "sign_manifest_entry rt e =
     rbind (get_secret rt hmac_env) (\<lambda>key.
     rbind (canonical_json e) (\<lambda>text.
     Inr (set_field ''hmac'' (JStr (to_hex (rt_hmac rt key text))) e)))"

definition verify_entry_hmac :: "runtime \<Rightarrow> jsval \<Rightarrow> bool" where
  "verify_entry_hmac rt e =
    (case field e ''hmac'' of
       JStr h \<Rightarrow>
         h \<noteq> [] \<and>
         (case rbind (get_secret rt hmac_env) (\<lambda>key.
               rbind (canonical_json (drop_field ''hmac'' e)) (\<lambda>text. Inr (rt_hmac rt key text))) of
            Inl _ \<Rightarrow> False
          | Inr expected \<Rightarrow> from_hex h = expected)
     | _ \<Rightarrow> False)"

section \<open>The manifest file\<close>

text \<open>Both legacy shapes are promoted; \<open>now\<close> is the time of the read.\<close>

definition legacy_verifier_entry :: "runtime \<Rightarrow> int \<Rightarrow> jsval \<Rightarrow> jsval list res" where
  "legacy_verifier_entry rt now e =
     rbind (prop_of e ''platform'') (\<lambda>p.
       Inr (if \<not> is_str p then [] else
         [JObj [(''schema_version'', JInt 2), (''platform'', p),
                (''target_id'', coalesce (field e ''backup_type'') p),
                (''backup_type'', coalesce (field e ''backup_type'') (JStr '''')),
                (''taken_at'', coalesce (field e ''taken_at'') (JStr (rt_iso rt now))),
                (''location'', coalesce (field e ''location'') (JStr '''')),
                (''size_bytes'', if is_num (field e ''size_bytes'') then field e ''size_bytes'' else JInt 0),
                (''max_age_seconds'', JInt 86400), (''checksum'', JStr ''''),
                (''verified'', JBool False), (''hmac'', coalesce (field e ''hmac'') (JStr ''''))]]))"

definition hours_to_seconds :: "jsval \<Rightarrow> jsval" where
  "hours_to_seconds v = (case v of JNum (Fin n) \<Rightarrow> JInt (n * 3600) | JNum n \<Rightarrow> JNum n | _ \<Rightarrow> JInt 86400)"

definition legacy_overdue_entry :: "runtime \<Rightarrow> int \<Rightarrow> jsval \<Rightarrow> jsval list res" where
  "legacy_overdue_entry rt now b =
     rbind (prop_of b ''id'') (\<lambda>i.
       Inr (if \<not> is_str i then [] else
         [JObj [(''schema_version'', JInt 2), (''platform'', JStr ''unknown''), (''target_id'', i),
                (''backup_type'', JStr ''unknown''),
                (''taken_at'', coalesce (field b ''last_run'') (JStr (rt_iso rt now))),
                (''location'', JStr ''''), (''size_bytes'', JInt 0),
                (''max_age_seconds'', hours_to_seconds (field b ''max_age_hours'')),
                (''checksum'', JStr ''''), (''verified'', JBool False), (''hmac'', JStr '''')]]))"

fun elems :: "jsval \<Rightarrow> jsval list" where
  "elems (JArr vs) = vs"
| "elems _ = []"

definition convert_legacy_manifest :: "runtime \<Rightarrow> int \<Rightarrow> jsval \<Rightarrow> jsval list res" where
  "convert_legacy_manifest rt now raw =
    (if \<not> (is_obj raw \<or> is_arr raw) then Inr []
     else if field raw ''schema_version'' = JInt 2 \<and> is_arr (field raw ''entries'')
     then Inr (elems (field raw ''entries''))
     else rbind (collect (map (legacy_verifier_entry rt now) (elems (field raw ''entries'')))) (\<lambda>vs.
          rbind (collect (map (legacy_overdue_entry rt now) (elems (field raw ''backups'')))) (\<lambda>os.
          Inr (concat vs @ concat os))))"

definition manifest_json :: "jsval list \<Rightarrow> jsval" where
  "manifest_json es = JObj [(''schema_version'', JInt 2), (''entries'', JArr es)]"

definition read_manifest_file :: "runtime \<Rightarrow> int \<Rightarrow> jsval option disk_file \<Rightarrow> jsval list res" where
  "read_manifest_file rt now f =
    (case f of
       Absent \<Rightarrow> Inr []
     | Unreadable e \<Rightarrow> Inl (IoError e)
     | Content None \<Rightarrow> Inl (Error ''JSON'')
     | Content (Some raw) \<Rightarrow> convert_legacy_manifest rt now raw)"

text \<open>Write to a temporary file, then rename: a failed write leaves the manifest as it was.\<close>

definition write_manifest_file :: "bool \<Rightarrow> jsval list \<Rightarrow> jsval option disk_file \<Rightarrow> jsval option disk_file \<times> unit res" where
  "write_manifest_file disk_ok es f =
    (if disk_ok then (Content (Some (manifest_json es)), Inr ()) else (f, Inl (IoError ''EIO'')))"

definition append_manifest_entry ::
  "runtime \<Rightarrow> int \<Rightarrow> bool \<Rightarrow> jsval \<Rightarrow> jsval option disk_file \<Rightarrow> jsval option disk_file \<times> unit res" where
  "append_manifest_entry rt now disk_ok e f =
    (case read_manifest_file rt now f of
       Inl err \<Rightarrow> (f, Inl err)
     | Inr es \<Rightarrow> write_manifest_file disk_ok (es @ [e]) f)"

section \<open>Verifying a backup\<close>

definition DEFAULT_FRESHNESS :: "(string \<times> int) list" where
  "DEFAULT_FRESHNESS = [(''proxmox'', 86400), (''truenas'', 86400), (''freenas'', 86400),
     (''docker'', 7 * 86400), (''kubernetes'', 86400), (''unraid'', 86400), (''unifi'', 7 * 86400)]"

definition FALLBACK_MAX_AGE_SECONDS :: int where
  "FALLBACK_MAX_AGE_SECONDS = 86400"

text \<open>
  The first entry of the array sorted by descending time: the sort is stable, so among equally fresh
  entries it is the earliest in the file. The comparison with an unparseable time is \<open>NaN\<close>, which
  counts as equal; the order the engine then leaves is not specified, and here the earlier entry stays.
\<close>

definition fresher :: "runtime \<Rightarrow> jsval \<Rightarrow> jsval \<Rightarrow> bool" where
  "fresher rt a b =
    (case (date_parse rt (field a ''taken_at''), date_parse rt (field b ''taken_at'')) of
       (Some x, Some y) \<Rightarrow> y < x | _ \<Rightarrow> False)"

fun freshest :: "runtime \<Rightarrow> jsval list \<Rightarrow> jsval option" where
  "freshest rt [] = None"
| "freshest rt (e # es) =
    (case freshest rt es of
       None \<Rightarrow> Some e | Some f \<Rightarrow> if fresher rt f e then Some f else Some e)"

text \<open>\<open>ageSeconds > maxAge\<close>, with the comparisons of JavaScript: false as soon as one side is \<open>NaN\<close>.\<close>

definition too_old :: "int option \<Rightarrow> int \<Rightarrow> jsnum \<Rightarrow> bool" where
  "too_old taken now max_age =
    (case taken of
       None \<Rightarrow> False
     | Some t \<Rightarrow> (case max_age of
           Fin m \<Rightarrow> m * 1000 < now - t | NaN \<Rightarrow> False | PosInf \<Rightarrow> False | NegInf \<Rightarrow> True))"

record verify_input =
  vi_platform :: string
  vi_target :: string
  vi_overrides :: "(string, int) jsmap"

definition max_age_of :: "verify_input \<Rightarrow> jsval \<Rightarrow> jsnum" where
  "max_age_of inp e =
    (case jm_get (vi_overrides inp) (vi_platform inp) of
       Some n \<Rightarrow> Fin n
     | None \<Rightarrow>
         if \<not> nullish (field e ''max_age_seconds'') then to_number (field e ''max_age_seconds'')
         else (case jm_get DEFAULT_FRESHNESS (vi_platform inp) of
                 Some n \<Rightarrow> Fin n | None \<Rightarrow> Fin FALLBACK_MAX_AGE_SECONDS))"

text \<open>The loop over the entries: a bad signature throws, entries of the platform are collected.\<close>

fun candidates :: "runtime \<Rightarrow> string \<Rightarrow> jsval list \<Rightarrow> jsval list res" where
  "candidates rt p [] = Inr []"
| "candidates rt p (e # es) =
     rbind (prop_of e ''hmac'') (\<lambda>h.
       if h \<noteq> JStr '''' \<and> \<not> verify_entry_hmac rt e
       then Inl (Error ''Tampered backup-manifest entry'')
       else rbind (candidates rt p es) (\<lambda>cs.
              Inr (if field e ''platform'' = JStr p then e # cs else cs)))"

definition verify_backup ::
  "runtime \<Rightarrow> int \<Rightarrow> jsval option disk_file \<Rightarrow> verify_input \<Rightarrow> jsval res" where
  "verify_backup rt now f inp =
     rbind (read_manifest_file rt now f) (\<lambda>es.
       if es = [] then Inl (BackupRequiredError (vi_target inp) (vi_platform inp))
       else rbind (candidates rt (vi_platform inp) es) (\<lambda>cs.
         case freshest rt cs of
           None \<Rightarrow> Inl (BackupRequiredError (vi_target inp) (vi_platform inp))
         | Some e \<Rightarrow>
             if too_old (date_parse rt (field e ''taken_at'')) now (max_age_of inp e)
             then Inl (BackupRequiredError (vi_target inp) (vi_platform inp @ '' (stale)''))
             else Inr e))"

section \<open>What an accepted backup is worth\<close>

definition parses :: "runtime \<Rightarrow> jsval \<Rightarrow> bool" where
  "parses rt e \<longleftrightarrow> date_parse rt (field e ''taken_at'') \<noteq> None"

abbreviation taken :: "runtime \<Rightarrow> jsval \<Rightarrow> int" where
  "taken rt e \<equiv> the (date_parse rt (field e ''taken_at''))"

text \<open>An entry the loop lets through: unsigned, or with a signature that verifies.\<close>

definition entry_ok :: "runtime \<Rightarrow> jsval \<Rightarrow> bool" where
  "entry_ok rt e \<longleftrightarrow> \<not> nullish e \<and> (field e ''hmac'' = JStr '''' \<or> verify_entry_hmac rt e)"

abbreviation of_platform :: "string \<Rightarrow> jsval \<Rightarrow> bool" where
  "of_platform p e \<equiv> field e ''platform'' = JStr p"

lemma candidates_Inr:
  "candidates rt p es = Inr cs \<longleftrightarrow> list_all (entry_ok rt) es \<and> cs = filter (of_platform p) es"
  by (induction es arbitrary: cs)
     (auto simp: res_simps entry_ok_def prop_of_def nullish_def split: if_splits)

lemma fresher_parses: "parses rt a \<Longrightarrow> parses rt b \<Longrightarrow> fresher rt a b \<longleftrightarrow> taken rt b < taken rt a"
  by (auto simp: fresher_def parses_def split: option.splits)

lemma freshest_None [simp]: "freshest rt es = None \<longleftrightarrow> es = []"
  by (cases es) (auto split: option.splits)

lemma freshest_mem: "freshest rt es = Some e \<Longrightarrow> e \<in> set es"
  by (induction es arbitrary: e) (auto split: option.splits if_splits)

lemma freshest_max:
  "freshest rt es = Some e \<Longrightarrow> \<forall>x \<in> set es. parses rt x \<Longrightarrow> x \<in> set es \<Longrightarrow> taken rt x \<le> taken rt e"
proof (induction es arbitrary: e x)
  case (Cons y ys)
  show ?case
  proof (cases "freshest rt ys")
    case (Some f)
    have f: "parses rt f" "f \<in> set ys" using freshest_mem [OF Some] Cons.prems(2) by auto
    have "taken rt z \<le> taken rt f" if "z \<in> set ys" for z
      using Cons.IH [OF Some _ that] Cons.prems(2) by simp
    with Cons.prems Some f show ?thesis
      by (fastforce simp: fresher_parses split: if_splits)
  qed (use Cons.prems in auto)
qed simp

lemma verify_backup_Inr:
  "verify_backup rt now f inp = Inr e \<longleftrightarrow>
     (\<exists>es. read_manifest_file rt now f = Inr es \<and> list_all (entry_ok rt) es
        \<and> freshest rt (filter (of_platform (vi_platform inp)) es) = Some e
        \<and> \<not> too_old (date_parse rt (field e ''taken_at'')) now (max_age_of inp e))"
proof -
  have "(if es = [] then Inl err else rbind (candidates rt (vi_platform inp) es) (\<lambda>cs.
         case freshest rt cs of None \<Rightarrow> Inl err
         | Some e \<Rightarrow> if too_old (date_parse rt (field e ''taken_at'')) now (max_age_of inp e)
             then Inl (err2 e) else Inr e)) = Inr e
     \<longleftrightarrow> list_all (entry_ok rt) es \<and> freshest rt (filter (of_platform (vi_platform inp)) es) = Some e
        \<and> \<not> too_old (date_parse rt (field e ''taken_at'')) now (max_age_of inp e)" for es err err2
    by (cases "freshest rt (filter (of_platform (vi_platform inp)) es)")
       (auto simp: res_simps candidates_Inr)
  then show ?thesis
    by (simp add: verify_backup_def res_simps)
qed


section \<open>Signing an entry and finding it again\<close>

lemma sign_manifest_entry_verifies:
  assumes sign: "sign_manifest_entry rt (JObj kvs) = Inr s" and new: "''hmac'' \<notin> fst ` set kvs"
    and digest: "\<And>key text. rt_hmac rt key text \<noteq> []"
  shows "verify_entry_hmac rt s \<and> is_obj s \<and> (\<forall>k. k \<noteq> ''hmac'' \<longrightarrow> field s k = field (JObj kvs) k)"
proof -
  obtain key tx where k: "get_secret rt hmac_env = Inr key" "canonical_json (JObj kvs) = Inr tx"
    "s = JObj (jm_set ''hmac'' (JStr (to_hex (rt_hmac rt key tx))) kvs)"
    using sign by (auto simp: sign_manifest_entry_def res_simps)
  have "jm_del ''hmac'' (jm_set ''hmac'' x kvs) = kvs" for x
    using new by (induction kvs) auto
  moreover have "to_hex b \<noteq> []" if "b \<noteq> []" for b
    using that by (cases b) (auto simp: to_hex_def byte_hex_def)
  moreover have "field s ''hmac'' = JStr (to_hex (rt_hmac rt key tx))"
    by (simp add: k(3) field_def store_simps)
  ultimately have "verify_entry_hmac rt s"
    using k digest by (simp add: verify_entry_hmac_def)
  then show ?thesis
    by (auto simp: k(3) field_def store_simps)
qed

lemma read_manifest_json [simp]:
  "read_manifest_file rt now (Content (Some (manifest_json es))) = Inr es"
  by (simp add: read_manifest_file_def convert_legacy_manifest_def manifest_json_def)

text \<open>
  A backup that the engine signs and appends now satisfies the check afterwards: if the
  manifest on disk was intact (every entry unsigned or verifying, every entry of the platform dated in the
  past), the appended entry records this instant and a limit, and the write succeeds, then
  \<open>verifyBackup\<close> accepts exactly that entry until the limit has passed.
\<close>

theorem appended_backup_verifies:
  assumes before: "read_manifest_file rt now f = Inr es" "list_all (entry_ok rt) es"
    and sign: "sign_manifest_entry rt (JObj kvs) = Inr s" "''hmac'' \<notin> fst ` set kvs"
    and append: "append_manifest_entry rt now True s f = (f', r)"
    and entry: "field (JObj kvs) ''platform'' = JStr (vi_platform inp)"
      "date_parse rt (field (JObj kvs) ''taken_at'') = Some now"
      "field (JObj kvs) ''max_age_seconds'' = JInt m" "vi_overrides inp = []"
    and past: "\<forall>x \<in> set es. of_platform (vi_platform inp) x \<longrightarrow> parses rt x \<and> taken rt x < now"
    and digest: "\<forall>key text. rt_hmac rt key text \<noteq> []"
    and later: "now' \<le> now + m * 1000"
  shows "verify_backup rt now' f' inp = Inr s"
proof -
  let ?p = "of_platform (vi_platform inp)"
  have s: "verify_entry_hmac rt s" "is_obj s" "\<And>k. k \<noteq> ''hmac'' \<Longrightarrow> field s k = field (JObj kvs) k"
    using sign_manifest_entry_verifies [OF sign] digest by blast+
  then have fs: "?p s" "field s ''taken_at'' = field (JObj kvs) ''taken_at''"
    "field s ''max_age_seconds'' = JInt m"
    using entry by simp_all
  have f': "f' = Content (Some (manifest_json (es @ [s])))"
    using append before(1) by (simp add: append_manifest_entry_def write_manifest_file_def)
  have ok: "list_all (entry_ok rt) (es @ [s])"
    using before(2) s(1,2) by (cases s) (auto simp: entry_ok_def nullish_def)
  have ps: "\<forall>x \<in> set (filter ?p (es @ [s])). parses rt x"
    using past entry(2) fs(2) by (auto simp: parses_def)
  obtain e where e: "freshest rt (filter ?p (es @ [s])) = Some e"
    using fs(1) by (cases "freshest rt (filter ?p (es @ [s]))") auto
  have "now \<le> taken rt e"
    using freshest_max [OF e ps, of s] fs entry(2) by simp
  then have "e = s"
    using freshest_mem [OF e] past by (auto split: if_splits)
  moreover have "\<not> too_old (date_parse rt (field s ''taken_at'')) now' (max_age_of inp s)"
    using later fs entry by (simp add: too_old_def max_age_of_def nullish_def)
  ultimately show ?thesis
    using ok e by (simp add: verify_backup_Inr f')
qed

text \<open>A manifest for the witnesses: one signed entry, appended to no file.\<close>

definition demo_entry :: "(string \<times> jsval) list" where
  "demo_entry = [(''schema_version'', JInt 2), (''platform'', JStr ''docker''),
     (''taken_at'', JStr (rt_iso demo_rt 1000)), (''max_age_seconds'', JInt 60)]"

definition demo_verify :: verify_input where
  "demo_verify = \<lparr>vi_platform = ''docker'', vi_target = ''db'', vi_overrides = []\<rparr>"

definition demo_rt2 :: runtime where
  "demo_rt2 = demo_rt\<lparr>rt_hmac := (\<lambda>k t. CHR ''d'' # k @ t)\<rparr>"

lemma demo_rt2_simps [simp]:
  "get_secret demo_rt2 hmac_env = Inr (replicate 32 (CHR ''k''))"
  "rt_parse demo_rt2 (rt_iso demo_rt2 t) = Some t" "rt_hmac demo_rt2 key tx = CHR ''d'' # key @ tx"
  "rt_iso demo_rt2 = rt_iso demo_rt" "rt_parse demo_rt2 = rt_parse demo_rt"
  using demo_secret demo_iso [of t] by (simp_all add: demo_rt2_def get_secret_def)

lemma demo_append:
  obtains s where "sign_manifest_entry demo_rt2 (JObj demo_entry) = Inr s"
    "append_manifest_entry demo_rt2 1000 True s Absent = (Content (Some (manifest_json [s])), Inr ())"
proof -
  have "is_json (JObj demo_entry)" by (simp add: demo_entry_def)
  then obtain tx where "canonical_json (JObj demo_entry) = Inr tx"
    using canonical_json_eq by blast
  with that show thesis
    by (auto simp: sign_manifest_entry_def append_manifest_entry_def read_manifest_file_def
          write_manifest_file_def)
qed

theorem appended_backup_verifies_witness:
  "\<exists>s f. append_manifest_entry demo_rt2 1000 True s Absent = (f, Inr ())
     \<and> verify_backup demo_rt2 61000 f demo_verify = Inr s"
proof -
  obtain s where s: "sign_manifest_entry demo_rt2 (JObj demo_entry) = Inr s"
    "append_manifest_entry demo_rt2 1000 True s Absent = (Content (Some (manifest_json [s])), Inr ())"
    by (rule demo_append)
  have "verify_backup demo_rt2 61000 (Content (Some (manifest_json [s]))) demo_verify = Inr s"
    by (rule appended_backup_verifies [OF _ _ s(1) _ s(2), of "[]" _ 60])
       (simp_all add: read_manifest_file_def demo_entry_def demo_verify_def date_parse_def)
  with s(2) show ?thesis by blast
qed

text \<open>
  The check also accepts backups nobody signed and backups of unknown age, against its
  comment, which says that unsigned entries are skipped for gating: a v2 entry of the platform with an
  empty signature passes, whatever the secret, when its time does not parse; and a legacy entry
  without a time passes at every moment, since the conversion dates it now.
\<close>

theorem unsigned_backup_accepted:
  assumes "rt_parse rt bad = None" "\<forall>t. rt_parse rt (rt_iso rt t) = Some t"
    and "vi_overrides inp = []"
  shows "verify_backup rt now (Content (Some (manifest_json
        [JObj [(''platform'', JStr (vi_platform inp)), (''taken_at'', JStr bad), (''hmac'', JStr '''')]]))) inp
      = Inr (JObj [(''platform'', JStr (vi_platform inp)), (''taken_at'', JStr bad), (''hmac'', JStr '''')])
    \<and> (\<exists>e. verify_backup rt now
        (Content (Some (JObj [(''entries'', JArr [JObj [(''platform'', JStr (vi_platform inp))]])]))) inp = Inr e)"
  using assms
  by (simp add: verify_backup_def candidates.simps prop_of_def date_parse_def too_old_def
      read_manifest_file_def [of _ _ "Content (Some (JObj [(''entries'', _)]))"]
      convert_legacy_manifest_def legacy_verifier_entry_def coalesce_def nullish_def max_age_of_def
      split: option.split)

theorem unsigned_backup_accepted_witness:
  "\<exists>e. verify_backup demo_rt 5
     (Content (Some (JObj [(''entries'', JArr [JObj [(''platform'', JStr ''docker'')]])]))) demo_verify = Inr e"
  using unsigned_backup_accepted [of demo_rt "''never''" demo_verify 5]
  by (simp add: demo_verify_def) (simp add: demo_rt_def)


end
