(* ===== verification/Gate.thy ===== *)
theory Gate
  imports Backup
begin

text \<open>
  \<open>src/safety/gate.ts\<close>: the approval gate every homelab action passes. It composes the backup check,
  the 24-hour delay, the typed CONFIRM, the audit sink and the metrics, in the order of the code.
\<close>

section \<open>Context, state and control flow\<close>

text \<open>
  The context is what the caller injects, the operator's answer and the handlers of other actions that
  run while the gate waits for its delay. The clock is the one of the delay machine.
\<close>

record gate_context =
  gc_config :: operator_config
  gc_admin :: bool
  gc_skip_backup :: bool
  gc_audit_ok :: "gate_event \<Rightarrow> bool"
  gc_hook :: "(action_type \<times> string) option"
  gc_reply :: prompt_reply
  gc_disk :: disk
  gc_events :: "delay_event list"

record gate_state =
  gs_delay :: delay_state
  gs_metrics :: metrics
  gs_audit :: "gate_event list"
  gs_manifest :: "jsval option disk_file"

record approval =
  ap_action :: string
  ap_at :: string
  ap_by :: string

text \<open>
  An awaited step settles with a value or an error, or, \<open>None\<close>, has not settled when the events of the
  context are used up.
\<close>

type_synonym 'a gate_step = "gate_state \<Rightarrow> gate_state \<times> 'a res option"

definition gbind :: "'a gate_step \<Rightarrow> ('a \<Rightarrow> 'b gate_step) \<Rightarrow> 'b gate_step" where
  "gbind m f st =
    (case m st of
       (st1, None) \<Rightarrow> (st1, None)
     | (st1, Some (Inl e)) \<Rightarrow> (st1, Some (Inl e))
     | (st1, Some (Inr x)) \<Rightarrow> f x st1)"

definition greturn :: "'a \<Rightarrow> 'a gate_step" where
  "greturn x st = (st, Some (Inr x))"

definition gthrow :: "error \<Rightarrow> 'a gate_step" where
  "gthrow e st = (st, Some (Inl e))"

definition now :: "gate_state \<Rightarrow> int" where
  "now st = d_clock (gs_delay st)"

definition ONE_DAY_MS :: int where
  "ONE_DAY_MS = 24 * 60 * 60 * 1000"

section \<open>The steps\<close>

text \<open>\<open>ctx.audit\<close> takes the event or rejects.\<close>

definition gate_audit :: "gate_context \<Rightarrow> gate_event \<Rightarrow> unit gate_step" where
  "gate_audit ctx ev st =
    (if gc_audit_ok ctx ev then (st\<lparr>gs_audit := gs_audit st @ [ev]\<rparr>, Some (Inr ()))
     else (st, Some (Inl (Error ''audit sink rejected the event''))))"

definition gate_event_at :: "gate_event_type \<Rightarrow> action \<Rightarrow> string \<Rightarrow> string \<Rightarrow> gate_event" where
  "gate_event_at t act reason ts =
     \<lparr>g_type = t, g_action = Some (a_id act), g_reason = reason, g_occurred = ts\<rparr>"

definition run_backup_check :: "runtime \<Rightarrow> gate_context \<Rightarrow> action \<Rightarrow> unit gate_step" where
  "run_backup_check rt ctx act st =
    (if gc_skip_backup ctx then
       if \<not> gc_admin ctx then
         gthrow (ApprovalDeniedError (a_id act) ''--skip-backup-check requires admin role'')
           (case gc_hook ctx of
              None \<Rightarrow> st
            | Some (_, op) \<Rightarrow> st\<lparr>gs_metrics := record_missing_admin_bypass op (gs_metrics st)\<rparr>)
       else gate_audit ctx
              (gate_event_at GateBypass act ''admin used --skip-backup-check'' (rt_iso rt (now st))) st
     else (case verify_backup rt (now st) (gs_manifest st)
                  \<lparr>vi_platform = a_platform act, vi_target = a_resource act, vi_overrides = []\<rparr> of
             Inl e \<Rightarrow> gthrow e st
           | Inr _ \<Rightarrow> greturn () st))"

text \<open>The modal takes the time until it settles; \<open>op\<close> is the operator passed on for the metric.\<close>

definition ask_confirm :: "gate_context \<Rightarrow> string option \<Rightarrow> bool gate_step" where
  "ask_confirm ctx op st =
    (case typed_confirm None (case confirm_ttl (gc_config ctx) of None \<Rightarrow> 60 | Some t \<Rightarrow> t) op
            (gc_reply ctx) (gs_metrics st) of
       (b, dt, m) \<Rightarrow>
         (st\<lparr>gs_metrics := m, gs_delay := gs_delay st\<lparr>d_clock := now st + dt\<rparr>\<rparr>, Some (Inr b)))"

text \<open>Waiting for a promise: handlers run one after another until it settles.\<close>

fun await_promise :: "runtime \<Rightarrow> nat \<Rightarrow> delay_event list \<Rightarrow> delay_state \<Rightarrow> delay_state \<times> unit res option" where
  "await_promise rt p [] ds = (ds, map_option fst (jm_get (d_outcomes ds) p))"
| "await_promise rt p (ev # evs) ds =
     (case jm_get (d_outcomes ds) p of
        Some (r, t) \<Rightarrow> (ds, Some r)
      | None \<Rightarrow> await_promise rt p evs (delay_step rt ev ds))"

definition wait_delay :: "runtime \<Rightarrow> gate_context \<Rightarrow> schedule_input \<Rightarrow> unit gate_step" where
  "wait_delay rt ctx inp st =
    (case schedule_delayed_action rt (gc_disk ctx) inp (gs_delay st) of
       (ds, Inl e) \<Rightarrow> (st\<lparr>gs_delay := ds\<rparr>, Some (Inl e))
     | (ds, Inr p) \<Rightarrow>
         (case await_promise rt p (gc_events ctx) ds of
            (ds', r) \<Rightarrow> (st\<lparr>gs_delay := ds'\<rparr>, r)))"

text \<open>The end of each confirming flow: the decision is audited before it is returned or thrown.\<close>

definition decide :: "runtime \<Rightarrow> gate_context \<Rightarrow> action \<Rightarrow> bool \<Rightarrow> string \<Rightarrow> string \<Rightarrow> string \<Rightarrow> approval gate_step" where
  "decide rt ctx act confirmed denied_reason denied_msg allowed_reason st =
    (let ts = rt_iso rt (now st) in
     if \<not> confirmed then
       gbind (gate_audit ctx (gate_event_at GateDenied act denied_reason ts))
         (\<lambda>_. gthrow (ApprovalDeniedError (a_id act) denied_msg)) st
     else
       gbind (gate_audit ctx (gate_event_at GateAllowed act allowed_reason ts))
         (\<lambda>_. greturn \<lparr>ap_action = a_id act, ap_at = ts, ap_by = ''operator''\<rparr>) st)"

section \<open>The flows\<close>

definition pass_through_read_only :: "runtime \<Rightarrow> gate_context \<Rightarrow> action \<Rightarrow> approval gate_step" where
  "pass_through_read_only rt ctx act st =
    (let ts = rt_iso rt (now st) in
     gbind (gate_audit ctx (gate_event_at GateAllowed act ''read-only pass-through'' ts))
       (\<lambda>_. greturn \<lparr>ap_action = a_id act, ap_at = ts, ap_by = ''system''\<rparr>) st)"

definition request_standard_approval :: "runtime \<Rightarrow> gate_context \<Rightarrow> action \<Rightarrow> approval gate_step" where
  "request_standard_approval rt ctx act =
     gbind (ask_confirm ctx None) (\<lambda>confirmed.
       decide rt ctx act confirmed ''typed-CONFIRM rejected or timed out'' ''typed-CONFIRM rejected''
         (destr_str (a_destr act) @ '' approved via typed-CONFIRM''))"

definition request_data_affecting_approval :: "runtime \<Rightarrow> gate_context \<Rightarrow> action \<Rightarrow> approval gate_step" where
  "request_data_affecting_approval rt ctx act =
     gbind (run_backup_check rt ctx act) (\<lambda>_.
     gbind (ask_confirm ctx (map_option snd (gc_hook ctx))) (\<lambda>confirmed.
       decide rt ctx act confirmed ''typed-CONFIRM rejected or timed out'' ''typed-CONFIRM rejected''
         ''data-affecting approved via typed-CONFIRM''))"

definition request_architectural_approval :: "runtime \<Rightarrow> gate_context \<Rightarrow> action \<Rightarrow> approval gate_step" where
  "request_architectural_approval rt ctx act =
    (case a_dry_run act of
       None \<Rightarrow> gthrow (Error (''architectural action '' @ a_id act @ '' missing required dryRunReport''))
     | Some report \<Rightarrow>
         if report = [] then
           gthrow (Error (''architectural action '' @ a_id act @ '' missing required dryRunReport''))
         else
           gbind (run_backup_check rt ctx act) (\<lambda>_.
           gbind (wait_delay rt ctx \<lparr>si_id = a_id act, si_delay = ONE_DAY_MS, si_report = Some report\<rparr>) (\<lambda>_.
           gbind (ask_confirm ctx (map_option snd (gc_hook ctx))) (\<lambda>confirmed.
             decide rt ctx act confirmed ''architectural typed-CONFIRM rejected''
               ''typed-CONFIRM rejected after delay''
               ''architectural approved after 24h delay + typed-CONFIRM''))))"

definition gate_flow :: "runtime \<Rightarrow> gate_context \<Rightarrow> action \<Rightarrow> approval gate_step" where
  "gate_flow rt ctx act =
    (case a_destr act of
       ReadOnly \<Rightarrow> pass_through_read_only rt ctx act
     | Reversible \<Rightarrow> request_standard_approval rt ctx act
     | PersistentModifying \<Rightarrow> request_standard_approval rt ctx act
     | DataAffecting \<Rightarrow> request_data_affecting_approval rt ctx act
     | Architectural \<Rightarrow> request_architectural_approval rt ctx act)"

text \<open>\<open>finally\<close>: the latency metric is emitted however the flow settles.\<close>

definition gate_approval :: "runtime \<Rightarrow> gate_context \<Rightarrow> action \<Rightarrow> approval gate_step" where
  "gate_approval rt ctx act st =
    (case gate_flow rt ctx act st of
       (st1, None) \<Rightarrow> (st1, None)
     | (st1, Some r) \<Rightarrow>
         (case gc_hook ctx of
            None \<Rightarrow> st1
          | Some (t, _) \<Rightarrow>
              st1\<lparr>gs_metrics := emit_gate_latency t (a_destr act) (now st1 - now st) (gs_metrics st1)\<rparr>,
          Some r))"

section \<open>Elimination rules\<close>

named_theorems gate_simps \<open>what a step that settled with a value did\<close>

lemma gbind_Inr [gate_simps]:
  "gbind m f st = (st', Some (Inr y)) \<longleftrightarrow>
     (\<exists>st1 x. m st = (st1, Some (Inr x)) \<and> f x st1 = (st', Some (Inr y)))"
  by (auto simp: gbind_def split: prod.split option.split sum.split)

lemma greturn_Inr [gate_simps]: "greturn x st = (st', Some (Inr y)) \<longleftrightarrow> st' = st \<and> y = x"
  by (auto simp: greturn_def)

lemma gthrow_Inr [gate_simps]: "gthrow e st \<noteq> (st', Some (Inr y))"
  by (simp add: gthrow_def)

lemma gate_audit_Inr [gate_simps]:
  "gate_audit ctx ev st = (st', Some (Inr u)) \<longleftrightarrow>
     gc_audit_ok ctx ev \<and> st' = st\<lparr>gs_audit := gs_audit st @ [ev]\<rparr>"
  by (auto simp: gate_audit_def)

lemma decide_Inr [gate_simps]:
  "decide rt ctx act b r1 r2 r3 st = (st', Some (Inr ap)) \<longleftrightarrow>
     b \<and> gc_audit_ok ctx (gate_event_at GateAllowed act r3 (rt_iso rt (now st)))
     \<and> st' = st\<lparr>gs_audit := gs_audit st @ [gate_event_at GateAllowed act r3 (rt_iso rt (now st))]\<rparr>
     \<and> ap = \<lparr>ap_action = a_id act, ap_at = rt_iso rt (now st), ap_by = ''operator''\<rparr>"
  by (auto simp: decide_def Let_def gate_simps)

definition skip_event :: "runtime \<Rightarrow> action \<Rightarrow> gate_state \<Rightarrow> gate_event" where
  "skip_event rt act st = gate_event_at GateBypass act ''admin used --skip-backup-check'' (rt_iso rt (now st))"

definition backup_input :: "action \<Rightarrow> verify_input" where
  "backup_input act = \<lparr>vi_platform = a_platform act, vi_target = a_resource act, vi_overrides = []\<rparr>"

lemma run_backup_check_Inr [gate_simps]:
  "run_backup_check rt ctx act st = (st', Some (Inr u)) \<longleftrightarrow>
     (if gc_skip_backup ctx
      then gc_admin ctx \<and> gc_audit_ok ctx (skip_event rt act st)
           \<and> st' = st\<lparr>gs_audit := gs_audit st @ [skip_event rt act st]\<rparr>
      else st' = st \<and> (\<exists>e. verify_backup rt (now st) (gs_manifest st) (backup_input act) = Inr e))"
  by (auto simp: run_backup_check_def gate_simps skip_event_def backup_input_def split: sum.split)

definition ttl_ms :: "gate_context \<Rightarrow> int" where
  "ttl_ms ctx = timeout_ms ((case confirm_ttl (gc_config ctx) of None \<Rightarrow> 60 | Some t \<Rightarrow> t) * 1000)"

text \<open>The operator typed the word in time.\<close>

definition confirmed_in_time :: "gate_context \<Rightarrow> bool" where
  "confirmed_in_time ctx \<longleftrightarrow> (\<exists>t. gc_reply ctx = Reply ''CONFIRM'' t \<and> int t < ttl_ms ctx)"

lemma ask_confirm_Inr:
  assumes "ask_confirm ctx op st = (st', Some (Inr b))"
  shows "b \<longleftrightarrow> confirmed_in_time ctx" "gs_audit st' = gs_audit st" "gs_manifest st' = gs_manifest st"
    "now st \<le> now st'"
proof -
  obtain dt m where t: "typed_confirm None (case confirm_ttl (gc_config ctx) of None \<Rightarrow> 60 | Some t \<Rightarrow> t) op
      (gc_reply ctx) (gs_metrics st) = (b, dt, m)"
    and st': "st' = st\<lparr>gs_metrics := m, gs_delay := gs_delay st\<lparr>d_clock := now st + dt\<rparr>\<rparr>"
    using assms by (auto simp: ask_confirm_def split: prod.splits)
  show "b \<longleftrightarrow> confirmed_in_time ctx"
  proof (cases b)
    case True
    with t show ?thesis
      by (auto simp: typed_confirm_True confirmed_in_time_def ttl_ms_def CONFIRM_def)
  next
    case False
    with t have "\<not> confirmed_in_time ctx"
      by (auto simp: typed_confirm_def confirmed_in_time_def ttl_ms_def CONFIRM_def Let_def)
    with False show ?thesis by simp
  qed
  show "gs_audit st' = gs_audit st" "gs_manifest st' = gs_manifest st" "now st \<le> now st'"
    using typed_confirm_time [OF t] by (simp_all add: st' now_def)
qed

lemma ask_confirm_settles: "\<exists>st' b. ask_confirm ctx op st = (st', Some (Inr b))"
  by (auto simp: ask_confirm_def split: prod.split)

lemma await_promise_run:
  "await_promise rt p evs ds = (ds', Some r) \<Longrightarrow>
     \<exists>n t. ds' = delay_run rt (take n evs) ds \<and> jm_get (d_outcomes ds') p = Some (r, t)"
proof (induction rt p evs ds rule: await_promise.induct)
  case (1 rt p ds)
  then show ?case by auto
next
  case (2 rt p ev evs ds)
  show ?case
  proof (cases "jm_get (d_outcomes ds) p")
    case None
    with 2 obtain n t where "ds' = delay_run rt (take n evs) (delay_step rt ev ds)"
      "jm_get (d_outcomes ds') p = Some (r, t)" by auto
    then show ?thesis by (intro exI [of _ "Suc n"]) auto
  next
    case (Some x)
    with 2(2) show ?thesis by (simp split: prod.splits) (rule exI [of _ 0], auto)
  qed
qed

text \<open>Waiting out the delay takes the whole delay, whatever runs meanwhile.\<close>

definition gate_ready :: "runtime \<Rightarrow> gate_context \<Rightarrow> action \<Rightarrow> gate_state \<Rightarrow> bool" where
  "gate_ready rt ctx act st \<longleftrightarrow>
     delay_wf rt (gs_delay st)
     \<and> list_all (\<lambda>t. tm_id t \<noteq> a_id act) (d_timers (gs_delay st))
     \<and> list_all (\<lambda>ev. \<not> schedules (a_id act) ev) (gc_events ctx)"

lemma wait_delay_Inr:
  assumes run: "wait_delay rt ctx inp st = (st', Some (Inr u))"
    and wf: "delay_wf rt (gs_delay st)" "list_all (\<lambda>t. tm_id t \<noteq> si_id inp) (d_timers (gs_delay st))"
      "list_all (\<lambda>ev. \<not> schedules (si_id inp) ev) (gc_events ctx)"
    and delay: "1 \<le> si_delay inp" "si_delay inp \<le> MAX_TIMEOUT"
    and iso: "\<forall>t. rt_parse rt (rt_iso rt t) = Some t"
  shows "now st + si_delay inp \<le> now st'" "gs_audit st' = gs_audit st" "gs_manifest st' = gs_manifest st"
proof -
  obtain ds p where s: "schedule_delayed_action rt (gc_disk ctx) inp (gs_delay st) = (ds, Inr p)"
    using run by (auto simp: wait_delay_def split: prod.splits sum.splits)
  obtain ds' where a: "await_promise rt p (gc_events ctx) ds = (ds', Some (Inr u))"
    and st': "st' = st\<lparr>gs_delay := ds'\<rparr>"
    using run s by (auto simp: wait_delay_def split: prod.splits)
  obtain n t where n: "ds' = delay_run rt (take n (gc_events ctx)) ds"
    "jm_get (d_outcomes ds') p = Some (Inr (), t)"
    using await_promise_run [OF a] by auto
  have "not_before rt (si_id inp) p (d_clock (gs_delay st) + si_delay inp) ds"
    using schedule_not_before [OF wf(1) s _ delay] wf(2) iso by (simp add: list_all_iff)
  from not_beforeD(7) [OF timed_action.run_keeps_prefix [OF this wf(3)]] n
  have "d_clock (gs_delay st) + si_delay inp \<le> t \<and> t \<le> d_clock ds'" by blast
  then show "now st + si_delay inp \<le> now st'" by (simp add: now_def st')
  show "gs_audit st' = gs_audit st" "gs_manifest st' = gs_manifest st" by (simp_all add: st')
qed

lemma gate_approval_Inr:
  "gate_approval rt ctx act st = (st', Some (Inr ap)) \<longleftrightarrow>
     (\<exists>st1. gate_flow rt ctx act st = (st1, Some (Inr ap))
        \<and> st' = (case gc_hook ctx of None \<Rightarrow> st1 | Some (t, _) \<Rightarrow>
            st1\<lparr>gs_metrics := emit_gate_latency t (a_destr act) (now st1 - now st) (gs_metrics st1)\<rparr>))"
  by (auto simp: gate_approval_def split: prod.split option.split)

section \<open>What an approval is worth\<close>

definition allowed_event :: "runtime \<Rightarrow> action \<Rightarrow> string \<Rightarrow> gate_state \<Rightarrow> gate_event" where
  "allowed_event rt act reason st = gate_event_at GateAllowed act reason (rt_iso rt (now st))"

text \<open>The check before a data-affecting or architectural action: skipped by an admin, or a backup found.\<close>

definition backup_checked :: "runtime \<Rightarrow> gate_context \<Rightarrow> action \<Rightarrow> gate_state \<Rightarrow> bool" where
  "backup_checked rt ctx act st \<longleftrightarrow>
     (if gc_skip_backup ctx then gc_admin ctx
      else \<exists>e. verify_backup rt (now st) (gs_manifest st) (backup_input act) = Inr e)"

definition bypass_trail :: "runtime \<Rightarrow> gate_context \<Rightarrow> action \<Rightarrow> gate_state \<Rightarrow> gate_event list" where
  "bypass_trail rt ctx act st = (if gc_skip_backup ctx then [skip_event rt act st] else [])"

lemma standard_flow_Inr:
  assumes "request_standard_approval rt ctx act st = (st', Some (Inr ap))"
  shows "confirmed_in_time ctx \<and> ap_action ap = a_id act \<and> ap_by ap = ''operator'' \<and> now st \<le> now st'
    \<and> (\<exists>reason. gs_audit st' = gs_audit st @ [allowed_event rt act reason st']
         \<and> gc_audit_ok ctx (allowed_event rt act reason st'))"
proof -
  obtain st1 b where c: "ask_confirm ctx None st = (st1, Some (Inr b))"
    "decide rt ctx act b ''typed-CONFIRM rejected or timed out'' ''typed-CONFIRM rejected''
       (destr_str (a_destr act) @ '' approved via typed-CONFIRM'') st1 = (st', Some (Inr ap))"
    using assms unfolding request_standard_approval_def gbind_Inr by blast
  from ask_confirm_Inr [OF c(1)] c(2) show ?thesis
    by (auto simp: gate_simps allowed_event_def now_def)
qed

lemma data_affecting_flow_Inr:
  assumes "request_data_affecting_approval rt ctx act st = (st', Some (Inr ap))"
  shows "confirmed_in_time ctx \<and> backup_checked rt ctx act st
    \<and> ap_action ap = a_id act \<and> ap_by ap = ''operator'' \<and> now st \<le> now st'
    \<and> (\<exists>reason. gs_audit st' = gs_audit st @ bypass_trail rt ctx act st @ [allowed_event rt act reason st']
         \<and> gc_audit_ok ctx (allowed_event rt act reason st'))"
proof -
  obtain st1 st2 b u where c: "run_backup_check rt ctx act st = (st1, Some (Inr u))"
    "ask_confirm ctx (map_option snd (gc_hook ctx)) st1 = (st2, Some (Inr b))"
    "decide rt ctx act b ''typed-CONFIRM rejected or timed out'' ''typed-CONFIRM rejected''
       ''data-affecting approved via typed-CONFIRM'' st2 = (st', Some (Inr ap))"
    using assms unfolding request_data_affecting_approval_def gbind_Inr by blast
  have "backup_checked rt ctx act st" "gs_audit st1 = gs_audit st @ bypass_trail rt ctx act st" "now st1 = now st"
    using c(1) by (auto simp: gate_simps backup_checked_def bypass_trail_def now_def split: if_splits)
  with ask_confirm_Inr [OF c(2)] c(3) show ?thesis
    by (auto simp: gate_simps allowed_event_def now_def)
qed

lemma architectural_flow_Inr:
  assumes run: "request_architectural_approval rt ctx act st = (st', Some (Inr ap))"
    and ready: "gate_ready rt ctx act st" and iso: "\<forall>t. rt_parse rt (rt_iso rt t) = Some t"
  shows "(\<exists>r. a_dry_run act = Some r \<and> r \<noteq> []) \<and> confirmed_in_time ctx \<and> backup_checked rt ctx act st
    \<and> now st + ONE_DAY_MS \<le> now st' \<and> ap_action ap = a_id act \<and> ap_by ap = ''operator''
    \<and> (\<exists>reason. gs_audit st' = gs_audit st @ bypass_trail rt ctx act st @ [allowed_event rt act reason st']
         \<and> gc_audit_ok ctx (allowed_event rt act reason st'))"
proof -
  obtain r where r: "a_dry_run act = Some r" "r \<noteq> []"
    using run by (auto simp: request_architectural_approval_def gate_simps split: option.splits if_splits)
  let ?inp = "\<lparr>si_id = a_id act, si_delay = ONE_DAY_MS, si_report = Some r\<rparr>"
  obtain st1 st2 st3 u v b where c: "run_backup_check rt ctx act st = (st1, Some (Inr v))"
    "wait_delay rt ctx ?inp st1 = (st2, Some (Inr u))"
    "ask_confirm ctx (map_option snd (gc_hook ctx)) st2 = (st3, Some (Inr b))"
    "decide rt ctx act b ''architectural typed-CONFIRM rejected'' ''typed-CONFIRM rejected after delay''
       ''architectural approved after 24h delay + typed-CONFIRM'' st3 = (st', Some (Inr ap))"
    using run r unfolding request_architectural_approval_def by (simp add: gbind_Inr) blast
  have st1: "backup_checked rt ctx act st" "gs_audit st1 = gs_audit st @ bypass_trail rt ctx act st"
    "gs_delay st1 = gs_delay st"
    using c(1) by (auto simp: gate_simps backup_checked_def bypass_trail_def split: if_splits)
  have "now st1 + ONE_DAY_MS \<le> now st2 \<and> gs_audit st2 = gs_audit st1"
    using wait_delay_Inr [OF c(2)] ready iso
    by (simp add: gate_ready_def st1 ONE_DAY_MS_def MAX_TIMEOUT_def)
  with st1 ask_confirm_Inr [OF c(3)] c(4) r show ?thesis
    by (auto simp: gate_simps allowed_event_def now_def)
qed

lemma gate_flow_settled:
  "gate_approval rt ctx act st = (st', Some (Inr ap)) \<Longrightarrow>
     \<exists>st1. gate_flow rt ctx act st = (st1, Some (Inr ap)) \<and> gs_audit st' = gs_audit st1 \<and> now st' = now st1"
  by (auto simp: gate_approval_Inr now_def split: option.splits)

lemma allowed_event_now: "now st = now st' \<Longrightarrow> allowed_event rt act r st = allowed_event rt act r st'"
  by (simp add: allowed_event_def)

text \<open>
  C1: the gate approves an architectural action only with a non-empty dry-run report, after a
  backup check that passed or that an admin skipped (which is audited), at least 24 hours after the
  request by the clock, with the exact word typed within the time to live, and with the approval on
  record: whatever other actions, timers, cancellations, disk failures or restarts of the machine
  happen while it waits, as long as nothing schedules the same id again.
\<close>

theorem architectural_gate_sound:
  assumes run: "gate_approval rt ctx act st = (st', Some (Inr ap))" and cls: "a_destr act = Architectural"
    and ready: "gate_ready rt ctx act st" and iso: "\<forall>t. rt_parse rt (rt_iso rt t) = Some t"
  shows "(\<exists>r. a_dry_run act = Some r \<and> r \<noteq> [])
    \<and> (if gc_skip_backup ctx then gc_admin ctx \<and> skip_event rt act st \<in> set (gs_audit st')
       else \<exists>e. verify_backup rt (now st) (gs_manifest st) (backup_input act) = Inr e)
    \<and> now st + 86400000 \<le> now st'
    \<and> (\<exists>t. gc_reply ctx = Reply ''CONFIRM'' t \<and> int t < ttl_ms ctx)
    \<and> (\<exists>reason. last (gs_audit st') = allowed_event rt act reason st'
         \<and> gc_audit_ok ctx (allowed_event rt act reason st'))
    \<and> ap_action ap = a_id act"
proof -
  obtain st1 where st1: "request_architectural_approval rt ctx act st = (st1, Some (Inr ap))"
    "gs_audit st' = gs_audit st1" "now st' = now st1"
    using gate_flow_settled [OF run] cls by (auto simp: gate_flow_def)
  from architectural_flow_Inr [OF st1(1) ready iso] show ?thesis
    using allowed_event_now [OF st1(3), of rt act]
    by (auto simp: st1(2,3) backup_checked_def bypass_trail_def ONE_DAY_MS_def confirmed_in_time_def)
qed

text \<open>
  C3: an approval of any class adds to the audit trail exactly one \<open>gate.allowed\<close> event for this
  action that the sink took, after a \<open>gate.bypass\<close> event when the backup check was skipped; a
  read-only action is approved by the system and any other one only by the word typed in time; a
  data-affecting one also needs its backup checked. The clock never goes back.
\<close>

theorem gate_approval_recorded:
  assumes run: "gate_approval rt ctx act st = (st', Some (Inr ap))" and cls: "a_destr act \<noteq> Architectural"
  shows "\<exists>reason. gs_audit st' = gs_audit st
        @ (if a_destr act = DataAffecting then bypass_trail rt ctx act st else [])
        @ [allowed_event rt act reason st']
      \<and> gc_audit_ok ctx (allowed_event rt act reason st')
      \<and> ap_action ap = a_id act
      \<and> ap_by ap = (if a_destr act = ReadOnly then ''system'' else ''operator'')
      \<and> (a_destr act \<noteq> ReadOnly \<longrightarrow> confirmed_in_time ctx)
      \<and> (a_destr act = DataAffecting \<longrightarrow> backup_checked rt ctx act st)
      \<and> now st \<le> now st'"
proof -
  obtain st1 where st1: "gate_flow rt ctx act st = (st1, Some (Inr ap))"
    "gs_audit st' = gs_audit st1" "now st' = now st1"
    using gate_flow_settled [OF run] by blast
  note eq = allowed_event_now [OF st1(3), of rt act]
  show ?thesis
  proof (cases "a_destr act")
    case ReadOnly
    with st1 show ?thesis
      by (auto simp: gate_flow_def pass_through_read_only_def Let_def gate_simps allowed_event_def now_def)
  next
    case DataAffecting
    with st1(1) data_affecting_flow_Inr [of rt ctx act st st1 ap] show ?thesis
      unfolding st1(2,3) eq by (auto simp: gate_flow_def)
  qed (use st1(1) standard_flow_Inr [of rt ctx act st st1 ap] cls in
       \<open>auto simp: gate_flow_def st1(2,3) eq\<close>)
qed

section \<open>Nothing is recorded as allowed that was not approved\<close>

abbreviation allowed :: "gate_state \<Rightarrow> gate_event list" where
  "allowed st \<equiv> filter (\<lambda>e. g_type e = GateAllowed) (gs_audit st)"

definition quiet :: "'a gate_step \<Rightarrow> bool" where
  "quiet m \<longleftrightarrow> (\<forall>st. allowed (fst (m st)) = allowed st)"

definition honest :: "'a gate_step \<Rightarrow> bool" where
  "honest m \<longleftrightarrow> (\<forall>st. (\<exists>y. snd (m st) = Some (Inr y)) \<or> allowed (fst (m st)) = allowed st)"

lemma quiet_honest: "quiet m \<Longrightarrow> honest m"
  by (simp add: quiet_def honest_def)

lemma gbind_honest:
  assumes q: "quiet m" and f: "\<And>x. honest (f x)"
  shows "honest (gbind m f)"
proof (subst honest_def, intro allI)
  fix st
  obtain s1 r where m: "m st = (s1, r)" by fastforce
  with q have same: "allowed s1 = allowed st" unfolding quiet_def by (metis fst_conv)
  show "(\<exists>y. snd (gbind m f st) = Some (Inr y)) \<or> allowed (fst (gbind m f st)) = allowed st"
  proof (cases "\<exists>x. r = Some (Inr x)")
    case True
    then obtain x where "gbind m f st = f x s1" by (auto simp: gbind_def m)
    with f [of x] same show ?thesis unfolding honest_def by metis
  next
    case False
    then have "fst (gbind m f st) = s1"
      by (cases r; cases "the r") (auto simp: gbind_def m)
    with same show ?thesis by simp
  qed
qed

lemma gthrow_quiet: "quiet (gthrow e)"
  by (simp add: quiet_def gthrow_def)

lemma gate_audit_quiet: "g_type ev \<noteq> GateAllowed \<Longrightarrow> quiet (gate_audit ctx ev)"
  by (simp add: quiet_def gate_audit_def)

lemma gate_event_type [simp]: "g_type (gate_event_at t act r ts) = t"
  by (simp add: gate_event_at_def)

lemma run_backup_check_quiet: "quiet (run_backup_check rt ctx act)"
  by (auto simp: quiet_def run_backup_check_def gthrow_def greturn_def gate_audit_def
      split: sum.split option.split prod.split)

lemma ask_confirm_quiet: "quiet (ask_confirm ctx op)"
  by (simp add: quiet_def ask_confirm_def split: prod.split)

lemma wait_delay_quiet: "quiet (wait_delay rt ctx inp)"
  by (simp add: quiet_def wait_delay_def split: prod.split sum.split)

lemma decide_honest: "honest (decide rt ctx act b r1 r2 r3)"
  by (auto simp: honest_def decide_def Let_def gbind_def gate_audit_def gthrow_def greturn_def)

lemma gate_flow_honest: "honest (gate_flow rt ctx act)"
proof (cases "a_destr act")
  case ReadOnly
  then show ?thesis
    by (auto simp: honest_def gate_flow_def pass_through_read_only_def Let_def gbind_def
        gate_audit_def greturn_def)
next
  case Architectural
  then show ?thesis
    by (auto simp: gate_flow_def request_architectural_approval_def
        intro!: gbind_honest quiet_honest [OF gthrow_quiet] run_backup_check_quiet wait_delay_quiet
          ask_confirm_quiet decide_honest split: option.split)
qed (auto simp: gate_flow_def request_standard_approval_def request_data_affecting_approval_def
      intro!: gbind_honest run_backup_check_quiet ask_confirm_quiet decide_honest)

text \<open>
  A request that is rejected, fails in any way or is still waiting leaves no
  \<open>gate.allowed\<close> event behind: the trail's allowed events are exactly those of before.
\<close>

theorem no_allowed_event_without_approval:
  assumes "gate_approval rt ctx act st = (st', r)" "\<nexists>ap. r = Some (Inr ap)"
  shows "filter (\<lambda>e. g_type e = GateAllowed) (gs_audit st') = filter (\<lambda>e. g_type e = GateAllowed) (gs_audit st)"
proof -
  obtain st1 q where f: "gate_flow rt ctx act st = (st1, q)" by fastforce
  then have "r = q" "gs_audit st' = gs_audit st1"
    using assms(1) by (auto simp: gate_approval_def split: option.splits)
  then show ?thesis
    using gate_flow_honest [of rt ctx act] assms(2) f unfolding honest_def
    by (metis fst_conv snd_conv)
qed

section \<open>The gate answers\<close>

definition settles :: "'a gate_step \<Rightarrow> bool" where
  "settles m \<longleftrightarrow> (\<forall>st. snd (m st) \<noteq> None)"

lemma gbind_settles:
  assumes m: "settles m" and f: "\<And>x. settles (f x)"
  shows "settles (gbind m f)"
proof (subst settles_def, intro allI)
  fix st
  obtain s1 r where "m st = (s1, Some r)"
    using m unfolding settles_def by (metis not_None_eq prod.collapse)
  with f show "snd (gbind m f st) \<noteq> None" by (cases r) (simp_all add: gbind_def settles_def)
qed

lemma gate_audit_settles: "settles (gate_audit ctx ev)"
  by (simp add: settles_def gate_audit_def)

lemma greturn_settles: "settles (greturn x)"
  by (simp add: settles_def greturn_def)

lemma decide_settles: "settles (decide rt ctx act b r1 r2 r3)"
  by (simp add: settles_def decide_def Let_def gbind_def gate_audit_def gthrow_def greturn_def)

lemma run_backup_check_settles: "settles (run_backup_check rt ctx act)"
  by (auto simp: settles_def run_backup_check_def gthrow_def greturn_def gate_audit_def split: sum.split)

lemma ask_confirm_answers: "settles (ask_confirm ctx op)"
  using ask_confirm_settles [of ctx op] unfolding settles_def by (metis option.distinct(1) snd_conv)

lemma gate_flow_settles: "a_destr act \<noteq> Architectural \<Longrightarrow> settles (gate_flow rt ctx act)"
proof (cases "a_destr act")
  case ReadOnly
  then show ?thesis
    by (simp add: settles_def gate_flow_def pass_through_read_only_def Let_def gbind_def gate_audit_def
        greturn_def)
qed (auto simp: gate_flow_def request_standard_approval_def request_data_affecting_approval_def
      intro!: gbind_settles run_backup_check_settles ask_confirm_answers decide_settles)

lemma gate_audit_ok: "gc_audit_ok ctx ev \<Longrightarrow> gate_audit ctx ev st = (st\<lparr>gs_audit := gs_audit st @ [ev]\<rparr>, Some (Inr ()))"
  by (simp add: gate_audit_def)

lemma run_backup_check_ok:
  assumes "backup_checked rt ctx act st" "\<forall>ev. gc_audit_ok ctx ev"
  obtains st1 where "run_backup_check rt ctx act st = (st1, Some (Inr ()))" "gs_delay st1 = gs_delay st"
  using assms
  by (cases "gc_skip_backup ctx")
     (auto simp: backup_checked_def run_backup_check_def gate_audit_def backup_input_def greturn_def)

lemma confirm_ok:
  assumes "confirmed_in_time ctx" "\<forall>ev. gc_audit_ok ctx ev"
  shows "\<exists>st' ap. gbind (ask_confirm ctx op) (\<lambda>b. decide rt ctx act b r1 r2 r3) st = (st', Some (Inr ap))"
proof -
  obtain st1 b where a: "ask_confirm ctx op st = (st1, Some (Inr b))"
    using ask_confirm_settles by blast
  with ask_confirm_Inr(1) assms(1) have b by blast
  then show ?thesis
    using a assms(2) by (simp add: gbind_def decide_def Let_def gate_audit_ok greturn_def)
qed

lemma await_settles:
  "delay_wf rt ds \<Longrightarrow> jm_get (d_outcomes (delay_run rt evs ds)) p = Some (r, t) \<Longrightarrow>
     \<exists>ds'. await_promise rt p evs ds = (ds', Some r)"
proof (induction evs arbitrary: ds)
  case (Cons ev evs)
  show ?case
  proof (cases "jm_get (d_outcomes ds) p")
    case None
    with Cons delay_step_wf show ?thesis by simp
  next
    case (Some x)
    with Cons.prems settled_promise.run_keeps [of rt p x ds "ev # evs"] show ?thesis
      by (cases x) (simp add: settled_as_def list_all_iff)
  qed
qed auto

lemma wait_delay_ok:
  assumes "delay_wf rt (gs_delay st)" "d_timers (gs_delay st) = []" "get_secret rt hmac_env = Inr key"
    "safe_id (si_id inp)" "gc_disk ctx = DiskOk" "timeout_ms (si_delay inp) \<le> int n"
    "gc_events ctx = [Tick n, Fire DiskOk (d_next (gs_delay st) + 1)]"
  obtains st' where "wait_delay rt ctx inp st = (st', Some (Inr ()))"
proof -
  obtain ds where s: "schedule_delayed_action rt DiskOk inp (gs_delay st) = (ds, Inr (d_next (gs_delay st)))"
    using schedule_succeeds [OF assms(3,4)] by blast
  have "delay_wf rt ds" using schedule_wf [OF assms(1), of DiskOk inp] s by simp
  from await_settles [OF this schedule_then_fire [OF assms(1,2) s assms(6)]] s that show thesis
    by (auto simp: wait_delay_def assms(5,7))
qed

text \<open>
  The gate always answers a request that is not architectural, with an approval or an
  error, whatever the operator, the sink, the manifest and the clock do: only the 24-hour delay waits.
\<close>

theorem gate_settles:
  "a_destr act = Architectural \<or> (\<exists>st' r. gate_approval rt ctx act st = (st', Some r))"
proof (cases "a_destr act = Architectural")
  case False
  then obtain st1 r where "gate_flow rt ctx act st = (st1, Some r)"
    using gate_flow_settles [OF False, of rt ctx] unfolding settles_def
    by (metis not_None_eq prod.collapse)
  then show ?thesis by (simp add: gate_approval_def)
qed simp

lemma architectural_flow_completes:
  assumes wf: "delay_wf rt (gs_delay st)" "d_timers (gs_delay st) = []" "a_destr act = Architectural"
    and report: "a_dry_run act = Some report" "report \<noteq> []" and chk: "backup_checked rt ctx act st"
    and env: "get_secret rt hmac_env = Inr key" "safe_id (a_id act)" "gc_disk ctx = DiskOk"
      "\<forall>ev. gc_audit_ok ctx ev" "confirmed_in_time ctx"
    and wait: "gc_events ctx = [Tick n, Fire DiskOk (d_next (gs_delay st) + 1)]" "86400000 \<le> n"
  shows "\<exists>st1 ap. gate_flow rt ctx act st = (st1, Some (Inr ap))"
proof -
  let ?inp = "\<lparr>si_id = a_id act, si_delay = ONE_DAY_MS, si_report = Some report\<rparr>"
  obtain st1 where st1: "run_backup_check rt ctx act st = (st1, Some (Inr ()))" "gs_delay st1 = gs_delay st"
    by (rule run_backup_check_ok [OF chk env(4)])
  obtain st2 where st2: "wait_delay rt ctx ?inp st1 = (st2, Some (Inr ()))"
    by (rule wait_delay_ok [of rt st1 key ?inp ctx n])
       (use wf env wait st1(2) in \<open>simp_all add: ONE_DAY_MS_def timeout_ms_def MAX_TIMEOUT_def\<close>)
  show ?thesis
    using confirm_ok [OF env(5,4)] wf(3) report st1 st2
    by (simp add: gate_flow_def request_architectural_approval_def gbind_def [of "run_backup_check rt ctx act"]
        gbind_def [of "wait_delay rt ctx ?inp"])
qed

text \<open>
  C4: an architectural request is not only safe but can succeed: with a report, a checked
  backup, a usable secret, a valid id, a working disk and sink and the word typed in time, it is approved
  once the timer of its delay has run.
\<close>

theorem architectural_gate_completes:
  assumes wf: "delay_wf rt (gs_delay st)" "d_timers (gs_delay st) = []" "a_destr act = Architectural"
    and report: "a_dry_run act = Some report" "report \<noteq> []" and chk: "backup_checked rt ctx act st"
    and env: "get_secret rt hmac_env = Inr key" "safe_id (a_id act)" "gc_disk ctx = DiskOk"
      "\<forall>ev. gc_audit_ok ctx ev" "confirmed_in_time ctx"
    and wait: "gc_events ctx = [Tick n, Fire DiskOk (d_next (gs_delay st) + 1)]" "86400000 \<le> n"
  shows "\<exists>st' ap. gate_approval rt ctx act st = (st', Some (Inr ap))"
  using architectural_flow_completes [OF assms] by (auto simp: gate_approval_Inr)

text \<open>A request for the witnesses: an admin skips the backup check and answers within the minute.\<close>

definition demo_action :: action where
  "demo_action = \<lparr>a_id = ''upgrade-1'', a_destr = Architectural, a_platform = ''docker'',
     a_resource = ''db'', a_description = ''upgrade'', a_dry_run = Some ''ok'',
     a_requested_by = ''agent'', a_initiated = ''T0''\<rparr>"

definition demo_ctx :: gate_context where
  "demo_ctx = \<lparr>gc_config = \<lparr>auto_approval = None, confirm_ttl = None\<rparr>, gc_admin = True,
     gc_skip_backup = True, gc_audit_ok = (\<lambda>_. True), gc_hook = None, gc_reply = Reply ''CONFIRM'' 10,
     gc_disk = DiskOk, gc_events = [Tick 86400000, Fire DiskOk 1]\<rparr>"

definition demo_gate :: gate_state where
  "demo_gate = \<lparr>gs_delay = demo_delay, gs_metrics = \<lparr>sink = None, emitted = [], warnings = []\<rparr>,
     gs_audit = [], gs_manifest = Absent\<rparr>"

lemma demo_gate_facts:
  "delay_wf demo_rt (gs_delay demo_gate)" "d_timers (gs_delay demo_gate) = []"
  "a_destr demo_action = Architectural" "a_dry_run demo_action = Some ''ok''"
  "backup_checked demo_rt demo_ctx demo_action demo_gate" "safe_id (a_id demo_action)"
  "gc_disk demo_ctx = DiskOk" "\<forall>ev. gc_audit_ok demo_ctx ev" "confirmed_in_time demo_ctx"
  "gc_events demo_ctx = [Tick 86400000, Fire DiskOk (d_next (gs_delay demo_gate) + 1)]"
  using demo_delay_wf [of demo_rt]
  by (simp_all add: demo_gate_def demo_action_def demo_ctx_def demo_delay_def backup_checked_def
      confirmed_in_time_def ttl_ms_def timeout_ms_def MAX_TIMEOUT_def safe_id_def is_alnum_def
      is_digit_def is_upper_def is_lower_def)

lemma demo_approved:
  "\<exists>st' ap. gate_approval demo_rt demo_ctx demo_action demo_gate = (st', Some (Inr ap))"
  using architectural_flow_completes [OF demo_gate_facts(1-4) _ demo_gate_facts(5) demo_secret
      demo_gate_facts(6-10)]
  by (auto simp: gate_approval_Inr)

theorem architectural_gate_completes_witness:
  "\<exists>st' ap. gate_approval demo_rt demo_ctx demo_action demo_gate = (st', Some (Inr ap))"
  by (rule architectural_gate_completes [OF demo_gate_facts(1-4) _ demo_gate_facts(5) demo_secret
      demo_gate_facts(6-10)]) simp_all

theorem architectural_gate_sound_witness:
  "\<exists>st' ap. gate_approval demo_rt demo_ctx demo_action demo_gate = (st', Some (Inr ap))
     \<and> 86400100 \<le> now st'"
proof -
  obtain st' ap where run: "gate_approval demo_rt demo_ctx demo_action demo_gate = (st', Some (Inr ap))"
    using demo_approved by blast
  have "gate_ready demo_rt demo_ctx demo_action demo_gate"
    using demo_gate_facts(1,2,10) by (simp add: gate_ready_def)
  from architectural_gate_sound [OF run demo_gate_facts(3) this] run show ?thesis
    by (auto simp: now_def demo_gate_def demo_delay_def)
qed

theorem gate_approval_recorded_witness:
  "\<exists>st' ap. gate_approval demo_rt demo_ctx (demo_action\<lparr>a_destr := ReadOnly\<rparr>) demo_gate = (st', Some (Inr ap))
     \<and> ap_by ap = ''system''"
proof -
  let ?act = "demo_action\<lparr>a_destr := ReadOnly\<rparr>"
  obtain st' ap where run: "gate_approval demo_rt demo_ctx ?act demo_gate = (st', Some (Inr ap))"
    by (simp add: gate_approval_def gate_flow_def pass_through_read_only_def Let_def gbind_def
        gate_audit_def greturn_def demo_ctx_def)
  from gate_approval_recorded [OF run] run show ?thesis by auto
qed

theorem no_allowed_event_without_approval_witness:
  "\<exists>st' e. gate_approval demo_rt (demo_ctx\<lparr>gc_reply := NoReply\<rparr>) (demo_action\<lparr>a_destr := Reversible\<rparr>) demo_gate
       = (st', Some (Inl e))
     \<and> filter (\<lambda>e. g_type e = GateAllowed) (gs_audit st') = []"
proof -
  let ?ctx = "demo_ctx\<lparr>gc_reply := NoReply\<rparr>" and ?act = "demo_action\<lparr>a_destr := Reversible\<rparr>"
  obtain st' e where run: "gate_approval demo_rt ?ctx ?act demo_gate = (st', Some (Inl e))"
    by (simp add: gate_approval_def gate_flow_def request_standard_approval_def gbind_def ask_confirm_def
        typed_confirm_def decide_def gthrow_def gate_audit_def demo_ctx_def Let_def)
  from no_allowed_event_without_approval [OF run] run show ?thesis by (auto simp: demo_gate_def)
qed

end
