(* ===== verification/Migration.thy ===== *)
theory Migration
  imports Gate
begin

text \<open>
  \<open>src/migration\<close>: the five-phase migration orchestrator and its signed state store. A run keeps the
  state in memory and writes it after every transition; a resume starts again from the last write.
\<close>

section \<open>State\<close>

datatype phase_name = IdentifyResources | PlanTarget | DryRun | ApprovalDelay | Execute

datatype phase_status = PhPending | PhInProgress | PhComplete | PhFailed | PhCancelled

datatype overall_status = InFlight | Complete | Cancelled | Failed

record phase =
  ph_name :: phase_name
  ph_status :: phase_status
  ph_started :: "string option"
  ph_completed :: "string option"
  ph_output :: "jsval option"
  ph_error :: "(string \<times> string option) option"

record migration_state =
  mg_id :: string
  mg_source :: string
  mg_target :: string
  mg_description :: string
  mg_by :: string
  mg_at :: string
  mg_delay :: int
  mg_phases :: "phase list"
  mg_index :: nat
  mg_status :: overall_status

section \<open>The state store\<close>

fun phase_name_str :: "phase_name \<Rightarrow> string" where
  "phase_name_str IdentifyResources = ''identify-resources''"
| "phase_name_str PlanTarget = ''plan-target''"
| "phase_name_str DryRun = ''dry-run''"
| "phase_name_str ApprovalDelay = ''approval-delay''"
| "phase_name_str Execute = ''execute''"

fun phase_status_str :: "phase_status \<Rightarrow> string" where
  "phase_status_str PhPending = ''pending''"
| "phase_status_str PhInProgress = ''in-progress''"
| "phase_status_str PhComplete = ''complete''"
| "phase_status_str PhFailed = ''failed''"
| "phase_status_str PhCancelled = ''cancelled''"

fun overall_str :: "overall_status \<Rightarrow> string" where
  "overall_str InFlight = ''in-flight''"
| "overall_str Complete = ''complete''"
| "overall_str Cancelled = ''cancelled''"
| "overall_str Failed = ''failed''"

definition error_json :: "string \<times> string option \<Rightarrow> jsval" where
  "error_json e = JObj ([(''message'', JStr (fst e))] @ opt_field ''code'' (map_option JStr (snd e)))"

definition phase_json :: "phase \<Rightarrow> jsval" where
  "phase_json p = JObj ([(''name'', JStr (phase_name_str (ph_name p))),
       (''status'', JStr (phase_status_str (ph_status p)))]
     @ opt_field ''started_at'' (map_option JStr (ph_started p))
     @ opt_field ''completed_at'' (map_option JStr (ph_completed p))
     @ opt_field ''output'' (ph_output p)
     @ opt_field ''error'' (map_option error_json (ph_error p)))"

definition migration_json :: "migration_state \<Rightarrow> jsval" where
  "migration_json s = JObj [(''migration_id'', JStr (mg_id s)),
     (''source_platform'', JStr (mg_source s)), (''target_platform'', JStr (mg_target s)),
     (''classification'', JStr ''architectural''), (''description'', JStr (mg_description s)),
     (''initiated_by'', JStr (mg_by s)), (''initiated_at'', JStr (mg_at s)),
     (''approval_delay_seconds'', JInt (mg_delay s)), (''requires_typed_confirm'', JBool True),
     (''phases'', JArr (map phase_json (mg_phases s))),
     (''current_phase_index'', JInt (int (mg_index s))),
     (''overall_status'', JStr (overall_str (mg_status s)))]"

definition phase_names :: "(phase_name \<times> string) list" where
  "phase_names = map (\<lambda>p. (p, phase_name_str p)) [IdentifyResources, PlanTarget, DryRun, ApprovalDelay, Execute]"

definition phase_statuses :: "(phase_status \<times> string) list" where
  "phase_statuses = map (\<lambda>p. (p, phase_status_str p)) [PhPending, PhInProgress, PhComplete, PhFailed, PhCancelled]"

definition overall_statuses :: "(overall_status \<times> string) list" where
  "overall_statuses = map (\<lambda>p. (p, overall_str p)) [InFlight, Complete, Cancelled, Failed]"

definition error_of_json :: "jsval \<Rightarrow> (string \<times> string option) option" where
  "error_of_json v =
    (case (as_str (field v ''message''), as_opt as_str (field v ''code'')) of
       (Some m, Some c) \<Rightarrow> Some (m, c) | _ \<Rightarrow> None)"

definition phase_of_json :: "jsval \<Rightarrow> phase option" where
  "phase_of_json v =
    (case (as_enum phase_names (field v ''name''), as_enum phase_statuses (field v ''status''),
           as_opt as_str (field v ''started_at''), as_opt as_str (field v ''completed_at''),
           as_opt error_of_json (field v ''error'')) of
       (Some n, Some s, Some st, Some c, Some e) \<Rightarrow>
         Some \<lparr>ph_name = n, ph_status = s, ph_started = st, ph_completed = c,
               ph_output = (if field v ''output'' = JUndef then None else Some (field v ''output'')),
               ph_error = e\<rparr>
     | _ \<Rightarrow> None)"

definition migration_of_json :: "jsval \<Rightarrow> migration_state option" where
  "migration_of_json v =
    (case (map as_str [field v ''migration_id'', field v ''source_platform'', field v ''target_platform'',
             field v ''description'', field v ''initiated_by'', field v ''initiated_at''],
           as_int (field v ''approval_delay_seconds''),
           all_some (map phase_of_json (elems (field v ''phases''))),
           as_int (field v ''current_phase_index''),
           as_enum overall_statuses (field v ''overall_status'')) of
       ([Some i, Some src, Some tgt, Some d, Some by', Some at'], Some delay, Some ps, Some n, Some os) \<Rightarrow>
         if n < 0 then None
         else Some \<lparr>mg_id = i, mg_source = src, mg_target = tgt, mg_description = d, mg_by = by',
           mg_at = at', mg_delay = delay, mg_phases = ps, mg_index = nat n, mg_status = os\<rparr>
     | _ \<Rightarrow> None)"

definition ULID_CHARS :: string where
  "ULID_CHARS = ''0123456789ABCDEFGHJKMNPQRSTVWXYZ''"

definition migration_path :: "string \<Rightarrow> string res" where
  "migration_path i =
    (if length i = 26 \<and> set i \<subseteq> set ULID_CHARS then Inr (i @ ''.json'')
     else Inl (Error (''Invalid migration id: '' @ i)))"

definition is_signed_migration_state :: "jsval \<Rightarrow> bool" where
  "is_signed_migration_state v \<longleftrightarrow>
     is_obj v \<and> is_str (field v ''hmac'') \<and> is_obj (field v ''payload'')
     \<and> is_str (field (field v ''payload'') ''migration_id'')
     \<and> is_num (field (field v ''payload'') ''current_phase_index'')
     \<and> is_arr (field (field v ''payload'') ''phases'')"

type_synonym mig_store = "(string, jsval option) jsmap"

definition save_migration_state ::
  "runtime \<Rightarrow> disk \<Rightarrow> migration_state \<Rightarrow> mig_store \<Rightarrow> mig_store \<times> unit res" where
  "save_migration_state rt dk s store =
    (case rbind (sign_payload rt hmac_env (migration_json s)) (\<lambda>x.
          rbind (migration_path (mg_id s)) (\<lambda>p. Inr (x, p))) of
       Inl e \<Rightarrow> (store, Inl e)
     | Inr (x, p) \<Rightarrow>
         (case dk of
            DiskOk \<Rightarrow> (jm_set p (Some x) store, Inr ())
          | DiskFails torn \<Rightarrow> (if torn then jm_set p None store else store, Inl (IoError ''EIO''))))"

definition read_migration :: "runtime \<Rightarrow> string \<Rightarrow> jsval option \<Rightarrow> migration_state res" where
  "read_migration rt name c =
    (case c of
       None \<Rightarrow> Inl (Error ''JSON'')
     | Some raw \<Rightarrow>
         if \<not> is_signed_migration_state raw \<or> \<not> verify_payload rt hmac_env raw
         then Inl (Error (''Tampered migration state: '' @ name))
         else (case migration_of_json (field raw ''payload'') of
                 None \<Rightarrow> Inl (TypeError ''migration state'') | Some s \<Rightarrow> Inr s))"

definition load_migration_state :: "runtime \<Rightarrow> string \<Rightarrow> mig_store \<Rightarrow> migration_state res" where
  "load_migration_state rt i store =
     rbind (migration_path i) (\<lambda>p.
       case jm_get store p of None \<Rightarrow> Inl (IoError ''ENOENT'') | Some c \<Rightarrow> read_migration rt i c)"

definition list_in_flight_migrations :: "runtime \<Rightarrow> mig_store \<Rightarrow> migration_state list res" where
  "list_in_flight_migrations rt store =
     rbind (collect (map (\<lambda>f. read_migration rt f (the (jm_get store f)))
              (filter (ends_with ''.json'') (sort (map fst store)))))
       (\<lambda>ss. Inr (filter (\<lambda>s. mg_status s = InFlight) ss))"

section \<open>The orchestrator\<close>

text \<open>
  The world a run acts on: the clock, delays, metrics and backup manifest of the gate, the state store,
  how many times it was written, and what was done, for the properties. The environment gives the
  handlers, the disk at each write, the operator's answer, the handlers of the delay machine that run
  during the delay, and whether an operator cancels while a phase's handler runs.
\<close>

datatype mig_event =
    Called phase_name int
  | BackupVerified int
  | DelayOver int
  | ConfirmedBy int

record mig_world =
  w_gate :: gate_state
  w_store :: mig_store
  w_writes :: nat
  w_trace :: "mig_event list"

record mig_env =
  me_identify :: "migration_state \<Rightarrow> jsval res"
  me_plan :: "migration_state \<Rightarrow> jsval res"
  me_dry_run :: "migration_state \<Rightarrow> jsval res"
  me_execute :: "migration_state \<Rightarrow> jsval res"
  me_disk :: "nat \<Rightarrow> disk"
  me_ctx :: gate_context
  me_cancels :: "phase_name \<Rightarrow> bool"

definition mg_now :: "mig_world \<Rightarrow> int" where
  "mg_now w = now (w_gate w)"

definition log_event :: "mig_event \<Rightarrow> mig_world \<Rightarrow> mig_world" where
  "log_event e w = w\<lparr>w_trace := w_trace w @ [e]\<rparr>"

definition mg_save :: "runtime \<Rightarrow> mig_env \<Rightarrow> migration_state \<Rightarrow> mig_world \<Rightarrow> mig_world \<times> unit res" where
  "mg_save rt env s w =
    (case save_migration_state rt (me_disk env (w_writes w)) s (w_store w) of
       (store, r) \<Rightarrow> (w\<lparr>w_store := store, w_writes := w_writes w + 1\<rparr>, r))"

definition set_phase :: "nat \<Rightarrow> (phase \<Rightarrow> phase) \<Rightarrow> migration_state \<Rightarrow> migration_state" where
  "set_phase i f s =
    (if i < length (mg_phases s) then s\<lparr>mg_phases := (mg_phases s)[i := f (mg_phases s ! i)]\<rparr> else s)"

text \<open>\<open>cancel\<close>: it works on the copy it loads, and \<open>cancelDelayedAction\<close> is best effort.\<close>

definition mg_cancel :: "runtime \<Rightarrow> mig_env \<Rightarrow> string \<Rightarrow> mig_world \<Rightarrow> mig_world \<times> unit res" where
  "mg_cancel rt env i w =
    (case load_migration_state rt i (w_store w) of
       Inl e \<Rightarrow> (w, Inl e)
     | Inr s \<Rightarrow>
         if mg_status s \<noteq> InFlight then (w, Inr ())
         else
           let g = w_gate w;
               w1 = w\<lparr>w_gate := g\<lparr>gs_delay := fst (cancel_delayed_action rt (gc_disk (me_ctx env)) i (gs_delay g))\<rparr>\<rparr>;
               s1 = set_phase (mg_index s) (\<lambda>p. p\<lparr>ph_status := PhCancelled\<rparr>) (s\<lparr>mg_status := Cancelled\<rparr>)
           in mg_save rt env s1 w1)"

text \<open>Calling a phase's handler, during which the operator may cancel.\<close>

definition call_handler ::
  "runtime \<Rightarrow> mig_env \<Rightarrow> phase_name \<Rightarrow> (migration_state \<Rightarrow> jsval res) \<Rightarrow> migration_state \<Rightarrow> mig_world
   \<Rightarrow> mig_world \<times> jsval res" where
  "call_handler rt env n f s w =
    (let w1 = log_event (Called n (mg_now w)) w;
         w2 = (if me_cancels env n then fst (mg_cancel rt env (mg_id s) w1) else w1)
     in (w2, f s))"

definition report_of :: "migration_state \<Rightarrow> string option" where
  "report_of s =
    (if 2 < length (mg_phases s)
     then (case ph_output (mg_phases s ! 2) of Some (JStr r) \<Rightarrow> Some r | _ \<Rightarrow> None) else None)"

text \<open>The approval phase: backup, delay, typed CONFIRM with 60 seconds.\<close>

definition approval_phase :: "runtime \<Rightarrow> mig_env \<Rightarrow> migration_state \<Rightarrow> mig_world \<Rightarrow> mig_world \<times> unit res option" where
  "approval_phase rt env s w =
    (let g = w_gate w; ctx = (me_ctx env)\<lparr>gc_config := \<lparr>auto_approval = None, confirm_ttl = Some 60\<rparr>\<rparr> in
     case verify_backup rt (now g) (gs_manifest g)
            \<lparr>vi_platform = mg_source s, vi_target = mg_source s, vi_overrides = []\<rparr> of
       Inl e \<Rightarrow> (w, Some (Inl e))
     | Inr _ \<Rightarrow>
         let w1 = log_event (BackupVerified (now g)) w in
         (case wait_delay rt ctx
                 \<lparr>si_id = mg_id s, si_delay = mg_delay s * 1000, si_report = report_of s\<rparr> g of
            (g1, None) \<Rightarrow> (w1\<lparr>w_gate := g1\<rparr>, None)
          | (g1, Some (Inl e)) \<Rightarrow> (w1\<lparr>w_gate := g1\<rparr>, Some (Inl e))
          | (g1, Some (Inr _)) \<Rightarrow>
              (let w2 = log_event (DelayOver (now g1)) w1 in
               case ask_confirm ctx None g1 of
                 (g2, Some (Inr True)) \<Rightarrow>
                   (log_event (ConfirmedBy (now g2)) (w2\<lparr>w_gate := g2\<rparr>), Some (Inr ()))
               | (g2, _) \<Rightarrow>
                   (w2\<lparr>w_gate := g2\<rparr>, Some (Inl (ApprovalDeniedError (mg_id s)
                      ''typed-CONFIRM rejected after 24h delay''))))))"

definition finish_handler ::
  "nat \<Rightarrow> migration_state \<Rightarrow> mig_world \<times> jsval res \<Rightarrow> mig_world \<times> migration_state \<times> unit res option" where
  "finish_handler i s r =
    (case r of
       (w, Inl e) \<Rightarrow> (w, s, Some (Inl e))
     | (w, Inr v) \<Rightarrow> (w, set_phase i (\<lambda>p. p\<lparr>ph_output := Some v\<rparr>) s, Some (Inr ())))"

definition phase_body ::
  "runtime \<Rightarrow> mig_env \<Rightarrow> phase_name \<Rightarrow> migration_state \<Rightarrow> mig_world
   \<Rightarrow> mig_world \<times> migration_state \<times> unit res option" where
  "phase_body rt env n s w =
    (let i = mg_index s in
     case n of
       IdentifyResources \<Rightarrow> finish_handler i s (call_handler rt env n (me_identify env) s w)
     | PlanTarget \<Rightarrow> finish_handler i s (call_handler rt env n (me_plan env) s w)
     | DryRun \<Rightarrow> finish_handler i s (call_handler rt env n (me_dry_run env) s w)
     | ApprovalDelay \<Rightarrow> (case approval_phase rt env s w of (w1, r) \<Rightarrow> (w1, s, r))
     | Execute \<Rightarrow>
         (case finish_handler i s (call_handler rt env n (me_execute env) s w) of
            (w1, s1, Some (Inr u)) \<Rightarrow> (w1, s1\<lparr>mg_status := Complete\<rparr>, Some (Inr u))
          | r \<Rightarrow> r))"

definition run_phase ::
  "runtime \<Rightarrow> mig_env \<Rightarrow> phase_name \<Rightarrow> migration_state \<Rightarrow> mig_world
   \<Rightarrow> mig_world \<times> migration_state \<times> unit res option" where
  "run_phase rt env n s w =
    (let i = mg_index s;
         s1 = set_phase i (\<lambda>p. p\<lparr>ph_status := PhInProgress, ph_started := Some (rt_iso rt (mg_now w))\<rparr>) s
     in case mg_save rt env s1 w of
          (w1, Inl e) \<Rightarrow> (w1, s1, Some (Inl e))
        | (w1, Inr _) \<Rightarrow>
            (case phase_body rt env n s1 w1 of
               (w2, s2, Some (Inr _)) \<Rightarrow>
                 (let s3 = (set_phase i (\<lambda>p. p\<lparr>ph_status := PhComplete,
                               ph_completed := Some (rt_iso rt (mg_now w2))\<rparr>) s2)\<lparr>mg_index := i + 1\<rparr>
                  in case mg_save rt env s3 w2 of (w3, r) \<Rightarrow> (w3, s3, Some r))
             | r \<Rightarrow> r))"

lemma set_phase_shape [simp]:
  "mg_index (set_phase i f s) = mg_index s" "length (mg_phases (set_phase i f s)) = length (mg_phases s)"
  "mg_status (set_phase i f s) = mg_status s" "mg_id (set_phase i f s) = mg_id s"
  by (simp_all add: set_phase_def)

lemma phase_body_shape:
  "phase_body rt env n s w = (w1, s1, r) \<Longrightarrow>
     mg_index s1 = mg_index s \<and> length (mg_phases s1) = length (mg_phases s) \<and> mg_id s1 = mg_id s"
  by (auto simp: phase_body_def finish_handler_def Let_def
      split: phase_name.splits prod.splits sum.splits option.splits)

lemma run_phase_progress:
  "run_phase rt env n s w = (w1, s1, Some (Inr u)) \<Longrightarrow>
     mg_index s1 = mg_index s + 1 \<and> length (mg_phases s1) = length (mg_phases s)"
  by (auto simp: run_phase_def Let_def split: prod.splits sum.splits option.splits dest!: phase_body_shape)

lemma run_phase_measure:
  assumes "(w1, y) = run_phase rt env n s w" "(s1, z) = y" "z = Some r" "r = Inr u"
    "\<not> length (mg_phases s) \<le> mg_index s"
  shows "length (mg_phases s1) - mg_index s1 < length (mg_phases s) - mg_index s"
proof -
  have "run_phase rt env n s w = (w1, s1, Some (Inr u))" using assms(1-4) by simp
  from run_phase_progress [OF this] assms(5) show ?thesis by simp
qed

text \<open>\<open>message\<close> and \<open>code\<close> of an error; of a failed file operation the model has the code only.\<close>

definition error_text :: "error \<Rightarrow> string \<times> string option" where
  "error_text e =
    (case e of
       ApprovalDeniedError i m \<Rightarrow> (''Action '' @ i @ '' denied: '' @ m, Some ''APPROVAL_DENIED'')
     | BackupRequiredError a t \<Rightarrow>
         (''Action '' @ a @ '' requires a fresh backup of '' @ t @ ''; none found in manifest.'',
          Some ''BACKUP_REQUIRED'')
     | Error m \<Rightarrow> (m, None)
     | TypeError m \<Rightarrow> (m, None)
     | IoError c \<Rightarrow> (c, Some c)
     | ConfigurationError d c m \<Rightarrow>
         (''Operator config sets auto_approval.'' @ d @ ''='' @ c @ '', but the destructiveness floor requires ''
          @ m @ '' or stricter (TDD '' @ [char_of (167 :: nat)] @ ''8).'', Some ''CONFIG_BELOW_FLOOR'')
     | AuditWriteError c m \<Rightarrow> (m, Some c)
     | CorruptAuditLogError m \<Rightarrow> (m, None)
     | InvalidAuditKeyError m \<Rightarrow> (m, None)
     | MutationBarrierError n \<Rightarrow> (''dry-run blocked mutation: '' @ n, Some ''MUTATION_BARRIER_BLOCKED''))"

text \<open>
  \<open>run\<close>: the loop moves the index up or leaves. The state on the right is the one in memory; an error
  is thrown after the failure is saved, and the error of that save replaces it.
\<close>

function mg_run ::
  "runtime \<Rightarrow> mig_env \<Rightarrow> migration_state \<Rightarrow> mig_world \<Rightarrow> mig_world \<times> migration_state \<times> unit res option" where
  "mg_run rt env s w =
    (if mg_status s \<noteq> InFlight then (w, s, Some (Inr ()))
     else if length (mg_phases s) \<le> mg_index s then
       (let s1 = s\<lparr>mg_status := Complete\<rparr> in
        case mg_save rt env s1 w of (w1, r) \<Rightarrow> (w1, s1, Some r))
     else
       (case run_phase rt env (ph_name (mg_phases s ! mg_index s)) s w of
          (w1, s1, None) \<Rightarrow> (w1, s1, None)
        | (w1, s1, Some (Inr _)) \<Rightarrow> mg_run rt env s1 w1
        | (w1, s1, Some (Inl e)) \<Rightarrow>
            (let s2 = (set_phase (mg_index s) (\<lambda>p. p\<lparr>ph_status := PhFailed,
                         ph_error := Some (error_text e)\<rparr>) s1)\<lparr>mg_status := Failed\<rparr>
             in case mg_save rt env s2 w1 of
                  (w2, Inl e2) \<Rightarrow> (w2, s2, Some (Inl e2))
                | (w2, Inr _) \<Rightarrow> (w2, s2, Some (Inl e)))))"
  by pat_completeness auto
termination
proof (relation "measure (\<lambda>(rt, env, s, w). length (mg_phases s) - mg_index s)", goal_cases)
  case 2
  show ?case
    unfolding in_measure prod.case by (rule run_phase_measure) (use 2 in auto)
qed simp

declare mg_run.simps [simp del]

definition mg_start ::
  "runtime \<Rightarrow> mig_env \<Rightarrow> migration_state \<Rightarrow> mig_world \<Rightarrow> mig_world \<times> migration_state \<times> unit res option" where
  "mg_start rt env plan w =
    (let s = plan\<lparr>mg_index := 0, mg_status := InFlight\<rparr> in
     case mg_save rt env s w of
       (w1, Inl e) \<Rightarrow> (w1, s, Some (Inl e))
     | (w1, Inr _) \<Rightarrow> mg_run rt env s w1)"

definition mg_resume ::
  "runtime \<Rightarrow> mig_env \<Rightarrow> string \<Rightarrow> mig_world \<Rightarrow> mig_world \<times> migration_state res option" where
  "mg_resume rt env i w =
    (case load_migration_state rt i (w_store w) of
       Inl e \<Rightarrow> (w, Some (Inl e))
     | Inr s \<Rightarrow>
         if mg_status s \<noteq> InFlight then (w, Some (Inr s))
         else (case mg_run rt env s w of
                 (w1, s1, None) \<Rightarrow> (w1, None)
               | (w1, s1, Some (Inl e)) \<Rightarrow> (w1, Some (Inl e))
               | (w1, s1, Some (Inr _)) \<Rightarrow> (w1, Some (Inr s1))))"

section \<open>The store reads back what was saved\<close>

lemma as_enum_name [simp]: "as_enum phase_names (JStr (phase_name_str n)) = Some n"
  by (cases n) (simp_all add: as_enum_def phase_names_def)

lemma as_enum_status [simp]: "as_enum phase_statuses (JStr (phase_status_str n)) = Some n"
  by (cases n) (simp_all add: as_enum_def phase_statuses_def)

lemma as_enum_overall [simp]: "as_enum overall_statuses (JStr (overall_str n)) = Some n"
  by (cases n) (simp_all add: as_enum_def overall_statuses_def)

lemma error_roundtrip [simp]: "error_of_json (error_json e) = Some e"
  by (cases e) (auto simp: error_of_json_def error_json_def opt_field_def as_opt_def split: option.split)

lemma error_json_defined [simp]: "error_json e \<noteq> JUndef"
  by (simp add: error_json_def)

lemma phase_roundtrip: "is_json (phase_json p) \<Longrightarrow> phase_of_json (phase_json p) = Some p"
proof -
  assume j: "is_json (phase_json p)"
  have "ph_output p \<noteq> Some JUndef"
    using j by (auto simp: phase_json_def opt_field_def all_json_members_iff)
  then show ?thesis
    unfolding phase_of_json_def phase_json_def
    by (cases p; cases "ph_started p"; cases "ph_completed p"; cases "ph_output p"; cases "ph_error p")
       (simp_all add: opt_field_def as_opt_def)
qed

lemma migration_roundtrip:
  assumes "is_json (migration_json s)"
  shows "migration_of_json (migration_json s) = Some s"
proof -
  have "\<forall>p \<in> set (mg_phases s). is_json (phase_json p)"
    using assms by (auto simp: migration_json_def all_json_members_iff all_json_iff)
  then have "map phase_of_json (map phase_json (mg_phases s)) = map Some (mg_phases s)"
    by (auto simp: phase_roundtrip)
  then show ?thesis
    by (cases s) (simp add: migration_of_json_def migration_json_def del: map_map)
qed

lemma save_cases:
  assumes "save_migration_state rt dk s store = (store', Inr u)"
  obtains x where "sign_payload rt hmac_env (migration_json s) = Inr x"
    "migration_path (mg_id s) = Inr (mg_id s @ ''.json'')"
    "store' = jm_set (mg_id s @ ''.json'') (Some x) store"
  using assms
  by (auto simp: save_migration_state_def migration_path_def res_simps split: sum.splits disk.splits if_splits)

lemma save_load:
  assumes "save_migration_state rt dk s store = (store', Inr u)"
  shows "load_migration_state rt (mg_id s) store' = Inr s"
proof -
  obtain x where x: "sign_payload rt hmac_env (migration_json s) = Inr x"
    "migration_path (mg_id s) = Inr (mg_id s @ ''.json'')"
    "store' = jm_set (mg_id s @ ''.json'') (Some x) store"
    using assms by (rule save_cases)
  have j: "is_json (migration_json s)" using x(1) by (auto simp: sign_payload_Inr)
  have "is_signed_migration_state x"
    using env.sign_shape [OF x(1)] env.sign_keeps_payload [OF x(1)]
    by (simp add: is_signed_migration_state_def migration_json_def)
  with env.sign_verifies [OF x(1)] env.sign_keeps_payload [OF x(1)] migration_roundtrip [OF j] x
  show ?thesis
    by (simp add: load_migration_state_def read_migration_def store_simps)
qed

lemma mg_save_load:
  assumes "mg_save rt env s w = (w', Inr u)"
  shows "load_migration_state rt (mg_id s) (w_store w') = Inr s"
  using assms by (auto simp: mg_save_def dest: save_load split: prod.splits)

section \<open>Execution needs an approval\<close>

definition STANDARD_PHASES :: "phase_name list" where
  "STANDARD_PHASES = [IdentifyResources, PlanTarget, DryRun, ApprovalDelay, Execute]"

text \<open>The trace shows a backup, the delay and the typed word, in this order of time, before \<open>t\<close>.\<close>

definition approved_by ::
  "runtime \<Rightarrow> mig_env \<Rightarrow> migration_state \<Rightarrow> jsval option disk_file \<Rightarrow> mig_event list \<Rightarrow> int \<Rightarrow> bool" where
  "approved_by rt env plan manifest tr t \<longleftrightarrow>
     (\<exists>tb td tc. {BackupVerified tb, DelayOver td, ConfirmedBy tc} \<subseteq> set tr
        \<and> tb + mg_delay plan * 1000 \<le> td \<and> td \<le> tc \<and> tc \<le> t
        \<and> (\<exists>e. verify_backup rt tb manifest
               \<lparr>vi_platform = mg_source plan, vi_target = mg_source plan, vi_overrides = []\<rparr> = Inr e)
        \<and> (\<exists>dt. gc_reply (me_ctx env) = Reply ''CONFIRM'' dt \<and> dt < 60000))"

lemma approved_by_mono:
  "approved_by rt env plan m tr t \<Longrightarrow> set tr \<subseteq> set tr' \<Longrightarrow> t \<le> t' \<Longrightarrow> approved_by rt env plan m tr' t'"
  unfolding approved_by_def by (meson order_trans)

text \<open>What every part of a run keeps.\<close>

definition same_plan :: "migration_state \<Rightarrow> migration_state \<Rightarrow> bool" where
  "same_plan plan s \<longleftrightarrow> mg_id s = mg_id plan \<and> mg_source s = mg_source plan \<and> mg_delay s = mg_delay plan
     \<and> map ph_name (mg_phases s) = map ph_name (mg_phases plan)"

definition quiet_world ::
  "runtime \<Rightarrow> bool \<Rightarrow> migration_state \<Rightarrow> jsval option disk_file \<Rightarrow> mig_world \<Rightarrow> bool" where
  "quiet_world rt idle plan m w \<longleftrightarrow>
     delay_wf rt (gs_delay (w_gate w)) \<and> gs_manifest (w_gate w) = m
     \<and> (idle \<longrightarrow> (\<forall>t \<in> set (d_timers (gs_delay (w_gate w))). tm_id t \<noteq> mg_id plan))"

lemma set_phase_plan [simp]:
  "(\<And>p. ph_name (f p) = ph_name p) \<Longrightarrow> same_plan plan (set_phase i f s) = same_plan plan s"
proof -
  assume "\<And>p. ph_name (f p) = ph_name p"
  then have "map ph_name (mg_phases (set_phase i f s)) = map ph_name (mg_phases s)"
    by (auto simp: set_phase_def map_update list_update_same_conv)
  then show ?thesis by (simp add: same_plan_def) (simp add: set_phase_def)
qed

lemma same_plan_update [simp]:
  "same_plan plan (s\<lparr>mg_status := x\<rparr>) = same_plan plan s"
  "same_plan plan (s\<lparr>mg_index := n\<rparr>) = same_plan plan s"
  by (simp_all add: same_plan_def)

lemma mg_save_gate [simp]:
  "mg_save rt env s w = (w', r) \<Longrightarrow> w_gate w' = w_gate w \<and> w_trace w' = w_trace w"
  by (auto simp: mg_save_def split: prod.splits)

lemma mg_cancel_quiet:
  assumes "quiet_world rt idle plan m w"
  shows "quiet_world rt idle plan m (fst (mg_cancel rt env i w)) \<and> w_trace (fst (mg_cancel rt env i w)) = w_trace w
    \<and> mg_now (fst (mg_cancel rt env i w)) = mg_now w"
proof -
  let ?d = "fst (cancel_delayed_action rt (gc_disk (me_ctx env)) i (gs_delay (w_gate w)))"
  let ?w1 = "w\<lparr>w_gate := (w_gate w)\<lparr>gs_delay := ?d\<rparr>\<rparr>"
  have wf: "delay_wf rt (gs_delay (w_gate w))" using assms by (simp add: quiet_world_def)
  note c = cancel_effect [OF wf, of "gc_disk (me_ctx env)" i]
  have q1: "quiet_world rt idle plan m ?w1" "mg_now ?w1 = mg_now w" "w_trace ?w1 = w_trace w"
    using assms c effectD(1,3) [OF c [THEN conjunct2]]
    by (auto simp: quiet_world_def mg_now_def now_def)
  have q2: "quiet_world rt idle plan m (fst (mg_save rt env s ?w1)) \<and> w_trace (fst (mg_save rt env s ?w1)) = w_trace w
      \<and> mg_now (fst (mg_save rt env s ?w1)) = mg_now w" for s
  proof -
    obtain w2 r where m: "mg_save rt env s ?w1 = (w2, r)" by fastforce
    from mg_save_gate [OF this] q1 show ?thesis by (simp add: m quiet_world_def mg_now_def)
  qed
  show ?thesis
  proof (cases "load_migration_state rt i (w_store w)")
    case (Inr s)
    then show ?thesis
      using assms q2 by (cases "mg_status s = InFlight") (simp_all add: mg_cancel_def Let_def)
  qed (use assms in \<open>simp add: mg_cancel_def\<close>)
qed

lemma call_handler_quiet:
  assumes "call_handler rt env n f s w = (w', r)" "quiet_world rt idle plan m w"
  shows "quiet_world rt idle plan m w' \<and> w_trace w' = w_trace w @ [Called n (mg_now w)] \<and> mg_now w' = mg_now w"
proof -
  have "quiet_world rt idle plan m (log_event (Called n (mg_now w)) w)"
    using assms(2) by (simp add: quiet_world_def log_event_def)
  from mg_cancel_quiet [OF this, of env "mg_id s"] this assms(1) show ?thesis
    by (auto simp: call_handler_def Let_def log_event_def mg_now_def split: if_splits)
qed

lemma await_promise_wf:
  assumes "delay_wf rt ds" "await_promise rt p evs ds = (ds', r)"
  shows "delay_wf rt ds'"
  using assms
proof (induction rt p evs ds rule: await_promise.induct)
  case (2 rt p ev evs ds)
  then show ?case using delay_step_wf by (auto split: option.splits)
qed auto

lemma wait_delay_wf:
  assumes "wait_delay rt ctx inp st = (st', r)" "delay_wf rt (gs_delay st)"
  shows "delay_wf rt (gs_delay st')"
  using assms schedule_wf [OF assms(2), of "gc_disk ctx" inp]
  by (auto simp: wait_delay_def split: prod.splits sum.splits dest!: await_promise_wf [rotated])

lemma clock_wf: "delay_wf rt ds \<Longrightarrow> delay_wf rt (ds\<lparr>d_clock := t\<rparr>)"
  by (rule wf_cong [of rt ds]) auto

lemma ask_confirm_wf:
  "ask_confirm ctx op st = (st', r) \<Longrightarrow> delay_wf rt (gs_delay st) \<Longrightarrow> delay_wf rt (gs_delay st')"
  by (auto simp: ask_confirm_def clock_wf split: prod.splits)

text \<open>The conditions under which the delay of a migration is kept.\<close>

definition migration_ready :: "runtime \<Rightarrow> mig_env \<Rightarrow> migration_state \<Rightarrow> bool" where
  "migration_ready rt env plan \<longleftrightarrow>
     1 \<le> mg_delay plan \<and> mg_delay plan * 1000 \<le> MAX_TIMEOUT
     \<and> list_all (\<lambda>ev. \<not> schedules (mg_id plan) ev) (gc_events (me_ctx env))
     \<and> (\<forall>t. rt_parse rt (rt_iso rt t) = Some t)"

lemma approval_phase_approved:
  assumes run: "approval_phase rt env s w = (w', Some (Inr u))"
    and q: "quiet_world rt True plan m w" and plan: "same_plan plan s" and ready: "migration_ready rt env plan"
  shows "quiet_world rt False plan m w' \<and> approved_by rt env plan m (w_trace w') (mg_now w')"
proof -
  let ?ctx = "(me_ctx env)\<lparr>gc_config := \<lparr>auto_approval = None, confirm_ttl = Some 60\<rparr>\<rparr>"
  let ?inp = "\<lparr>si_id = mg_id s, si_delay = mg_delay s * 1000, si_report = report_of s\<rparr>"
  obtain e g1 v g2 where c:
    "verify_backup rt (now (w_gate w)) (gs_manifest (w_gate w))
       \<lparr>vi_platform = mg_source s, vi_target = mg_source s, vi_overrides = []\<rparr> = Inr e"
    "wait_delay rt ?ctx ?inp (w_gate w) = (g1, Some (Inr v))"
    "ask_confirm ?ctx None g1 = (g2, Some (Inr True))"
    "w_gate w' = g2"
    "w_trace w' = w_trace w @ [BackupVerified (now (w_gate w)), DelayOver (now g1), ConfirmedBy (now g2)]"
    using run by (auto simp: approval_phase_def Let_def log_event_def
      split: sum.splits prod.splits option.splits bool.splits)
  have wf: "delay_wf rt (gs_delay (w_gate w))" "gs_manifest (w_gate w) = m" using q by (simp_all add: quiet_world_def)
  have d: "now (w_gate w) + mg_delay s * 1000 \<le> now g1" "gs_manifest g1 = gs_manifest (w_gate w)"
    using wait_delay_Inr [OF c(2) wf(1)] q plan ready
    by (auto simp: quiet_world_def same_plan_def migration_ready_def list_all_iff)
  have a: "now g1 \<le> now g2" "gs_manifest g2 = gs_manifest g1" "confirmed_in_time ?ctx"
    using ask_confirm_Inr [OF c(3)] by blast+
  have conf: "\<exists>dt. gc_reply (me_ctx env) = Reply ''CONFIRM'' dt \<and> dt < 60000"
    using a(3) by (auto simp: confirmed_in_time_def ttl_ms_def timeout_ms_def MAX_TIMEOUT_def)
  have "approved_by rt env plan m (w_trace w') (mg_now w')"
    unfolding approved_by_def mg_now_def c(4,5)
    by (rule exI [of _ "now (w_gate w)"], rule exI [of _ "now g1"], rule exI [of _ "now g2"])
       (use c(1) wf(2) plan d(1) a conf in \<open>simp add: same_plan_def\<close>)
  moreover have "quiet_world rt False plan m w'"
    using ask_confirm_wf [OF c(3) wait_delay_wf [OF c(2) wf(1)]] a(2) d(2) wf(2) c(4)
    by (simp add: quiet_world_def)
  ultimately show ?thesis by blast
qed

lemma approval_phase_trace:
  "approval_phase rt env s w = (w', r) \<Longrightarrow>
     set (w_trace w) \<subseteq> set (w_trace w') \<and> (\<forall>n t. Called n t \<in> set (w_trace w') \<longrightarrow> Called n t \<in> set (w_trace w))"
  by (auto simp: approval_phase_def Let_def log_event_def
      split: sum.splits prod.splits option.splits bool.splits)

definition exec_ok ::
  "runtime \<Rightarrow> mig_env \<Rightarrow> migration_state \<Rightarrow> jsval option disk_file \<Rightarrow> mig_world \<Rightarrow> bool" where
  "exec_ok rt env plan m w \<longleftrightarrow>
     (\<forall>t. Called Execute t \<in> set (w_trace w) \<longrightarrow> approved_by rt env plan m (w_trace w) t)"

text \<open>The invariant of the loop, on the state in memory and the world.\<close>

definition run_inv ::
  "runtime \<Rightarrow> mig_env \<Rightarrow> migration_state \<Rightarrow> jsval option disk_file \<Rightarrow> migration_state \<Rightarrow> mig_world \<Rightarrow> bool" where
  "run_inv rt env plan m s w \<longleftrightarrow>
     quiet_world rt (mg_index s \<le> 3) plan m w \<and> same_plan plan s \<and> exec_ok rt env plan m w
     \<and> (4 \<le> mg_index s \<longrightarrow> approved_by rt env plan m (w_trace w) (mg_now w))"

lemma exec_ok_same: "exec_ok rt env plan m w \<Longrightarrow> w_trace w' = w_trace w \<Longrightarrow> exec_ok rt env plan m w'"
  by (simp add: exec_ok_def)

lemma exec_ok_more:
  assumes "exec_ok rt env plan m w" "set (w_trace w) \<subseteq> set (w_trace w')"
    "\<forall>t. Called Execute t \<in> set (w_trace w') \<longrightarrow> Called Execute t \<in> set (w_trace w)
       \<or> approved_by rt env plan m (w_trace w) t"
  shows "exec_ok rt env plan m w'"
  using assms approved_by_mono unfolding exec_ok_def by blast

lemma finish_handler_cases:
  "fst (finish_handler i s r) = fst r"
  "same_plan plan (fst (snd (finish_handler i s r))) = same_plan plan s"
  by (simp_all add: finish_handler_def split: prod.split sum.split)

lemma phase_body_handler:
  assumes "n \<noteq> ApprovalDelay"
  shows "\<exists>f. fst (phase_body rt env n s w) = fst (call_handler rt env n f s w)
    \<and> same_plan plan (fst (snd (phase_body rt env n s w))) = same_plan plan s"
proof (cases "n = Execute")
  case True
  let ?r = "call_handler rt env Execute (me_execute env) s w"
  obtain w1 s1 r where fh: "finish_handler (mg_index s) s ?r = (w1, s1, r)" by (metis prod_cases3)
  then have "w1 = fst ?r" "same_plan plan s1 = same_plan plan s"
    using finish_handler_cases(1) [of "mg_index s" s ?r]
      finish_handler_cases(2) [of plan "mg_index s" s ?r] by auto
  then show ?thesis
    by (intro exI [of _ "me_execute env"])
       (cases r; cases "the r"; simp add: phase_body_def Let_def True fh)
next
  case False
  with assms show ?thesis
    by (cases n) (auto simp: phase_body_def Let_def finish_handler_cases)
qed

lemma phase_body_inv:
  assumes body: "phase_body rt env n s w = (w1, s1, x)" and inv: "run_inv rt env plan m s w"
    and ready: "migration_ready rt env plan"
    and at: "n = ApprovalDelay \<longleftrightarrow> mg_index s = 3" "n = Execute \<longleftrightarrow> mg_index s = 4"
  shows "exec_ok rt env plan m w1 \<and> same_plan plan s1
    \<and> (\<forall>u. x = Some (Inr u) \<longrightarrow> quiet_world rt (mg_index s \<le> 2) plan m w1
         \<and> (3 \<le> mg_index s \<longrightarrow> approved_by rt env plan m (w_trace w1) (mg_now w1)))"
proof (cases "n = ApprovalDelay")
  case True
  have q: "quiet_world rt True plan m w" "same_plan plan s" "mg_index s = 3" "exec_ok rt env plan m w"
    using inv at True by (simp_all add: run_inv_def)
  have run: "approval_phase rt env s w = (w1, x)" "s1 = s"
    using body True by (auto simp: phase_body_def Let_def split: prod.splits)
  have "exec_ok rt env plan m w1"
    by (rule exec_ok_more [OF q(4)]) (use approval_phase_trace [OF run(1)] in blast)+
  moreover have "quiet_world rt False plan m w1 \<and> approved_by rt env plan m (w_trace w1) (mg_now w1)"
    if "x = Some (Inr u)" for u
    using approval_phase_approved [OF _ q(1,2) ready] run(1) that by simp
  ultimately show ?thesis using q(2,3) run(2) by simp
next
  case False
  obtain f where f: "w1 = fst (call_handler rt env n f s w)" "same_plan plan s1 = same_plan plan s"
    using phase_body_handler [OF False, of rt env s w plan] body by auto
  obtain wh r where h: "call_handler rt env n f s w = (wh, r)" by fastforce
  have i3: "mg_index s \<noteq> 3" using at False by simp
  have q: "quiet_world rt (mg_index s \<le> 2) plan m w"
    using inv i3 by (auto simp: run_inv_def quiet_world_def)
  have wh: "quiet_world rt (mg_index s \<le> 2) plan m wh" "w_trace wh = w_trace w @ [Called n (mg_now w)]"
    "mg_now wh = mg_now w"
    using call_handler_quiet [OF h q] by simp_all
  have "w1 = wh \<and> same_plan plan s1"
    using f h inv by (simp add: run_inv_def)
  moreover have "exec_ok rt env plan m wh"
  proof (rule exec_ok_more [of rt env plan m w])
    show "\<forall>t. Called Execute t \<in> set (w_trace wh) \<longrightarrow> Called Execute t \<in> set (w_trace w)
       \<or> approved_by rt env plan m (w_trace w) t"
      using inv at(2) wh(2) by (cases "n = Execute") (simp_all add: run_inv_def)
  qed (use inv wh(2) in \<open>auto simp: run_inv_def\<close>)
  moreover have "4 \<le> mg_index s \<Longrightarrow> approved_by rt env plan m (w_trace wh) (mg_now wh)"
    using inv wh by (auto simp: run_inv_def elim: approved_by_mono)
  ultimately show ?thesis using wh(1) i3 by auto
qed

lemma run_phase_inv:
  assumes run: "run_phase rt env n s w = (w1, s1, x)" and inv: "run_inv rt env plan m s w"
    and ready: "migration_ready rt env plan"
    and at: "n = ApprovalDelay \<longleftrightarrow> mg_index s = 3" "n = Execute \<longleftrightarrow> mg_index s = 4"
  shows "exec_ok rt env plan m w1 \<and> same_plan plan s1 \<and> (\<forall>u. x = Some (Inr u) \<longrightarrow> run_inv rt env plan m s1 w1)"
proof -
  let ?s1 = "set_phase (mg_index s) (\<lambda>p. p\<lparr>ph_status := PhInProgress, ph_started := Some (rt_iso rt (mg_now w))\<rparr>) s"
  obtain wa ra where a: "mg_save rt env ?s1 w = (wa, ra)" by fastforce
  note ga = mg_save_gate [OF a]
  have inva: "run_inv rt env plan m ?s1 wa"
    using inv ga by (simp add: run_inv_def quiet_world_def mg_now_def exec_ok_def)
  show ?thesis
  proof (cases ra)
    case (Inl e)
    with run a inva show ?thesis by (auto simp: run_phase_def Let_def run_inv_def)
  next
    case (Inr u)
    obtain wb sb rb where b: "phase_body rt env n ?s1 wa = (wb, sb, rb)" by (metis prod_cases3)
    note pb = phase_body_inv [OF b inva ready]
    show ?thesis
    proof (cases "\<exists>v. rb = Some (Inr v)")
      case False
      then have "w1 = wb \<and> s1 = sb \<and> (\<forall>u. x \<noteq> Some (Inr u))"
        using run a Inr b by (cases rb; cases "the rb") (auto simp: run_phase_def Let_def)
      with pb at show ?thesis by simp
    next
      case True
      then obtain v where v: "rb = Some (Inr v)" by blast
      define sc where "sc = (set_phase (mg_index s) (\<lambda>p. p\<lparr>ph_status := PhComplete,
        ph_completed := Some (rt_iso rt (mg_now wb))\<rparr>) sb)\<lparr>mg_index := mg_index s + 1\<rparr>"
      obtain wc rc where c: "mg_save rt env sc wb = (wc, rc)" by fastforce
      have r: "w1 = wc" "s1 = sc" using run a Inr b v c by (simp_all add: run_phase_def Let_def sc_def)
      have "run_inv rt env plan m sc wc"
        using pb at v mg_save_gate [OF c]
        by (auto simp: run_inv_def sc_def quiet_world_def mg_now_def exec_ok_def)
      with r show ?thesis by (simp add: run_inv_def)
    qed
  qed
qed

lemma standard_at:
  assumes "same_plan plan s" "map ph_name (mg_phases plan) = STANDARD_PHASES" "mg_index s < length (mg_phases s)"
  shows "ph_name (mg_phases s ! mg_index s) = ApprovalDelay \<longleftrightarrow> mg_index s = 3"
    "ph_name (mg_phases s ! mg_index s) = Execute \<longleftrightarrow> mg_index s = 4"
proof -
  have names: "map ph_name (mg_phases s) = STANDARD_PHASES" using assms by (simp add: same_plan_def)
  then have "length (mg_phases s) = length STANDARD_PHASES" by (metis length_map)
  then have "mg_index s = 0 \<or> mg_index s = 1 \<or> mg_index s = 2 \<or> mg_index s = 3 \<or> mg_index s = 4"
    using assms(3) by (simp add: STANDARD_PHASES_def) arith
  moreover have "ph_name (mg_phases s ! mg_index s) = STANDARD_PHASES ! mg_index s"
    using names assms(3) by (metis nth_map)
  ultimately show "ph_name (mg_phases s ! mg_index s) = ApprovalDelay \<longleftrightarrow> mg_index s = 3"
    "ph_name (mg_phases s ! mg_index s) = Execute \<longleftrightarrow> mg_index s = 4"
    by (auto simp: STANDARD_PHASES_def)
qed

lemma mg_run_exec_ok:
  assumes "mg_run rt env s w = (w', s', r)" "run_inv rt env plan m s w" "migration_ready rt env plan"
    "map ph_name (mg_phases plan) = STANDARD_PHASES"
  shows "exec_ok rt env plan m w'"
  using assms
proof (induction rt env s w arbitrary: w' s' r rule: mg_run.induct)
  case (1 rt env s w)
  show ?case
  proof (cases "mg_status s \<noteq> InFlight \<or> length (mg_phases s) \<le> mg_index s")
    case True
    then have "w_trace w' = w_trace w"
      using "1.prems"(1) by (auto simp: mg_run.simps [of rt env s w] Let_def split: if_splits prod.splits
          dest!: mg_save_gate)
    with "1.prems"(2) show ?thesis by (auto simp: run_inv_def intro: exec_ok_same)
  next
    case False
    obtain w1 s1 x where p: "run_phase rt env (ph_name (mg_phases s ! mg_index s)) s w = (w1, s1, x)"
      by (metis prod_cases3)
    have pl: "same_plan plan s" using "1.prems"(2) by (simp add: run_inv_def)
    note inv = run_phase_inv [OF p "1.prems"(2,3) standard_at [OF pl "1.prems"(4)]]
    show ?thesis
    proof (cases "\<exists>u. x = Some (Inr u)")
      case True
      then obtain u where x: "x = Some (Inr u)" by blast
      with False p "1.prems"(1) have go: "mg_run rt env s1 w1 = (w', s', r)"
        by (simp add: mg_run.simps [of rt env s w])
      have st: "\<not> mg_status s \<noteq> InFlight" "\<not> length (mg_phases s) \<le> mg_index s" using False by auto
      have invar: "run_inv rt env plan m s1 w1" using inv x st(2) by simp
      show ?thesis
        by (rule "1.IH" [OF st p [symmetric] refl x refl go invar "1.prems"(3,4)])
    next
      case no: False
      then have "w_trace w' = w_trace w1"
        using False p "1.prems"(1)
        by (cases x; cases "the x") (auto simp: mg_run.simps [of rt env s w] Let_def
            split: prod.splits sum.splits dest!: mg_save_gate)
      with inv False show ?thesis by (auto intro: exec_ok_same)
    qed
  qed
qed

text \<open>
  C13: in a migration with the five standard phases the execute handler is never called before,
  in this order of time, a backup of the source platform was verified against the manifest, the whole
  configured delay has passed, and the operator typed the word within a minute: whatever the other
  handlers return, the disk does, and when cancellations come in, provided the delay fits \<open>setTimeout\<close>
  and nothing else schedules the id.
\<close>

theorem migration_executes_only_approved:
  assumes run: "mg_start rt env plan w = (w', s', r)"
    and names: "map ph_name (mg_phases plan) = STANDARD_PHASES"
    and ready: "migration_ready rt env plan" and quiet: "quiet_world rt True plan (gs_manifest (w_gate w)) w"
    and fresh: "w_trace w = []" and called: "Called Execute t \<in> set (w_trace w')"
  shows "\<exists>tb td tc. {BackupVerified tb, DelayOver td, ConfirmedBy tc} \<subseteq> set (w_trace w')
    \<and> tb + mg_delay plan * 1000 \<le> td \<and> td \<le> tc \<and> tc \<le> t
    \<and> (\<exists>e. verify_backup rt tb (gs_manifest (w_gate w))
           \<lparr>vi_platform = mg_source plan, vi_target = mg_source plan, vi_overrides = []\<rparr> = Inr e)
    \<and> (\<exists>dt. gc_reply (me_ctx env) = Reply ''CONFIRM'' dt \<and> dt < 60000)"
proof -
  let ?s = "plan\<lparr>mg_index := 0, mg_status := InFlight\<rparr>" and ?m = "gs_manifest (w_gate w)"
  obtain w1 x where s: "mg_save rt env ?s w = (w1, x)" by fastforce
  note g = mg_save_gate [OF s]
  have "exec_ok rt env plan ?m w'"
  proof (cases x)
    case (Inl e)
    with run s g fresh show ?thesis by (auto simp: mg_start_def exec_ok_def)
  next
    case (Inr u)
    with run s have "mg_run rt env ?s w1 = (w', s', r)" by (simp add: mg_start_def)
    moreover have "run_inv rt env plan ?m ?s w1"
      using quiet g fresh by (simp add: run_inv_def quiet_world_def same_plan_def exec_ok_def)
    ultimately show ?thesis using mg_run_exec_ok ready names by blast
  qed
  with called show ?thesis unfolding exec_ok_def approved_by_def by blast
qed

section \<open>A run that succeeds\<close>

definition outputs_json :: "migration_state \<Rightarrow> bool" where
  "outputs_json s \<longleftrightarrow> (\<forall>p \<in> set (mg_phases s). \<forall>v. ph_output p = Some v \<longrightarrow> is_json v)"

lemma phase_json_ok: "is_json (phase_json p) \<longleftrightarrow> (\<forall>v. ph_output p = Some v \<longrightarrow> is_json v)"
  by (cases "ph_started p"; cases "ph_completed p"; cases "ph_output p"; cases "ph_error p")
     (auto simp: phase_json_def opt_field_def error_json_def split: option.split)

lemma migration_json_ok: "is_json (migration_json s) \<longleftrightarrow> outputs_json s"
  by (auto simp: migration_json_def outputs_json_def all_json_iff phase_json_ok)

lemma mg_save_ok:
  assumes "outputs_json s" "migration_path (mg_id s) = Inr p" "me_disk env (w_writes w) = DiskOk"
    "get_secret rt hmac_env = Inr key"
  shows "\<exists>store. mg_save rt env s w = (w\<lparr>w_store := store, w_writes := w_writes w + 1\<rparr>, Inr ())"
proof -
  have "is_json (migration_json s)" using assms(1) by (simp add: migration_json_ok)
  then obtain x where "sign_payload rt hmac_env (migration_json s) = Inr x"
    using assms(4) by (auto simp: sign_payload_Inr)
  with assms(2,3)
  have "mg_save rt env s w
      = (w\<lparr>w_store := jm_set p (Some x) (w_store w), w_writes := w_writes w + 1\<rparr>, Inr ())"
    by (simp add: mg_save_def save_migration_state_def)
  then show ?thesis by blast
qed

text \<open>What a run needs to succeed: nothing cancels, every handler answers with JSON, the secret, id and
  disk are good, the backup is there, the timer of the delay runs, and the word is typed.\<close>

definition migration_supported :: "runtime \<Rightarrow> mig_env \<Rightarrow> migration_state \<Rightarrow> mig_world \<Rightarrow> bool" where
  "migration_supported rt env plan w \<longleftrightarrow>
     (\<exists>p. migration_path (mg_id plan) = Inr p) \<and> (\<exists>key. get_secret rt hmac_env = Inr key)
     \<and> (\<forall>n. me_disk env n = DiskOk) \<and> gc_disk (me_ctx env) = DiskOk \<and> (\<forall>n. \<not> me_cancels env n)
     \<and> (\<forall>f \<in> {me_identify env, me_plan env, me_dry_run env, me_execute env}. \<forall>s. \<exists>v. f s = Inr v \<and> is_json v)
     \<and> delay_wf rt (gs_delay (w_gate w)) \<and> d_timers (gs_delay (w_gate w)) = []
     \<and> (\<exists>n. gc_events (me_ctx env) = [Tick n, Fire DiskOk (d_next (gs_delay (w_gate w)) + 1)]
          \<and> timeout_ms (mg_delay plan * 1000) \<le> int n)
     \<and> (\<exists>e. verify_backup rt (now (w_gate w)) (gs_manifest (w_gate w))
           \<lparr>vi_platform = mg_source plan, vi_target = mg_source plan, vi_overrides = []\<rparr> = Inr e)
     \<and> (\<exists>dt. gc_reply (me_ctx env) = Reply ''CONFIRM'' dt \<and> dt < 60000)"

definition on_track :: "mig_env \<Rightarrow> migration_state \<Rightarrow> mig_world \<Rightarrow> nat \<Rightarrow> migration_state \<Rightarrow> mig_world \<Rightarrow> bool" where
  "on_track env plan w k s1 w1 \<longleftrightarrow>
     same_plan plan s1 \<and> outputs_json s1 \<and> mg_index s1 = k
     \<and> (k \<le> 4 \<longrightarrow> mg_status s1 = InFlight) \<and> (4 < k \<longrightarrow> mg_status s1 = Complete)
     \<and> (k \<le> 3 \<longrightarrow> w_gate w1 = w_gate w)"

lemma safe_migration_id: "migration_path i = Inr p \<Longrightarrow> safe_id i"
proof -
  assume "migration_path i = Inr p"
  then have "length i = 26" "set i \<subseteq> set ULID_CHARS" by (auto simp: migration_path_def split: if_splits)
  moreover have "list_all is_alnum ULID_CHARS"
    by (simp add: ULID_CHARS_def is_alnum_def is_digit_def is_upper_def is_lower_def)
  ultimately show ?thesis by (auto simp: safe_id_def list_all_iff)
qed

lemma same_planD: "same_plan plan s \<Longrightarrow> mg_id s = mg_id plan"
  by (simp add: same_plan_def)

lemma outputs_set_phase:
  "outputs_json s \<Longrightarrow> (\<And>p v. ph_output (f p) = Some v \<Longrightarrow> ph_output p = Some v \<or> is_json v)
   \<Longrightarrow> outputs_json (set_phase i f s)"
  using set_update_subset_insert [of "mg_phases s" i "f (mg_phases s ! i)"]
  by (fastforce simp: outputs_json_def set_phase_def dest: nth_mem)

lemma outputs_update [simp]:
  "outputs_json (s\<lparr>mg_status := x\<rparr>) = outputs_json s" "outputs_json (s\<lparr>mg_index := n\<rparr>) = outputs_json s"
  by (simp_all add: outputs_json_def)

lemma approval_phase_ok:
  assumes sup: "migration_supported rt env plan w" and pl: "same_plan plan s" and g: "w_gate w1 = w_gate w"
  shows "\<exists>w2. approval_phase rt env s w1 = (w2, Some (Inr ()))"
proof -
  let ?ctx = "(me_ctx env)\<lparr>gc_config := \<lparr>auto_approval = None, confirm_ttl = Some 60\<rparr>\<rparr>"
  let ?inp = "\<lparr>si_id = mg_id s, si_delay = mg_delay s * 1000, si_report = report_of s\<rparr>"
  have ids: "mg_id s = mg_id plan" "mg_source s = mg_source plan" "mg_delay s = mg_delay plan"
    using pl by (simp_all add: same_plan_def)
  obtain p key n e dt where e: "migration_path (mg_id plan) = Inr p" "get_secret rt hmac_env = Inr key"
    "gc_disk (me_ctx env) = DiskOk" "delay_wf rt (gs_delay (w_gate w))" "d_timers (gs_delay (w_gate w)) = []"
    "gc_events (me_ctx env) = [Tick n, Fire DiskOk (d_next (gs_delay (w_gate w)) + 1)]"
    "timeout_ms (mg_delay plan * 1000) \<le> int n"
    "verify_backup rt (now (w_gate w)) (gs_manifest (w_gate w))
       \<lparr>vi_platform = mg_source plan, vi_target = mg_source plan, vi_overrides = []\<rparr> = Inr e"
    "gc_reply (me_ctx env) = Reply ''CONFIRM'' dt" "dt < 60000"
    using sup unfolding migration_supported_def by blast
  obtain g1 where d: "wait_delay rt ?ctx ?inp (w_gate w) = (g1, Some (Inr ()))"
    by (rule wait_delay_ok [of rt "w_gate w" key ?inp ?ctx n])
       (use e ids safe_migration_id [OF e(1)] in simp_all)
  obtain g2 b where c: "ask_confirm ?ctx None g1 = (g2, Some (Inr b))" using ask_confirm_settles by blast
  have "confirmed_in_time ?ctx"
    using e(9,10) by (simp add: confirmed_in_time_def ttl_ms_def timeout_ms_def MAX_TIMEOUT_def)
  with ask_confirm_Inr(1) [OF c] have b by simp
  with d c e(8) g ids show ?thesis by (simp add: approval_phase_def Let_def)
qed

lemma handler_ok:
  assumes sup: "migration_supported rt env plan w" and pl: "same_plan plan s" "outputs_json s"
    and f: "f \<in> {me_identify env, me_plan env, me_dry_run env, me_execute env}"
  shows "\<exists>v. call_handler rt env n f s w1 = (log_event (Called n (mg_now w1)) w1, Inr v)
    \<and> outputs_json (set_phase i (\<lambda>p. p\<lparr>ph_output := Some v\<rparr>) s)"
proof -
  obtain v where v: "f s = Inr v" "is_json v" using sup f unfolding migration_supported_def by blast
  have "\<not> me_cancels env n" using sup unfolding migration_supported_def by blast
  with v pl show ?thesis by (auto simp: call_handler_def Let_def intro!: outputs_set_phase)
qed

lemma phase_body_ok:
  assumes sup: "migration_supported rt env plan w" and k: "k < 5" and tr: "on_track env plan w k s w1"
  shows "\<exists>w2 s2. phase_body rt env (STANDARD_PHASES ! k) s w1 = (w2, s2, Some (Inr ()))
    \<and> same_plan plan s2 \<and> outputs_json s2 \<and> mg_index s2 = k
    \<and> mg_status s2 = (if k = 4 then Complete else InFlight) \<and> (k \<le> 2 \<longrightarrow> w_gate w2 = w_gate w)
    \<and> (k = 4 \<longrightarrow> w_trace w2 = w_trace w1 @ [Called Execute (mg_now w1)])"
proof -
  have t: "same_plan plan s" "outputs_json s" "mg_index s = k" "mg_status s = InFlight"
    "k \<le> 3 \<longrightarrow> w_gate w1 = w_gate w"
    using tr k by (auto simp: on_track_def)
  consider "k = 0" | "k = 1" | "k = 2" | "k = 3" | "k = 4" using k by linarith
  then show ?thesis
  proof cases
    case 4
    with approval_phase_ok [OF sup t(1)] t(5) obtain w2 where
      "approval_phase rt env s w1 = (w2, Some (Inr ()))" by auto
    with 4 t show ?thesis by (simp add: phase_body_def STANDARD_PHASES_def numeral_eq_Suc)
  next
    case 1
    with handler_ok [OF sup t(1,2), of "me_identify env" "IdentifyResources" w1 0] t show ?thesis
      by (auto simp: phase_body_def STANDARD_PHASES_def finish_handler_def Let_def log_event_def)
  next
    case 2
    with handler_ok [OF sup t(1,2), of "me_plan env" "PlanTarget" w1 1] t show ?thesis
      by (auto simp: phase_body_def STANDARD_PHASES_def finish_handler_def Let_def log_event_def)
  next
    case 3
    with handler_ok [OF sup t(1,2), of "me_dry_run env" "DryRun" w1 2] t show ?thesis
      by (auto simp: phase_body_def STANDARD_PHASES_def numeral_eq_Suc finish_handler_def Let_def
          log_event_def)
  next
    case 5
    with handler_ok [OF sup t(1,2), of "me_execute env" "Execute" w1 4] t show ?thesis
      by (auto simp: phase_body_def STANDARD_PHASES_def numeral_eq_Suc finish_handler_def Let_def
          log_event_def)
  qed
qed

lemma run_phase_ok:
  assumes sup: "migration_supported rt env plan w" and k: "k < 5" and tr: "on_track env plan w k s w1"
  shows "\<exists>w2 s2. run_phase rt env (STANDARD_PHASES ! k) s w1 = (w2, s2, Some (Inr ()))
    \<and> on_track env plan w (k + 1) s2 w2 \<and> (k = 4 \<longrightarrow> (\<exists>t. Called Execute t \<in> set (w_trace w2)))"
proof -
  let ?s1 = "set_phase (mg_index s) (\<lambda>p. p\<lparr>ph_status := PhInProgress, ph_started := Some (rt_iso rt (mg_now w1))\<rparr>) s"
  obtain p key where e: "migration_path (mg_id plan) = Inr p" "get_secret rt hmac_env = Inr key"
    "\<And>n. me_disk env n = DiskOk"
    using sup unfolding migration_supported_def by blast
  have pl: "same_plan plan s" "outputs_json s" using tr by (simp_all add: on_track_def)
  have o1: "outputs_json ?s1" "same_plan plan ?s1" "mg_id ?s1 = mg_id plan"
    using pl by (auto intro!: outputs_set_phase simp: same_planD)
  then obtain st where sv: "mg_save rt env ?s1 w1 = (w1\<lparr>w_store := st, w_writes := w_writes w1 + 1\<rparr>, Inr ())"
    using mg_save_ok [of ?s1 p env w1 rt key] e by auto
  let ?w = "w1\<lparr>w_store := st, w_writes := w_writes w1 + 1\<rparr>"
  have "on_track env plan w k ?s1 ?w" using tr o1 by (simp add: on_track_def)
  from phase_body_ok [OF sup k this] obtain w2 s2 where b:
    "phase_body rt env (STANDARD_PHASES ! k) ?s1 ?w = (w2, s2, Some (Inr ()))"
    "same_plan plan s2" "outputs_json s2" "mg_index s2 = k"
    "mg_status s2 = (if k = 4 then Complete else InFlight)" "k \<le> 2 \<longrightarrow> w_gate w2 = w_gate w"
    "k = 4 \<longrightarrow> w_trace w2 = w_trace w1 @ [Called Execute (mg_now ?w)]"
    by auto
  let ?s3 = "(set_phase (mg_index s) (\<lambda>p. p\<lparr>ph_status := PhComplete,
                 ph_completed := Some (rt_iso rt (mg_now w2))\<rparr>) s2)\<lparr>mg_index := mg_index s + 1\<rparr>"
  have o3: "outputs_json ?s3" "mg_id ?s3 = mg_id plan" "same_plan plan ?s3"
    using b(2,3) by (auto intro!: outputs_set_phase simp: same_planD)
  obtain st3 where sv3: "mg_save rt env ?s3 w2 = (w2\<lparr>w_store := st3, w_writes := w_writes w2 + 1\<rparr>, Inr ())"
    using mg_save_ok [of ?s3 p env w2 rt key] e o3 by auto
  have "mg_index s = k" using tr by (simp add: on_track_def)
  with sv sv3 b o3 k show ?thesis
    by (auto simp: run_phase_def Let_def on_track_def)
qed

lemma standard_names:
  assumes "same_plan plan s" "map ph_name (mg_phases plan) = STANDARD_PHASES"
  shows "length (mg_phases s) = 5" "k < 5 \<Longrightarrow> ph_name (mg_phases s ! k) = STANDARD_PHASES ! k"
proof -
  have n: "map ph_name (mg_phases s) = STANDARD_PHASES" using assms by (simp add: same_plan_def)
  show l: "length (mg_phases s) = 5" using arg_cong [OF n, of length] by (simp add: STANDARD_PHASES_def)
  show "ph_name (mg_phases s ! k) = STANDARD_PHASES ! k" if "k < 5"
    using that l by (simp flip: n)
qed

lemma mg_run_ok:
  assumes sup: "migration_supported rt env plan w"
    and names: "map ph_name (mg_phases plan) = STANDARD_PHASES"
  shows "on_track env plan w k s w1 \<Longrightarrow> k \<le> 4 \<Longrightarrow>
    \<exists>w2 s2. mg_run rt env s w1 = (w2, s2, Some (Inr ())) \<and> mg_status s2 = Complete
      \<and> (\<exists>t. Called Execute t \<in> set (w_trace w2))"
proof (induction "4 - k" arbitrary: k s w1)
  case (0 k s w1)
  then have k: "k = 4" by simp
  have pl: "same_plan plan s" using 0 by (simp add: on_track_def)
  have at: "mg_status s = InFlight" "mg_index s = 4" "length (mg_phases s) = 5"
    "ph_name (mg_phases s ! 4) = STANDARD_PHASES ! 4"
    using 0 k standard_names [OF pl names] by (simp_all add: on_track_def)
  from run_phase_ok [OF sup _ 0(2)] k obtain w2 s2 where
    "run_phase rt env (STANDARD_PHASES ! 4) s w1 = (w2, s2, Some (Inr ()))" "on_track env plan w 5 s2 w2"
    "\<exists>t. Called Execute t \<in> set (w_trace w2)" by auto
  with at show ?case
    by (simp add: mg_run.simps [of rt env s w1] mg_run.simps [of rt env s2 w2] on_track_def)
next
  case (Suc d k s w1)
  have k: "d = 4 - (k + 1)" "k + 1 \<le> 4" "k < 5" using Suc(2) by linarith+
  have pl: "same_plan plan s" using Suc(3) by (simp add: on_track_def)
  have at: "mg_status s = InFlight" "mg_index s = k" "length (mg_phases s) = 5"
    "ph_name (mg_phases s ! k) = STANDARD_PHASES ! k"
    using k Suc(3) standard_names [OF pl names] by (simp_all add: on_track_def)
  from run_phase_ok [OF sup k(3) Suc(3)] obtain w2 s2 where r:
    "run_phase rt env (STANDARD_PHASES ! k) s w1 = (w2, s2, Some (Inr ()))" "on_track env plan w (k + 1) s2 w2"
    by auto
  from Suc(1) [OF k(1) r(2) k(2)] obtain w3 s3 where "mg_run rt env s2 w2 = (w3, s3, Some (Inr ()))"
    "mg_status s3 = Complete" "\<exists>t. Called Execute t \<in> set (w_trace w3)" by auto
  moreover have "mg_run rt env s w1 = mg_run rt env s2 w2"
    using at r(1) k(3) by (subst mg_run.simps [of rt env s w1]) simp
  ultimately show ?case by auto
qed

section \<open>What is saved\<close>

lemma run_phase_saved:
  assumes "run_phase rt env n s w = (w1, s1, Some (Inr u))"
  shows "load_migration_state rt (mg_id s) (w_store w1) = Inr s1 \<and> mg_id s1 = mg_id s
    \<and> mg_index s1 = mg_index s + 1 \<and> (n \<noteq> Execute \<longrightarrow> mg_status s1 = mg_status s)"
proof -
  let ?s1 = "set_phase (mg_index s) (\<lambda>p. p\<lparr>ph_status := PhInProgress, ph_started := Some (rt_iso rt (mg_now w))\<rparr>) s"
  obtain wa wb s2 v w' v' where c: "mg_save rt env ?s1 w = (wa, Inr v)"
    "phase_body rt env n ?s1 wa = (wb, s2, Some (Inr v'))"
    "s1 = (set_phase (mg_index s) (\<lambda>p. p\<lparr>ph_status := PhComplete,
             ph_completed := Some (rt_iso rt (mg_now wb))\<rparr>) s2)\<lparr>mg_index := mg_index s + 1\<rparr>"
    "mg_save rt env s1 wb = (w1, Inr u)"
    using assms by (auto simp: run_phase_def Let_def split: prod.splits sum.splits option.splits)
  have "mg_id s2 = mg_id s" using phase_body_shape [OF c(2)] by simp
  moreover have "mg_status s2 = mg_status s" if "n \<noteq> Execute"
    using c(2) that by (auto simp: phase_body_def finish_handler_def Let_def
        split: phase_name.splits prod.splits sum.splits)
  ultimately show ?thesis using c(3) mg_save_load [OF c(4)] by simp
qed

lemma mg_run_saved:
  assumes "mg_run rt env s w = (w', s', Some (Inr u))" "load_migration_state rt (mg_id s) (w_store w) = Inr s"
  shows "load_migration_state rt (mg_id s) (w_store w') = Inr s' \<and> mg_status s' \<noteq> InFlight"
  using assms
proof (induction rt env s w arbitrary: w' s' u rule: mg_run.induct)
  case (1 rt env s w)
  let ?n = "ph_name (mg_phases s ! mg_index s)"
  obtain w1 s1 x where p: "run_phase rt env ?n s w = (w1, s1, x)" by (metis prod_cases3)
  consider (over) "mg_status s \<noteq> InFlight" | (off) "mg_status s = InFlight" "length (mg_phases s) \<le> mg_index s"
    | (phase) "mg_status s = InFlight" "\<not> length (mg_phases s) \<le> mg_index s" by blast
  then show ?case
  proof cases
    case over
    with "1.prems" show ?thesis by (simp add: mg_run.simps [of rt env s w])
  next
    case off
    let ?s = "s\<lparr>mg_status := Complete\<rparr>"
    have "mg_save rt env ?s w = (w', Inr u) \<and> s' = ?s"
      using "1.prems"(1) off by (auto simp: mg_run.simps [of rt env s w] Let_def split: prod.splits)
    with mg_save_load [of rt env ?s w w' u] show ?thesis by auto
  next
    case phase
    then obtain v where v: "x = Some (Inr v)" "mg_run rt env s1 w1 = (w', s', Some (Inr u))"
      using "1.prems"(1) p by (auto simp: mg_run.simps [of rt env s w] Let_def
          split: option.splits sum.splits prod.splits)
    note sv = run_phase_saved [OF p [unfolded v(1)]]
    have "\<not> mg_status s \<noteq> InFlight" using phase by simp
    from "1.IH" [OF this phase(2) p [symmetric] refl v(1) refl v(2)] sv show ?thesis by simp
  qed
qed

lemma mg_start_cases:
  assumes "mg_start rt env plan w = (w', s', Some (Inr u))"
  obtains w1 where "mg_save rt env (plan\<lparr>mg_index := 0, mg_status := InFlight\<rparr>) w = (w1, Inr ())"
    "mg_run rt env (plan\<lparr>mg_index := 0, mg_status := InFlight\<rparr>) w1 = (w', s', Some (Inr u))"
  using assms by (auto simp: mg_start_def Let_def split: prod.splits sum.splits)

lemma mg_start_saved:
  assumes "mg_start rt env plan w = (w', s', Some (Inr u))"
  shows "load_migration_state rt (mg_id plan) (w_store w') = Inr s' \<and> mg_status s' \<noteq> InFlight"
proof -
  obtain w1 where s: "mg_save rt env (plan\<lparr>mg_index := 0, mg_status := InFlight\<rparr>) w = (w1, Inr ())"
    "mg_run rt env (plan\<lparr>mg_index := 0, mg_status := InFlight\<rparr>) w1 = (w', s', Some (Inr u))"
    using assms by (rule mg_start_cases)
  from mg_run_saved [OF s(2)] mg_save_load [OF s(1)] show ?thesis by simp
qed

lemma mg_start_ok:
  assumes sup: "migration_supported rt env plan w" and names: "map ph_name (mg_phases plan) = STANDARD_PHASES"
    and out: "outputs_json plan"
  shows "\<exists>w' s'. mg_start rt env plan w = (w', s', Some (Inr ())) \<and> mg_status s' = Complete
    \<and> (\<exists>t. Called Execute t \<in> set (w_trace w'))"
proof -
  let ?s = "plan\<lparr>mg_index := 0, mg_status := InFlight\<rparr>"
  obtain p key where e: "migration_path (mg_id plan) = Inr p" "get_secret rt hmac_env = Inr key"
    "\<And>n. me_disk env n = DiskOk"
    using sup unfolding migration_supported_def by blast
  obtain st where sv: "mg_save rt env ?s w = (w\<lparr>w_store := st, w_writes := w_writes w + 1\<rparr>, Inr ())"
    using mg_save_ok [of ?s p env w rt key] e out by auto
  have "on_track env plan w 0 ?s (w\<lparr>w_store := st, w_writes := w_writes w + 1\<rparr>)"
    using out by (simp add: on_track_def same_plan_def)
  from mg_run_ok [OF sup names this] sv show ?thesis by (simp add: mg_start_def Let_def)
qed

text \<open>
  C14: a migration with the five standard phases can succeed: when its handlers answer, the
  backup is there, the disk and secret are good, nothing cancels and the timer of the delay runs, \<open>start\<close>
  returns a complete state after the execute handler was called, and that state is the stored one.
\<close>

theorem migration_completes:
  assumes "migration_supported rt env plan w" "map ph_name (mg_phases plan) = STANDARD_PHASES" "outputs_json plan"
  shows "\<exists>w' s'. mg_start rt env plan w = (w', s', Some (Inr ())) \<and> mg_status s' = Complete
    \<and> (\<exists>t. Called Execute t \<in> set (w_trace w')) \<and> load_migration_state rt (mg_id plan) (w_store w') = Inr s'"
  using mg_start_ok [OF assms] mg_start_saved by blast

text \<open>
  What the caller of \<open>start\<close> is given is what is stored, and it is no longer in flight: whatever
  the phases are, what the handlers do, and what cancellations wrote meanwhile.
\<close>

theorem migration_result_saved:
  assumes "mg_start rt env plan w = (w', s', Some (Inr u))"
  shows "load_migration_state rt (mg_id plan) (w_store w') = Inr s' \<and> mg_status s' \<noteq> InFlight
    \<and> mg_resume rt env2 (mg_id plan) w' = (w', Some (Inr s'))
    \<and> mg_cancel rt env2 (mg_id plan) w' = (w', Inr ())"
  using mg_start_saved [OF assms] by (simp add: mg_resume_def mg_cancel_def)

text \<open>
  C15: a run that is left after a phase and resumed from the store goes on as the uninterrupted
  run would: same handlers, same result.
\<close>

theorem migration_resume_continues:
  assumes "mg_status s = InFlight" "mg_index s < length (mg_phases s)"
    "run_phase rt env (ph_name (mg_phases s ! mg_index s)) s w = (w1, s1, Some (Inr u))"
    "mg_run rt env s w = (w', s', Some r)"
  shows "mg_resume rt env (mg_id s) w1 = (w', Some (case r of Inl e \<Rightarrow> Inl e | Inr _ \<Rightarrow> Inr s'))"
proof -
  have sv: "load_migration_state rt (mg_id s) (w_store w1) = Inr s1"
    using run_phase_saved [OF assms(3)] by blast
  have go: "mg_run rt env s1 w1 = (w', s', Some r)"
    using assms by (simp add: mg_run.simps [of rt env s w])
  show ?thesis
  proof (cases "mg_status s1 = InFlight")
    case True
    with sv go show ?thesis by (cases r) (simp_all add: mg_resume_def)
  next
    case False
    with go have "w1 = w' \<and> s1 = s' \<and> r = Inr ()" by (simp add: mg_run.simps [of rt env s1 w1])
    with False sv show ?thesis by (simp add: mg_resume_def)
  qed
qed

text \<open>
  A cancellation that comes while the handler of one of the first three phases runs is
  lost: the run goes on with its own copy, and the state it writes after the phase is in flight again.
\<close>

theorem migration_cancel_lost:
  assumes "mg_status s = InFlight" "n \<in> {IdentifyResources, PlanTarget, DryRun}" "me_cancels env n"
    and "run_phase rt env n s w = (w1, s1, Some (Inr u))"
  shows "load_migration_state rt (mg_id s) (w_store w1) = Inr s1 \<and> mg_status s1 = InFlight
    \<and> mg_index s1 = mg_index s + 1"
  using run_phase_saved [OF assms(4)] assms(1,2) by auto

text \<open>A migration for the witnesses.\<close>

definition demo_plan :: migration_state where
  "demo_plan = \<lparr>mg_id = replicate 26 (CHR ''0''), mg_source = ''docker'', mg_target = ''proxmox'',
     mg_description = ''move'', mg_by = ''op'', mg_at = ''T0'', mg_delay = 5,
     mg_phases = map (\<lambda>n. \<lparr>ph_name = n, ph_status = PhPending, ph_started = None, ph_completed = None,
       ph_output = None, ph_error = None\<rparr>) STANDARD_PHASES,
     mg_index = 0, mg_status = InFlight\<rparr>"

definition demo_menv :: mig_env where
  "demo_menv = \<lparr>me_identify = (\<lambda>_. Inr JNull), me_plan = (\<lambda>_. Inr JNull),
     me_dry_run = (\<lambda>_. Inr (JStr ''ok'')), me_execute = (\<lambda>_. Inr JNull), me_disk = (\<lambda>_. DiskOk),
     me_ctx = demo_ctx\<lparr>gc_events := [Tick 5000, Fire DiskOk 1]\<rparr>, me_cancels = (\<lambda>_. False)\<rparr>"

definition demo_mworld :: mig_world where
  "demo_mworld = \<lparr>w_gate = demo_gate\<lparr>gs_manifest := Content (Some (manifest_json
       [JObj [(''platform'', JStr ''docker''), (''taken_at'', JStr ''never''), (''hmac'', JStr '''')]]))\<rparr>,
     w_store = [], w_writes = 0, w_trace = []\<rparr>"

lemma demo_path: "migration_path (mg_id demo_plan) = Inr (replicate 26 (CHR ''0'') @ ''.json'')"
  by (simp add: demo_plan_def migration_path_def ULID_CHARS_def)

lemma demo_outputs: "outputs_json demo_plan"
  by (auto simp: outputs_json_def demo_plan_def)

lemma demo_names: "map ph_name (mg_phases demo_plan) = STANDARD_PHASES"
  by (simp add: demo_plan_def comp_def)

lemma demo_has_backup:
  "\<exists>e. verify_backup demo_rt t (gs_manifest (w_gate demo_mworld))
     \<lparr>vi_platform = mg_source demo_plan, vi_target = mg_source demo_plan, vi_overrides = []\<rparr> = Inr e"
proof -
  have "rt_parse demo_rt ''never'' = None" by (simp add: demo_rt_def)
  then show ?thesis
    by (simp add: demo_mworld_def demo_plan_def verify_backup_def candidates.simps prop_of_def
        date_parse_def too_old_def)
qed

lemma demo_supported: "migration_supported demo_rt demo_menv demo_plan demo_mworld"
  unfolding migration_supported_def
  using demo_path demo_has_backup [of "now (w_gate demo_mworld)"] demo_gate_facts(1,2)
  by (simp add: demo_menv_def)
     (simp add: demo_mworld_def demo_ctx_def demo_gate_def demo_delay_def demo_plan_def timeout_ms_def
       MAX_TIMEOUT_def)

theorem migration_completes_witness:
  "\<exists>w' s'. mg_start demo_rt demo_menv demo_plan demo_mworld = (w', s', Some (Inr ())) \<and> mg_status s' = Complete"
  using migration_completes [OF demo_supported demo_names demo_outputs] by blast

theorem migration_executes_only_approved_witness:
  "\<exists>w' s' t. mg_start demo_rt demo_menv demo_plan demo_mworld = (w', s', Some (Inr ()))
     \<and> Called Execute t \<in> set (w_trace w') \<and> (\<exists>tb. BackupVerified tb \<in> set (w_trace w') \<and> tb + 5000 \<le> t)"
proof -
  obtain w' s' t where run: "mg_start demo_rt demo_menv demo_plan demo_mworld = (w', s', Some (Inr ()))"
    "Called Execute t \<in> set (w_trace w')"
    using mg_start_ok [OF demo_supported demo_names demo_outputs] by blast
  have "quiet_world demo_rt True demo_plan (gs_manifest (w_gate demo_mworld)) demo_mworld"
    using demo_gate_facts(1,2) by (simp add: quiet_world_def demo_mworld_def)
  moreover have "migration_ready demo_rt demo_menv demo_plan"
    by (simp add: migration_ready_def demo_plan_def demo_menv_def demo_ctx_def MAX_TIMEOUT_def)
  moreover have "w_trace demo_mworld = []" by (simp add: demo_mworld_def)
  ultimately obtain tb td tc where "BackupVerified tb \<in> set (w_trace w')"
    "tb + mg_delay demo_plan * 1000 \<le> td" "td \<le> tc" "tc \<le> t"
    using migration_executes_only_approved [OF run(1) demo_names _ _ _ run(2)] by auto
  moreover have "mg_delay demo_plan = 5" by (simp add: demo_plan_def)
  ultimately show ?thesis using run by force
qed

theorem migration_result_saved_witness:
  "\<exists>w' s'. mg_start demo_rt demo_menv demo_plan demo_mworld = (w', s', Some (Inr ()))
     \<and> mg_cancel demo_rt demo_menv (mg_id demo_plan) w' = (w', Inr ())"
  using mg_start_ok [OF demo_supported demo_names demo_outputs] migration_result_saved by blast

text \<open>
  A cancellation that finds the migration in flight stores it as cancelled, and a resume
  after it calls no handler: it returns the cancelled state and changes nothing.
\<close>

theorem migration_cancel_final:
  assumes "mg_cancel rt env i w = (w', Inr u)" "load_migration_state rt i (w_store w) = Inr s" "mg_id s = i"
  shows "\<exists>s'. load_migration_state rt i (w_store w') = Inr s'
    \<and> mg_status s' = (if mg_status s = InFlight then Cancelled else mg_status s)
    \<and> mg_resume rt env2 i w' = (w', Some (Inr s')) \<and> w_trace w' = w_trace w"
proof (cases "mg_status s = InFlight")
  case True
  let ?s = "set_phase (mg_index s) (\<lambda>p. p\<lparr>ph_status := PhCancelled\<rparr>) (s\<lparr>mg_status := Cancelled\<rparr>)"
  obtain w1 where w1: "mg_save rt env ?s w1 = (w', Inr u)" "w_trace w1 = w_trace w"
    using assms(1,2) True by (auto simp: mg_cancel_def Let_def)
  from mg_save_load [OF w1(1)] have "load_migration_state rt i (w_store w') = Inr ?s"
    using assms(3) by simp
  with True w1(2) mg_save_gate [OF w1(1)] show ?thesis by (auto simp: mg_resume_def)
next
  case False
  with assms(1,2) show ?thesis by (auto simp: mg_cancel_def mg_resume_def)
qed

lemma demo_first_phase:
  assumes "me_identify env = (\<lambda>_. Inr JNull)" "me_disk env = (\<lambda>_. DiskOk)"
  shows "\<exists>w1 s1. run_phase demo_rt env IdentifyResources demo_plan w = (w1, s1, Some (Inr ()))"
proof -
  let ?s1 = "set_phase 0 (\<lambda>p. p\<lparr>ph_status := PhInProgress, ph_started := Some (rt_iso demo_rt (mg_now w))\<rparr>) demo_plan"
  let ?s2 = "set_phase 0 (\<lambda>p. p\<lparr>ph_output := Some JNull\<rparr>) ?s1"
  have i: "mg_index demo_plan = 0" by (simp add: demo_plan_def)
  have o1: "outputs_json ?s1" using demo_outputs by (auto intro!: outputs_set_phase)
  obtain w1 where w1: "mg_save demo_rt env ?s1 w = (w1, Inr ())"
    using mg_save_ok [OF o1, of _ env w demo_rt] demo_path assms(2) demo_secret by auto
  obtain w2 where b: "phase_body demo_rt env IdentifyResources ?s1 w1 = (w2, ?s2, Some (Inr ()))"
    by (simp add: phase_body_def call_handler_def finish_handler_def Let_def assms(1) i)
  let ?s3 = "(set_phase 0 (\<lambda>p. p\<lparr>ph_status := PhComplete,
       ph_completed := Some (rt_iso demo_rt (mg_now w2))\<rparr>) ?s2)\<lparr>mg_index := 1\<rparr>"
  have "outputs_json ?s3" using o1 by (auto intro!: outputs_set_phase)
  then obtain w3 where "mg_save demo_rt env ?s3 w2 = (w3, Inr ())"
    using mg_save_ok [of ?s3 _ env w2 demo_rt] demo_path assms(2) demo_secret by auto
  with w1 b i show ?thesis by (simp add: run_phase_def Let_def)
qed

theorem migration_cancel_lost_witness:
  "\<exists>w1 s1. run_phase demo_rt (demo_menv\<lparr>me_cancels := (\<lambda>_. True)\<rparr>) IdentifyResources demo_plan demo_mworld
       = (w1, s1, Some (Inr ()))
     \<and> load_migration_state demo_rt (mg_id demo_plan) (w_store w1) = Inr s1 \<and> mg_status s1 = InFlight"
proof -
  let ?env = "demo_menv\<lparr>me_cancels := (\<lambda>_. True)\<rparr>"
  obtain w1 s1 where r: "run_phase demo_rt ?env IdentifyResources demo_plan demo_mworld = (w1, s1, Some (Inr ()))"
    using demo_first_phase [of ?env demo_mworld] by (auto simp: demo_menv_def)
  have "mg_status demo_plan = InFlight" "me_cancels ?env IdentifyResources" by (simp_all add: demo_plan_def)
  from migration_cancel_lost [OF this(1) _ this(2) r] r show ?thesis by auto
qed

lemma demo_saved:
  obtains w1 where "mg_save demo_rt demo_menv demo_plan demo_mworld = (w1, Inr ())"
    "load_migration_state demo_rt (mg_id demo_plan) (w_store w1) = Inr demo_plan"
proof -
  have "me_disk demo_menv (w_writes demo_mworld) = DiskOk" by (simp add: demo_menv_def)
  then obtain w1 where "mg_save demo_rt demo_menv demo_plan demo_mworld = (w1, Inr ())"
    using mg_save_ok [OF demo_outputs demo_path _ demo_secret, of demo_menv demo_mworld] by blast
  with that mg_save_load show thesis by blast
qed

theorem migration_cancel_final_witness:
  "\<exists>w1 w2 s. mg_cancel demo_rt demo_menv (mg_id demo_plan) w1 = (w2, Inr ())
     \<and> mg_resume demo_rt demo_menv (mg_id demo_plan) w2 = (w2, Some (Inr s)) \<and> mg_status s = Cancelled"
proof -
  obtain w1 where "mg_save demo_rt demo_menv demo_plan demo_mworld = (w1, Inr ())"
    and w1: "load_migration_state demo_rt (mg_id demo_plan) (w_store w1) = Inr demo_plan"
    by (rule demo_saved)
  let ?s = "set_phase (mg_index demo_plan) (\<lambda>p. p\<lparr>ph_status := PhCancelled\<rparr>) (demo_plan\<lparr>mg_status := Cancelled\<rparr>)"
  have "outputs_json ?s" using demo_outputs by (auto intro!: outputs_set_phase)
  then have "\<exists>w2. mg_save demo_rt demo_menv ?s w = (w2, Inr ())" for w
    using mg_save_ok [of ?s _ demo_menv w demo_rt] demo_path demo_secret by (auto simp: demo_menv_def)
  then obtain w2 where c: "mg_cancel demo_rt demo_menv (mg_id demo_plan) w1 = (w2, Inr ())"
    using w1 by (simp add: mg_cancel_def Let_def demo_plan_def) blast
  have "mg_status demo_plan = InFlight" by (simp add: demo_plan_def)
  with c migration_cancel_final [OF c w1 refl, of demo_menv] show ?thesis by auto
qed

theorem migration_resume_continues_witness:
  "\<exists>w1 w' s'. mg_resume demo_rt demo_menv (mg_id demo_plan) w1 = (w', Some (Inr s')) \<and> mg_status s' = Complete"
proof -
  obtain wa w' s' where m: "mg_save demo_rt demo_menv (demo_plan\<lparr>mg_index := 0, mg_status := InFlight\<rparr>) demo_mworld = (wa, Inr ())"
    "mg_run demo_rt demo_menv (demo_plan\<lparr>mg_index := 0, mg_status := InFlight\<rparr>) wa = (w', s', Some (Inr ()))"
    "mg_status s' = Complete"
    using mg_start_ok [OF demo_supported demo_names demo_outputs] by (blast elim: mg_start_cases)
  have p: "demo_plan\<lparr>mg_index := 0, mg_status := InFlight\<rparr> = demo_plan"
    "mg_status demo_plan = InFlight" "mg_index demo_plan < length (mg_phases demo_plan)"
    "ph_name (mg_phases demo_plan ! mg_index demo_plan) = IdentifyResources"
    by (simp_all add: demo_plan_def STANDARD_PHASES_def)
  obtain w1 s1 where "run_phase demo_rt demo_menv IdentifyResources demo_plan wa = (w1, s1, Some (Inr ()))"
    using demo_first_phase [of demo_menv wa] by (auto simp: demo_menv_def)
  with p migration_resume_continues [OF p(2,3)] m show ?thesis by fastforce
qed

end
