(* ===== verification/Remote.thy ===== *)
theory Remote
  imports Backup
begin

text \<open>
  Commands on a remote host, as \<open>src/connection/base.ts\<close> offers them to the backup and restore
  engines: \<open>exec\<close> resolves with an exit code and the two outputs, or rejects. The host is the list of
  the commands run so far; the connection, code outside the model, decides each answer from it. Also the
  three functions of \<open>node:path/posix\<close> the engines call.
\<close>

section \<open>Connections\<close>

record exec_result =
  x_stdout :: string
  x_stderr :: string
  x_exit :: int

type_synonym host = "string list"
type_synonym conn = "host \<Rightarrow> string \<Rightarrow> exec_result res"
type_synonym ('s, 'a) prog = "'s \<Rightarrow> 's \<times> 'a res"
type_synonym 'a remote = "(host, 'a) prog"

definition rexec :: "conn \<Rightarrow> string \<Rightarrow> exec_result remote" where
  "rexec c cmd h = (h @ [cmd], c h cmd)"

definition rret :: "'a \<Rightarrow> ('s, 'a) prog" where
  "rret x h = (h, Inr x)"

definition rthrow :: "error \<Rightarrow> ('s, 'a) prog" where
  "rthrow e h = (h, Inl e)"

definition rthen :: "('s, 'a) prog \<Rightarrow> ('a \<Rightarrow> ('s, 'b) prog) \<Rightarrow> ('s, 'b) prog" where
  "rthen m f h = (case m h of (h1, Inl e) \<Rightarrow> (h1, Inl e) | (h1, Inr x) \<Rightarrow> f x h1)"

text \<open>\<open>try\<close> around a step whose errors are turned into a value.\<close>

definition rcatch :: "('s, 'a) prog \<Rightarrow> (error \<Rightarrow> 'a) \<Rightarrow> ('s, 'a) prog" where
  "rcatch m f h = (case m h of (h1, Inl e) \<Rightarrow> (h1, Inr (f e)) | (h1, Inr x) \<Rightarrow> (h1, Inr x))"

lemma rthen_Inr:
  "rthen m f h = (h', Inr y) \<longleftrightarrow> (\<exists>h1 x. m h = (h1, Inr x) \<and> f x h1 = (h', Inr y))"
  by (auto simp: rthen_def split: prod.splits sum.splits)

section \<open>What was run\<close>

text \<open>The commands \<open>cs\<close>, run in this order after \<open>h\<close>, all exit with 0.\<close>

fun all_ok :: "conn \<Rightarrow> host \<Rightarrow> string list \<Rightarrow> bool" where
  "all_ok c h [] = True"
| "all_ok c h (x # xs) =
     ((case c h x of Inl _ \<Rightarrow> False | Inr r \<Rightarrow> x_exit r = 0) \<and> all_ok c (h @ [x]) xs)"

lemma all_ok_append: "all_ok c h (xs @ ys) \<longleftrightarrow> all_ok c h xs \<and> all_ok c (h @ xs) ys"
  by (induction xs arbitrary: h) auto

text \<open>
  The contract of a program that gives up at the first command that fails: it only adds commands, and
  when it returns, all of them succeeded.
\<close>

definition appends :: "'a remote \<Rightarrow> bool" where
  "appends m \<longleftrightarrow> (\<forall>h. \<exists>cs. fst (m h) = h @ cs)"

definition stops_at_failure :: "conn \<Rightarrow> 'a remote \<Rightarrow> bool" where
  "stops_at_failure c m \<longleftrightarrow>
     (\<forall>h h' x. m h = (h', Inr x) \<longrightarrow> (\<exists>cs. h' = h @ cs \<and> all_ok c h cs))"

named_theorems remote_intros "closure of the contracts under the combinators"

lemma stops_rret [remote_intros]: "stops_at_failure c (rret x)"
  by (auto simp: stops_at_failure_def rret_def)

lemma stops_rthen [remote_intros]:
  assumes "stops_at_failure c m" "\<And>x. stops_at_failure c (f x)"
  shows "stops_at_failure c (rthen m f)"
  unfolding stops_at_failure_def rthen_Inr
proof (intro allI impI, elim exE conjE)
  fix h h' y h1 x
  assume "m h = (h1, Inr x)" "f x h1 = (h', Inr y)"
  then obtain as bs where "h1 = h @ as" "all_ok c h as" "h' = h1 @ bs" "all_ok c h1 bs"
    using assms unfolding stops_at_failure_def by blast
  then show "\<exists>cs. h' = h @ cs \<and> all_ok c h cs"
    by (intro exI [of _ "as @ bs"]) (simp add: all_ok_append)
qed

lemma appends_rret [remote_intros]: "appends (rret x)"
  by (simp add: appends_def rret_def)

lemma appends_rthrow [remote_intros]: "appends (rthrow e)"
  by (simp add: appends_def rthrow_def)

lemma appends_rexec [remote_intros]: "appends (rexec c cmd)"
  by (simp add: appends_def rexec_def)

lemma appends_rthen [remote_intros]:
  assumes "appends m" "\<And>x. appends (f x)"
  shows "appends (rthen m f)"
  unfolding appends_def
proof
  fix h
  obtain h1 r cs where m: "m h = (h1, r)" "h1 = h @ cs"
    using assms(1) unfolding appends_def by (metis prod.collapse)
  show "\<exists>cs. fst (rthen m f h) = h @ cs"
  proof (cases r)
    case (Inr x)
    obtain ds where "fst (f x h1) = h1 @ ds" using assms(2) unfolding appends_def by blast
    with m Inr show ?thesis by (simp add: rthen_def)
  qed (simp add: rthen_def m)
qed

lemma appends_rcatch [remote_intros]: "appends m \<Longrightarrow> appends (rcatch m f)"
proof -
  have "fst (rcatch m f h) = fst (m h)" for h by (simp add: rcatch_def split: prod.split sum.split)
  then show "appends m \<Longrightarrow> appends (rcatch m f)" by (simp add: appends_def)
qed

section \<open>Paths\<close>

text \<open>Segments of a path, resolving dots; the accumulator is the reversed result.\<close>

fun norm_segs :: "bool \<Rightarrow> string list \<Rightarrow> string list \<Rightarrow> string list" where
  "norm_segs up acc [] = rev acc"
| "norm_segs up acc (s # ss) =
     (if s = '''' \<or> s = ''.'' then norm_segs up acc ss
      else if s = ''..'' then
        (if acc \<noteq> [] \<and> hd acc \<noteq> ''..'' then norm_segs up (tl acc) ss
         else norm_segs up (if up then s # acc else acc) ss)
      else norm_segs up (s # acc) ss)"

definition posix_normalize :: "string \<Rightarrow> string" where
  "posix_normalize p =
    (if p = [] then ''.''
     else let abs = hd p = CHR ''/''; trail = last p = CHR ''/'';
              q = join ''/'' (norm_segs (\<not> abs) [] (split_on (CHR ''/'') p))
          in if q = [] then (if abs then ''/'' else if trail then ''./'' else ''.'')
             else (if abs then ''/'' else []) @ q @ (if trail then ''/'' else []))"

definition posix_join :: "string \<Rightarrow> string \<Rightarrow> string" where
  "posix_join a b = (let ps = filter (\<lambda>s. s \<noteq> []) [a, b] in
     if ps = [] then ''.'' else posix_normalize (join ''/'' ps))"

definition posix_basename :: "string \<Rightarrow> string" where
  "posix_basename p = rev (takeWhile (\<lambda>c. c \<noteq> CHR ''/'') (dropWhile (\<lambda>c. c = CHR ''/'') (rev p)))"

definition posix_dirname :: "string \<Rightarrow> string" where
  "posix_dirname p =
    (if p = [] then ''.''
     else let r = dropWhile (\<lambda>c. c \<noteq> CHR ''/'') (dropWhile (\<lambda>c. c = CHR ''/'') (rev (tl p)));
              root = hd p = CHR ''/''
          in if r = [] then (if root then ''/'' else ''.'')
             else if root \<and> length r = 1 then ''//'' else take (length r) p)"

lemma split_on_join:
  "(\<And>s. s \<in> set ss \<Longrightarrow> d \<notin> set s) \<Longrightarrow> ss \<noteq> [] \<Longrightarrow> split_on d (join [d] ss) = ss"
  by (induction "[d]" ss rule: join.induct) (auto simp: split_on_clean split_on_append)

text \<open>A name without a slash or dots, joined to a clean absolute directory, is the directory, a slash
  and the name, and can be taken apart again.\<close>

definition clean_seg :: "string \<Rightarrow> bool" where
  "clean_seg s \<longleftrightarrow> s \<noteq> '''' \<and> s \<noteq> ''.'' \<and> s \<noteq> ''..'' \<and> CHR ''/'' \<notin> set s"

definition clean_dir :: "string \<Rightarrow> bool" where
  "clean_dir d \<longleftrightarrow> (\<exists>ss. ss \<noteq> [] \<and> list_all clean_seg ss \<and> d = ''/'' @ join ''/'' ss)"

lemma norm_segs_clean: "list_all clean_seg ss \<Longrightarrow> norm_segs up acc ss = rev acc @ ss"
  by (induction ss arbitrary: acc) (auto simp: clean_seg_def)

lemma join_snoc: "ss \<noteq> [] \<Longrightarrow> join sep (ss @ [s]) = join sep ss @ sep @ s"
  by (induction sep ss rule: join.induct) auto

lemma posix_join_clean:
  assumes "clean_dir d" "clean_seg s"
  shows "posix_join d s = d @ ''/'' @ s"
proof -
  obtain ss where ss: "ss \<noteq> []" "list_all clean_seg ss" "d = ''/'' @ join ''/'' ss"
    using assms(1) unfolding clean_dir_def by blast
  let ?all = "ss @ [s]"
  have j: "d @ ''/'' @ s = ''/'' @ join ''/'' ?all" using ss by (simp add: join_snoc)
  have "CHR ''/'' \<notin> set x" if "x \<in> set ?all" for x
    using that ss(2) assms(2) by (auto simp: clean_seg_def list_all_iff)
  then have "split_on (CHR ''/'') (join ''/'' ?all) = ?all" by (intro split_on_join) auto
  then have sp: "split_on (CHR ''/'') (d @ ''/'' @ s) = [] # ?all" unfolding j by simp
  have "norm_segs False [] ([] # ?all) = ?all"
    using ss(2) assms(2) norm_segs_clean [of ?all False "[]"] by simp
  moreover have "last s \<noteq> CHR ''/''" using assms(2) last_in_set [of s] by (metis clean_seg_def)
  moreover have "s \<noteq> []" using assms(2) by (simp add: clean_seg_def)
  moreover have "join ''/'' ?all \<noteq> []" "hd (d @ ''/'' @ s) = CHR ''/''"
    using assms(2) ss(1,3) by (auto simp: clean_seg_def join_snoc)
  ultimately have "posix_normalize (d @ ''/'' @ s) = ''/'' @ join ''/'' ?all"
    unfolding posix_normalize_def Let_def sp by simp
  moreover have "d \<noteq> []" "s \<noteq> []" using ss(3) assms(2) by (auto simp: clean_seg_def)
  ultimately show ?thesis using j by (simp add: posix_join_def)
qed

lemma posix_parts:
  assumes "clean_dir d" "clean_seg s"
  shows "posix_dirname (d @ ''/'' @ s) = d" "posix_basename (d @ ''/'' @ s) = s"
proof -
  have s: "s \<noteq> []" "CHR ''/'' \<notin> set s" using assms(2) by (auto simp: clean_seg_def)
  obtain x xs where rs: "rev s = x # xs" using s(1) by (cases "rev s") auto
  have ns: "\<forall>c \<in> set (rev s). c \<noteq> CHR ''/''" using s(2) by auto
  then have x: "x \<noteq> CHR ''/''" by (simp add: rs)
  have tw: "takeWhile (\<lambda>c. c \<noteq> CHR ''/'') (rev s @ CHR ''/'' # r) = rev s" for r
    using ns by (simp add: takeWhile_append2 rs)
  have dq: "dropWhile (\<lambda>c. c = CHR ''/'') (rev s @ r) = rev s @ r" for r
    using x by (simp add: rs)
  show "posix_basename (d @ ''/'' @ s) = s"
    unfolding posix_basename_def by (simp add: dq tw)
  obtain ss where d: "ss \<noteq> []" "list_all clean_seg ss" "d = ''/'' @ join ''/'' ss"
    using assms(1) unfolding clean_dir_def by blast
  have ne: "join ''/'' ss \<noteq> []" using d(1,2) by (cases ss; cases "tl ss") (auto simp: clean_seg_def)
  have dw: "dropWhile (\<lambda>c. c \<noteq> CHR ''/'') (rev s @ CHR ''/'' # r) = CHR ''/'' # r" for r
    using ns by (subst dropWhile_append2) auto
  have "dropWhile (\<lambda>c. c \<noteq> CHR ''/'') (dropWhile (\<lambda>c. c = CHR ''/'') (rev (tl (d @ ''/'' @ s))))
     = CHR ''/'' # rev (join ''/'' ss)"
    using dw [of "rev (join ''/'' ss)"] dq by (simp add: d(3))
  with ne show "posix_dirname (d @ ''/'' @ s) = d"
    by (simp add: posix_dirname_def Let_def d(3))
qed

end
