(* ===== verification/Engine.thy ===== *)
theory Engine
  imports Remote
begin

text \<open>
  \<open>src/backup/engine.ts\<close>: the backup drivers, their registry, and \<open>runBackup\<close>, which runs a driver over
  a connection and appends a signed entry to the manifest. The clock of a run is a function of the
  number of the reading: 0 and 1 in the driver, 2 in the engine.
\<close>

section \<open>Drivers\<close>

record driver_input =
  di_target :: string
  di_platform :: string
  di_params :: "(string, string) jsmap"
  di_dest :: string

record artifact =
  art_path :: string
  art_size :: int
  art_sum :: string

record driver =
  d_name :: string
  d_target_type :: string
  d_backup :: "conn \<Rightarrow> (nat \<Rightarrow> int) \<Rightarrow> driver_input \<Rightarrow> artifact remote"

definition exec_or_throw :: "conn \<Rightarrow> string \<Rightarrow> string remote" where
  "exec_or_throw c cmd =
     rthen (rexec c cmd) (\<lambda>r.
       if x_exit r \<noteq> 0
       then rthrow (Error (''Command failed (exit '' @ int_str (x_exit r) @ ''): '' @ take 500 (x_stderr r)))
       else rret (x_stdout r))"

definition parse_size_output :: "string \<Rightarrow> int" where
  "parse_size_output raw = int (str_nat (takeWhile is_digit (trim raw)))"

definition param :: "driver_input \<Rightarrow> string \<Rightarrow> string \<Rightarrow> string" where
  "param inp k dflt = (case jm_get (di_params inp) k of None \<Rightarrow> dflt | Some v \<Rightarrow> v)"

text \<open>The end most drivers share: size and checksum of the file at \<open>path\<close>.\<close>

definition stat_cmd :: "string \<Rightarrow> string" where
  "stat_cmd path = ''stat -c %s '' @ path"

definition sha_cmd :: "string \<Rightarrow> string" where
  "sha_cmd path = ''sha256sum '' @ path @ '' | awk '' @ [CHR 0x27] @ ''{print $1}'' @ [CHR 0x27]"

definition measure_file :: "conn \<Rightarrow> string \<Rightarrow> artifact remote" where
  "measure_file c path =
     rthen (exec_or_throw c (stat_cmd path)) (\<lambda>size_raw.
     rthen (exec_or_throw c (sha_cmd path)) (\<lambda>sum_raw.
     rret \<lparr>art_path = path, art_size = parse_size_output size_raw, art_sum = trim sum_raw\<rparr>))"

definition postgres_driver :: driver where
  "postgres_driver = \<lparr>d_name = ''PostgreSQL pg_dump'', d_target_type = ''postgres'',
     d_backup = (\<lambda>c clk inp.
       let db = param inp ''db'' (di_target inp);
           dest = posix_join (di_dest inp) (''pg-'' @ db @ ''-'' @ int_str (clk 0) @ ''.sql.gz'')
       in rthen (exec_or_throw c (''pg_dump '' @ db @ '' | gzip > '' @ dest)) (\<lambda>_. measure_file c dest))\<rparr>"

definition bgsave_wait :: string where
  "bgsave_wait = ''while [ '' @ [CHR 0x22] @ ''$(redis-cli LASTSAVE)'' @ [CHR 0x22] @ '' = '' @ [CHR 0x22]
     @ ''$(redis-cli LASTSAVE)'' @ [CHR 0x22] @ '' ] && redis-cli BGSAVE 2>&1 | grep -q '' @ [CHR 0x27]
     @ ''Background saving'' @ [CHR 0x27] @ ''; do sleep 1; done''"

definition redis_driver :: driver where
  "redis_driver = \<lparr>d_name = ''Redis BGSAVE'', d_target_type = ''redis'',
     d_backup = (\<lambda>c clk inp.
       let rdb = param inp ''rdb_path'' ''/var/lib/redis/dump.rdb'';
           dest = posix_join (di_dest inp) (''redis-'' @ di_target inp @ ''-'' @ int_str (clk 0) @ ''.rdb'')
       in rthen (exec_or_throw c ''redis-cli BGSAVE'') (\<lambda>_.
          rthen (exec_or_throw c bgsave_wait) (\<lambda>_.
          rthen (exec_or_throw c (''cp '' @ rdb @ '' '' @ dest)) (\<lambda>_. measure_file c dest))))\<rparr>"

definition docker_volume_driver :: driver where
  "docker_volume_driver = \<lparr>d_name = ''Docker volume tar'', d_target_type = ''docker-volume'',
     d_backup = (\<lambda>c clk inp.
       let vol = param inp ''volume'' (di_target inp);
           fname = ''docker-vol-'' @ vol @ ''-'' @ int_str (clk 0) @ ''.tar.gz'';
           dest = posix_join (di_dest inp) fname
       in rthen (exec_or_throw c (''docker run --rm -v '' @ vol @ '':/data -v '' @ di_dest inp
                   @ '':/backup busybox tar czf /backup/'' @ fname @ '' -C /data .''))
            (\<lambda>_. measure_file c dest))\<rparr>"

definition unraid_share_driver :: driver where
  "unraid_share_driver = \<lparr>d_name = ''Unraid share tar'', d_target_type = ''unraid-share'',
     d_backup = (\<lambda>c clk inp.
       let share = param inp ''path'' (''/mnt/user/'' @ di_target inp);
           dest = posix_join (di_dest inp) (''unraid-share-'' @ di_target inp @ ''-'' @ int_str (clk 0) @ ''.tar.gz'')
       in rthen (exec_or_throw c (''tar czf '' @ dest @ '' -C '' @ share @ '' .'')) (\<lambda>_. measure_file c dest))\<rparr>"

definition filesystem_driver :: driver where
  "filesystem_driver = \<lparr>d_name = ''Filesystem tar'', d_target_type = ''filesystem'',
     d_backup = (\<lambda>c clk inp.
       let src = param inp ''path'' (''/'' @ di_target inp);
           dest = posix_join (di_dest inp) (''fs-'' @ di_target inp @ ''-'' @ int_str (clk 0) @ ''.tar.gz'')
       in rthen (exec_or_throw c (''tar czf '' @ dest @ '' -C '' @ src @ '' .'')) (\<lambda>_. measure_file c dest))\<rparr>"

definition zfs_dataset_driver :: driver where
  "zfs_dataset_driver = \<lparr>d_name = ''ZFS snapshot send'', d_target_type = ''zfs-dataset'',
     d_backup = (\<lambda>c clk inp.
       let ds = param inp ''dataset'' (di_target inp);
           snap = ds @ ''@backup-'' @ int_str (clk 0);
           dest = posix_join (di_dest inp) (''zfs-'' @ map (\<lambda>x. if x = CHR ''/'' then CHR ''-'' else x) ds
                    @ ''-'' @ int_str (clk 1) @ ''.zfs.gz'')
       in rthen (exec_or_throw c (''zfs snapshot '' @ snap)) (\<lambda>_.
          rthen (exec_or_throw c (''zfs send '' @ snap @ '' | gzip > '' @ dest)) (\<lambda>_. measure_file c dest)))\<rparr>"

text \<open>Two drivers let the tool name the file and take the newest one of the directory.\<close>

definition found_or :: "string \<Rightarrow> string \<Rightarrow> string" where
  "found_or out dest = (if trim out = [] then dest else trim out)"

definition proxmox_vm_driver :: driver where
  "proxmox_vm_driver = \<lparr>d_name = ''Proxmox vzdump'', d_target_type = ''proxmox-vm'',
     d_backup = (\<lambda>c clk inp.
       let vmid = param inp ''vmid'' (di_target inp);
           dest = posix_join (di_dest inp) (''proxmox-vm-'' @ vmid @ ''-'' @ int_str (clk 0) @ ''.vma.gz'')
       in rthen (exec_or_throw c (''vzdump '' @ vmid @ '' --compress gzip --dumpdir '' @ di_dest inp @ '' --mode stop'')) (\<lambda>_.
          rthen (exec_or_throw c (''ls -t '' @ di_dest inp @ ''/*.vma.gz 2>/dev/null | head -1'')) (\<lambda>out.
          measure_file c (found_or out dest))))\<rparr>"

definition opensearch_driver :: driver where
  "opensearch_driver = \<lparr>d_name = ''OpenSearch snapshot'', d_target_type = ''opensearch'',
     d_backup = (\<lambda>c clk inp.
       let hst = param inp ''host'' ''localhost:9200''; repo = param inp ''repo'' ''fs_backup'';
           snap = ''snap-'' @ int_str (clk 0);
           path = hst @ ''/_snapshot/'' @ repo @ ''/'' @ snap
       in rthen (exec_or_throw c (''curl -s -X PUT '' @ [CHR 0x22] @ ''http://'' @ path
                   @ ''?wait_for_completion=true'' @ [CHR 0x22]))
            (\<lambda>_. rret \<lparr>art_path = ''opensearch://'' @ path, art_size = 0, art_sum = []\<rparr>))\<rparr>"

definition neo4j_driver :: driver where
  "neo4j_driver = \<lparr>d_name = ''Neo4j admin dump'', d_target_type = ''neo4j'',
     d_backup = (\<lambda>c clk inp.
       let db = param inp ''db'' ''neo4j'';
           dest = posix_join (di_dest inp) (''neo4j-'' @ db @ ''-'' @ int_str (clk 0) @ ''.dump'')
       in rthen (exec_or_throw c (''neo4j-admin database dump '' @ db @ '' --to-path='' @ di_dest inp
                   @ '' --overwrite-destination'')) (\<lambda>_.
          rthen (exec_or_throw c (''ls -t '' @ di_dest inp @ ''/*.dump 2>/dev/null | head -1'')) (\<lambda>out.
          measure_file c (found_or out dest))))\<rparr>"

definition vault_raft_driver :: driver where
  "vault_raft_driver = \<lparr>d_name = ''Vault raft snapshot'', d_target_type = ''vault-raft'',
     d_backup = (\<lambda>c clk inp.
       let dest = posix_join (di_dest inp) (''vault-raft-'' @ int_str (clk 0) @ ''.snap'')
       in rthen (exec_or_throw c (''vault operator raft snapshot save '' @ dest)) (\<lambda>_. measure_file c dest))\<rparr>"

section \<open>The registry\<close>

type_synonym registry = "(string, driver) jsmap"

definition register_driver :: "driver \<Rightarrow> registry \<Rightarrow> registry" where
  "register_driver d reg = jm_set (d_target_type d) d reg"

definition get_driver :: "registry \<Rightarrow> string \<Rightarrow> driver option" where
  "get_driver reg t = jm_get reg t"

definition list_driver_types :: "registry \<Rightarrow> string list" where
  "list_driver_types reg = map fst reg"

definition builtin_drivers :: "driver list" where
  "builtin_drivers = [postgres_driver, redis_driver, docker_volume_driver, unraid_share_driver,
     filesystem_driver, zfs_dataset_driver, proxmox_vm_driver, opensearch_driver, neo4j_driver,
     vault_raft_driver]"

definition builtin_registry :: registry where
  "builtin_registry = fold register_driver builtin_drivers []"

section \<open>Running a backup\<close>

definition unsigned_entry :: "runtime \<Rightarrow> int \<Rightarrow> string \<Rightarrow> driver_input \<Rightarrow> artifact \<Rightarrow> (string \<times> jsval) list" where
  "unsigned_entry rt now tt inp a =
     [(''schema_version'', JInt 2), (''platform'', JStr (di_platform inp)),
      (''target_id'', JStr (di_target inp)), (''backup_type'', JStr tt),
      (''taken_at'', JStr (rt_iso rt now)), (''location'', JStr (art_path a)),
      (''size_bytes'', JInt (art_size a)),
      (''max_age_seconds'', JInt (case jm_get DEFAULT_FRESHNESS (di_platform inp) of
          None \<Rightarrow> FALLBACK_MAX_AGE_SECONDS | Some n \<Rightarrow> n)),
      (''checksum'', JStr (art_sum a)), (''verified'', JBool False)]"

record backup_result =
  br_artifact :: artifact
  br_entry :: jsval

definition run_backup ::
  "runtime \<Rightarrow> conn \<Rightarrow> (nat \<Rightarrow> int) \<Rightarrow> bool \<Rightarrow> registry \<Rightarrow> string \<Rightarrow> driver_input
   \<Rightarrow> host \<times> jsval option disk_file \<Rightarrow> (host \<times> jsval option disk_file) \<times> backup_result res" where
  "run_backup rt c clk disk_ok reg tt inp st =
    (case st of (h, f) \<Rightarrow>
     (case jm_get reg tt of
        None \<Rightarrow> (st, Inl (Error (''No backup driver registered for targetType='' @ [CHR 0x22] @ tt @ [CHR 0x22]
            @ ''. Registered types: ''
            @ (let ks = join '', '' (map fst reg) in if ks = [] then ''(none)'' else ks))))
      | Some d \<Rightarrow>
          (case d_backup d c clk inp h of
             (h1, Inl e) \<Rightarrow> ((h1, f), Inl e)
           | (h1, Inr a) \<Rightarrow>
               (case sign_manifest_entry rt (JObj (unsigned_entry rt (clk 2) tt inp a)) of
                  Inl e \<Rightarrow> ((h1, f), Inl e)
                | Inr entry \<Rightarrow>
                    (case append_manifest_entry rt (clk 2) disk_ok entry f of
                       (f1, Inl e) \<Rightarrow> ((h1, f1), Inl e)
                     | (f1, Inr _) \<Rightarrow> ((h1, f1), Inr \<lparr>br_artifact = a, br_entry = entry\<rparr>))))))"

section \<open>Every driver stops at the first command that fails\<close>

lemma exec_or_throw_Inr:
  "exec_or_throw c cmd h = (h', Inr out) \<longleftrightarrow>
     (\<exists>r. c h cmd = Inr r \<and> x_exit r = 0 \<and> out = x_stdout r \<and> h' = h @ [cmd])"
  by (auto simp: exec_or_throw_def rthen_def rexec_def rret_def rthrow_def split: sum.splits if_splits)

lemma stops_exec [remote_intros]: "stops_at_failure c (exec_or_throw c cmd)"
  by (auto simp: stops_at_failure_def exec_or_throw_Inr)

lemma stops_measure [remote_intros]: "stops_at_failure c (measure_file c path)"
  unfolding measure_file_def by (intro remote_intros)

lemmas driver_defs = postgres_driver_def redis_driver_def docker_volume_driver_def
  unraid_share_driver_def filesystem_driver_def zfs_dataset_driver_def proxmox_vm_driver_def
  opensearch_driver_def neo4j_driver_def vault_raft_driver_def

lemma builtin_stops:
  assumes "d \<in> set builtin_drivers"
  shows "stops_at_failure c (d_backup d c clk inp)"
proof -
  have "list_all (\<lambda>d. stops_at_failure c (d_backup d c clk inp)) builtin_drivers"
    unfolding builtin_drivers_def list.pred_inject driver_defs driver.simps Let_def
    by (intro conjI TrueI list.pred_inject(1) remote_intros)
  with assms show ?thesis by (simp add: list_all_iff)
qed

lemma driver_types [simp]:
  "d_target_type postgres_driver = ''postgres''" "d_target_type redis_driver = ''redis''"
  "d_target_type docker_volume_driver = ''docker-volume''"
  "d_target_type unraid_share_driver = ''unraid-share''"
  "d_target_type filesystem_driver = ''filesystem''" "d_target_type zfs_dataset_driver = ''zfs-dataset''"
  "d_target_type proxmox_vm_driver = ''proxmox-vm''" "d_target_type opensearch_driver = ''opensearch''"
  "d_target_type neo4j_driver = ''neo4j''" "d_target_type vault_raft_driver = ''vault-raft''"
  by (simp_all add: driver_defs)

lemma builtin_registry_eq: "builtin_registry = map (\<lambda>d. (d_target_type d, d)) builtin_drivers"
  by (simp add: builtin_registry_def builtin_drivers_def register_driver_def)

lemma builtin_get: "jm_get builtin_registry t = Some d \<Longrightarrow> d \<in> set builtin_drivers \<and> d_target_type d = t"
  by (auto simp: builtin_registry_eq dest: map_of_SomeD)

lemma builtin_driver_types:
  "list_driver_types builtin_registry = [''postgres'', ''redis'', ''docker-volume'', ''unraid-share'',
     ''filesystem'', ''zfs-dataset'', ''proxmox-vm'', ''opensearch'', ''neo4j'', ''vault-raft'']"
  by (simp add: list_driver_types_def builtin_registry_eq builtin_drivers_def)

lemma registered_driver: "get_driver (register_driver d reg) t = (if t = d_target_type d then Some d else get_driver reg t)"
  by (simp add: get_driver_def register_driver_def store_simps)

section \<open>What a backup records\<close>

lemma run_backup_Inr:
  assumes "run_backup rt c clk ok reg tt inp (h, f) = (st', Inr res)"
  obtains d a h' f' where "jm_get reg tt = Some d" "d_backup d c clk inp h = (h', Inr a)"
    "sign_manifest_entry rt (JObj (unsigned_entry rt (clk 2) tt inp a)) = Inr (br_entry res)"
    "append_manifest_entry rt (clk 2) ok (br_entry res) f = (f', Inr ())" "st' = (h', f')"
    "br_artifact res = a"
  using assms by (auto simp: run_backup_def split: option.splits prod.splits sum.splits)

lemma append_manifest_Inr:
  "append_manifest_entry rt now ok e f = (f', Inr ()) \<longleftrightarrow>
     ok \<and> (\<exists>es. read_manifest_file rt now f = Inr es \<and> f' = Content (Some (manifest_json (es @ [e]))))"
  by (auto simp: append_manifest_entry_def write_manifest_file_def split: sum.splits if_splits)

lemma append_manifest_Inl: "append_manifest_entry rt now ok e f = (f', Inl x) \<Longrightarrow> f' = f"
  by (auto simp: append_manifest_entry_def write_manifest_file_def split: sum.splits if_splits)

lemma run_backup_Inl:
  assumes "run_backup rt c clk ok reg tt inp (h, f) = ((h', f'), Inl e)"
  shows "f' = f"
  using assms
  by (auto simp: run_backup_def split: option.splits prod.splits sum.splits dest: append_manifest_Inl)

text \<open>
  C17: a backup is recorded only when every command its driver ran exited with 0: the manifest
  is then the old one with one signed entry more, which names the artifact, its size and its checksum;
  after any failure (no driver, a command, the secret, the disk) the manifest is what it was.
\<close>

theorem backup_recorded:
  "case run_backup rt c clk ok builtin_registry tt inp (h, f) of
     ((h', f'), Inl e) \<Rightarrow> f' = f
   | ((h', f'), Inr res) \<Rightarrow>
       (\<exists>cs. h' = h @ cs \<and> all_ok c h cs)
       \<and> (\<exists>es. read_manifest_file rt (clk 2) f = Inr es
            \<and> f' = Content (Some (manifest_json (es @ [br_entry res]))))
       \<and> sign_manifest_entry rt (JObj (unsigned_entry rt (clk 2) tt inp (br_artifact res))) = Inr (br_entry res)"
proof -
  obtain h' f' r where run: "run_backup rt c clk ok builtin_registry tt inp (h, f) = ((h', f'), r)"
    by (metis prod.collapse)
  show ?thesis
proof (cases r)
  case (Inl e)
  with run run_backup_Inl show ?thesis by simp
next
  case (Inr res)
  with run have ok: "run_backup rt c clk ok builtin_registry tt inp (h, f) = ((h', f'), Inr res)" by simp
  show ?thesis
  proof (rule run_backup_Inr [OF ok])
    fix d a h1 f1
    assume d: "jm_get builtin_registry tt = Some d" "d_backup d c clk inp h = (h1, Inr a)"
      "sign_manifest_entry rt (JObj (unsigned_entry rt (clk 2) tt inp a)) = Inr (br_entry res)"
      "append_manifest_entry rt (clk 2) ok (br_entry res) f = (f1, Inr ())" "(h', f') = (h1, f1)"
      "br_artifact res = a"
    have "stops_at_failure c (d_backup d c clk inp)" using builtin_get [OF d(1)] builtin_stops by blast
    with d(2) have "\<exists>cs. h1 = h @ cs \<and> all_ok c h cs" unfolding stops_at_failure_def by blast
    with d Inr run show ?thesis by (auto simp: append_manifest_Inr)
  qed
  qed
qed

end
