(* ===== verification/Restore.thy ===== *)
theory Restore
  imports Engine Gate
begin

text \<open>
  \<open>src/backup/restore.ts\<close>: re-verification of a manifest entry, the restore plan and its runbook, the
  dry run, and \<open>runRestore\<close>, which asks the approval gate before it runs a restore command. Entries
  have the fields of their declared type, as those of an upgraded manifest do.
\<close>

section \<open>Entries\<close>

record backup_entry =
  e_platform :: string
  e_target :: string
  e_type :: string
  e_taken :: string
  e_location :: string
  e_size :: int
  e_max_age :: int
  e_sum :: string
  e_verified :: bool
  e_hmac :: string

definition entry_body :: "backup_entry \<Rightarrow> (string \<times> jsval) list" where
  "entry_body e = [(''schema_version'', JInt 2), (''platform'', JStr (e_platform e)),
     (''target_id'', JStr (e_target e)), (''backup_type'', JStr (e_type e)),
     (''taken_at'', JStr (e_taken e)), (''location'', JStr (e_location e)),
     (''size_bytes'', JInt (e_size e)), (''max_age_seconds'', JInt (e_max_age e)),
     (''checksum'', JStr (e_sum e)), (''verified'', JBool (e_verified e))]"

definition entry_json :: "backup_entry \<Rightarrow> jsval" where
  "entry_json e = JObj (entry_body e @ [(''hmac'', JStr (e_hmac e))])"

section \<open>The runbook\<close>

abbreviation dq :: string where
  "dq \<equiv> [CHR 0x22]"

text \<open>The dashes of the texts, in UTF-8.\<close>

definition em_dash :: string where
  "em_dash = map char_of [226 :: nat, 128, 148]"

definition en_dash :: string where
  "en_dash = map char_of [226 :: nat, 128, 147]"

definition runbook_head :: "string \<Rightarrow> backup_entry \<Rightarrow> string list" where
  "runbook_head title e = [''# DR Runbook '' @ em_dash @ '' '' @ title @ ''/'' @ e_target e,
     ''Backup artifact : '' @ e_location e, ''Taken at        : '' @ e_taken e, '''']"

definition build_dr_runbook :: "string \<Rightarrow> backup_entry \<Rightarrow> string" where
  "build_dr_runbook platform e =
    (let artifact = e_location e in join [nl]
     (if platform = ''postgres'' then runbook_head ''PostgreSQL'' e @
        [''## Restore steps'', ''1. Stop the application tier.'',
         ''2. Drop and recreate the target database (or use pg_restore --clean).'',
         ''3. pg_restore -d <dbname> '' @ artifact @ ''  (or gunzip | psql)'',
         ''4. Run ANALYZE on restored tables.'', ''5. Restart the application tier.'',
         ''6. Validate row counts and recent write timestamps.'']
      else if platform = ''redis'' then runbook_head ''Redis'' e @
        [''## Restore steps'', ''1. Stop the Redis service (systemctl stop redis).'',
         ''2. Replace the RDB file: cp '' @ artifact @ '' $(redis-cli CONFIG GET dir | tail -1)/dump.rdb'',
         ''3. Start Redis (systemctl start redis).'', ''4. Verify key count: redis-cli DBSIZE.'']
      else if platform = ''proxmox'' \<or> platform = ''proxmox-vm'' then runbook_head ''Proxmox VM'' e @
        [''## Restore steps'', ''1. In the Proxmox UI, go to the backup store and select the artifact.'',
         ''2. Click '' @ dq @ ''Restore'' @ dq @ '' '' @ em_dash @ '' choose the target storage and VMID.'',
         ''3. Or via CLI: qmrestore '' @ artifact @ '' <new-vmid> --storage <storage>'',
         ''4. Start the VM and verify boot + services.'']
      else if platform = ''docker-volume'' then runbook_head ''Docker volume'' e @
        [''## Restore steps'', ''1. Stop containers using the volume.'',
         ''2. docker run --rm -v <volume>:/data -v <destDir>:/backup busybox '' @ [CHR 0x5C],
         ''     tar xzf /backup/'' @ posix_basename artifact @ '' -C /data'',
         ''3. Restart the containers.'', ''4. Verify data integrity.'']
      else if platform = ''zfs-dataset'' then runbook_head ''ZFS dataset'' e @
        [''## Restore steps'', ''1. Confirm no active I/O to the dataset.'',
         ''2. zfs receive <target_dataset> < <(gunzip -c '' @ artifact @ '')'',
         ''3. Or roll back to snapshot: zfs rollback <dataset>@<snapshot>'', ''4. Remount and verify data.'']
      else if platform = ''vault-raft'' then runbook_head ''Vault Raft'' e @
        [''## Restore steps'', ''1. Seal all Vault nodes.'',
         ''2. vault operator raft snapshot restore '' @ artifact,
         ''3. Unseal and verify cluster status: vault status'', ''4. Rotate root token after recovery.'']
      else if platform = ''neo4j'' then runbook_head ''Neo4j'' e @
        [''## Restore steps'', ''1. Stop Neo4j service.'',
         ''2. neo4j-admin database restore --from-path='' @ artifact @ '' --database='' @ e_target e
           @ '' --overwrite-destination'',
         ''3. Start Neo4j and validate node counts.'']
      else runbook_head platform e @
        [''## Verification steps'', ''1. Confirm the service is stopped before restore.'',
         ''2. Restore the artifact to the target location.'', ''3. Start the service and validate health.'',
         ''4. Update monitoring to suppress alerts during validation window (15 min).'',
         ''5. Document the incident and time-to-restore in the runbook log.'']))"

section \<open>The plan\<close>

record restore_plan =
  rp_artifact :: string
  rp_platform :: string
  rp_target :: string
  rp_type :: string
  rp_taken :: string
  rp_size :: int
  rp_overwrite :: string
  rp_downtime :: string
  rp_runbook :: string

definition downtime_map :: "(string, string) jsmap" where
  "downtime_map =
    [(''postgres'', ''1'' @ en_dash @ ''10 minutes (database restore + ANALYZE)''),
     (''redis'', ''< 1 minute (RDB restore)''),
     (''proxmox-vm'', ''5'' @ en_dash @ ''30 minutes (VM restore from vzdump)''),
     (''docker-volume'', ''2'' @ en_dash @ ''5 minutes (volume restore)''),
     (''zfs-dataset'', ''2'' @ en_dash @ ''15 minutes (zfs receive)''),
     (''vault-raft'', ''5'' @ en_dash @ ''15 minutes (raft snapshot restore + unseal)''),
     (''neo4j'', ''5'' @ en_dash @ ''20 minutes (neo4j-admin restore)''),
     (''opensearch'', ''5'' @ en_dash @ ''30 minutes (snapshot restore)'')]"

text \<open>\<open>Math.round\<close> of a quotient rounds halves up.\<close>

definition build_restore_plan :: "backup_entry \<Rightarrow> restore_plan" where
  "build_restore_plan e =
    \<lparr>rp_artifact = e_location e, rp_platform = e_platform e, rp_target = e_target e, rp_type = e_type e,
     rp_taken = e_taken e, rp_size = e_size e,
     rp_overwrite = e_platform e @ '' target '' @ dq @ e_target e @ dq @ '' will be overwritten with ''
       @ ''backup taken at '' @ e_taken e @ '' ('' @ int_str ((e_size e + 512) div 1024) @ '' KiB).'',
     rp_downtime = (case jm_get downtime_map (e_platform e) of
         None \<Rightarrow> ''5'' @ en_dash @ ''30 minutes (unknown platform)'' | Some t \<Rightarrow> t),
     rp_runbook = build_dr_runbook (e_platform e) e\<rparr>"

section \<open>Verification and dry run\<close>

definition OPENSEARCH :: string where
  "OPENSEARCH = ''opensearch://''"

definition re_verify_entry :: "runtime \<Rightarrow> conn \<Rightarrow> backup_entry \<Rightarrow> unit remote" where
  "re_verify_entry rt c e =
    (if e_hmac e \<noteq> [] \<and> \<not> verify_entry_hmac rt (entry_json e)
     then rthrow (Error (''Backup manifest HMAC verification failed for '' @ e_platform e @ ''/'' @ e_target e
            @ ''. The entry may have been tampered with. Refusing restore.''))
     else if e_sum e \<noteq> [] \<and> \<not> starts_with OPENSEARCH (e_location e) then
       rthen (rexec c (sha_cmd (e_location e))) (\<lambda>r.
         if x_exit r \<noteq> 0
         then rthrow (Error (''Cannot read artifact for checksum verification: '' @ e_location e @ ''. stderr: ''
                @ take 200 (x_stderr r)))
         else if trim (x_stdout r) \<noteq> e_sum e
         then rthrow (Error (''Artifact checksum mismatch for '' @ e_location e @ ''. Expected '' @ e_sum e
                @ '', got '' @ trim (x_stdout r) @ ''. Refusing restore.''))
         else rret ())
     else rret ())"

record dry_run_result =
  dr_ok :: bool
  dr_readable :: bool
  dr_reachable :: bool
  dr_plan :: restore_plan
  dr_errors :: "string list"

text \<open>The message of an error, as the three handlers of the dry run append it.\<close>

definition message_of :: "error \<Rightarrow> string" where
  "message_of e = (case e of Error m \<Rightarrow> m | TypeError m \<Rightarrow> m | IoError m \<Rightarrow> m | _ \<Rightarrow> [])"

definition check_artifact :: "conn \<Rightarrow> backup_entry \<Rightarrow> (bool \<times> string list) remote" where
  "check_artifact c e =
    rcatch
      (if starts_with OPENSEARCH (e_location e) then
         rthen (rexec c (''curl -s -o /dev/null -w '' @ dq @ ''%{http_code}'' @ dq @ '' http://''
                         @ drop (length OPENSEARCH) (e_location e))) (\<lambda>r.
           let b = x_exit r = 0 \<and> trim (x_stdout r) = ''200'' in
           rret (b, if b then [] else [''OpenSearch snapshot not reachable: HTTP '' @ trim (x_stdout r)]))
       else
         rthen (rexec c (''stat '' @ e_location e)) (\<lambda>r.
           let b = x_exit r = 0 in
           rret (b, if b then [] else
             [''Artifact not readable: '' @ e_location e @ '' '' @ em_dash @ '' '' @ take 200 (x_stderr r)])))
      (\<lambda>err. (False, [''Artifact readability check failed: '' @ message_of err]))"

definition check_target :: "conn \<Rightarrow> (bool \<times> string list) remote" where
  "check_target c =
    rcatch
      (rthen (rexec c ''echo ok'') (\<lambda>r.
         let b = x_exit r = 0 \<and> trim (x_stdout r) = ''ok'' in
         rret (b, if b then [] else
           [''Target host not reachable: connection.exec returned exit '' @ int_str (x_exit r)])))
      (\<lambda>err. (False, [''Target reachability check failed: '' @ message_of err]))"

definition check_entry :: "runtime \<Rightarrow> conn \<Rightarrow> backup_entry \<Rightarrow> string list remote" where
  "check_entry rt c e =
    rcatch (rthen (re_verify_entry rt c e) (\<lambda>_. rret [])) (\<lambda>err. [''Verification failed: '' @ message_of err])"

definition dry_run_restore :: "runtime \<Rightarrow> conn \<Rightarrow> backup_entry \<Rightarrow> dry_run_result remote" where
  "dry_run_restore rt c e =
    rthen (check_artifact c e) (\<lambda>(readable, errs1).
    rthen (check_target c) (\<lambda>(reachable, errs2).
    rthen (check_entry rt c e) (\<lambda>errs3.
    let readable' = readable \<and> errs3 = []; errs = errs1 @ errs2 @ errs3 in
    rret \<lparr>dr_ok = (readable' \<and> reachable \<and> errs = []), dr_readable = readable', dr_reachable = reachable,
          dr_plan = build_restore_plan e, dr_errors = errs\<rparr>)))"

section \<open>The restore commands\<close>

definition restore_commands :: "backup_entry \<Rightarrow> string list res" where
  "restore_commands e =
    (let p = e_platform e; loc = e_location e; tgt = e_target e in
     if p = ''postgres'' then
       Inr [if e_type e = ''pg_dump'' \<or> e_type e = ''postgres''
            then ''gunzip -c '' @ loc @ '' | psql '' @ tgt
            else ''pg_restore --clean -d '' @ tgt @ '' '' @ loc]
     else if p = ''redis'' then
       Inr [''systemctl stop redis'', ''cp '' @ loc @ '' /var/lib/redis/dump.rdb'', ''systemctl start redis'']
     else if p = ''proxmox'' \<or> p = ''proxmox-vm'' then
       Inr [''qmrestore '' @ loc @ '' '' @ tgt @ '' --force'']
     else if p = ''docker-volume'' then
       Inr [''docker run --rm -v '' @ tgt @ '':/data -v '' @ posix_dirname loc
            @ '':/backup busybox tar xzf /backup/'' @ posix_basename loc @ '' -C /data'']
     else if p = ''zfs-dataset'' then Inr [''gunzip -c '' @ loc @ '' | zfs receive -F '' @ tgt]
     else if p = ''vault-raft'' then Inr [''vault operator raft snapshot restore '' @ loc]
     else if p = ''neo4j'' then
       Inr [''neo4j-admin database restore --from-path='' @ loc @ '' --database='' @ tgt
            @ '' --overwrite-destination'']
     else if p = ''opensearch'' then
       Inl (Error (''OpenSearch restore requires manual steps. See DR runbook:'' @ [nl] @ build_dr_runbook p e))
     else if p = ''unraid-share'' \<or> p = ''filesystem'' then
       Inr [''mkdir -p /'' @ tgt @ '' && tar xzf '' @ loc @ '' -C /'' @ tgt]
     else
       Inr [''mkdir -p /restore/'' @ p @ ''/'' @ tgt @ '' && tar xzf '' @ loc @ '' -C /restore/'' @ p @ ''/'' @ tgt])"

fun run_commands :: "conn \<Rightarrow> string list \<Rightarrow> unit remote" where
  "run_commands c [] = rret ()"
| "run_commands c (cmd # cmds) =
     rthen (rexec c cmd) (\<lambda>r.
       if x_exit r \<noteq> 0
       then rthrow (Error (''Restore command failed (exit '' @ int_str (x_exit r) @ ''): '' @ take 500 (x_stderr r)))
       else run_commands c cmds)"

definition exec_restore :: "conn \<Rightarrow> backup_entry \<Rightarrow> unit remote" where
  "exec_restore c e = (case restore_commands e of Inl err \<Rightarrow> rthrow err | Inr cmds \<Rightarrow> run_commands c cmds)"

section \<open>The gated restore\<close>

record restore_input =
  ri_entry :: backup_entry
  ri_action_id :: string
  ri_dry_run :: bool
  ri_requested_by :: string

record restore_result =
  rr_dry :: dry_run_result
  rr_restored :: bool

definition restore_action :: "runtime \<Rightarrow> int \<Rightarrow> restore_input \<Rightarrow> action" where
  "restore_action rt t inp =
    (let e = ri_entry inp in
     \<lparr>a_id = ri_action_id inp, a_destr = DataAffecting, a_platform = e_platform e, a_resource = e_target e,
      a_description = ''Restore '' @ e_platform e @ ''/'' @ e_target e @ '' from backup taken '' @ e_taken e
        @ '' (artifact: '' @ e_location e @ '')'',
      a_dry_run = Some (build_dr_runbook (e_platform e) e), a_requested_by = ri_requested_by inp,
      a_initiated = rt_iso rt t\<rparr>)"

definition run_restore ::
  "runtime \<Rightarrow> conn \<Rightarrow> gate_context \<Rightarrow> restore_input \<Rightarrow> host \<times> gate_state
   \<Rightarrow> (host \<times> gate_state) \<times> restore_result res option" where
  "run_restore rt c ctx inp st =
    (case st of (h, g) \<Rightarrow>
     (case dry_run_restore rt c (ri_entry inp) h of
        (h1, Inl e) \<Rightarrow> ((h1, g), Some (Inl e))
      | (h1, Inr dr) \<Rightarrow>
          if \<not> dr_ok dr then
            ((h1, g), Some (Inl (Error (''Restore dry-run failed for '' @ e_platform (ri_entry inp) @ ''/''
               @ e_target (ri_entry inp) @ '':'' @ [nl] @ join [nl] (dr_errors dr)))))
          else if ri_dry_run inp then ((h1, g), Some (Inr \<lparr>rr_dry = dr, rr_restored = False\<rparr>))
          else
            (case gate_approval rt ctx (restore_action rt (now g) inp) g of
               (g1, None) \<Rightarrow> ((h1, g1), None)
             | (g1, Some (Inl e)) \<Rightarrow> ((h1, g1), Some (Inl e))
             | (g1, Some (Inr _)) \<Rightarrow>
                 (case exec_restore c (ri_entry inp) h1 of
                    (h2, Inl e) \<Rightarrow> ((h2, g1), Some (Inl e))
                  | (h2, Inr _) \<Rightarrow> ((h2, g1), Some (Inr \<lparr>rr_dry = dr, rr_restored = True\<rparr>))))))"

section \<open>Only an approved restore changes the host\<close>

text \<open>The commands of the dry run, which only read.\<close>

definition check_commands :: "backup_entry \<Rightarrow> string set" where
  "check_commands e = {''stat '' @ e_location e, ''echo ok'', sha_cmd (e_location e),
     ''curl -s -o /dev/null -w '' @ dq @ ''%{http_code}'' @ dq @ '' http://'' @ drop (length OPENSEARCH) (e_location e)}"

text \<open>A program that never fails and only runs commands of a set.\<close>

definition runs_only :: "string set \<Rightarrow> 'a remote \<Rightarrow> bool" where
  "runs_only S m \<longleftrightarrow> (\<forall>h. \<exists>cs. fst (m h) = h @ cs \<and> set cs \<subseteq> S)"

lemma runs_only_ret [remote_intros]: "runs_only S (rret x)" "runs_only S (rthrow err)"
  by (simp_all add: runs_only_def rret_def rthrow_def)

lemma runs_only_exec [remote_intros]: "cmd \<in> S \<Longrightarrow> runs_only S (rexec c cmd)"
  by (simp add: runs_only_def rexec_def)

lemma runs_only_then [remote_intros]:
  assumes "runs_only S m" "\<And>x. runs_only S (f x)"
  shows "runs_only S (rthen m f)"
  unfolding runs_only_def
proof
  fix h
  obtain h1 r cs where m: "m h = (h1, r)" "h1 = h @ cs" "set cs \<subseteq> S"
    using assms(1) unfolding runs_only_def by (metis prod.collapse)
  show "\<exists>cs. fst (rthen m f h) = h @ cs \<and> set cs \<subseteq> S"
  proof (cases r)
    case (Inr x)
    obtain ds where "fst (f x h1) = h1 @ ds" "set ds \<subseteq> S" using assms(2) unfolding runs_only_def by blast
    with m Inr show ?thesis by (simp add: rthen_def)
  next
    case (Inl err)
    with m show ?thesis by (simp add: rthen_def)
  qed
qed

lemma fst_rcatch: "fst (rcatch m f h) = fst (m h)"
  by (simp add: rcatch_def split: prod.split sum.split)

lemma runs_only_catch [remote_intros]: "runs_only S m \<Longrightarrow> runs_only S (rcatch m f)"
  by (simp add: runs_only_def fst_rcatch)

lemma runs_only_if [remote_intros]: "runs_only S m \<Longrightarrow> runs_only S n \<Longrightarrow> runs_only S (if b then m else n)"
  by simp

lemma verify_runs_only [remote_intros]: "runs_only (check_commands e) (re_verify_entry rt c e)"
  unfolding re_verify_entry_def by (intro remote_intros) (simp add: check_commands_def)

lemma artifact_runs_only [remote_intros]: "runs_only (check_commands e) (check_artifact c e)"
  unfolding check_artifact_def Let_def by (intro remote_intros) (simp_all add: check_commands_def)

lemma target_runs_only [remote_intros]: "runs_only (check_commands e) (check_target c)"
  unfolding check_target_def Let_def by (intro remote_intros) (simp add: check_commands_def)

lemma entry_runs_only [remote_intros]: "runs_only (check_commands e) (check_entry rt c e)"
  unfolding check_entry_def by (intro remote_intros)

lemma dry_run_runs_only: "runs_only (check_commands e) (dry_run_restore rt c e)"
  unfolding dry_run_restore_def Let_def case_prod_beta by (intro remote_intros)

lemma rcatch_Inr [simp]: "\<exists>h1 x. rcatch m f h = (h1, Inr x)"
  by (cases "m h"; cases "snd (m h)") (auto simp: rcatch_def)



lemma checks_never_fail:
  "\<exists>h1 x. check_artifact c e h = (h1, Inr x)" "\<exists>h1 x. check_target c h = (h1, Inr x)"
  "\<exists>h1 x. check_entry rt c e h = (h1, Inr x)"
  unfolding check_artifact_def check_target_def check_entry_def by (rule rcatch_Inr)+

lemma dry_run_never_fails: "\<exists>h' dr. dry_run_restore rt c e h = (h', Inr dr)"
proof -
  obtain h1 x where a: "check_artifact c e h = (h1, Inr x)" using checks_never_fail(1) by blast
  obtain h2 y where b: "check_target c h1 = (h2, Inr y)" using checks_never_fail(2) by blast
  obtain h3 z where v: "check_entry rt c e h2 = (h3, Inr z)" using checks_never_fail(3) by blast
  show ?thesis
    by (cases x; cases y) (simp add: dry_run_restore_def rthen_def a b v rret_def Let_def)
qed



lemma run_commands_Inr: "run_commands c cmds h = (h', Inr u) \<longleftrightarrow> h' = h @ cmds \<and> all_ok c h cmds"
proof (induction cmds arbitrary: h)
  case (Cons cmd cmds)
  then show ?case
    by (auto simp: rthen_def rexec_def rthrow_def split: sum.splits if_splits)
qed (auto simp: rret_def)

lemma exec_restore_Inr:
  "exec_restore c e h = (h', Inr u) \<longleftrightarrow>
     (\<exists>cmds. restore_commands e = Inr cmds \<and> h' = h @ cmds \<and> all_ok c h cmds)"
  by (auto simp: exec_restore_def rthrow_def run_commands_Inr split: sum.splits)

lemma appends_run_commands: "appends (run_commands c cmds)"
proof (induction cmds)
  case (Cons x xs)
  then show ?case by (auto intro!: remote_intros)
qed (auto intro: remote_intros)

lemma appends_exec_restore: "appends (exec_restore c e)"
  by (auto simp: exec_restore_def intro: appends_run_commands remote_intros split: sum.split)

text \<open>How a run of the whole flow can go.\<close>

lemma run_restore_cases:
  assumes "run_restore rt c ctx inp (h, g) = ((h', g'), r)"
  obtains (checked) checks where "set checks \<subseteq> check_commands (ri_entry inp)" "h' = h @ checks"
      "\<not> (\<exists>res. r = Some (Inr res) \<and> rr_restored res)" "ri_dry_run inp \<Longrightarrow> g' = g"
  | (approved) checks dr ap x where "set checks \<subseteq> check_commands (ri_entry inp)"
      "dry_run_restore rt c (ri_entry inp) h = (h @ checks, Inr dr)" "dr_ok dr" "\<not> ri_dry_run inp"
      "gate_approval rt ctx (restore_action rt (now g) inp) g = (g', Some (Inr ap))"
      "exec_restore c (ri_entry inp) (h @ checks) = (h', x)"
      "r = Some (rbind x (\<lambda>_. Inr \<lparr>rr_dry = dr, rr_restored = True\<rparr>))"
proof -
  obtain h1 dr where d: "dry_run_restore rt c (ri_entry inp) h = (h1, Inr dr)"
    using dry_run_never_fails by blast
  obtain checks where ch: "h1 = h @ checks" "set checks \<subseteq> check_commands (ri_entry inp)"
    using dry_run_runs_only [of "ri_entry inp" rt c] d unfolding runs_only_def by (metis fst_conv)
  show thesis
  proof (cases "\<exists>ap g1. dr_ok dr \<and> \<not> ri_dry_run inp
      \<and> gate_approval rt ctx (restore_action rt (now g) inp) g = (g1, Some (Inr ap))")
    case True
    then obtain ap g1 where a: "dr_ok dr" "\<not> ri_dry_run inp"
      "gate_approval rt ctx (restore_action rt (now g) inp) g = (g1, Some (Inr ap))" by blast
    obtain h2 x where x: "exec_restore c (ri_entry inp) h1 = (h2, x)" by fastforce
    from assms d a x have "h' = h2" "g' = g1" "r = Some (rbind x (\<lambda>_. Inr \<lparr>rr_dry = dr, rr_restored = True\<rparr>))"
      by (auto simp: run_restore_def split: sum.splits)
    with approved ch d a x show thesis by simp
  next
    case False
    with assms d ch(1) have "h' = h @ checks" "\<not> (\<exists>res. r = Some (Inr res) \<and> rr_restored res)"
      "ri_dry_run inp \<Longrightarrow> g' = g"
      by (auto simp: run_restore_def split: if_splits prod.splits option.splits sum.splits)
    with checked ch(2) show thesis by blast
  qed
qed


lemma restore_action_class [simp]: "a_destr (restore_action rt t inp) = DataAffecting"
  by (simp add: restore_action_def Let_def)








text \<open>
  A restore that reports success did run: the commands of the entry's platform, all of
  them, in order, after the checks, and each exited with 0.
\<close>

theorem restore_reported_done:
  assumes "run_restore rt c ctx inp (h, g) = ((h', g'), Some (Inr res))" "rr_restored res"
  shows "\<exists>checks cmds. restore_commands (ri_entry inp) = Inr cmds \<and> cmds \<noteq> [] \<and> h' = h @ checks @ cmds
    \<and> set checks \<subseteq> check_commands (ri_entry inp) \<and> all_ok c (h @ checks) cmds \<and> dr_ok (rr_dry res)"
proof (cases rule: run_restore_cases [OF assms(1)])
  case (1 checks)
  with assms(2) show ?thesis by blast
next
  case (2 checks dr ap x)
  then obtain u where x: "x = Inr u" "res = \<lparr>rr_dry = dr, rr_restored = True\<rparr>" by (cases x) auto
  then obtain cmds where "restore_commands (ri_entry inp) = Inr cmds" "h' = (h @ checks) @ cmds"
    "all_ok c (h @ checks) cmds"
    using 2(6) by (auto simp: exec_restore_Inr)
  moreover from this(1) have "cmds \<noteq> []" by (auto simp: restore_commands_def Let_def split: if_splits)
  ultimately show ?thesis using 2(1,3) x(2) by auto
qed

section \<open>A backup can be restored\<close>

definition entry_of :: "runtime \<Rightarrow> int \<Rightarrow> string \<Rightarrow> driver_input \<Rightarrow> artifact \<Rightarrow> string \<Rightarrow> backup_entry" where
  "entry_of rt t tt inp a hm =
    \<lparr>e_platform = di_platform inp, e_target = di_target inp, e_type = tt, e_taken = rt_iso rt t,
     e_location = art_path a, e_size = art_size a,
     e_max_age = (case jm_get DEFAULT_FRESHNESS (di_platform inp) of
        None \<Rightarrow> FALLBACK_MAX_AGE_SECONDS | Some n \<Rightarrow> n),
     e_sum = art_sum a, e_verified = False, e_hmac = hm\<rparr>"

lemma entry_of_body: "entry_body (entry_of rt t tt inp a hm) = unsigned_entry rt t tt inp a"
  by (simp add: entry_body_def entry_of_def unsigned_entry_def)

lemma entry_of_hmac [simp]: "e_hmac (entry_of rt t tt inp a hm) = hm"
  by (simp add: entry_of_def)

lemma update_new: "k \<notin> fst ` set kvs \<Longrightarrow> AList.update k v kvs = kvs @ [(k, v)]"
  by (induction kvs) auto

lemma signed_entry:
  assumes "sign_manifest_entry rt (JObj (unsigned_entry rt t tt inp a)) = Inr s"
  obtains hm where "s = entry_json (entry_of rt t tt inp a hm)"
  using assms
  by (auto simp: sign_manifest_entry_def res_simps entry_json_def entry_of_body update_new unsigned_entry_def)

text \<open>A host on which the artifact is still there as it was measured.\<close>

definition holds_artifact :: "conn \<Rightarrow> artifact \<Rightarrow> bool" where
  "holds_artifact c a \<longleftrightarrow>
     (\<forall>h. (\<exists>r. c h (''stat '' @ art_path a) = Inr r \<and> x_exit r = 0)
        \<and> (\<exists>r. c h ''echo ok'' = Inr r \<and> x_exit r = 0 \<and> trim (x_stdout r) = ''ok'')
        \<and> (\<exists>r. c h (sha_cmd (art_path a)) = Inr r \<and> x_exit r = 0 \<and> trim (x_stdout r) = art_sum a))"

text \<open>
  C18: what the backup engine recorded passes the dry run of a restore, as long as the artifact
  is on the host as it was measured: the signature, the size of the recorded fields and the checksum fit.
\<close>

theorem backup_restorable:
  assumes run: "run_backup rt c clk ok reg tt inp (h, f) = ((h', f'), Inr res)"
    and digest: "\<forall>key text. rt_hmac rt key text \<noteq> []"
    and still: "holds_artifact c' (br_artifact res)" "\<not> starts_with OPENSEARCH (art_path (br_artifact res))"
  shows "\<exists>e. entry_json e = br_entry res \<and> e_location e = art_path (br_artifact res)
    \<and> (\<exists>h'' dr. dry_run_restore rt c' e h0 = (h'', Inr dr) \<and> dr_ok dr)"
proof (rule run_backup_Inr [OF run])
  fix d a h1 f1
  assume s: "sign_manifest_entry rt (JObj (unsigned_entry rt (clk 2) tt inp a)) = Inr (br_entry res)"
    "br_artifact res = a"
  obtain hm where e: "br_entry res = entry_json (entry_of rt (clk 2) tt inp a hm)"
    using s(1) by (rule signed_entry)
  let ?e = "entry_of rt (clk 2) tt inp a hm"
  have fs: "e_location ?e = art_path a" "e_sum ?e = art_sum a" by (simp_all add: entry_of_def)
  have v: "verify_entry_hmac rt (entry_json ?e)"
    using sign_manifest_entry_verifies [OF s(1)] digest e by (simp add: unsigned_entry_def)
  have "\<exists>h'' dr. dry_run_restore rt c' ?e h0 = (h'', Inr dr) \<and> dr_ok dr"
  proof -
    have 1: "check_artifact c' ?e h = (h @ [''stat '' @ art_path a], Inr (True, []))" for h
      using still unfolding holds_artifact_def s(2)
      by (auto simp: check_artifact_def fs rcatch_def rthen_def rexec_def rret_def Let_def
          dest!: spec [of _ h])
    have 2: "check_target c' h = (h @ [''echo ok''], Inr (True, []))" for h
      using still unfolding holds_artifact_def s(2)
      by (auto simp: check_target_def rcatch_def rthen_def rexec_def rret_def Let_def dest!: spec [of _ h])
    have 3: "\<exists>h2. check_entry rt c' ?e h = (h2, Inr [])" for h
      using still v unfolding holds_artifact_def s(2)
      by (auto simp: check_entry_def re_verify_entry_def fs rcatch_def rthen_def rexec_def rret_def
          dest!: spec [of _ h])
    obtain h3 where "check_entry rt c' ?e ((h0 @ [''stat '' @ art_path a]) @ [''echo ok'']) = (h3, Inr [])"
      using 3 by blast
    with 1 [of h0] 2 [of "h0 @ [''stat '' @ art_path a]"] show ?thesis
      by (simp add: dry_run_restore_def rthen_def rret_def Let_def)
  qed
  with e fs s(2) show ?thesis by auto
qed

text \<open>
  A share is archived from \<open>/mnt/user\<close> and unpacked below the root; a file system without a path
  parameter goes back to where it came from.
\<close>

lemma share_restored_elsewhere:
  assumes "jm_get (di_params inp) ''path'' = None" "e_platform e = ''unraid-share''" "e_target e = di_target inp"
  shows "\<exists>dest tail. fst (d_backup unraid_share_driver c clk inp h)
       = h @ (''tar czf '' @ dest @ '' -C /mnt/user/'' @ di_target inp @ '' .'') # tail"
    "restore_commands e = Inr [''mkdir -p /'' @ di_target inp @ '' && tar xzf '' @ e_location e
       @ '' -C /'' @ di_target inp]"
proof -
  let ?dest = "posix_join (di_dest inp) (''unraid-share-'' @ di_target inp @ ''-'' @ int_str (clk 0) @ ''.tar.gz'')"
  have m: "appends (measure_file c p)" for p
    unfolding measure_file_def exec_or_throw_def by (auto intro!: remote_intros)
  have m': "appends (exec_or_throw c p)" for p
    unfolding exec_or_throw_def by (auto intro!: remote_intros)
  obtain tail where "fst (measure_file c ?dest (h @ [''tar czf '' @ ?dest @ '' -C /mnt/user/'' @ di_target inp @ '' .'']))
     = (h @ [''tar czf '' @ ?dest @ '' -C /mnt/user/'' @ di_target inp @ '' .'']) @ tail"
    using m unfolding appends_def by blast
  then show "\<exists>dest tail. fst (d_backup unraid_share_driver c clk inp h)
       = h @ (''tar czf '' @ dest @ '' -C /mnt/user/'' @ di_target inp @ '' .'') # tail"
    using assms(1)
    by (intro exI [of _ ?dest])
       (auto simp: unraid_share_driver_def param_def Let_def exec_or_throw_def rthen_def rexec_def rret_def
         rthrow_def split: sum.split)
  show "restore_commands e = Inr [''mkdir -p /'' @ di_target inp @ '' && tar xzf '' @ e_location e
       @ '' -C /'' @ di_target inp]"
    using assms(2,3) by (simp add: restore_commands_def Let_def)
qed

text \<open>A host for the witnesses: it says \<open>ok\<close> to every command.\<close>

definition ok_conn :: conn where
  "ok_conn h cmd = Inr \<lparr>x_stdout = ''ok'', x_stderr = [], x_exit = 0\<rparr>"

definition demo_restore :: "bool \<Rightarrow> restore_input" where
  "demo_restore dry = \<lparr>ri_entry = \<lparr>e_platform = ''redis'', e_target = ''cache'', e_type = ''redis'',
     e_taken = ''T0'', e_location = ''/b/r.rdb'', e_size = 0, e_max_age = 60, e_sum = ''ok'',
     e_verified = False, e_hmac = []\<rparr>, ri_action_id = ''restore-1'', ri_dry_run = dry,
     ri_requested_by = ''restore-cli''\<rparr>"

lemma trim_ok [simp]: "trim ''ok'' = ''ok''"
  by (simp add: trim_def trim_end_def is_space_def)

lemma all_ok_conn: "all_ok ok_conn h cs"
  by (induction cs arbitrary: h) (simp_all add: ok_conn_def)

lemma demo_restore_dry:
  "\<exists>h' dr. dry_run_restore rt ok_conn (ri_entry (demo_restore b)) h = (h', Inr dr) \<and> dr_ok dr"
  by (simp add: dry_run_restore_def check_artifact_def check_target_def check_entry_def re_verify_entry_def
      rcatch_def rthen_def rexec_def rret_def ok_conn_def demo_restore_def OPENSEARCH_def Let_def)

lemma demo_restore_approved:
  assumes "a_destr act = DataAffecting"
  shows "\<exists>g ap. gate_approval demo_rt demo_ctx act demo_gate = (g, Some (Inr ap))"
proof -
  have "backup_checked demo_rt demo_ctx act demo_gate" by (simp add: backup_checked_def demo_ctx_def)
  then obtain st1 where st1: "run_backup_check demo_rt demo_ctx act demo_gate = (st1, Some (Inr ()))"
    using demo_gate_facts(8) by (rule run_backup_check_ok)
  have "\<exists>st' ap. gate_flow demo_rt demo_ctx act demo_gate = (st', Some (Inr ap))"
    using confirm_ok [OF demo_gate_facts(9,8)] st1 assms
    by (simp add: gate_flow_def request_data_affecting_approval_def
        gbind_def [of "run_backup_check demo_rt demo_ctx act"])
  then show ?thesis by (auto simp: gate_approval_Inr)
qed

lemma demo_restore_run:
  obtains h' g' res where
    "run_restore demo_rt ok_conn demo_ctx (demo_restore False) ([], demo_gate) = ((h', g'), Some (Inr res))"
    "rr_restored res"
proof -
  obtain h1 dr where d: "dry_run_restore demo_rt ok_conn (ri_entry (demo_restore False)) [] = (h1, Inr dr)" "dr_ok dr"
    using demo_restore_dry by blast
  obtain g ap where g: "gate_approval demo_rt demo_ctx
      (restore_action demo_rt (now demo_gate) (demo_restore False)) demo_gate = (g, Some (Inr ap))"
    using demo_restore_approved [OF restore_action_class] by blast
  obtain cmds where "restore_commands (ri_entry (demo_restore False)) = Inr cmds"
    by (simp add: restore_commands_def demo_restore_def Let_def)
  then have "exec_restore ok_conn (ri_entry (demo_restore False)) h1 = (h1 @ cmds, Inr ())"
    using exec_restore_Inr all_ok_conn by blast
  moreover have "\<not> ri_dry_run (demo_restore False)" by (simp add: demo_restore_def)
  ultimately show thesis using that d g by (simp add: run_restore_def)
qed

theorem restore_reported_done_witness:
  "\<exists>h' g' res. run_restore demo_rt ok_conn demo_ctx (demo_restore False) ([], demo_gate) = ((h', g'), Some (Inr res))
     \<and> ''cp /b/r.rdb /var/lib/redis/dump.rdb'' \<in> set h'"
proof -
  obtain h' g' res where run:
    "run_restore demo_rt ok_conn demo_ctx (demo_restore False) ([], demo_gate) = ((h', g'), Some (Inr res))"
    "rr_restored res" by (rule demo_restore_run)
  have "''cp /b/r.rdb /var/lib/redis/dump.rdb'' \<in> set cmds"
    if "restore_commands (ri_entry (demo_restore False)) = Inr cmds" for cmds
    using that by (auto simp: restore_commands_def demo_restore_def Let_def)
  with restore_reported_done [OF run] run(1) show ?thesis by force
qed


definition demo_backup :: driver_input where
  "demo_backup = \<lparr>di_target = ''etc'', di_platform = ''docker'', di_params = [], di_dest = ''/backups''\<rparr>"

lemma demo_run_backup:
  obtains h' f' res where
    "run_backup demo_rt2 ok_conn (\<lambda>_. 5) True builtin_registry ''filesystem'' demo_backup ([], Absent) = ((h', f'), Inr res)"
    "holds_artifact ok_conn (br_artifact res)" "\<not> starts_with OPENSEARCH (art_path (br_artifact res))"
proof -
  have reg: "jm_get builtin_registry ''filesystem'' = Some filesystem_driver"
    by (simp add: builtin_registry_eq builtin_drivers_def)
  let ?p = "posix_join ''/backups'' (''fs-'' @ ''etc'' @ ''-'' @ int_str 5 @ ''.tar.gz'')"
  let ?a = "\<lparr>art_path = ?p, art_size = parse_size_output ''ok'', art_sum = ''ok''\<rparr>"
  obtain h1 where d: "d_backup filesystem_driver ok_conn (\<lambda>_. 5) demo_backup [] = (h1, Inr ?a)"
    by (simp add: filesystem_driver_def measure_file_def exec_or_throw_def rthen_def rexec_def rret_def
        ok_conn_def demo_backup_def param_def Let_def)
  have "is_json (JObj (unsigned_entry demo_rt2 5 ''filesystem'' demo_backup ?a))"
    by (simp add: unsigned_entry_def)
  then obtain s where s: "sign_manifest_entry demo_rt2
      (JObj (unsigned_entry demo_rt2 5 ''filesystem'' demo_backup ?a)) = Inr s"
    using canonical_json_eq by (fastforce simp: sign_manifest_entry_def)
  have "digit_char 5 = CHR ''5''" by code_simp
  then have p: "?p = ''/backups'' @ ''/'' @ (''fs-etc-5.tar.gz'')"
    by (simp add: posix_join_def posix_normalize_def int_str_def nat_str.simps Let_def)
  show thesis
  proof (rule that)
    show "run_backup demo_rt2 ok_conn (\<lambda>_. 5) True builtin_registry ''filesystem'' demo_backup ([], Absent)
      = ((h1, Content (Some (manifest_json [s]))), Inr \<lparr>br_artifact = ?a, br_entry = s\<rparr>)"
      using d s by (simp add: run_backup_def reg append_manifest_entry_def read_manifest_file_def write_manifest_file_def)
    show "holds_artifact ok_conn (br_artifact \<lparr>br_artifact = ?a, br_entry = s\<rparr>)"
      by (simp add: holds_artifact_def ok_conn_def)
    show "\<not> starts_with OPENSEARCH (art_path (br_artifact \<lparr>br_artifact = ?a, br_entry = s\<rparr>))"
      unfolding backup_result.simps artifact.simps p by (simp add: OPENSEARCH_def)
  qed
qed

theorem backup_restorable_witness:
  "\<exists>e h'' dr. dry_run_restore demo_rt2 ok_conn e [] = (h'', Inr dr) \<and> dr_ok dr"
proof -
  obtain h' f' res where b:
    "run_backup demo_rt2 ok_conn (\<lambda>_. 5) True builtin_registry ''filesystem'' demo_backup ([], Absent) = ((h', f'), Inr res)"
    "holds_artifact ok_conn (br_artifact res)" "\<not> starts_with OPENSEARCH (art_path (br_artifact res))"
    by (rule demo_run_backup)
  have "\<forall>key text. rt_hmac demo_rt2 key text \<noteq> []" by simp
  from backup_restorable [OF b(1) this b(2,3), of "[]"] show ?thesis by blast
qed

end
