(* ===== verification/Cidr.thy ===== *)
theory Cidr
  imports Prelude "HOL-Library.Word"
begin

text \<open>
  IPv4 addresses and CIDR blocks: \<open>src/discovery/cidr.ts\<close> and the helpers of
  \<open>src/consent/manager.ts\<close>. An address is a 32-bit word, as \<open>>>> 0\<close> makes it in the code; the loop over
  the hosts counts in unbounded numbers.
\<close>

unbundle bit_operations_syntax

type_synonym ip = "32 word"

section \<open>Reading and printing addresses\<close>

definition octet_text :: "string \<Rightarrow> bool" where
  "octet_text s \<longleftrightarrow> 1 \<le> length s \<and> length s \<le> 3 \<and> list_all is_digit s"

definition dotted :: "string \<Rightarrow> (nat \<times> nat \<times> nat \<times> nat) option" where
  "dotted s =
    (case split_on (CHR ''.'') s of
       [a, b, c, d] \<Rightarrow>
         if list_all octet_text [a, b, c, d] \<and> list_all (\<lambda>o'. str_nat o' \<le> 255) [a, b, c, d]
         then Some (str_nat a, str_nat b, str_nat c, str_nat d) else None
     | _ \<Rightarrow> None)"

definition pack :: "nat \<times> nat \<times> nat \<times> nat \<Rightarrow> ip" where
  "pack = (\<lambda>(a, b, c, d).
     push_bit 24 (of_nat a) OR push_bit 16 (of_nat b) OR push_bit 8 (of_nat c) OR of_nat d)"

definition parse_ip :: "string \<Rightarrow> ip option" where
  "parse_ip s = map_option pack (dotted s)"

definition octet :: "nat \<Rightarrow> ip \<Rightarrow> nat" where
  "octet n x = unat (drop_bit n x AND 0xFF)"

definition int_to_ip :: "ip \<Rightarrow> string" where
  "int_to_ip x = join ''.'' (map nat_str [octet 24 x, octet 16 x, octet 8 x, octet 0 x])"

section \<open>Blocks\<close>

definition prefix_mask :: "nat \<Rightarrow> ip" where
  "prefix_mask p = (if p = 0 then 0 else push_bit (32 - p) 0xFFFFFFFF)"

text \<open>\<open>parseCidr\<close> of the consent manager takes one or two digits of prefix; the regular expression of
  \<open>enumerateHosts\<close> no leading zero.\<close>

definition split_cidr :: "string \<Rightarrow> ((nat \<times> nat \<times> nat \<times> nat) \<times> string) option" where
  "split_cidr s =
    (case split_on (CHR ''/'') s of
       [a, p] \<Rightarrow> map_option (\<lambda>o'. (o', p)) (dotted a)
     | _ \<Rightarrow> None)"

record cidr_block =
  cb_network :: ip
  cb_prefix :: nat

definition parse_cidr :: "string \<Rightarrow> cidr_block option" where
  "parse_cidr s =
    (case split_cidr s of
       None \<Rightarrow> None
     | Some (o', p) \<Rightarrow>
         if 1 \<le> length p \<and> length p \<le> 2 \<and> list_all is_digit p \<and> str_nat p \<le> 32
         then Some \<lparr>cb_network = pack o' AND prefix_mask (str_nat p), cb_prefix = str_nat p\<rparr>
         else None)"

definition ip_in_cidr :: "string \<Rightarrow> string \<Rightarrow> bool" where
  "ip_in_cidr i s =
    (case (parse_ip i, parse_cidr s) of
       (Some x, Some b) \<Rightarrow> x AND prefix_mask (cb_prefix b) = cb_network b
     | _ \<Rightarrow> False)"

definition plain_prefix :: "string \<Rightarrow> bool" where
  "plain_prefix p \<longleftrightarrow> list_all is_digit p \<and> str_nat p \<le> 32
     \<and> (length p = 1 \<or> length p = 2 \<and> hd p \<noteq> CHR ''0'')"

definition enumerate_hosts :: "string \<Rightarrow> string list res" where
  "enumerate_hosts s =
    (case split_cidr s of
       Some (o', p) \<Rightarrow>
         if plain_prefix p then
           let prefix = str_nat p;
               network = pack o' AND prefix_mask prefix;
               broadcast = network OR NOT (prefix_mask prefix) in
           if prefix = 32 then Inr [int_to_ip network]
           else if prefix = 31 then Inr [int_to_ip network, int_to_ip (network + 1)]
           else Inr (map (\<lambda>n. int_to_ip (of_nat n)) [unat network + 1 ..< unat broadcast])
         else Inl (Error (''invalid CIDR: '' @ s))
     | None \<Rightarrow> Inl (Error (''invalid CIDR: '' @ s)))"

section \<open>Printing then reading an address\<close>

lemma length_nat_str: "n < 1000 \<Longrightarrow> 1 \<le> length (nat_str n) \<and> length (nat_str n) \<le> 3"
  using nat_str.simps [of n] nat_str.simps [of "n div 10"] nat_str.simps [of "n div 10 div 10"]
  by (auto simp: div_less less_mult_imp_div_less)

lemma octet_text_nat_str: "n < 256 \<Longrightarrow> octet_text (nat_str n)"
  using length_nat_str [of n] nat_str_digits [of n] by (simp add: octet_text_def list_all_iff)

lemma no_dot_nat_str: "CHR ''.'' \<notin> set (nat_str n)" "CHR ''/'' \<notin> set (nat_str n)"
proof -
  have "\<not> is_digit (CHR ''.'')" "\<not> is_digit (CHR ''/'')" by (simp_all add: is_digit_def)
  then show "CHR ''.'' \<notin> set (nat_str n)" "CHR ''/'' \<notin> set (nat_str n)"
    using nat_str_digits [of n] by blast+
qed

lemma octet_less: "octet n x < 256"
proof -
  have "drop_bit n x AND 0xFF \<le> 0xFF" by (simp add: word_and_le1)
  then have "unat (drop_bit n x AND 0xFF) \<le> unat (0xFF :: ip)" by (simp only: word_le_nat_alt)
  then show ?thesis by (simp add: octet_def)
qed

lemma dotted_int_to_ip: "dotted (int_to_ip x) = Some (octet 24 x, octet 16 x, octet 8 x, octet 0 x)"
proof -
  have s: "split_on (CHR ''.'') (int_to_ip x) = map nat_str [octet 24 x, octet 16 x, octet 8 x, octet 0 x]"
    by (simp add: int_to_ip_def split_on_append split_on_clean no_dot_nat_str)
  have "str_nat (nat_str (octet n x)) \<le> 255" "octet_text (nat_str (octet n x))" for n
    using octet_less [of n x] octet_text_nat_str by simp_all
  then show ?thesis by (simp add: dotted_def s)
qed

lemma of_nat_octet: "of_nat (octet n x) = take_bit 8 (drop_bit n x)"
proof -
  have "(0xFF :: ip) = mask 8" by (simp add: mask_eq_exp_minus_1)
  then show ?thesis by (simp add: octet_def take_bit_eq_mask)
qed

lemma pack_octets: "pack (octet 24 x, octet 16 x, octet 8 x, octet 0 x) = x"
proof (rule bit_word_eqI)
  fix n assume "n < LENGTH(32)"
  then consider "24 \<le> n" "n < 32" | "16 \<le> n" "n < 24" | "8 \<le> n" "n < 16" | "n < 8"
    by (simp; linarith)
  then show "bit (pack (octet 24 x, octet 16 x, octet 8 x, octet 0 x)) n = bit x n"
    unfolding pack_def prod.case of_nat_octet
    by cases (simp_all add: bit_simps, linarith+)
qed

lemma parse_int_to_ip [simp]: "parse_ip (int_to_ip x) = Some x"
  by (simp add: parse_ip_def dotted_int_to_ip pack_octets)

lemma int_to_ip_inj: "int_to_ip x = int_to_ip y \<Longrightarrow> x = y"
  by (metis option.inject parse_int_to_ip)

section \<open>The hosts of a block\<close>

lemma prefix_mask_eq: "p \<le> 32 \<Longrightarrow> prefix_mask p = NOT (mask (32 - p))"
proof -
  have "(0xFFFFFFFF :: ip) = - 1" by simp
  moreover have "NOT (mask 32) = (0 :: ip)" by (rule bit_word_eqI) (simp add: bit_simps)
  ultimately show ?thesis
    by (simp only: prefix_mask_def push_bit_minus_one_eq_not_mask split: if_split) simp
qed

lemma push_drop_and: "x AND NOT (mask k) = push_bit k (drop_bit k (x :: ip))"
  by (rule bit_word_eqI) (auto simp: bit_simps)

lemma drop_bit_mono: "x \<le> y \<Longrightarrow> drop_bit k (x :: ip) \<le> drop_bit k y"
  unfolding word_le_nat_alt unat_drop_bit_eq by (simp add: drop_bit_eq_div div_le_mono)

text \<open>The block of a network address is an interval.\<close>

lemma block_interval:
  assumes "p \<le> 32" "net AND prefix_mask p = (net :: ip)"
  shows "x AND prefix_mask p = net \<longleftrightarrow> net \<le> x \<and> x \<le> net OR NOT (prefix_mask p)"
proof
  assume x: "x AND prefix_mask p = net"
  have "x OR NOT (prefix_mask p) = net OR NOT (prefix_mask p)"
    unfolding x [symmetric] by (rule bit_word_eqI) (auto simp: bit_simps)
  moreover have "x \<le> x OR NOT (prefix_mask p)" by (rule le_word_or2)
  moreover have "net \<le> x" using word_and_le2 [of x "prefix_mask p"] x by simp
  ultimately show "net \<le> x \<and> x \<le> net OR NOT (prefix_mask p)" by simp
next
  let ?k = "32 - p"
  assume i: "net \<le> x \<and> x \<le> net OR NOT (prefix_mask p)"
  have m: "prefix_mask p = NOT (mask ?k)" by (rule prefix_mask_eq [OF assms(1)])
  have "drop_bit ?k net = drop_bit ?k (net OR mask ?k)"
    by (rule bit_word_eqI) (auto simp: bit_simps)
  then have "drop_bit ?k x = drop_bit ?k net"
    using i drop_bit_mono [of net x ?k] drop_bit_mono [of x "net OR mask ?k" ?k] by (simp add: m)
  then show "x AND prefix_mask p = net"
    using assms(2) by (simp add: m push_drop_and)
qed

lemma network_masked: "(x AND prefix_mask p) AND prefix_mask p = (x AND prefix_mask p :: ip)"
  by (simp add: and.assoc)

lemma broadcast_eq:
  assumes "p \<le> 32" "net AND prefix_mask p = (net :: ip)"
  shows "net OR NOT (prefix_mask p) = net + mask (32 - p)"
proof -
  have "net AND mask (32 - p) = 0"
    by (subst assms(2) [symmetric]) (simp add: prefix_mask_eq [OF assms(1)] and.assoc)
  then show ?thesis
    using word_plus_and_or [of net "mask (32 - p)"] by (simp add: prefix_mask_eq [OF assms(1)])
qed

lemma network_le_broadcast: "net \<le> net OR NOT (prefix_mask p :: ip)"
  by (rule le_word_or2)

text \<open>What the loop visits: the addresses strictly between two words.\<close>

lemma loop_hosts:
  "set (map (\<lambda>n. int_to_ip (of_nat n)) [unat a + 1 ..< unat b]) = int_to_ip ` {x. a < x \<and> x < (b :: ip)}"
  "distinct (map (\<lambda>n. int_to_ip (of_nat n)) [unat a + 1 ..< unat b])"
proof -
  have "unat b < 2 ^ LENGTH(32)" by (rule unsigned_less)
  then have lt: "n < 2 ^ 32" if "n < unat b" for n using that by simp
  have "of_nat ` {unat a + 1 ..< unat b} = {x. a < x \<and> x < b}"
  proof (intro equalityI subsetI)
    fix x assume "x \<in> {x. a < x \<and> x < b}"
    then have "unat x \<in> {unat a + 1 ..< unat b}" by (simp add: word_less_nat_alt)
    then have "of_nat (unat x) \<in> (of_nat ` {unat a + 1 ..< unat b} :: ip set)" by (rule imageI)
    then show "x \<in> of_nat ` {unat a + 1 ..< unat b}" by simp
  next
    fix x :: ip assume "x \<in> of_nat ` {unat a + 1 ..< unat b}"
    then obtain n where "x = of_nat n" "unat a < n" "n < unat b" by auto
    with lt [of n] show "x \<in> {x. a < x \<and> x < b}"
      by (simp add: word_less_nat_alt unat_of_nat)
  qed
  moreover have "set (map (\<lambda>n. int_to_ip (of_nat n)) [unat a + 1 ..< unat b])
      = int_to_ip ` of_nat ` {unat a + 1 ..< unat b}" by (simp add: image_image)
  ultimately show "set (map (\<lambda>n. int_to_ip (of_nat n)) [unat a + 1 ..< unat b]) = int_to_ip ` {x. a < x \<and> x < b}"
    by (simp only:)
  show "distinct (map (\<lambda>n. int_to_ip (of_nat n)) [unat a + 1 ..< unat b])"
  proof (subst distinct_map, intro conjI inj_onI)
    fix m n
    assume mn: "m \<in> set [unat a + 1 ..< unat b]" "n \<in> set [unat a + 1 ..< unat b]"
      "int_to_ip (of_nat m) = int_to_ip (of_nat n)"
    then have "(of_nat m :: ip) = of_nat n" by (blast dest: int_to_ip_inj)
    then have "unat (of_nat m :: ip) = unat (of_nat n :: ip)" by simp
    with mn lt show "m = n" by (simp add: unat_of_nat)
  qed simp
qed

text \<open>The addresses \<open>enumerateHosts\<close> is meant to give: all of a block of one or two, and of any other
  all but the first and the last.\<close>

definition usable_hosts :: "cidr_block \<Rightarrow> ip set" where
  "usable_hosts b = {x. x AND prefix_mask (cb_prefix b) = cb_network b
     \<and> (31 \<le> cb_prefix b \<or> x \<noteq> cb_network b \<and> x \<noteq> cb_network b OR NOT (prefix_mask (cb_prefix b)))}"

lemma plain_prefix_ok: "plain_prefix p \<Longrightarrow> 1 \<le> length p \<and> length p \<le> 2 \<and> list_all is_digit p \<and> str_nat p \<le> 32"
  by (auto simp: plain_prefix_def)

lemma hosts_of_block_aux:
  assumes "enumerate_hosts s = Inr hosts"
  shows "\<exists>b. parse_cidr s = Some b \<and> distinct hosts \<and> set hosts = int_to_ip ` usable_hosts b
    \<and> list_all (\<lambda>i. ip_in_cidr i s) hosts"
proof -
  obtain o' p where sp: "split_cidr s = Some (o', p)" "plain_prefix p"
    using assms by (auto simp: enumerate_hosts_def split: option.splits if_splits)
  let ?p = "str_nat p" and ?net = "pack o' AND prefix_mask (str_nat p)"
  let ?b = "\<lparr>cb_network = ?net, cb_prefix = ?p\<rparr>"
  have b: "parse_cidr s = Some ?b" using sp(1) plain_prefix_ok [OF sp(2)] by (simp add: parse_cidr_def)
  have p: "?p \<le> 32" using sp(2) by (simp add: plain_prefix_def)
  note iv = block_interval [OF p network_masked [of "pack o'" ?p]]
  note bc = broadcast_eq [OF p network_masked [of "pack o'" ?p]]
  have hosts: "distinct hosts \<and> set hosts = int_to_ip ` usable_hosts ?b"
  proof (cases "31 \<le> ?p")
    case True
    then consider "?p = 31" | "?p = 32" using p by linarith
    then show ?thesis
    proof cases
      case 1
      then have h: "hosts = [int_to_ip ?net, int_to_ip (?net + 1)]"
        using assms sp by (simp add: enumerate_hosts_def Let_def)
      have bc1: "?net OR NOT (prefix_mask ?p) = ?net + 1" using bc 1 by (simp add: mask_eq_exp_minus_1)
      have le: "?net \<le> ?net + 1" using network_le_broadcast [of ?net ?p] by (simp only: bc1)
      have two: "?net \<le> x \<and> x \<le> ?net + 1 \<longleftrightarrow> x = ?net \<or> x = ?net + 1" for x
        using le inc_le [of ?net x] order.antisym [of x "?net + 1"] by (cases "?net = x") (auto simp: order.strict_iff_order)
      have "usable_hosts ?b = {?net, ?net + 1}"
        unfolding usable_hosts_def cidr_block.simps iv bc1 two using True by auto
      moreover have "?net \<noteq> ?net + 1" by simp
      ultimately show ?thesis using h by (auto dest: int_to_ip_inj)
    next
      case 2
      then have "hosts = [int_to_ip ?net]"
        using assms sp by (auto simp: enumerate_hosts_def Let_def)
      moreover have "?net OR NOT (prefix_mask ?p) = ?net" using bc 2 by simp
      then have "usable_hosts ?b = {?net}"
        unfolding usable_hosts_def cidr_block.simps iv using True by auto
      ultimately show ?thesis by simp
    qed
  next
    case False
    then have "hosts = map (\<lambda>n. int_to_ip (of_nat n)) [unat ?net + 1 ..< unat (?net OR NOT (prefix_mask ?p))]"
      using assms sp by (auto simp: enumerate_hosts_def Let_def)
    moreover have "{x. ?net < x \<and> x < ?net OR NOT (prefix_mask ?p)} = usable_hosts ?b"
      using False by (auto simp: usable_hosts_def iv)
    ultimately show ?thesis using loop_hosts [of ?net "?net OR NOT (prefix_mask ?p)"] by simp
  qed
  moreover have "list_all (\<lambda>i. ip_in_cidr i s) hosts"
    using hosts b by (auto simp: list_all_iff ip_in_cidr_def usable_hosts_def)
  ultimately show ?thesis using b by blast
qed

lemma enumerated_in_cidr: "enumerate_hosts s = Inr hosts \<Longrightarrow> i \<in> set hosts \<Longrightarrow> ip_in_cidr i s"
  using hosts_of_block_aux [of s hosts] by (auto simp: list_all_iff)

text \<open>
  The hosts enumerated for a block are, each once, exactly its usable addresses, network and
  broadcast address excluded below a prefix of 31; each of them passes the test the consent check makes
  for the same text.
\<close>

theorem hosts_of_block:
  assumes "enumerate_hosts s = Inr hosts"
  shows "\<exists>b. parse_cidr s = Some b \<and> distinct hosts \<and> set hosts = int_to_ip ` usable_hosts b
    \<and> list_all (\<lambda>i. ip_in_cidr i s) hosts"
  by (rule hosts_of_block_aux [OF assms])

lemma demo_hosts: "\<exists>hosts. enumerate_hosts ''10.0.0.0/30'' = Inr hosts"
proof -
  have "split_cidr ''10.0.0.0/30'' = Some ((10, 0, 0, 0), ''30'')"
    by (simp add: split_cidr_def dotted_def octet_text_def is_digit_def str_nat_def digit_val_def)
  moreover have "plain_prefix ''30''"
    by (simp add: plain_prefix_def is_digit_def str_nat_def digit_val_def)
  ultimately show ?thesis by (simp add: enumerate_hosts_def Let_def)
qed

theorem hosts_of_block_witness:
  "\<exists>hosts b. enumerate_hosts ''10.0.0.0/30'' = Inr hosts \<and> parse_cidr ''10.0.0.0/30'' = Some b
     \<and> set hosts = int_to_ip ` usable_hosts b"
proof -
  obtain hosts where run: "enumerate_hosts ''10.0.0.0/30'' = Inr hosts" using demo_hosts by blast
  from hosts_of_block [OF run] run show ?thesis by blast
qed

end
