(* ===== verification/Consent.thy ===== *)
theory Consent
  imports Cidr Signed
begin

text \<open>
  Network consent: the fingerprint of the network (\<open>src/consent/fingerprint.ts\<close>) and the manager that
  decides whether a probe may touch an address (\<open>src/consent/manager.ts\<close>). The consent file is what
  \<open>yaml.load\<close> makes of it, with entries of their declared type; the mutex of the file is the atomicity
  of one operation, and the atomic write replaces the file or leaves it.
\<close>

section \<open>The fingerprint\<close>

text \<open>The commands and the file the fingerprint is read from: \<open>None\<close> when they fail.\<close>

record fp_runtime =
  fr_exec :: "string \<Rightarrow> string list \<Rightarrow> string option"
  fr_resolv :: "string option"
  fr_platform :: string
  fr_override :: "string option"

text \<open>\<open>\d{1,3}(?:\.\d{1,3}){3}\<close> at the start of a text, with the rest.\<close>

definition digit_run :: "string \<Rightarrow> (string \<times> string) option" where
  "digit_run s =
    (let d = takeWhile is_digit s in
     if 1 \<le> length d \<and> length d \<le> 3 then Some (d, dropWhile is_digit s) else None)"

fun quad_rest :: "nat \<Rightarrow> string \<Rightarrow> (string \<times> string) option" where
  "quad_rest 0 s = Some ([], s)"
| "quad_rest (Suc n) [] = None"
| "quad_rest (Suc n) (c # s) =
     (if c \<noteq> CHR ''.'' then None
      else case digit_run s of
        None \<Rightarrow> None
      | Some (d, r) \<Rightarrow> map_option (\<lambda>(q, u). (c # d @ q, u)) (quad_rest n r))"

definition quad :: "string \<Rightarrow> (string \<times> string) option" where
  "quad s =
    (case digit_run s of
       None \<Rightarrow> None
     | Some (d, r) \<Rightarrow> map_option (\<lambda>(q, u). (d @ q, u)) (quad_rest 3 r))"

definition is_word_char :: "char \<Rightarrow> bool" where
  "is_word_char c \<longleftrightarrow> is_alnum c \<or> c = CHR ''_''"

definition is_eol :: "char \<Rightarrow> bool" where
  "is_eol c \<longleftrightarrow> c = CHR 0x0A \<or> c = CHR 0x0D"

definition spaces :: "string \<Rightarrow> string option" where
  "spaces s = (if s \<noteq> [] \<and> is_space (hd s) then Some (dropWhile is_space s) else None)"

definition literal :: "string \<Rightarrow> string \<Rightarrow> string option" where
  "literal p s = (if starts_with p s then Some (drop (length p) s) else None)"

definition linux_gateway_at :: "string \<Rightarrow> string option" where
  "linux_gateway_at s =
     Option.bind (literal ''default'' s) (\<lambda>s1. Option.bind (spaces s1) (\<lambda>s2.
     Option.bind (literal ''via'' s2) (\<lambda>s3. Option.bind (spaces s3) (\<lambda>s4.
     Option.bind (quad s4) (\<lambda>(q, r). if r = [] \<or> \<not> is_word_char (hd r) then Some q else None)))))"

fun first_match :: "(string \<Rightarrow> 'a option) \<Rightarrow> string \<Rightarrow> 'a option" where
  "first_match f [] = f []"
| "first_match f (c # s) = (case f (c # s) of Some x \<Rightarrow> Some x | None \<Rightarrow> first_match f s)"

definition mac_gateway_at :: "string \<Rightarrow> string option" where
  "mac_gateway_at s =
     Option.bind (literal ''gateway:'' (dropWhile is_space s)) (\<lambda>s1.
     Option.bind (quad (dropWhile is_space s1)) (\<lambda>(q, r).
       let r' = dropWhile (\<lambda>c. is_space c \<and> \<not> is_eol c) r in
       if r' = [] \<or> is_eol (hd r') then Some q else None))"

fun line_match :: "(string \<Rightarrow> 'a option) \<Rightarrow> bool \<Rightarrow> string \<Rightarrow> 'a option" where
  "line_match f b [] = (if b then f [] else None)"
| "line_match f b (c # s) =
     (case (if b then f (c # s) else None) of Some x \<Rightarrow> Some x | None \<Rightarrow> line_match f (is_eol c) s)"

definition get_default_gateway :: "fp_runtime \<Rightarrow> string res" where
  "get_default_gateway fr =
    (if fr_platform fr = ''linux'' then
       (case fr_exec fr ''ip'' [''-4'', ''route'', ''show'', ''default''] of
          None \<Rightarrow> Inl (Error ''ip'')
        | Some out \<Rightarrow>
            (case first_match linux_gateway_at out of
               None \<Rightarrow> Inl (Error ''no default route found in `ip route` output'')
             | Some gw \<Rightarrow> Inr gw))
     else if fr_platform fr = ''darwin'' then
       (case fr_exec fr ''route'' [''-n'', ''get'', ''default''] of
          None \<Rightarrow> Inl (Error ''route'')
        | Some out \<Rightarrow>
            (case line_match mac_gateway_at True out of
               None \<Rightarrow> Inl (Error ''no gateway line found in `route get default` output'')
             | Some gw \<Rightarrow> Inr gw))
     else Inl (Error (''unsupported platform for default-gateway probing: '' @ fr_platform fr)))"

text \<open>A line of \<open>resolv.conf\<close>; trimming drops the carriage return the split would.\<close>

definition nameserver_of :: "string \<Rightarrow> string option" where
  "nameserver_of raw =
    (let line = trim raw in
     if line = [] \<or> hd line = CHR ''#'' \<or> hd line = CHR '';'' then None
     else if to_lower (take 10 line) \<noteq> ''nameserver'' then None
     else Option.bind (spaces (drop 10 line)) (\<lambda>r.
            let ip = takeWhile (\<lambda>c. \<not> is_space c) r in if ip = [] then None else Some ip))"

fun collect_new :: "string list \<Rightarrow> string list \<Rightarrow> string list" where
  "collect_new acc [] = acc"
| "collect_new acc (l # ls) =
     (case nameserver_of l of
        Some ip \<Rightarrow> collect_new (if ip \<in> set acc then acc else acc @ [ip]) ls
      | None \<Rightarrow> collect_new acc ls)"

definition get_dns_servers :: "fp_runtime \<Rightarrow> string list" where
  "get_dns_servers fr =
    (case fr_resolv fr of None \<Rightarrow> [] | Some raw \<Rightarrow> collect_new [] (split_on nl raw))"

definition compute_fingerprint :: "fp_runtime \<Rightarrow> string" where
  "compute_fingerprint fr =
    (case fr_override fr of
       Some v \<Rightarrow> v
     | None \<Rightarrow>
         (case get_default_gateway fr of
            Inl _ \<Rightarrow> ''route=unknown;dns=''
          | Inr gw \<Rightarrow> ''route='' @ gw @ '';dns='' @ join '','' (get_dns_servers fr)))"

section \<open>Consents and their file\<close>

datatype scan_type = HttpProbe | SshProbe | TcpConnect

fun scan_type_str :: "scan_type \<Rightarrow> string" where
  "scan_type_str HttpProbe = ''http_probe''"
| "scan_type_str SshProbe = ''ssh_probe''"
| "scan_type_str TcpConnect = ''tcp_connect''"

record consent =
  c_cidr :: string
  c_approved_at :: string
  c_expires_at :: string
  c_approved_by :: "string option"
  c_note :: "string option"
  c_fingerprint :: "string option"
  c_ports :: "int list"
  c_scan_types :: "scan_type list"

text \<open>What \<open>yaml.load\<close> makes of the file: nothing, a value of another type (with its \<open>typeof\<close>), or an
  object with a version and perhaps an array of consents.\<close>

datatype consent_doc =
    DocEmpty
  | DocScalar string
  | DocObject jsval "consent list option"

definition js_text :: "jsval \<Rightarrow> string" where
  "js_text v =
    (case v of
       JStr s \<Rightarrow> s | JUndef \<Rightarrow> ''undefined'' | JNull \<Rightarrow> ''null''
     | JBool b \<Rightarrow> (if b then ''true'' else ''false'') | JNum (Fin n) \<Rightarrow> int_str n
     | JNum NaN \<Rightarrow> ''NaN'' | _ \<Rightarrow> ''[object Object]'')"

text \<open>\<open>Content None\<close> is a file \<open>yaml.load\<close> throws on.\<close>

type_synonym consent_file = "consent_doc option disk_file"

definition load_file :: "consent_file \<Rightarrow> consent list res" where
  "load_file f =
    (case f of
       Absent \<Rightarrow> Inr []
     | Unreadable e \<Rightarrow> Inl (IoError e)
     | Content None \<Rightarrow> Inl (Error ''YAMLException'')
     | Content (Some DocEmpty) \<Rightarrow> Inr []
     | Content (Some (DocScalar t)) \<Rightarrow> Inl (Error (''invalid consent file: expected object, got '' @ t))
     | Content (Some (DocObject v cs)) \<Rightarrow>
         if v \<noteq> JStr ''1.0'' then Inl (Error (''invalid consent file: unsupported version '' @ js_text v))
         else (case cs of
                 None \<Rightarrow> Inl (Error ''invalid consent file: `consents` must be an array'')
               | Some l \<Rightarrow> Inr l))"

definition write_file :: "bool \<Rightarrow> consent list \<Rightarrow> consent_file \<Rightarrow> consent_file \<times> unit res" where
  "write_file disk_ok cs f =
    (if disk_ok then (Content (Some (DocObject (JStr ''1.0'') (Some cs))), Inr ())
     else (f, Inl (IoError ''EIO'')))"

section \<open>The manager\<close>

text \<open>The options of the manager, the clock, the disk and the audit writer; the writer appends or
  throws.\<close>

record consent_env =
  ce_rt :: runtime
  ce_fp :: fp_runtime
  ce_days :: int
  ce_prompt :: "string \<Rightarrow> bool res"
  ce_now :: int
  ce_disk :: bool
  ce_audit :: "(string \<Rightarrow> jsval \<Rightarrow> bool) option"

record consent_state =
  cs_file :: consent_file
  cs_audit :: "(string \<times> jsval) list"

definition DEFAULT_EXPIRY_DAYS :: int where
  "DEFAULT_EXPIRY_DAYS = 90"

definition build_prompt_message :: "string \<Rightarrow> int list \<Rightarrow> scan_type list \<Rightarrow> string \<Rightarrow> string" where
  "build_prompt_message cidr ports types fingerprint =
     ''Scan '' @ cidr @ '' for platforms?'' @ [nl] @ ''  Ports: '' @ join '','' (map int_str ports) @ [nl]
     @ ''  Scan types: '' @ join '','' (map scan_type_str types) @ [nl]
     @ ''  Network fingerprint: '' @ fingerprint @ [nl] @ ''Approve? (y/N)''"

definition network_fingerprint :: "consent_env \<Rightarrow> string" where
  "network_fingerprint env = compute_fingerprint (ce_fp env)"

fun find_consent :: "consent_env \<Rightarrow> string \<Rightarrow> consent list \<Rightarrow> consent option" where
  "find_consent env i [] = None"
| "find_consent env i (c # cs) =
     (if \<not> ip_in_cidr i (c_cidr c) then find_consent env i cs
      else case rt_parse (ce_rt env) (c_expires_at c) of
        None \<Rightarrow> find_consent env i cs
      | Some t \<Rightarrow>
          if t \<le> ce_now env then find_consent env i cs
          else (case c_fingerprint c of
                  None \<Rightarrow> Some c
                | Some fp \<Rightarrow> if fp \<noteq> network_fingerprint env then find_consent env i cs else Some c))"

definition check_consent :: "consent_env \<Rightarrow> string \<Rightarrow> consent_state \<Rightarrow> consent option res" where
  "check_consent env i st = rbind (load_file (cs_file st)) (\<lambda>cs. Inr (find_consent env i cs))"

definition emit :: "consent_env \<Rightarrow> string \<Rightarrow> jsval \<Rightarrow> consent_state \<Rightarrow> consent_state \<times> unit res" where
  "emit env ev payload st =
    (case ce_audit env of
       None \<Rightarrow> (st, Inr ())
     | Some ok \<Rightarrow>
         if ok ev payload then (st\<lparr>cs_audit := cs_audit st @ [(ev, payload)]\<rparr>, Inr ())
         else (st, Inl (AuditWriteError ''WRITE_FAILED'' ''failed to append audit entry'')))"

definition new_consent :: "consent_env \<Rightarrow> string \<Rightarrow> int list \<Rightarrow> scan_type list \<Rightarrow> consent" where
  "new_consent env cidr ports types =
    \<lparr>c_cidr = cidr, c_approved_at = rt_iso (ce_rt env) (ce_now env),
     c_expires_at = rt_iso (ce_rt env) (ce_now env + ce_days env * 86400000),
     c_approved_by = None, c_note = None, c_fingerprint = Some (network_fingerprint env),
     c_ports = ports, c_scan_types = types\<rparr>"

definition granted_payload :: "consent \<Rightarrow> jsval" where
  "granted_payload c = JObj [(''cidr'', JStr (c_cidr c)), (''ports'', JArr (map JInt (c_ports c))),
     (''scan_types'', JArr (map (\<lambda>t. JStr (scan_type_str t)) (c_scan_types c))),
     (''expires_at'', JStr (c_expires_at c)),
     (''network_fingerprint'', case c_fingerprint c of None \<Rightarrow> JNull | Some fp \<Rightarrow> JStr fp)]"

definition add_consent :: "bool \<Rightarrow> consent \<Rightarrow> consent_file \<Rightarrow> consent_file \<times> unit res" where
  "add_consent disk_ok c f =
    (case load_file f of Inl e \<Rightarrow> (f, Inl e) | Inr cs \<Rightarrow> write_file disk_ok (cs @ [c]) f)"

definition request_consent ::
  "consent_env \<Rightarrow> string \<Rightarrow> int list \<Rightarrow> scan_type list \<Rightarrow> consent_state \<Rightarrow> consent_state \<times> bool res" where
  "request_consent env cidr ports types st =
    (if parse_cidr cidr = None then (st, Inl (Error (''invalid CIDR: '' @ cidr)))
     else case ce_prompt env (build_prompt_message cidr ports types (network_fingerprint env)) of
       Inl e \<Rightarrow> (st, Inl e)
     | Inr False \<Rightarrow> (st, Inr False)
     | Inr True \<Rightarrow>
         (let c = new_consent env cidr ports types in
          case add_consent (ce_disk env) c (cs_file st) of
            (f, Inl e) \<Rightarrow> (st\<lparr>cs_file := f\<rparr>, Inl e)
          | (f, Inr _) \<Rightarrow>
              (case emit env ''consent_granted'' (granted_payload c) (st\<lparr>cs_file := f\<rparr>) of
                 (st1, Inl e) \<Rightarrow> (st1, Inl e)
               | (st1, Inr _) \<Rightarrow> (st1, Inr True))))"

definition revoked_payload :: "consent \<Rightarrow> jsval" where
  "revoked_payload c = JObj [(''cidr'', JStr (c_cidr c)), (''ports'', JArr (map JInt (c_ports c))),
     (''scan_types'', JArr (map (\<lambda>t. JStr (scan_type_str t)) (c_scan_types c))),
     (''approved_at'', JStr (c_approved_at c)), (''expires_at'', JStr (c_expires_at c))]"

fun emit_revoked :: "consent_env \<Rightarrow> consent list \<Rightarrow> consent_state \<Rightarrow> consent_state \<times> unit res" where
  "emit_revoked env [] st = (st, Inr ())"
| "emit_revoked env (c # cs) st =
     (case emit env ''consent_revoked'' (revoked_payload c) st of
        (st1, Inl e) \<Rightarrow> (st1, Inl e)
      | (st1, Inr _) \<Rightarrow> emit_revoked env cs st1)"

definition revoke_consent :: "consent_env \<Rightarrow> string \<Rightarrow> consent_state \<Rightarrow> consent_state \<times> nat res" where
  "revoke_consent env cidr st =
    (if parse_cidr cidr = None then (st, Inl (Error (''invalid CIDR: '' @ cidr)))
     else case load_file (cs_file st) of
       Inl e \<Rightarrow> (st, Inl e)
     | Inr cs \<Rightarrow>
         (let removed = filter (\<lambda>c. c_cidr c = cidr) cs; kept = filter (\<lambda>c. c_cidr c \<noteq> cidr) cs in
          if removed = [] then (st, Inr 0)
          else case write_file (ce_disk env) kept (cs_file st) of
            (f, Inl e) \<Rightarrow> (st\<lparr>cs_file := f\<rparr>, Inl e)
          | (f, Inr _) \<Rightarrow>
              (case emit_revoked env removed (st\<lparr>cs_file := f\<rparr>) of
                 (st1, Inl e) \<Rightarrow> (st1, Inl e)
               | (st1, Inr _) \<Rightarrow> (st1, Inr (length removed)))))"

definition list_consents :: "consent_state \<Rightarrow> consent list res" where
  "list_consents st = load_file (cs_file st)"

section \<open>What a consent permits\<close>

text \<open>The specification of the check: the block holds the address, the consent has not run out, and it
  is for this network or for any.\<close>

definition permits :: "consent_env \<Rightarrow> string \<Rightarrow> consent \<Rightarrow> bool" where
  "permits env i c \<longleftrightarrow>
     ip_in_cidr i (c_cidr c)
     \<and> (case rt_parse (ce_rt env) (c_expires_at c) of None \<Rightarrow> False | Some t \<Rightarrow> ce_now env < t)
     \<and> (c_fingerprint c = None \<or> c_fingerprint c = Some (network_fingerprint env))"

lemma find_consent_eq: "find_consent env i cs = List.find (permits env i) cs"
  by (induction cs) (auto simp: permits_def split: option.splits)

lemma check_consent_Inr:
  "check_consent env i st = Inr r \<longleftrightarrow>
     (\<exists>cs. load_file (cs_file st) = Inr cs \<and> r = List.find (permits env i) cs)"
  by (auto simp: check_consent_def res_simps find_consent_eq)

lemma find_some_iff: "(\<exists>c. List.find P xs = Some c) \<longleftrightarrow> (\<exists>x \<in> set xs. P x)"
  by (induction xs) auto

text \<open>
  C19: the check says yes exactly when some entry of the file permits the address, and then
  names such an entry, the first one: an address outside every block, an expired or undated entry, or
  another network is refused, and an unreadable or invalid file is an error, never a yes.
\<close>

theorem check_consent_sound:
  "case check_consent env i st of
     Inl e \<Rightarrow> load_file (cs_file st) = Inl e
   | Inr None \<Rightarrow> (\<exists>cs. load_file (cs_file st) = Inr cs \<and> \<not> list_ex (permits env i) cs)
   | Inr (Some c) \<Rightarrow> (\<exists>as bs. load_file (cs_file st) = Inr (as @ c # bs) \<and> permits env i c
        \<and> \<not> list_ex (permits env i) as)"
proof (cases "load_file (cs_file st)")
  case (Inl e)
  then show ?thesis by (simp add: check_consent_def)
next
  case (Inr cs)
  show ?thesis
  proof (cases "List.find (permits env i) cs")
    case None
    then have "\<not> list_ex (permits env i) cs" by (auto simp: find_None_iff list_ex_iff)
    with Inr None show ?thesis by (simp add: check_consent_def find_consent_eq)
  next
    case (Some c)
    then obtain n where "n < length cs" "permits env i (cs ! n)" "c = cs ! n" "\<forall>j<n. \<not> permits env i (cs ! j)"
      by (auto simp: find_Some_iff)
    then have "cs = take n cs @ c # drop (Suc n) cs" "\<not> list_ex (permits env i) (take n cs)" "permits env i c"
      by (auto simp: id_take_nth_drop list_ex_iff in_set_conv_nth)
    with Inr Some show ?thesis by (auto simp: check_consent_def find_consent_eq)
  qed
qed

lemma load_write [simp]: "load_file (Content (Some (DocObject (JStr ''1.0'') (Some cs)))) = Inr cs"
  by (simp add: load_file_def)

lemma write_file_Inr: "write_file ok cs f = (f', Inr u) \<longleftrightarrow> ok \<and> f' = Content (Some (DocObject (JStr ''1.0'') (Some cs)))"
  by (auto simp: write_file_def)

lemma emit_file: "emit env ev p st = (st', r) \<Longrightarrow> cs_file st' = cs_file st"
  by (auto simp: emit_def split: option.splits if_splits)

lemma emit_Inr:
  "emit env ev p st = (st', Inr u) \<Longrightarrow>
     cs_audit st' = cs_audit st @ (if ce_audit env = None then [] else [(ev, p)])"
  by (auto simp: emit_def split: option.splits if_splits)

lemma emit_revoked_file: "emit_revoked env cs st = (st', r) \<Longrightarrow> cs_file st' = cs_file st"
  by (induction cs arbitrary: st) (auto split: prod.splits sum.splits dest!: emit_file)

lemma emit_revoked_Inr:
  "emit_revoked env cs st = (st', Inr u) \<Longrightarrow>
     cs_audit st' = cs_audit st
       @ (if ce_audit env = None then [] else map (\<lambda>c. (''consent_revoked'', revoked_payload c)) cs)"
  by (induction cs arbitrary: st) (auto split: prod.splits sum.splits dest!: emit_Inr)

lemma request_consent_granted:
  assumes "request_consent env cidr ports types st = (st', Inr True)"
  shows "parse_cidr cidr \<noteq> None
    \<and> ce_prompt env (build_prompt_message cidr ports types (network_fingerprint env)) = Inr True
    \<and> (\<exists>cs. load_file (cs_file st) = Inr cs \<and> load_file (cs_file st') = Inr (cs @ [new_consent env cidr ports types]))"
proof -
  let ?c = "new_consent env cidr ports types"
  obtain f st1 u v where c: "parse_cidr cidr \<noteq> None"
    "ce_prompt env (build_prompt_message cidr ports types (network_fingerprint env)) = Inr True"
    "add_consent (ce_disk env) ?c (cs_file st) = (f, Inr u)"
    "emit env ''consent_granted'' (granted_payload ?c) (st\<lparr>cs_file := f\<rparr>) = (st', Inr v)"
    using assms by (auto simp: request_consent_def Let_def split: if_splits sum.splits bool.splits prod.splits)
  have "cs_file st' = f" using emit_file [OF c(4)] by simp
  with c show ?thesis
    by (auto simp: add_consent_def write_file_Inr split: sum.splits)
qed

text \<open>
  A grant is worth what the operator was shown: after an approved request, every host the
  scanner would enumerate for the block passes the check, on the same network and until the days have
  run out; the entries before it are still there, and the operator saw this network's fingerprint.
\<close>

theorem granted_then_permitted:
  assumes grant: "request_consent env cidr ports types st = (st', Inr True)"
    and host: "enumerate_hosts cidr = Inr hosts" "i \<in> set hosts"
    and same: "ce_rt env' = ce_rt env" "network_fingerprint env' = network_fingerprint env"
    and before: "ce_now env' < ce_now env + ce_days env * 86400000"
    and iso: "\<forall>t. rt_parse (ce_rt env) (rt_iso (ce_rt env) t) = Some t"
  shows "(\<exists>c. check_consent env' i st' = Inr (Some c) \<and> permits env' i c)
    \<and> (\<exists>cs. list_consents st = Inr cs \<and> list_consents st' = Inr (cs @ [new_consent env cidr ports types]))
    \<and> ce_prompt env (build_prompt_message cidr ports types (network_fingerprint env)) = Inr True"
proof -
  let ?c = "new_consent env cidr ports types"
  obtain cs where g: "load_file (cs_file st) = Inr cs" "load_file (cs_file st') = Inr (cs @ [?c])"
    "ce_prompt env (build_prompt_message cidr ports types (network_fingerprint env)) = Inr True"
    using request_consent_granted [OF grant] by blast
  have "ip_in_cidr i cidr" using enumerated_in_cidr [OF host(1)] host(2) by blast
  then have p: "permits env' i ?c" using same before iso by (simp add: permits_def new_consent_def)
  then obtain c where c: "List.find (permits env' i) (cs @ [?c]) = Some c"
    using find_some_iff [of "permits env' i" "cs @ [?c]"] by auto
  then have "permits env' i c" by (auto simp: find_Some_iff)
  with g c show ?thesis by (auto simp: check_consent_Inr list_consents_def)
qed

lemma revoke_main:
  assumes run: "revoke_consent env cidr st = (st', Inr n)" and l: "load_file (cs_file st) = Inr cs"
  shows "load_file (cs_file st') = Inr (filter (\<lambda>c. c_cidr c \<noteq> cidr) cs)
    \<and> n = length (filter (\<lambda>c. c_cidr c = cidr) cs)
    \<and> cs_audit st' = cs_audit st @ (if ce_audit env = None then []
         else map (\<lambda>c. (''consent_revoked'', revoked_payload c)) (filter (\<lambda>c. c_cidr c = cidr) cs))"
proof (cases "filter (\<lambda>c. c_cidr c = cidr) cs = []")
  case True
  then have "filter (\<lambda>c. c_cidr c \<noteq> cidr) cs = cs" by (auto simp: filter_empty_conv filter_id_conv)
  with True l run show ?thesis by (auto simp: revoke_consent_def Let_def split: if_splits)
next
  case False
  then obtain f u where r: "write_file (ce_disk env) (filter (\<lambda>c. c_cidr c \<noteq> cidr) cs) (cs_file st) = (f, Inr u)"
    "emit_revoked env (filter (\<lambda>c. c_cidr c = cidr) cs) (st\<lparr>cs_file := f\<rparr>) = (st', Inr ())"
    "n = length (filter (\<lambda>c. c_cidr c = cidr) cs)"
    using run l by (auto simp: revoke_consent_def Let_def split: if_splits prod.splits sum.splits)
  with emit_revoked_file [OF r(2)] emit_revoked_Inr [OF r(2)] show ?thesis
    by (auto simp: write_file_Inr)
qed

text \<open>
  A revocation removes every entry written exactly like the text given, and nothing else,
  counts them, and audits each in file order; after it the check can only name an entry of another text.
\<close>

theorem revoke_exact:
  assumes "revoke_consent env cidr st = (st', Inr n)"
  shows "\<exists>cs. list_consents st = Inr cs \<and> list_consents st' = Inr (filter (\<lambda>c. c_cidr c \<noteq> cidr) cs)
    \<and> n = length (filter (\<lambda>c. c_cidr c = cidr) cs)
    \<and> cs_audit st' = cs_audit st @ (if ce_audit env = None then []
         else map (\<lambda>c. (''consent_revoked'', revoked_payload c)) (filter (\<lambda>c. c_cidr c = cidr) cs))
    \<and> (\<forall>i c. check_consent env i st' = Inr (Some c) \<longrightarrow> c_cidr c \<noteq> cidr \<and> c \<in> set cs)"
proof -
  obtain cs where l: "load_file (cs_file st) = Inr cs"
    using assms by (auto simp: revoke_consent_def split: if_splits sum.splits)
  note main = revoke_main [OF assms l]
  have "c_cidr c \<noteq> cidr \<and> c \<in> set cs" if "check_consent env i st' = Inr (Some c)" for i c
  proof -
    have "List.find (permits env i) (filter (\<lambda>c. c_cidr c \<noteq> cidr) cs) = Some c"
      using that main by (auto simp: check_consent_Inr)
    then have "c \<in> set (filter (\<lambda>c. c_cidr c \<noteq> cidr) cs)" by (metis find_Some_iff nth_mem)
    then show ?thesis by simp
  qed
  with l main show ?thesis by (auto simp: list_consents_def)
qed

text \<open>The texts are compared, not the blocks: another spelling of a revoked block stays in force.\<close>

lemma revoke_other_spelling:
  assumes "revoke_consent env cidr st = (st', Inr n)" "list_consents st = Inr cs" "c \<in> set cs"
    and "c_cidr c \<noteq> cidr" "parse_cidr (c_cidr c) = parse_cidr cidr" "permits env i c"
  shows "ip_in_cidr i cidr \<and> (\<exists>d. check_consent env i st' = Inr (Some d))"
proof -
  have l: "load_file (cs_file st) = Inr cs" using assms(2) by (simp add: list_consents_def)
  have "load_file (cs_file st') = Inr (filter (\<lambda>c. c_cidr c \<noteq> cidr) cs)"
    using revoke_main [OF assms(1) l] by blast
  moreover have "\<exists>x \<in> set (filter (\<lambda>c. c_cidr c \<noteq> cidr) cs). permits env i x" using assms(3,4,6) by auto
  ultimately have "\<exists>d. check_consent env i st' = Inr (Some d)"
    using find_some_iff [of "permits env i"] unfolding check_consent_Inr by metis
  moreover have "ip_in_cidr i cidr"
    using assms(5,6) by (simp add: permits_def ip_in_cidr_def split: option.splits)
  ultimately show ?thesis by blast
qed

text \<open>A network for the witnesses.\<close>

definition demo_cenv :: consent_env where
  "demo_cenv = \<lparr>ce_rt = demo_rt, ce_fp = \<lparr>fr_exec = (\<lambda>_ _. None), fr_resolv = None, fr_platform = ''linux'',
       fr_override = Some ''home''\<rparr>, ce_days = 90, ce_prompt = (\<lambda>_. Inr True), ce_now = 0,
     ce_disk = True, ce_audit = None\<rparr>"

definition demo_cstate :: consent_state where
  "demo_cstate = \<lparr>cs_file = Absent, cs_audit = []\<rparr>"

lemma demo_block: "parse_cidr ''10.0.0.0/30'' \<noteq> None"
  by (simp add: parse_cidr_def split_cidr_def dotted_def octet_text_def is_digit_def str_nat_def
      digit_val_def)

lemma demo_request:
  obtains st where "request_consent demo_cenv ''10.0.0.0/30'' [443] [HttpProbe] demo_cstate = (st, Inr True)"
    "load_file (cs_file st) = Inr [new_consent demo_cenv ''10.0.0.0/30'' [443] [HttpProbe]]"
proof -
  have "request_consent demo_cenv ''10.0.0.0/30'' [443] [HttpProbe] demo_cstate
    = (\<lparr>cs_file = Content (Some (DocObject (JStr ''1.0'')
          (Some [new_consent demo_cenv ''10.0.0.0/30'' [443] [HttpProbe]]))), cs_audit = []\<rparr>, Inr True)"
    using demo_block
    by (simp add: request_consent_def demo_cenv_def demo_cstate_def add_consent_def write_file_def
        emit_def Let_def load_file_def)
  then show thesis by (rule that) simp
qed

theorem granted_then_permitted_witness:
  "\<exists>st hosts. request_consent demo_cenv ''10.0.0.0/30'' [443] [HttpProbe] demo_cstate = (st, Inr True)
     \<and> enumerate_hosts ''10.0.0.0/30'' = Inr hosts
     \<and> (\<forall>i \<in> set hosts. \<exists>c. check_consent (demo_cenv\<lparr>ce_now := 1000\<rparr>) i st = Inr (Some c))"
proof -
  obtain st where st: "request_consent demo_cenv ''10.0.0.0/30'' [443] [HttpProbe] demo_cstate = (st, Inr True)"
    "load_file (cs_file st) = Inr [new_consent demo_cenv ''10.0.0.0/30'' [443] [HttpProbe]]"
    by (rule demo_request)
  obtain hosts where h: "enumerate_hosts ''10.0.0.0/30'' = Inr hosts" using demo_hosts by blast
  have fp: "network_fingerprint (demo_cenv\<lparr>ce_now := 1000\<rparr>) = network_fingerprint demo_cenv"
    by (simp add: network_fingerprint_def)
  have rt: "ce_rt (demo_cenv\<lparr>ce_now := 1000\<rparr>) = ce_rt demo_cenv" by simp
  have "\<exists>c. check_consent (demo_cenv\<lparr>ce_now := 1000\<rparr>) i st = Inr (Some c)" if "i \<in> set hosts" for i
    using granted_then_permitted [OF st(1) h that rt fp] by (auto simp: demo_cenv_def)
  with st h show ?thesis by blast
qed

theorem revoke_exact_witness:
  "\<exists>st st'. request_consent demo_cenv ''10.0.0.0/30'' [443] [HttpProbe] demo_cstate = (st, Inr True)
     \<and> revoke_consent demo_cenv ''10.0.0.0/30'' st = (st', Inr 1) \<and> list_consents st' = Inr []"
proof -
  obtain st where st: "request_consent demo_cenv ''10.0.0.0/30'' [443] [HttpProbe] demo_cstate = (st, Inr True)"
    "load_file (cs_file st) = Inr [new_consent demo_cenv ''10.0.0.0/30'' [443] [HttpProbe]]"
    by (rule demo_request)
  let ?c = "new_consent demo_cenv ''10.0.0.0/30'' [443] [HttpProbe]"
  have c: "c_cidr ?c = ''10.0.0.0/30''" by (simp add: new_consent_def)
  have "emit demo_cenv ev p s = (s, Inr ())" for ev p s
    by (simp add: emit_def demo_cenv_def)
  moreover have "ce_disk demo_cenv" by (simp add: demo_cenv_def)
  ultimately obtain st' where r: "revoke_consent demo_cenv ''10.0.0.0/30'' st = (st', Inr 1)"
    using st(2) demo_block by (simp add: revoke_consent_def Let_def write_file_def c)
  from revoke_exact [OF r] st r show ?thesis by (auto simp: list_consents_def c)
qed

end
