(* ===== verification/Prober.thy ===== *)
theory Prober
  imports Consent
begin

text \<open>
  The platform prober: the fingerprint catalog (\<open>src/discovery/fingerprints.ts\<close>), JSON paths
  (\<open>json-path.ts\<close>), the scan of a consented block and the semaphore that bounds its requests
  (\<open>prober.ts\<close>). The HTTP client and the regular expression engine are parameters. The matches of a scan
  are listed in the order of its jobs; the code collects them in the order of completion.
\<close>

section \<open>Fingerprints\<close>

text \<open>Confidences are in hundredths; the notes of the catalog are left out.\<close>

datatype expected =
    RegexMatch (x_pattern: string) (x_flags: "string option") (x_conf: int)
  | JsonPathMatch (x_path: string) (x_equals: "jsval option") (x_exists: bool) (x_conf: int)

record fingerprint =
  f_type :: string
  f_protocol :: string
  f_port :: int
  f_path :: string
  f_timeout :: "int option"
  f_headers :: "(string, string) jsmap"
  f_expect :: expected

definition entry :: "string \<Rightarrow> string \<Rightarrow> int \<Rightarrow> string \<Rightarrow> expected \<Rightarrow> fingerprint" where
  "entry t proto port path x = \<lparr>f_type = t, f_protocol = proto, f_port = port, f_path = path,
     f_timeout = None, f_headers = [], f_expect = x\<rparr>"

definition PROBER_USER_AGENT :: string where
  "PROBER_USER_AGENT = ''autonomous-dev-homelab-prober/0.1''"

definition PLATFORM_FINGERPRINTS :: "fingerprint list" where
  "PLATFORM_FINGERPRINTS =
    [entry ''unraid'' ''https'' 443 ''/login''
       (RegexMatch (''Unraid'' @ [CHR 0x5C] @ ''.net|/webGui/styles/'') None 92),
     entry ''proxmox-ve'' ''https'' 8006 ''/api2/json/version'' (JsonPathMatch ''$.data.version'' None True 98),
     entry ''docker'' ''http'' 2375 ''/_ping'' (RegexMatch ''^OK$'' None 95),
     entry ''kubernetes'' ''https'' 6443 ''/version'' (JsonPathMatch ''$.gitVersion'' None True 99),
     entry ''docker-swarm'' ''http'' 2377 ''/info'' (JsonPathMatch ''$.Swarm.NodeID'' None True 95),
     entry ''unifi'' ''https'' 8443 ''/manage/account/login'' (RegexMatch ''UniFi|ubiquiti'' (Some ''i'') 90),
     entry ''truenas'' ''https'' 443 ''/api/v2.0/system/info'' (JsonPathMatch ''$.system_serial'' None True 97),
     entry ''portainer'' ''https'' 9443 ''/api/status'' (JsonPathMatch ''$.InstanceID'' None True 97)]"

definition get_default_permitted_ports :: "fingerprint list \<Rightarrow> int list" where
  "get_default_permitted_ports catalog = sort (remdups (map f_port catalog))"

section \<open>JSON paths\<close>

text \<open>A property of an object or array; inherited properties are left out.\<close>

definition member_of :: "jsval \<Rightarrow> string \<Rightarrow> jsval" where
  "member_of v seg =
    (case v of
       JArr vs \<Rightarrow>
         if seg = ''length'' then JInt (int (length vs))
         else if list_all is_digit seg \<and> nat_str (str_nat seg) = seg \<and> str_nat seg < length vs
         then vs ! str_nat seg else JUndef
     | _ \<Rightarrow> field v seg)"

fun walk :: "jsval \<Rightarrow> string list \<Rightarrow> jsval" where
  "walk v [] = v"
| "walk v (s # ss) = (if is_obj v \<or> is_arr v then walk (member_of v s) ss else JUndef)"

definition json_path_lookup :: "jsval \<Rightarrow> string \<Rightarrow> jsval res" where
  "json_path_lookup root path =
    (if path = ''$'' \<or> path = [] then Inr root
     else if \<not> starts_with ''$.'' path
     then Inl (Error (''unsupported jsonPath (must start with '' @ [CHR 0x22] @ ''$.'' @ [CHR 0x22] @ '' or be ''
            @ [CHR 0x22] @ ''$'' @ [CHR 0x22] @ ''): '' @ path))
     else Inr (walk root (split_on (CHR ''.'') (drop 2 path))))"

section \<open>Probing one host\<close>

record http_response =
  h_status :: int
  h_body :: string

record probe_env =
  pe_rt :: runtime
  pe_regex :: "string \<Rightarrow> string option \<Rightarrow> string \<Rightarrow> bool option"
  pe_get :: "string \<Rightarrow> (string, string) jsmap \<Rightarrow> int \<Rightarrow> bool \<Rightarrow> http_response option"
  pe_now :: int

record matched_platform =
  mp_type :: string
  mp_ip :: string
  mp_port :: int
  mp_protocol :: string
  mp_conf :: int
  mp_at :: string
  mp_snippet :: string

definition DEFAULT_TIMEOUT_MS :: int where "DEFAULT_TIMEOUT_MS = 3000"
definition DEFAULT_CONCURRENCY :: nat where "DEFAULT_CONCURRENCY = 50"
definition RESPONSE_SNIPPET_LEN :: nat where "RESPONSE_SNIPPET_LEN = 200"

definition build_url :: "string \<Rightarrow> fingerprint \<Rightarrow> string" where
  "build_url i fp = f_protocol fp @ ''://'' @ i @ '':'' @ int_str (f_port fp) @ f_path fp"

definition strict_eq :: "jsval \<Rightarrow> jsval \<Rightarrow> bool" where
  "strict_eq v w \<longleftrightarrow> v = w \<and> \<not> is_obj v \<and> \<not> is_arr v \<and> v \<noteq> JNum NaN"

definition evaluate_response :: "probe_env \<Rightarrow> string \<Rightarrow> expected \<Rightarrow> bool" where
  "evaluate_response env body x =
    (case x of
       RegexMatch p fl _ \<Rightarrow> (case pe_regex env p fl body of None \<Rightarrow> False | Some b \<Rightarrow> b)
     | JsonPathMatch path eq ex _ \<Rightarrow>
         (case rt_json (pe_rt env) body of
            None \<Rightarrow> False
          | Some parsed \<Rightarrow>
              (case json_path_lookup parsed path of
                 Inl _ \<Rightarrow> False
               | Inr v \<Rightarrow>
                   if ex then v \<noteq> JUndef
                   else (case eq of Some w \<Rightarrow> strict_eq v w | None \<Rightarrow> False))))"

definition probe_headers :: "fingerprint \<Rightarrow> (string, string) jsmap" where
  "probe_headers fp = fold (\<lambda>(k, v). jm_set k v) (f_headers fp) [(''User-Agent'', PROBER_USER_AGENT)]"

definition probe_response :: "probe_env \<Rightarrow> string \<Rightarrow> fingerprint \<Rightarrow> http_response option" where
  "probe_response env i fp =
     pe_get env (build_url i fp) (probe_headers fp)
       (case f_timeout fp of None \<Rightarrow> DEFAULT_TIMEOUT_MS | Some t \<Rightarrow> t) (f_protocol fp = ''https'')"

definition run_probe :: "probe_env \<Rightarrow> string \<times> fingerprint \<Rightarrow> matched_platform option" where
  "run_probe env job =
    (case job of (i, fp) \<Rightarrow>
       (case probe_response env i fp of
          None \<Rightarrow> None
        | Some r \<Rightarrow>
            if h_status r < 200 \<or> 300 \<le> h_status r then None
            else if \<not> evaluate_response env (h_body r) (f_expect fp) then None
            else Some \<lparr>mp_type = f_type fp, mp_ip = i, mp_port = f_port fp, mp_protocol = f_protocol fp,
                   mp_conf = x_conf (f_expect fp), mp_at = rt_iso (pe_rt env) (pe_now env),
                   mp_snippet = take RESPONSE_SNIPPET_LEN (h_body r)\<rparr>))"

section \<open>The scan\<close>

definition jobs_of :: "string list \<Rightarrow> fingerprint list \<Rightarrow> (string \<times> fingerprint) list" where
  "jobs_of hosts fps = concat (map (\<lambda>i. map (\<lambda>fp. (i, fp)) fps) hosts)"

text \<open>The requests that were made, and the matches.\<close>

definition scan ::
  "probe_env \<Rightarrow> fingerprint list \<Rightarrow> string \<Rightarrow> consent \<Rightarrow> (string list \<times> matched_platform list) res" where
  "scan env catalog cidr c =
    (if HttpProbe \<notin> set (c_scan_types c) then Inr ([], [])
     else
       let fps = filter (\<lambda>fp. f_port fp \<in> set (c_ports c)) catalog in
       if fps = [] then Inr ([], [])
       else rbind (enumerate_hosts cidr) (\<lambda>hosts.
              let jobs = jobs_of hosts fps in
              Inr (map (\<lambda>(i, fp). build_url i fp) jobs, List.map_filter (run_probe env) jobs)))"

text \<open>
  C20: a scan stays within the consent: without \<open>http_probe\<close> it sends nothing; every request is
  for a fingerprint of the catalog on a permitted port, to a host of the block the consent was given for,
  network and broadcast address excluded; and a platform is reported only for a host that answered with a
  2xx status and a body the fingerprint accepts.
\<close>

theorem scan_within_consent:
  assumes "scan env catalog cidr c = Inr (reqs, ms)"
  shows "(HttpProbe \<notin> set (c_scan_types c) \<longrightarrow> reqs = [])
    \<and> list_all (\<lambda>u. \<exists>i fp. u = build_url i fp \<and> fp \<in> set catalog \<and> f_port fp \<in> set (c_ports c)
         \<and> ip_in_cidr i cidr) reqs
    \<and> list_all (\<lambda>m. ip_in_cidr (mp_ip m) cidr \<and> mp_port m \<in> set (c_ports c)
         \<and> (\<exists>fp r. fp \<in> set catalog \<and> probe_response env (mp_ip m) fp = Some r
              \<and> 200 \<le> h_status r \<and> h_status r < 300 \<and> evaluate_response env (h_body r) (f_expect fp))) ms"
proof (cases "HttpProbe \<notin> set (c_scan_types c) \<or> filter (\<lambda>fp. f_port fp \<in> set (c_ports c)) catalog = []")
  case True
  with assms show ?thesis by (auto simp: scan_def Let_def split: if_splits)
next
  case False
  let ?fps = "filter (\<lambda>fp. f_port fp \<in> set (c_ports c)) catalog"
  obtain hosts where h: "enumerate_hosts cidr = Inr hosts"
    "reqs = map (\<lambda>(i, fp). build_url i fp) (jobs_of hosts ?fps)"
    "ms = List.map_filter (run_probe env) (jobs_of hosts ?fps)"
    using assms False by (auto simp: scan_def Let_def res_simps split: if_splits)
  have job: "ip_in_cidr i cidr \<and> fp \<in> set catalog \<and> f_port fp \<in> set (c_ports c)"
    if "(i, fp) \<in> set (jobs_of hosts ?fps)" for i fp
    using that enumerated_in_cidr [OF h(1)] by (auto simp: jobs_of_def)
  have matches: "\<exists>fp r. fp \<in> set catalog \<and> probe_response env (mp_ip m) fp = Some r \<and> 200 \<le> h_status r
      \<and> h_status r < 300 \<and> evaluate_response env (h_body r) (f_expect fp)
      \<and> ip_in_cidr (mp_ip m) cidr \<and> mp_port m \<in> set (c_ports c)" if m: "m \<in> set ms" for m
  proof -
    obtain i fp where j: "(i, fp) \<in> set (jobs_of hosts ?fps)" "run_probe env (i, fp) = Some m"
      using m by (auto simp: h(3) List.map_filter_def)
    then obtain r where "probe_response env i fp = Some r" "200 \<le> h_status r" "h_status r < 300"
      "evaluate_response env (h_body r) (f_expect fp)" "mp_ip m = i" "mp_port m = f_port fp"
      by (auto simp: run_probe_def split: option.splits if_splits)
    with job [OF j(1)] show ?thesis by auto
  qed
  have requests: "\<exists>i fp. u = build_url i fp \<and> fp \<in> set catalog \<and> f_port fp \<in> set (c_ports c)
      \<and> ip_in_cidr i cidr" if u: "u \<in> set reqs" for u
  proof -
    obtain i fp where "(i, fp) \<in> set (jobs_of hosts (filter (\<lambda>fp. f_port fp \<in> set (c_ports c)) catalog))"
      "u = build_url i fp" using u unfolding h(2) by auto
    with job show ?thesis by blast
  qed
  show ?thesis
    unfolding list_all_iff
  proof (intro conjI impI ballI)
    assume "HttpProbe \<notin> set (c_scan_types c)"
    with False show "reqs = []" by simp
  qed (use matches requests in blast)+
qed

section \<open>The semaphore\<close>

text \<open>
  One step is one turn of the event loop: \<open>acquire\<close> takes a slot or queues a waiter; \<open>release\<close> frees the
  slot and resolves the promise of the first waiter; that waiter goes on in a later turn.
\<close>

record semaphore =
  s_inflight :: nat
  s_waiters :: "nat list"
  s_woken :: "nat list"

datatype sem_event = Acquire nat | Release | Resume

inductive sem_step :: "nat \<Rightarrow> semaphore \<Rightarrow> sem_event \<Rightarrow> semaphore \<Rightarrow> bool" for m :: nat where
  take_slot: "s_inflight s < m \<Longrightarrow> sem_step m s (Acquire j) (s\<lparr>s_inflight := s_inflight s + 1\<rparr>)"
| enqueue: "m \<le> s_inflight s \<Longrightarrow> sem_step m s (Acquire j) (s\<lparr>s_waiters := s_waiters s @ [j]\<rparr>)"
| release_none: "0 < s_inflight s \<Longrightarrow> s_waiters s = [] \<Longrightarrow>
     sem_step m s Release (s\<lparr>s_inflight := s_inflight s - 1\<rparr>)"
| release_next: "0 < s_inflight s \<Longrightarrow> s_waiters s = w # ws \<Longrightarrow>
     sem_step m s Release (s\<lparr>s_inflight := s_inflight s - 1, s_waiters := ws, s_woken := s_woken s @ [w]\<rparr>)"
| resume: "s_woken s = w # ws \<Longrightarrow>
     sem_step m s Resume (s\<lparr>s_inflight := s_inflight s + 1, s_woken := ws\<rparr>)"

inductive_cases acquire_cases: "sem_step m s (Acquire j) s'"
inductive_cases release_cases: "sem_step m s Release s'"
inductive_cases resume_cases: "sem_step m s Resume s'"

inductive sem_run :: "nat \<Rightarrow> semaphore \<Rightarrow> sem_event list \<Rightarrow> semaphore \<Rightarrow> bool" for m :: nat where
  nil: "sem_run m s [] s"
| step: "sem_run m s es s1 \<Longrightarrow> sem_step m s1 e s2 \<Longrightarrow> sem_run m s (es @ [e]) s2"

definition sem_new :: semaphore where
  "sem_new = \<lparr>s_inflight = 0, s_waiters = [], s_woken = []\<rparr>"

fun is_acquire :: "sem_event \<Rightarrow> bool" where
  "is_acquire (Acquire j) = True"
| "is_acquire _ = False"

text \<open>The runs of one scan: all its jobs call \<open>acquire\<close> in the turn that starts them.\<close>

definition scan_events :: "sem_event list \<Rightarrow> bool" where
  "scan_events es \<longleftrightarrow> list_all (\<lambda>e. \<not> is_acquire e) (dropWhile is_acquire es)"

text \<open>Slots and woken waiters together are bounded, and nobody waits while a slot is free.\<close>

definition sem_inv :: "nat \<Rightarrow> semaphore \<Rightarrow> bool" where
  "sem_inv m s \<longleftrightarrow> s_inflight s + length (s_woken s) \<le> m
     \<and> (s_waiters s \<noteq> [] \<longrightarrow> s_inflight s + length (s_woken s) = m)"

lemma sem_step_inv:
  "sem_step m s e s' \<Longrightarrow> sem_inv m s \<Longrightarrow> is_acquire e \<longrightarrow> s_woken s = [] \<Longrightarrow> sem_inv m s'"
  by (induction rule: sem_step.induct) (auto simp: sem_inv_def)

lemma acquire_no_woken: "sem_step m s e s' \<Longrightarrow> is_acquire e \<Longrightarrow> s_woken s = [] \<Longrightarrow> s_woken s' = []"
  by (induction rule: sem_step.induct) auto

lemma dropWhile_snoc: "dropWhile P (xs @ [x]) = (if list_all P xs then (if P x then [] else [x]) else dropWhile P xs @ [x])"
  by (induction xs) auto

lemma dropWhile_all: "list_all P xs \<Longrightarrow> dropWhile P xs = []"
  by (induction xs) auto

lemma scan_run_inv:
  "sem_run m s es s' \<Longrightarrow> s = sem_new \<Longrightarrow> scan_events es \<Longrightarrow>
     sem_inv m s' \<and> (list_all is_acquire es \<longrightarrow> s_woken s' = [])"
proof (induction rule: sem_run.induct)
  case (nil s)
  then show ?case by (simp add: sem_inv_def sem_new_def)
next
  case (step s es s1 e s2)
  have ok: "scan_events es" "is_acquire e \<Longrightarrow> list_all is_acquire es"
    using step.prems(2) by (auto simp: scan_events_def dropWhile_snoc dropWhile_all split: if_splits)
  have ih: "sem_inv m s1" "list_all is_acquire es \<longrightarrow> s_woken s1 = []"
    using step.IH [OF step.prems(1) ok(1)] by simp_all
  have "sem_inv m s2" using sem_step_inv [OF step.hyps(2) ih(1)] ok(2) ih(2) by blast
  moreover have "list_all is_acquire (es @ [e]) \<longrightarrow> s_woken s2 = []"
    using acquire_no_woken [OF step.hyps(2)] ih(2) by simp
  ultimately show ?case by simp
qed

text \<open>
  In a scan at most \<open>concurrency\<close> requests are in flight at any moment, and no job waits
  while a slot is free, in whatever order the requests end and the waiters are resumed.
\<close>

theorem scan_bounded:
  assumes "sem_run m sem_new es s" "scan_events es"
  shows "s_inflight s \<le> m \<and> (s_waiters s \<noteq> [] \<longrightarrow> s_inflight s + length (s_woken s) = m)"
  using scan_run_inv [OF assms(1) refl assms(2)] by (auto simp: sem_inv_def)

text \<open>The bound rests on that shape of the runs: an \<open>acquire\<close> between a release and the turn of the
  waiter it woke takes the slot as well.\<close>

lemma semaphore_overshoot:
  "\<exists>s. sem_run 1 sem_new [Acquire 0, Acquire 1, Release, Acquire 2, Resume] s \<and> s_inflight s = 2"
proof -
  let ?s = "\<lambda>n ws wk. \<lparr>s_inflight = n, s_waiters = ws, s_woken = wk\<rparr>"
  have 1: "sem_step 1 sem_new (Acquire 0) (?s 1 [] [])"
    using take_slot [of sem_new 1 0] by (simp add: sem_new_def)
  have 2: "sem_step 1 (?s 1 [] []) (Acquire 1) (?s 1 [1] [])"
    using enqueue [of 1 "?s 1 [] []" 1] by simp
  have 3: "sem_step 1 (?s 1 [1] []) Release (?s 0 [] [1])"
    using release_next [of "?s 1 [1] []" 1 "[]" 1] by simp
  have 4: "sem_step 1 (?s 0 [] [1]) (Acquire 2) (?s 1 [] [1])"
    using take_slot [of "?s 0 [] [1]" 1 2] by simp
  have 5: "sem_step 1 (?s 1 [] [1]) Resume (?s 2 [] [])"
    using resume [of "?s 1 [] [1]" 1 "[]" 1] by (simp add: numeral_2_eq_2)
  have "sem_run 1 sem_new (((([] @ [Acquire 0]) @ [Acquire 1]) @ [Release]) @ [Acquire 2]) (?s 1 [] [1])"
    by (intro sem_run.step [OF _ 4] sem_run.step [OF _ 3] sem_run.step [OF _ 2] sem_run.step [OF _ 1] sem_run.nil)
  from sem_run.step [OF this 5] show ?thesis by auto
qed

theorem scan_bounded_witness:
  "\<exists>s. sem_run 1 sem_new [Acquire 0] s \<and> s_inflight s \<le> 1"
proof -
  have "sem_step 1 sem_new (Acquire 0) (sem_new\<lparr>s_inflight := 1\<rparr>)"
    using take_slot [of sem_new 1 0] by (simp add: sem_new_def)
  from sem_run.step [OF sem_run.nil this] have run: "sem_run 1 sem_new [Acquire 0] (sem_new\<lparr>s_inflight := 1\<rparr>)"
    by simp
  moreover have "scan_events [Acquire 0]" by (simp add: scan_events_def)
  ultimately show ?thesis using scan_bounded by blast
qed

theorem scan_within_consent_witness:
  "\<exists>reqs ms. scan \<lparr>pe_rt = demo_rt, pe_regex = (\<lambda>_ _ _. None), pe_get = (\<lambda>_ _ _ _. None), pe_now = 0\<rparr>
       PLATFORM_FINGERPRINTS ''10.0.0.0/30'' (new_consent demo_cenv ''10.0.0.0/30'' [443] [HttpProbe])
     = Inr (reqs, ms) \<and> list_all (\<lambda>m. mp_port m = 443) ms"
proof -
  let ?env = "\<lparr>pe_rt = demo_rt, pe_regex = (\<lambda>_ _ _. None), pe_get = (\<lambda>_ _ _ _. None), pe_now = 0\<rparr>"
  let ?c = "new_consent demo_cenv ''10.0.0.0/30'' [443] [HttpProbe]"
  have "\<exists>reqs ms. scan ?env PLATFORM_FINGERPRINTS ''10.0.0.0/30'' ?c = Inr (reqs, ms)"
    using demo_hosts by (auto simp: scan_def Let_def new_consent_def)
  then obtain reqs ms where run: "scan ?env PLATFORM_FINGERPRINTS ''10.0.0.0/30'' ?c = Inr (reqs, ms)" by blast
  have "c_ports ?c = [443]" by (simp add: new_consent_def)
  with scan_within_consent [OF run] run show ?thesis by (auto simp: list_all_iff)
qed

end
