(* ===== verification/Admin.thy ===== *)
theory Admin
  imports Prelude
begin

text \<open>
  The check in front of destructive commands: \<open>src/cli/middleware/admin-auth.ts\<close> and the registry of
  \<open>src/cli/types.ts\<close>. The allow-list file and the environment are arguments; the resolver of the caller,
  when there is one, replaces the default.
\<close>

definition ADMIN_REQUIRED_COMMANDS :: "string list" where
  "ADMIN_REQUIRED_COMMANDS = [''consent revoke'', ''ca init'', ''ca rotate'', ''platform exec'', ''inventory remove'']"

definition ADMIN_REJECTION_MESSAGE :: string where
  "ADMIN_REJECTION_MESSAGE = ''Authorization required: admin role''"

record admin_context =
  ac_actor :: string
  ac_env :: "string \<Rightarrow> string option"

definition build_admin_auth_context :: "(string \<Rightarrow> string option) \<Rightarrow> admin_context" where
  "build_admin_auth_context env =
    \<lparr>ac_actor = (case env ''HOMELAB_ACTOR'' of Some a \<Rightarrow> a | None \<Rightarrow>
        (case env ''USER'' of Some a \<Rightarrow> a | None \<Rightarrow>
          (case env ''LOGNAME'' of Some a \<Rightarrow> a | None \<Rightarrow> ''unknown''))),
     ac_env = env\<rparr>"

fun lists_actor :: "string \<Rightarrow> string list \<Rightarrow> bool" where
  "lists_actor a [] = False"
| "lists_actor a (l # ls) =
     (let t = trim l in
      if t = [] \<or> hd t = CHR ''#'' then lists_actor a ls
      else if t = a then True else lists_actor a ls)"

definition default_admin_check :: "string disk_file \<Rightarrow> admin_context \<Rightarrow> bool" where
  "default_admin_check f ctx =
    (case ac_env ctx ''HOMELAB_ADMIN_TOKEN'' of
       Some (c # cs) \<Rightarrow> True
     | _ \<Rightarrow> (case f of Content raw \<Rightarrow> lists_actor (ac_actor ctx) (split_on nl raw) | _ \<Rightarrow> False))"

text \<open>What the middleware did: let the command through, or print and exit.\<close>

record verdict =
  v_proceed :: bool
  v_stderr :: string
  v_exit :: "nat option"

definition enforce_admin_if_required ::
  "string \<Rightarrow> (admin_context \<Rightarrow> bool) option \<Rightarrow> string disk_file \<Rightarrow> admin_context \<Rightarrow> verdict" where
  "enforce_admin_if_required name checker f ctx =
    (if name \<notin> set ADMIN_REQUIRED_COMMANDS then \<lparr>v_proceed = True, v_stderr = [], v_exit = None\<rparr>
     else if (case checker of Some ck \<Rightarrow> ck ctx | None \<Rightarrow> default_admin_check f ctx)
     then \<lparr>v_proceed = True, v_stderr = [], v_exit = None\<rparr>
     else \<lparr>v_proceed = False, v_stderr = ADMIN_REJECTION_MESSAGE @ [nl], v_exit = Some 1\<rparr>)"

section \<open>Who may proceed\<close>

lemma lists_actor_iff:
  "lists_actor a ls \<longleftrightarrow> a \<noteq> [] \<and> hd a \<noteq> CHR ''#'' \<and> a \<in> trim ` set ls"
  by (induction ls) (auto simp: Let_def)

lemma default_admin_check_iff:
  "default_admin_check f ctx \<longleftrightarrow>
     (\<exists>tok. ac_env ctx ''HOMELAB_ADMIN_TOKEN'' = Some tok \<and> tok \<noteq> [])
     \<or> (\<exists>raw. f = Content raw \<and> ac_actor ctx \<noteq> [] \<and> hd (ac_actor ctx) \<noteq> CHR ''#''
          \<and> ac_actor ctx \<in> trim ` set (split_on nl raw))"
  by (auto simp: default_admin_check_def lists_actor_iff split: option.split list.split disk_file.split)

text \<open>The actor comes from the environment of the caller, so whoever can read the list can be on it.\<close>

lemma actor_is_claimed:
  "env ''HOMELAB_ACTOR'' = Some a \<Longrightarrow> a \<noteq> [] \<Longrightarrow> hd a \<noteq> CHR ''#'' \<Longrightarrow> a \<in> trim ` set (split_on nl raw)
   \<Longrightarrow> v_proceed (enforce_admin_if_required name None (Content raw) (build_admin_auth_context env))"
  by (simp add: enforce_admin_if_required_def default_admin_check_iff build_admin_auth_context_def)

text \<open>A command of the registry goes through only for an admin, and otherwise nothing but the message and
  exit code 1 come of it; every other command goes through.\<close>

lemma enforce_admin_exact:
  "let v = enforce_admin_if_required name checker f ctx in
     v_proceed v = (name \<notin> set ADMIN_REQUIRED_COMMANDS
        \<or> (case checker of Some ck \<Rightarrow> ck ctx | None \<Rightarrow> default_admin_check f ctx))
     \<and> (v_exit v = (if v_proceed v then None else Some 1))
     \<and> (v_stderr v = (if v_proceed v then [] else ADMIN_REJECTION_MESSAGE @ [nl]))"
  by (simp add: enforce_admin_if_required_def Let_def)

end
