(* ===== verification/Files.thy ===== *)
theory Files
  imports Prelude
begin

text \<open>
  \<open>src/util\<close>: the atomic file write (\<open>atomic-write.ts\<close>) as the sequence of directory contents a crash
  may leave behind, and the mutex of a path (\<open>file-mutex.ts\<close>) with any number of tasks that read, change
  and write the file under it, in every interleaving.
\<close>

section \<open>The atomic write\<close>

text \<open>A directory holds files with their mode. The environment says which call fails, what the
  temporary file holds while it is being written, and what it holds when \<open>writeFile\<close> fails half way.\<close>

type_synonym files = "(string, nat \<times> string) jsmap"

record io_env =
  io_mkdir :: bool
  io_open :: bool
  io_partial :: "string list"
  io_write :: bool
  io_sync :: bool
  io_close :: bool
  io_rename :: bool
  io_unlink :: bool

definition temp_path :: "string \<Rightarrow> string \<Rightarrow> string \<Rightarrow> string" where
  "temp_path target pid rand = target @ ''.tmp.'' @ pid @ ''.'' @ rand"

text \<open>The \<open>catch\<close> block: the temporary file is removed if it can be, and the error is thrown again.\<close>

definition clean_up :: "io_env \<Rightarrow> string \<Rightarrow> files \<Rightarrow> files" where
  "clean_up io tmp fs = (if io_unlink io then jm_del tmp fs else fs)"

text \<open>The successive directories while \<open>handle.writeFile\<close> runs.\<close>

definition writing :: "io_env \<Rightarrow> nat \<Rightarrow> string \<Rightarrow> string \<Rightarrow> files \<Rightarrow> files list" where
  "writing io mode tmp contents fs =
    map (\<lambda>part. jm_set tmp (mode, part) fs)
      ('''' # io_partial io @ (if io_write io then [contents] else []))"

text \<open>Every directory the call passes through, the last one being the one it ends with, and how it ends.\<close>

definition atomic_write_file ::
  "io_env \<Rightarrow> string \<Rightarrow> string \<Rightarrow> string \<Rightarrow> string \<Rightarrow> nat option \<Rightarrow> files \<Rightarrow> files list \<times> unit res" where
  "atomic_write_file io pid rand target contents mode fs =
    (let tmp = temp_path target pid rand;
         m = (case mode of Some n \<Rightarrow> n | None \<Rightarrow> 420) in
     if \<not> io_mkdir io then ([fs], Inl (IoError ''mkdir''))
     else if \<not> io_open io \<or> jm_get fs tmp \<noteq> None then ([fs, clean_up io tmp fs], Inl (IoError ''open''))
     else (let steps = fs # writing io m tmp contents fs; written = last steps in
       if \<not> io_write io \<or> \<not> io_sync io \<or> \<not> io_close io \<or> \<not> io_rename io
       then (steps @ [clean_up io tmp written], Inl (IoError ''write''))
       else (steps @ [jm_set target (m, contents) (jm_del tmp written)], Inr ())))"

lemma temp_not_target [simp]: "temp_path target pid rand \<noteq> target" "target \<noteq> temp_path target pid rand"
  by (auto simp: temp_path_def)

lemma clean_up_get: "p \<noteq> tmp \<Longrightarrow> jm_get (clean_up io tmp fs) p = jm_get fs p"
  by (simp add: clean_up_def store_simps)

lemma writing_get: "d \<in> set (writing io m tmp contents fs) \<Longrightarrow> p \<noteq> tmp \<Longrightarrow> jm_get d p = jm_get fs p"
  by (auto simp: writing_def store_simps)

lemma writing_not_nil [simp]: "writing io m tmp contents fs \<noteq> []"
  by (simp add: writing_def)

lemma last_writing_get: "p \<noteq> tmp \<Longrightarrow> jm_get (last (writing io m tmp contents fs)) p = jm_get fs p"
  by (rule writing_get [OF last_in_set]) simp_all

lemmas file_steps = clean_up_get writing_get last_writing_get store_simps

text \<open>
  C26: A reader, and a process that crashes at any moment, finds the target either as it was or with
  the whole new contents and the requested mode; files other than the target and the temporary one
  never change; and the call reports success exactly when the new contents are in place and the
  temporary file is gone.
\<close>

lemma atomic_write_all_or_nothing:
  assumes "atomic_write_file io pid rand target contents mode fs = (steps, r)"
  shows "steps \<noteq> []
    \<and> (\<forall>d \<in> set steps.
         jm_get d target \<in> {jm_get fs target, Some (case mode of Some n \<Rightarrow> n | None \<Rightarrow> 420, contents)}
         \<and> (\<forall>p. p \<noteq> target \<longrightarrow> p \<noteq> temp_path target pid rand \<longrightarrow> jm_get d p = jm_get fs p))
    \<and> (case r of
         Inl e \<Rightarrow> jm_get (last steps) target = jm_get fs target
       | Inr _ \<Rightarrow> jm_get (last steps) target = Some (case mode of Some n \<Rightarrow> n | None \<Rightarrow> 420, contents)
           \<and> jm_get (last steps) (temp_path target pid rand) = None)"
  using assms
  by (auto simp: atomic_write_file_def Let_def file_steps split: if_splits)

definition demo_io :: io_env where
  "demo_io = \<lparr>io_mkdir = True, io_open = True, io_partial = [''ver''], io_write = True, io_sync = True,
      io_close = True, io_rename = False, io_unlink = False\<rparr>"

lemma atomic_write_all_or_nothing_witness:
  "snd (atomic_write_file demo_io ''7'' ''ab'' ''g.yaml'' ''version: 2'' (Some 384) [(''g.yaml'', (384, ''old''))])
      = Inl (IoError ''write'')
    \<and> list_all (\<lambda>d. jm_get d ''g.yaml'' \<in> {Some (384, ''old''), Some (384, ''version: 2'')})
        (fst (atomic_write_file demo_io ''7'' ''ab'' ''g.yaml'' ''version: 2'' (Some 384) [(''g.yaml'', (384, ''old''))]))"
proof -
  have "snd (atomic_write_file demo_io ''7'' ''ab'' ''g.yaml'' ''version: 2'' (Some 384) [(''g.yaml'', (384, ''old''))])
      = Inl (IoError ''write'')"
    by (simp add: atomic_write_file_def demo_io_def temp_path_def Let_def)
  then show ?thesis
    using atomic_write_all_or_nothing
        [of demo_io "''7''" "''ab''" "''g.yaml''" "''version: 2''" "Some 384" "[(''g.yaml'', (384, ''old''))]",
          OF prod.collapse [symmetric]]
    by (simp add: list_all_iff)
qed

text \<open>When the exclusive open fails because the temporary name is taken, the \<open>catch\<close> block removes a
  file this call did not create.\<close>

lemma failed_open_removes_other_file:
  assumes "io_mkdir io" "io_unlink io" "jm_get fs (temp_path target pid rand) = Some f"
    and "atomic_write_file io pid rand target contents mode fs = (steps, r)"
  shows "r = Inl (IoError ''open'') \<and> jm_get (last steps) (temp_path target pid rand) = None"
  using assms by (auto simp: atomic_write_file_def Let_def clean_up_def store_simps)

section \<open>The mutex of a path\<close>

text \<open>
  Each call of \<open>acquire\<close> makes a promise \<open>own\<close> of its own, here its task's number. The map holds for
  each path the promise that resolves when every earlier \<open>own\<close> of the path has, here the list of them;
  a call waits for the one it found, and its release function resolves its \<open>own\<close>.
\<close>

record mutex =
  mu_chains :: "(string, nat list) jsmap"
  mu_resolved :: "nat list"

definition acquire :: "string \<Rightarrow> nat \<Rightarrow> mutex \<Rightarrow> mutex \<times> nat list" where
  "acquire p own mu =
    (let previous = (case jm_get (mu_chains mu) p of Some c \<Rightarrow> c | None \<Rightarrow> []) in
     (mu\<lparr>mu_chains := jm_set p (previous @ [own]) (mu_chains mu)\<rparr>, previous))"

definition resolved :: "mutex \<Rightarrow> nat list \<Rightarrow> bool" where
  "resolved mu previous \<longleftrightarrow> list_all (\<lambda>o1. o1 \<in> set (mu_resolved mu)) previous"

definition release :: "nat \<Rightarrow> mutex \<Rightarrow> mutex" where
  "release own mu = mu\<lparr>mu_resolved := own # mu_resolved mu\<rparr>"

text \<open>
  A task of a store's client: it acquires the path's mutex, reads the file, writes what it computed
  from it, and releases in its \<open>finally\<close>. Between any two of its steps other tasks may run. A job
  gives the path and the change; a change that throws leaves the file as it is.
\<close>

datatype 'd phase = Idle | Waiting "nat list" | Holding | HasRead 'd | HasWritten | Finished

record 'd tasks =
  ta_mutex :: mutex
  ta_phase :: "nat \<Rightarrow> 'd phase"
  ta_files :: "string \<Rightarrow> 'd"

inductive task_step :: "(nat \<Rightarrow> string) \<Rightarrow> (nat \<Rightarrow> 'd \<Rightarrow> 'd) \<Rightarrow> 'd tasks \<Rightarrow> 'd tasks \<Rightarrow> bool"
  for pth :: "nat \<Rightarrow> string" and job :: "nat \<Rightarrow> 'd \<Rightarrow> 'd" where
  starts: "ta_phase s i = Idle \<Longrightarrow> acquire (pth i) i (ta_mutex s) = (mu, previous) \<Longrightarrow>
    task_step pth job s (s\<lparr>ta_mutex := mu, ta_phase := (ta_phase s)(i := Waiting previous)\<rparr>)"
| enters: "ta_phase s i = Waiting previous \<Longrightarrow> resolved (ta_mutex s) previous \<Longrightarrow>
    task_step pth job s (s\<lparr>ta_phase := (ta_phase s)(i := Holding)\<rparr>)"
| reads: "ta_phase s i = Holding \<Longrightarrow>
    task_step pth job s (s\<lparr>ta_phase := (ta_phase s)(i := HasRead (ta_files s (pth i)))\<rparr>)"
| writes: "ta_phase s i = HasRead d \<Longrightarrow>
    task_step pth job s (s\<lparr>ta_files := (ta_files s)(pth i := job i d),
      ta_phase := (ta_phase s)(i := HasWritten)\<rparr>)"
| leaves: "ta_phase s i = HasWritten \<Longrightarrow>
    task_step pth job s (s\<lparr>ta_mutex := release i (ta_mutex s), ta_phase := (ta_phase s)(i := Finished)\<rparr>)"

definition fresh_tasks :: "(string \<Rightarrow> 'd) \<Rightarrow> 'd tasks" where
  "fresh_tasks fs = \<lparr>ta_mutex = \<lparr>mu_chains = [], mu_resolved = []\<rparr>, ta_phase = (\<lambda>_. Idle), ta_files = fs\<rparr>"

abbreviation runs_to :: "(nat \<Rightarrow> string) \<Rightarrow> (nat \<Rightarrow> 'd \<Rightarrow> 'd) \<Rightarrow> 'd tasks \<Rightarrow> 'd tasks \<Rightarrow> bool" where
  "runs_to pth job \<equiv> (task_step pth job)\<^sup>*\<^sup>*"

text \<open>The tasks that called \<open>acquire\<close> for a path, in the order of their calls.\<close>

definition queue_of :: "string \<Rightarrow> 'd tasks \<Rightarrow> nat list" where
  "queue_of p s = (case jm_get (mu_chains (ta_mutex s)) p of Some c \<Rightarrow> c | None \<Rightarrow> [])"

definition inside :: "'d phase \<Rightarrow> bool" where
  "inside ph \<longleftrightarrow> (case ph of Holding \<Rightarrow> True | HasRead _ \<Rightarrow> True | HasWritten \<Rightarrow> True | _ \<Rightarrow> False)"

text \<open>The tasks of a path that have written, in order; they are a prefix of its queue.\<close>

definition wrote :: "'d tasks \<Rightarrow> nat \<Rightarrow> bool" where
  "wrote s i \<longleftrightarrow> (case ta_phase s i of HasWritten \<Rightarrow> True | Finished \<Rightarrow> True | _ \<Rightarrow> False)"

definition serial :: "(nat \<Rightarrow> 'd \<Rightarrow> 'd) \<Rightarrow> nat list \<Rightarrow> 'd \<Rightarrow> 'd" where
  "serial job is d = fold job is d"

definition before :: "nat \<Rightarrow> nat list \<Rightarrow> nat list" where
  "before i qs = takeWhile (\<lambda>j. j \<noteq> i) qs"

definition tasks_ok ::
  "(nat \<Rightarrow> string) \<Rightarrow> (nat \<Rightarrow> 'd \<Rightarrow> 'd) \<Rightarrow> (string \<Rightarrow> 'd) \<Rightarrow> 'd tasks \<Rightarrow> bool" where
  "tasks_ok pth job init s \<longleftrightarrow>
     (\<forall>p. distinct (queue_of p s)) \<and> (\<forall>p i. i \<in> set (queue_of p s) \<longleftrightarrow> pth i = p \<and> ta_phase s i \<noteq> Idle)
     \<and> (\<forall>i. i \<in> set (mu_resolved (ta_mutex s)) \<longleftrightarrow> ta_phase s i = Finished)
     \<and> (\<forall>i w. ta_phase s i = Waiting w \<longrightarrow> w = before i (queue_of (pth i) s))
     \<and> (\<forall>i j. inside (ta_phase s i) \<or> ta_phase s i = Finished \<longrightarrow> j \<in> set (before i (queue_of (pth i) s))
          \<longrightarrow> ta_phase s j = Finished)
     \<and> (\<forall>i d. ta_phase s i = HasRead d \<longrightarrow> d = ta_files s (pth i))
     \<and> (\<forall>p. ta_files s p = serial job (filter (wrote s) (queue_of p s)) (init p))"

lemma before_snoc_old: "i \<in> set qs \<Longrightarrow> before i (qs @ [k]) = before i qs"
  unfolding before_def by (rule takeWhile_append1) auto

lemma before_snoc_new: "i \<notin> set qs \<Longrightarrow> before i (qs @ [i]) = qs"
  unfolding before_def by (induction qs) auto

lemma before_not_self: "i \<notin> set (before i qs)"
  unfolding before_def by (auto dest: set_takeWhileD)

lemma before_linear:
  "i \<in> set qs \<Longrightarrow> j \<in> set qs \<Longrightarrow> i \<noteq> j \<Longrightarrow> j \<in> set (before i qs) \<or> i \<in> set (before j qs)"
  unfolding before_def by (induction qs) auto

lemma split_before:
  "i \<in> set qs \<Longrightarrow> distinct qs \<Longrightarrow> \<exists>rest. qs = before i qs @ i # rest \<and> (\<forall>j \<in> set rest. i \<in> set (before j qs))"
proof (induction qs)
  case (Cons k qs)
  show ?case
  proof (cases "k = i")
    case True
    then show ?thesis using Cons.prems by (auto simp: before_def)
  next
    case False
    with Cons obtain rest where rest: "qs = before i qs @ i # rest" "\<forall>j \<in> set rest. i \<in> set (before j qs)"
      by auto
    have "set rest \<subseteq> set qs" by (subst rest(1)) auto
    then show ?thesis using False Cons.prems rest
      by (intro exI [of _ rest]) (auto simp: before_def)
  qed
qed simp

lemma queue_of_upd [simp]:
  "queue_of p (s\<lparr>ta_phase := f\<rparr>) = queue_of p s" "queue_of p (s\<lparr>ta_files := g\<rparr>) = queue_of p s"
  "queue_of p (s\<lparr>ta_mutex := release i (ta_mutex s)\<rparr>) = queue_of p s"
  by (simp_all add: queue_of_def release_def)

lemma queue_of_acquire:
  assumes "acquire q i (ta_mutex s) = (mu, previous)"
  shows "previous = queue_of q s
    \<and> queue_of p (s\<lparr>ta_mutex := mu\<rparr>) = (if p = q then queue_of q s @ [i] else queue_of p s)
    \<and> mu_resolved mu = mu_resolved (ta_mutex s)"
  using assms by (auto simp: acquire_def queue_of_def Let_def store_simps)

lemma fresh_ok: "tasks_ok pth job init (fresh_tasks init)"
  by (simp add: tasks_ok_def fresh_tasks_def queue_of_def inside_def serial_def before_def)

lemma ok_before:
  "tasks_ok pth job init s \<Longrightarrow> inside (ta_phase s i) \<or> ta_phase s i = Finished
   \<Longrightarrow> j \<in> set (before i (queue_of (pth i) s)) \<Longrightarrow> ta_phase s j = Finished"
  unfolding tasks_ok_def by blast

lemma ok_queue: "tasks_ok pth job init s \<Longrightarrow> i \<in> set (queue_of p s) \<longleftrightarrow> pth i = p \<and> ta_phase s i \<noteq> Idle"
  unfolding tasks_ok_def by blast

lemma ok_distinct: "tasks_ok pth job init s \<Longrightarrow> distinct (queue_of p s)"
  unfolding tasks_ok_def by blast

lemma ok_resolved: "tasks_ok pth job init s \<Longrightarrow> i \<in> set (mu_resolved (ta_mutex s)) \<longleftrightarrow> ta_phase s i = Finished"
  unfolding tasks_ok_def by blast

lemma ok_waiting: "tasks_ok pth job init s \<Longrightarrow> ta_phase s i = Waiting w \<Longrightarrow> w = before i (queue_of (pth i) s)"
  unfolding tasks_ok_def by blast

lemma ok_read: "tasks_ok pth job init s \<Longrightarrow> ta_phase s i = HasRead d \<Longrightarrow> d = ta_files s (pth i)"
  unfolding tasks_ok_def by blast

lemma ok_files:
  "tasks_ok pth job init s \<Longrightarrow> ta_files s p = serial job (filter (wrote s) (queue_of p s)) (init p)"
  unfolding tasks_ok_def by blast

lemma mutual_exclusion:
  assumes ok: "tasks_ok pth job init s" and ij: "inside (ta_phase s i)" "inside (ta_phase s j)" "pth i = pth j"
  shows "i = j"
proof (rule ccontr)
  assume "i \<noteq> j"
  moreover have "i \<in> set (queue_of (pth i) s)" "j \<in> set (queue_of (pth i) s)"
    using ok_queue [OF ok] ij by (auto simp: inside_def)
  ultimately have "j \<in> set (before i (queue_of (pth i) s)) \<or> i \<in> set (before j (queue_of (pth i) s))"
    by (intro before_linear) auto
  then have "ta_phase s i = Finished \<or> ta_phase s j = Finished"
    using ok_before [OF ok] ij by metis
  then show False using ij by (auto simp: inside_def)
qed

lemma tasks_okI:
  assumes "\<And>p. distinct (queue_of p s)" "\<And>p i. i \<in> set (queue_of p s) \<longleftrightarrow> pth i = p \<and> ta_phase s i \<noteq> Idle"
    "\<And>i. i \<in> set (mu_resolved (ta_mutex s)) \<longleftrightarrow> ta_phase s i = Finished"
    "\<And>i w. ta_phase s i = Waiting w \<Longrightarrow> w = before i (queue_of (pth i) s)"
    "\<And>i j. inside (ta_phase s i) \<or> ta_phase s i = Finished \<Longrightarrow> j \<in> set (before i (queue_of (pth i) s))
      \<Longrightarrow> ta_phase s j = Finished"
    "\<And>i d. ta_phase s i = HasRead d \<Longrightarrow> d = ta_files s (pth i)"
    "\<And>p. ta_files s p = serial job (filter (wrote s) (queue_of p s)) (init p)"
  shows "tasks_ok pth job init s"
  unfolding tasks_ok_def using assms by blast

lemma starts_ok:
  assumes ok: "tasks_ok pth job init s" and idle: "ta_phase s i = Idle"
    and acq: "acquire (pth i) i (ta_mutex s) = (mu, previous)"
  shows "tasks_ok pth job init (s\<lparr>ta_mutex := mu, ta_phase := (ta_phase s)(i := Waiting previous)\<rparr>)"
    (is "tasks_ok pth job init ?s")
proof -
  note q = queue_of_acquire [OF acq]
  have new: "i \<notin> set (queue_of p s)" for p using ok_queue [OF ok] idle by simp
  have queue: "queue_of p (s\<lparr>ta_mutex := mu\<rparr>) = (if p = pth i then queue_of p s @ [i] else queue_of p s)" for p
    using q by auto
  have wrote: "wrote ?s = wrote s" using idle by (auto simp: wrote_def fun_eq_iff)
  have old: "before j (queue_of (pth j) (s\<lparr>ta_mutex := mu\<rparr>)) = before j (queue_of (pth j) s)"
    if "ta_phase s j \<noteq> Idle" for j
    using ok_queue [OF ok, of j "pth j"] that before_snoc_old [of j "queue_of (pth j) s" i]
    by (cases "pth j = pth i") (simp_all add: queue)
  show ?thesis
  proof (rule tasks_okI)
    show "distinct (queue_of p ?s)" for p using ok_distinct [OF ok] new by (simp add: queue)
    show "k \<in> set (queue_of p ?s) \<longleftrightarrow> pth k = p \<and> ta_phase ?s k \<noteq> Idle" for p k
      using ok_queue [OF ok, of k p] by (auto simp: queue)
    show "k \<in> set (mu_resolved (ta_mutex ?s)) \<longleftrightarrow> ta_phase ?s k = Finished" for k
      using ok_resolved [OF ok, of k] q idle by auto
    show "w = before k (queue_of (pth k) ?s)" if "ta_phase ?s k = Waiting w" for k w
      using that ok_waiting [OF ok, of k w] old [of k] q before_snoc_new [OF new, of "pth i"]
      by (cases "k = i") (simp_all add: queue)
    show "ta_phase ?s j = Finished"
      if "inside (ta_phase ?s k) \<or> ta_phase ?s k = Finished" "j \<in> set (before k (queue_of (pth k) ?s))" for j k
    proof -
      have ki: "k \<noteq> i" using that(1) by (auto simp: inside_def)
      with that(1) have "ta_phase s k \<noteq> Idle" by (auto simp: inside_def)
      with that ki have "ta_phase s j = Finished" using ok_before [OF ok, of k j] old [of k] by auto
      then show ?thesis using idle by auto
    qed
    show "d = ta_files ?s (pth k)" if "ta_phase ?s k = HasRead d" for k d
      using that ok_read [OF ok, of k d] by (auto split: if_splits)
    show "ta_files ?s p = serial job (filter (wrote ?s) (queue_of p ?s)) (init p)" for p
      using ok_files [OF ok, of p] idle by (simp add: wrote queue) (simp add: wrote_def)
  qed
qed

lemma phase_step_ok:
  assumes ok: "tasks_ok pth job init s" and here: "ta_phase s i \<noteq> Idle"
    and goes: "ph \<noteq> Idle" "ph \<noteq> Finished" "\<And>w. ph \<noteq> Waiting w" "\<And>d. ph = HasRead d \<Longrightarrow> d = ta_files s (pth i)"
    and unfinished: "ta_phase s i \<noteq> Finished" "ph \<noteq> HasWritten" "ta_phase s i \<noteq> HasWritten"
    and enter: "inside ph \<Longrightarrow> \<forall>j \<in> set (before i (queue_of (pth i) s)). ta_phase s j = Finished"
  shows "tasks_ok pth job init (s\<lparr>ta_phase := (ta_phase s)(i := ph)\<rparr>)" (is "tasks_ok pth job init ?s")
proof (rule tasks_okI)
  have wrote: "wrote ?s = wrote s"
    using goes unfinished by (auto simp: wrote_def fun_eq_iff split: phase.splits)
  show "distinct (queue_of p ?s)" for p using ok_distinct [OF ok] by simp
  show "k \<in> set (queue_of p ?s) \<longleftrightarrow> pth k = p \<and> ta_phase ?s k \<noteq> Idle" for p k
    using ok_queue [OF ok, of k p] here goes by auto
  show "k \<in> set (mu_resolved (ta_mutex ?s)) \<longleftrightarrow> ta_phase ?s k = Finished" for k
    using ok_resolved [OF ok, of k] goes unfinished by auto
  show "w = before k (queue_of (pth k) ?s)" if "ta_phase ?s k = Waiting w" for k w
    using that ok_waiting [OF ok, of k w] goes by (auto split: if_splits)
  show "ta_phase ?s j = Finished"
    if "inside (ta_phase ?s k) \<or> ta_phase ?s k = Finished" "j \<in> set (before k (queue_of (pth k) ?s))" for j k
  proof -
    have "ta_phase s j = Finished"
      using that enter ok_before [OF ok, of k j] goes by (cases "k = i") auto
    then show ?thesis using unfinished by auto
  qed
  show "d = ta_files ?s (pth k)" if "ta_phase ?s k = HasRead d" for k d
    using that ok_read [OF ok, of k d] goes by (auto split: if_splits)
  show "ta_files ?s p = serial job (filter (wrote ?s) (queue_of p ?s)) (init p)" for p
    using ok_files [OF ok, of p] by (simp add: wrote)
qed

lemma writes_ok:
  assumes ok: "tasks_ok pth job init s" and has: "ta_phase s i = HasRead d"
  shows "tasks_ok pth job init
    (s\<lparr>ta_files := (ta_files s)(pth i := job i d), ta_phase := (ta_phase s)(i := HasWritten)\<rparr>)"
    (is "tasks_ok pth job init ?s")
proof (rule tasks_okI)
  let ?q = "queue_of (pth i) s"
  have mem: "i \<in> set ?q" using ok_queue [OF ok] has by simp
  obtain rest where q: "?q = before i ?q @ i # rest" and later: "\<forall>j \<in> set rest. i \<in> set (before j ?q)"
    using split_before [OF mem ok_distinct [OF ok]] by auto
  have path_of: "\<forall>j \<in> set ?q. pth j = pth i" using ok_queue [OF ok] by blast
  have rest_mem: "set rest \<subseteq> set ?q" by (subst q) auto
  have earlier: "\<forall>j \<in> set (before i ?q). ta_phase s j = Finished"
    using ok_before [OF ok, of i] has by (auto simp: inside_def)
  have waiting: "\<forall>j \<in> set rest. \<not> inside (ta_phase s j) \<and> ta_phase s j \<noteq> Finished"
  proof
    fix j assume j: "j \<in> set rest"
    then have "i \<in> set (before j (queue_of (pth j) s))" using later path_of rest_mem by auto
    then show "\<not> inside (ta_phase s j) \<and> ta_phase s j \<noteq> Finished" using ok_before [OF ok, of j i] has by auto
  qed
  have filters: "filter (wrote s) ?q = before i ?q" "filter (wrote ?s) ?q = before i ?q @ [i]"
  proof -
    have 1: "filter (wrote s) (before i ?q) = before i ?q"
      by (rule filter_True) (use earlier in \<open>auto simp: wrote_def\<close>)
    have 2: "filter (wrote s) rest = []"
      by (rule filter_False) (use waiting in \<open>auto simp: wrote_def inside_def split: phase.splits\<close>)
    have 3: "filter (wrote ?s) (before i ?q) = before i ?q"
      by (rule filter_True) (use earlier in \<open>auto simp: wrote_def\<close>)
    have 4: "filter (wrote ?s) rest = []"
    proof (rule filter_False, rule ballI)
      fix j assume "j \<in> set rest"
      then have "j \<noteq> i" using later before_not_self by metis
      then show "\<not> wrote ?s j" using waiting \<open>j \<in> set rest\<close> by (auto simp: wrote_def inside_def split: phase.splits)
    qed
    show "filter (wrote s) ?q = before i ?q" by (subst q) (simp add: 1 2, simp add: wrote_def has)
    show "filter (wrote ?s) ?q = before i ?q @ [i]" by (subst q) (simp add: 3 4, simp add: wrote_def)
  qed
  show "ta_files ?s p = serial job (filter (wrote ?s) (queue_of p ?s)) (init p)" for p
  proof (cases "p = pth i")
    case True
    then show ?thesis
      using ok_files [OF ok, of "pth i"] ok_read [OF ok has] filters by (simp add: serial_def)
  next
    case False
    then have "filter (wrote ?s) (queue_of p s) = filter (wrote s) (queue_of p s)"
      using ok_queue [OF ok] by (intro filter_cong) (auto simp: wrote_def)
    then show ?thesis using ok_files [OF ok, of p] False by simp
  qed
  show "d' = ta_files ?s (pth k)" if "ta_phase ?s k = HasRead d'" for k d'
    using that ok_read [OF ok, of k d'] mutual_exclusion [OF ok, of k i] has
    by (auto simp: inside_def split: if_splits)
  show "distinct (queue_of p ?s)" for p using ok_distinct [OF ok] by simp
  show "k \<in> set (queue_of p ?s) \<longleftrightarrow> pth k = p \<and> ta_phase ?s k \<noteq> Idle" for p k
    using ok_queue [OF ok, of k p] has by auto
  show "k \<in> set (mu_resolved (ta_mutex ?s)) \<longleftrightarrow> ta_phase ?s k = Finished" for k
    using ok_resolved [OF ok, of k] has by auto
  show "w = before k (queue_of (pth k) ?s)" if "ta_phase ?s k = Waiting w" for k w
    using that ok_waiting [OF ok, of k w] by (auto split: if_splits)
  show "ta_phase ?s j = Finished"
    if "inside (ta_phase ?s k) \<or> ta_phase ?s k = Finished" "j \<in> set (before k (queue_of (pth k) ?s))" for j k
  proof -
    have "ta_phase s j = Finished"
      using that earlier ok_before [OF ok, of k j] by (cases "k = i") auto
    then show ?thesis using has by auto
  qed
qed

lemma leaves_ok:
  assumes ok: "tasks_ok pth job init s" and has: "ta_phase s i = HasWritten"
  shows "tasks_ok pth job init (s\<lparr>ta_mutex := release i (ta_mutex s), ta_phase := (ta_phase s)(i := Finished)\<rparr>)"
    (is "tasks_ok pth job init ?s")
proof (rule tasks_okI)
  have wrote: "wrote ?s = wrote s" using has by (auto simp: wrote_def fun_eq_iff)
  have q: "queue_of p ?s = queue_of p s" for p by simp
  show "distinct (queue_of p ?s)" for p using ok_distinct [OF ok] q by simp
  show "k \<in> set (queue_of p ?s) \<longleftrightarrow> pth k = p \<and> ta_phase ?s k \<noteq> Idle" for p k
    using ok_queue [OF ok, of k p] has q by auto
  show "k \<in> set (mu_resolved (ta_mutex ?s)) \<longleftrightarrow> ta_phase ?s k = Finished" for k
    using ok_resolved [OF ok, of k] by (auto simp: release_def)
  show "w = before k (queue_of (pth k) ?s)" if "ta_phase ?s k = Waiting w" for k w
    using that ok_waiting [OF ok, of k w] q by (auto split: if_splits)
  show "ta_phase ?s j = Finished"
    if "inside (ta_phase ?s k) \<or> ta_phase ?s k = Finished" "j \<in> set (before k (queue_of (pth k) ?s))" for j k
  proof -
    have "inside (ta_phase s k) \<or> ta_phase s k = Finished"
      using that(1) has by (auto simp: inside_def split: if_splits)
    then have "ta_phase s j = Finished" using that(2) ok_before [OF ok, of k j] q by auto
    then show ?thesis by auto
  qed
  show "d = ta_files ?s (pth k)" if "ta_phase ?s k = HasRead d" for k d
    using that ok_read [OF ok, of k d] by (auto split: if_splits)
  show "ta_files ?s p = serial job (filter (wrote ?s) (queue_of p ?s)) (init p)" for p
    using ok_files [OF ok, of p] by (simp add: wrote)
qed

lemma task_step_ok: "task_step pth job s s' \<Longrightarrow> tasks_ok pth job init s \<Longrightarrow> tasks_ok pth job init s'"
proof (induction rule: task_step.induct)
  case (starts s i mu previous)
  then show ?case by (simp add: starts_ok)
next
  case (enters s i previous)
  have "\<forall>j \<in> set previous. ta_phase s j = Finished"
    using enters.hyps(2) ok_resolved [OF enters.prems] by (auto simp: resolved_def list_all_iff)
  then have "\<forall>j \<in> set (before i (queue_of (pth i) s)). ta_phase s j = Finished"
    using ok_waiting [OF enters.prems enters.hyps(1)] by simp
  then show ?case by (intro phase_step_ok [OF enters.prems]) (simp_all add: enters.hyps)
next
  case (reads s i)
  have "\<forall>j \<in> set (before i (queue_of (pth i) s)). ta_phase s j = Finished"
    using ok_before [OF reads.prems, of i] reads.hyps by (auto simp: inside_def)
  then show ?case by (intro phase_step_ok [OF reads.prems]) (simp_all add: reads.hyps)
qed (simp_all add: writes_ok leaves_ok)

lemma reachable_ok: "runs_to pth job (fresh_tasks init) s \<Longrightarrow> tasks_ok pth job init s"
  by (induction rule: rtranclp_induct) (auto intro: fresh_ok task_step_ok)

text \<open>
  Whatever the interleaving, never two tasks of one path are between the acquisition and the
  release of its mutex, and each file is what the tasks that have written it make of its first
  contents one after the other, in the order of their calls of \<open>acquire\<close>: no update is lost.
\<close>

lemma tasks_serialize:
  assumes "runs_to pth job (fresh_tasks init) s"
  shows "(inside (ta_phase s i) \<and> inside (ta_phase s j) \<and> pth i = pth j \<longrightarrow> i = j)
    \<and> ta_files s p = serial job (filter (wrote s) (queue_of p s)) (init p)
    \<and> ((\<forall>k \<in> set (queue_of p s). ta_phase s k = Finished)
        \<longrightarrow> ta_files s p = serial job (queue_of p s) (init p))"
proof -
  note ok = reachable_ok [OF assms]
  have "filter (wrote s) (queue_of p s) = queue_of p s" if "\<forall>k \<in> set (queue_of p s). ta_phase s k = Finished"
    by (rule filter_True) (use that in \<open>auto simp: wrote_def\<close>)
  then show ?thesis using mutual_exclusion [OF ok, of i j] ok_files [OF ok, of p] by auto
qed

text \<open>What is left to do for a task.\<close>

fun phase_rank :: "'d phase \<Rightarrow> nat" where
  "phase_rank Idle = 5"
| "phase_rank (Waiting w) = 4"
| "phase_rank Holding = 3"
| "phase_rank (HasRead d) = 2"
| "phase_rank HasWritten = 1"
| "phase_rank Finished = 0"

definition work_left :: "nat \<Rightarrow> 'd tasks \<Rightarrow> nat" where
  "work_left n s = (\<Sum>i<n. phase_rank (ta_phase s i))"

lemma work_left_upd:
  "i < n \<Longrightarrow> phase_rank ph < phase_rank (ta_phase s i) \<Longrightarrow> ta_phase s' = (ta_phase s)(i := ph)
   \<Longrightarrow> work_left n s' < work_left n s"
  unfolding work_left_def by (rule sum_strict_mono_ex1) auto

text \<open>A task whose predecessors have finished can move, and one that has not started can always.\<close>

definition moves :: "(nat \<Rightarrow> string) \<Rightarrow> (nat \<Rightarrow> 'd \<Rightarrow> 'd) \<Rightarrow> nat \<Rightarrow> 'd tasks \<Rightarrow> 'd tasks \<Rightarrow> bool" where
  "moves pth job i s s' \<longleftrightarrow> task_step pth job s s'
     \<and> (\<exists>ph. ta_phase s' = (ta_phase s)(i := ph) \<and> phase_rank ph < phase_rank (ta_phase s i))"

lemma movesI:
  "task_step pth job s s' \<Longrightarrow> ta_phase s' = (ta_phase s)(i := ph) \<Longrightarrow> phase_rank ph < phase_rank (ta_phase s i)
   \<Longrightarrow> \<exists>s'. moves pth job i s s'"
  unfolding moves_def by blast

lemma task_moves:
  assumes ok: "tasks_ok pth job init s" and i: "ta_phase s i \<noteq> Finished"
    and first: "ta_phase s i \<noteq> Idle \<Longrightarrow> \<forall>j \<in> set (before i (queue_of (pth i) s)). ta_phase s j = Finished"
  shows "\<exists>s'. moves pth job i s s'"
proof (cases "ta_phase s i")
  case Idle
  obtain mu previous where acq: "acquire (pth i) i (ta_mutex s) = (mu, previous)" by fastforce
  have "task_step pth job s (s\<lparr>ta_mutex := mu, ta_phase := (ta_phase s)(i := Waiting previous)\<rparr>)"
    by (rule starts) (rule Idle, rule acq)
  then show ?thesis by (rule movesI [where ph = "Waiting previous"]) (simp_all add: Idle)
next
  case (Waiting w)
  have "resolved (ta_mutex s) w"
    using ok_waiting [OF ok Waiting] Waiting first ok_resolved [OF ok]
    by (simp add: resolved_def list_all_iff)
  show ?thesis
    by (rule movesI [where ph = Holding], rule enters [OF Waiting \<open>resolved (ta_mutex s) w\<close>]) (simp_all add: Waiting)
next
  case Holding
  show ?thesis by (rule movesI [where ph = "HasRead (ta_files s (pth i))"], rule reads [OF Holding]) (simp_all add: Holding)
next
  case (HasRead d)
  show ?thesis by (rule movesI [where ph = HasWritten], rule writes [OF HasRead]) (simp_all add: HasRead)
next
  case HasWritten
  show ?thesis by (rule movesI [where ph = Finished], rule leaves [OF HasWritten]) (simp_all add: HasWritten)
qed (use i in simp)

lemma first_unfinished:
  assumes "j \<in> set qs" "f j \<noteq> ph"
  shows "\<exists>k \<in> set qs. f k \<noteq> ph \<and> (\<forall>l \<in> set (before k qs). f l = ph)"
  using assms unfolding before_def by (induction qs) auto

lemma some_task_moves:
  assumes ok: "tasks_ok pth job init s" and idle: "\<forall>k \<ge> n. ta_phase s k = Idle"
    and j: "j < n" "ta_phase s j \<noteq> Finished"
  shows "\<exists>k < n. \<exists>s'. moves pth job k s s'"
proof (cases "ta_phase s j = Idle")
  case True
  then show ?thesis using task_moves [OF ok j(2)] j(1) by auto
next
  case False
  then have "j \<in> set (queue_of (pth j) s)" using ok_queue [OF ok, of j] by simp
  then obtain k where k: "k \<in> set (queue_of (pth j) s)" "ta_phase s k \<noteq> Finished"
      "\<forall>l \<in> set (before k (queue_of (pth j) s)). ta_phase s l = Finished"
    using j first_unfinished [where f = "ta_phase s" and ph = Finished] by metis
  then have "pth k = pth j" "k < n" using ok_queue [OF ok, of k] idle by (auto simp: not_le [symmetric])
  then show ?thesis using task_moves [OF ok, of k] k by auto
qed

lemma tasks_finish:
  "tasks_ok pth job init s \<Longrightarrow> \<forall>k \<ge> n. ta_phase s k = Idle
   \<Longrightarrow> \<exists>s'. runs_to pth job s s' \<and> (\<forall>i<n. ta_phase s' i = Finished) \<and> (\<forall>k \<ge> n. ta_phase s' k = Idle)"
proof (induction "work_left n s" arbitrary: s rule: less_induct)
  case less
  show ?case
  proof (cases "\<forall>i<n. ta_phase s i = Finished")
    case False
    then obtain k s1 where k: "k < n" "moves pth job k s s1" using some_task_moves [OF less.prems] by blast
    then obtain ph where ph: "ta_phase s1 = (ta_phase s)(k := ph)" "phase_rank ph < phase_rank (ta_phase s k)"
      and step: "task_step pth job s s1" unfolding moves_def by blast
    have "work_left n s1 < work_left n s" by (rule work_left_upd [OF k(1) ph(2,1)])
    moreover have "\<forall>k \<ge> n. ta_phase s1 k = Idle" using less.prems(2) k(1) ph(1) by auto
    ultimately obtain s2 where "runs_to pth job s1 s2" "\<forall>i<n. ta_phase s2 i = Finished" "\<forall>k \<ge> n. ta_phase s2 k = Idle"
      using less.hyps task_step_ok [OF step less.prems(1)] by blast
    then show ?thesis using converse_rtranclp_into_rtranclp [where r = "task_step pth job", OF step] by blast
  qed (use less.prems in blast)
qed

text \<open>
  The mutex never blocks for good: from every state the first \<open>n\<close> tasks can reach, all of them can
  run to their end, and then each file holds the changes of all tasks of its path, made one after
  the other in the order in which they queued, each exactly once.
\<close>

lemma tasks_end:
  assumes "runs_to pth job (fresh_tasks init) s" "\<forall>k \<ge> n. ta_phase s k = Idle"
  shows "\<exists>s'. runs_to pth job s s' \<and> (\<forall>i<n. ta_phase s' i = Finished)
    \<and> (\<forall>p. distinct (queue_of p s') \<and> set (queue_of p s') = {i. i < n \<and> pth i = p}
         \<and> ta_files s' p = serial job (queue_of p s') (init p))"
proof -
  obtain s' where s': "runs_to pth job s s'" "\<forall>i<n. ta_phase s' i = Finished" "\<forall>k \<ge> n. ta_phase s' k = Idle"
    using tasks_finish [OF reachable_ok [OF assms(1)] assms(2)] by blast
  have reach: "runs_to pth job (fresh_tasks init) s'" using assms(1) s'(1) by (rule rtranclp_trans)
  note ok = reachable_ok [OF reach]
  have members: "set (queue_of p s') = {i. i < n \<and> pth i = p}" for p
    using ok_queue [OF ok] s' by (auto simp: set_eq_iff not_le [symmetric])
  moreover have "ta_files s' p = serial job (queue_of p s') (init p)" for p
  proof -
    have "filter (wrote s') (queue_of p s') = queue_of p s'"
      by (rule filter_True) (use members s' in \<open>auto simp: wrote_def\<close>)
    then show ?thesis using ok_files [OF ok, of p] by simp
  qed
  ultimately show ?thesis using s' ok_distinct [OF ok] by blast
qed

lemma tasks_serialize_witness:
  "\<exists>s'. runs_to (\<lambda>_. ''g'') (\<lambda>i d. d @ [i]) (fresh_tasks (\<lambda>_. [])) s' \<and> (\<forall>i<2. ta_phase s' i = Finished)
    \<and> ta_files s' ''g'' = queue_of ''g'' s'"
proof -
  obtain s' where s': "runs_to (\<lambda>_. ''g'') (\<lambda>i d. d @ [i]) (fresh_tasks (\<lambda>_. [])) s'"
      "\<forall>i<2. ta_phase s' i = Finished" "\<forall>k \<ge> 2. ta_phase s' k = Idle"
    using tasks_finish [OF fresh_ok, of 2 "\<lambda>_. []" "\<lambda>_. ''g''" "\<lambda>i d. d @ [i]"] by (auto simp: fresh_tasks_def)
  have "ta_phase s' k = Finished" if "k \<in> set (queue_of ''g'' s')" for k
    using that ok_queue [OF reachable_ok [OF s'(1)], of k] s'(2,3) by (cases "k < 2") auto
  moreover have "fold (\<lambda>i d. d @ [i]) qs d = d @ qs" for qs and d :: "nat list"
    by (induction qs arbitrary: d) auto
  ultimately have "ta_files s' ''g'' = queue_of ''g'' s'"
    using tasks_serialize [OF s'(1), of 0 1 "''g''"] by (auto simp: serial_def)
  then show ?thesis using s' by blast
qed

end
