(* ===== verification/Graph.thy ===== *)
theory Graph
  imports Json Files
begin

text \<open>
  The inventory graph of \<open>src/discovery\<close>: its entities and edges (\<open>graph-types.ts\<close>), the schema
  \<open>inventory-graph-v2.json\<close> every read and write is checked against, and the store (\<open>graph-store.ts\<close>)
  over its YAML file. The YAML library is a parameter.
\<close>

section \<open>Entities and edges\<close>

datatype graph_status = Active | Stale | Gone

fun status_str :: "graph_status \<Rightarrow> string" where
  "status_str Active = ''active''"
| "status_str Stale = ''stale''"
| "status_str Gone = ''gone''"

type_synonym attributes = "(string, jsval) jsmap"

record entity =
  en_id :: string
  en_kind :: string
  en_name :: string
  en_attrs :: attributes
  en_source :: string
  en_platform :: "string option"
  en_discovered :: string
  en_seen :: string
  en_status :: graph_status

record edge =
  ed_id :: string
  ed_from :: string
  ed_to :: string
  ed_type :: string
  ed_attrs :: "attributes option"
  ed_discovered :: string
  ed_seen :: string
  ed_status :: graph_status

record graph =
  gr_entities :: "entity list"
  gr_edges :: "edge list"

definition empty_graph :: graph where
  "empty_graph = \<lparr>gr_entities = [], gr_edges = []\<rparr>"

text \<open>The document as the value the store hands to the schema and to \<open>yaml.dump\<close>; an absent optional
  property has no key.\<close>

definition opt_member :: "string \<Rightarrow> jsval option \<Rightarrow> (string \<times> jsval) list" where
  "opt_member k v = (case v of None \<Rightarrow> [] | Some x \<Rightarrow> [(k, x)])"

definition entity_json :: "entity \<Rightarrow> jsval" where
  "entity_json e = JObj
    ([(''id'', JStr (en_id e)), (''kind'', JStr (en_kind e)), (''name'', JStr (en_name e)),
      (''attributes'', JObj (en_attrs e)), (''source'', JStr (en_source e))]
     @ opt_member ''platformId'' (map_option JStr (en_platform e))
     @ [(''discovered_at'', JStr (en_discovered e)), (''last_seen'', JStr (en_seen e)),
        (''status'', JStr (status_str (en_status e)))])"

definition edge_json :: "edge \<Rightarrow> jsval" where
  "edge_json e = JObj
    ([(''id'', JStr (ed_id e)), (''from'', JStr (ed_from e)), (''to'', JStr (ed_to e)),
      (''type'', JStr (ed_type e))]
     @ opt_member ''attributes'' (map_option JObj (ed_attrs e))
     @ [(''discovered_at'', JStr (ed_discovered e)), (''last_seen'', JStr (ed_seen e)),
        (''status'', JStr (status_str (ed_status e)))])"

definition graph_json :: "graph \<Rightarrow> jsval" where
  "graph_json g = JObj
    [(''version'', JInt 2), (''entities'', JArr (map entity_json (gr_entities g))),
     (''edges'', JArr (map edge_json (gr_edges g)))]"

section \<open>The schema\<close>

text \<open>What the store needs of \<open>js-yaml\<close> and \<open>ajv\<close>: loading and dumping a value, the text of the
  validation errors, and the \<open>date-time\<close> format.\<close>

record yaml =
  ya_load :: "string \<Rightarrow> string + jsval"
  ya_dump :: "jsval \<Rightarrow> string + string"
  ya_errors :: "jsval \<Rightarrow> string"
  ya_date_time :: "string \<Rightarrow> bool"

definition req :: "string \<Rightarrow> (jsval \<Rightarrow> bool) \<Rightarrow> attributes \<Rightarrow> bool" where
  "req k P kvs \<longleftrightarrow> (case jm_get kvs k of Some v \<Rightarrow> P v | None \<Rightarrow> False)"

definition optional :: "string \<Rightarrow> (jsval \<Rightarrow> bool) \<Rightarrow> attributes \<Rightarrow> bool" where
  "optional k P kvs \<longleftrightarrow> (case jm_get kvs k of Some v \<Rightarrow> P v | None \<Rightarrow> True)"

definition closed :: "string list \<Rightarrow> attributes \<Rightarrow> bool" where
  "closed ks kvs \<longleftrightarrow> list_all (\<lambda>kv. fst kv \<in> set ks) kvs"

definition is_str :: "(string \<Rightarrow> bool) \<Rightarrow> jsval \<Rightarrow> bool" where
  "is_str P v \<longleftrightarrow> (case v of JStr s \<Rightarrow> P s | _ \<Rightarrow> False)"

definition is_object :: "jsval \<Rightarrow> bool" where
  "is_object v \<longleftrightarrow> (case v of JObj _ \<Rightarrow> True | _ \<Rightarrow> False)"

definition is_array :: "(jsval \<Rightarrow> bool) \<Rightarrow> jsval \<Rightarrow> bool" where
  "is_array P v \<longleftrightarrow> (case v of JArr vs \<Rightarrow> list_all P vs | _ \<Rightarrow> False)"

abbreviation nonempty :: "jsval \<Rightarrow> bool" where
  "nonempty \<equiv> is_str (\<lambda>s. s \<noteq> [])"

definition status_schema :: "jsval \<Rightarrow> bool" where
  "status_schema = is_str (\<lambda>s. s \<in> {''active'', ''stale'', ''gone''})"

definition entity_schema :: "yaml \<Rightarrow> jsval \<Rightarrow> bool" where
  "entity_schema ya v \<longleftrightarrow> (case v of
     JObj o1 \<Rightarrow> closed [''id'', ''kind'', ''name'', ''attributes'', ''source'', ''platformId'', ''discovered_at'',
         ''last_seen'', ''status''] o1
       \<and> req ''id'' nonempty o1 \<and> req ''kind'' nonempty o1 \<and> req ''name'' nonempty o1
       \<and> req ''attributes'' is_object o1 \<and> req ''source'' nonempty o1
       \<and> optional ''platformId'' (is_str (\<lambda>_. True)) o1
       \<and> req ''discovered_at'' (is_str (ya_date_time ya)) o1 \<and> req ''last_seen'' (is_str (ya_date_time ya)) o1
       \<and> req ''status'' status_schema o1
   | _ \<Rightarrow> False)"

definition edge_schema :: "yaml \<Rightarrow> jsval \<Rightarrow> bool" where
  "edge_schema ya v \<longleftrightarrow> (case v of
     JObj o1 \<Rightarrow> closed [''id'', ''from'', ''to'', ''type'', ''attributes'', ''discovered_at'', ''last_seen'', ''status''] o1
       \<and> req ''id'' nonempty o1 \<and> req ''from'' nonempty o1 \<and> req ''to'' nonempty o1 \<and> req ''type'' nonempty o1
       \<and> optional ''attributes'' is_object o1
       \<and> req ''discovered_at'' (is_str (ya_date_time ya)) o1 \<and> req ''last_seen'' (is_str (ya_date_time ya)) o1
       \<and> req ''status'' status_schema o1
   | _ \<Rightarrow> False)"

definition graph_schema :: "yaml \<Rightarrow> jsval \<Rightarrow> bool" where
  "graph_schema ya v \<longleftrightarrow> (case v of
     JObj o1 \<Rightarrow> closed [''version'', ''entities'', ''edges''] o1 \<and> req ''version'' (\<lambda>x. x = JInt 2) o1
       \<and> req ''entities'' (is_array (entity_schema ya)) o1 \<and> req ''edges'' (is_array (edge_schema ya)) o1
   | _ \<Rightarrow> False)"

text \<open>\<open>parsed as GraphDocument\<close>: reading a document's properties.\<close>

definition members_of :: "jsval \<Rightarrow> attributes" where
  "members_of v = (case v of JObj o1 \<Rightarrow> o1 | _ \<Rightarrow> [])"

definition str_of :: "jsval option \<Rightarrow> string" where
  "str_of v = (case v of Some (JStr s) \<Rightarrow> s | _ \<Rightarrow> [])"

definition opt_str :: "jsval option \<Rightarrow> string option" where
  "opt_str v = (case v of Some (JStr s) \<Rightarrow> Some s | _ \<Rightarrow> None)"

definition opt_members :: "jsval option \<Rightarrow> attributes option" where
  "opt_members v = (case v of Some (JObj o1) \<Rightarrow> Some o1 | _ \<Rightarrow> None)"

definition elements_of :: "jsval option \<Rightarrow> jsval list" where
  "elements_of v = (case v of Some (JArr vs) \<Rightarrow> vs | _ \<Rightarrow> [])"

definition status_of :: "string \<Rightarrow> graph_status" where
  "status_of s = (if s = ''stale'' then Stale else if s = ''gone'' then Gone else Active)"

definition as_entity :: "jsval \<Rightarrow> entity" where
  "as_entity v = (let get = jm_get (members_of v) in
    \<lparr>en_id = str_of (get ''id''), en_kind = str_of (get ''kind''), en_name = str_of (get ''name''),
     en_attrs = (case opt_members (get ''attributes'') of Some o1 \<Rightarrow> o1 | None \<Rightarrow> []),
     en_source = str_of (get ''source''), en_platform = opt_str (get ''platformId''),
     en_discovered = str_of (get ''discovered_at''), en_seen = str_of (get ''last_seen''),
     en_status = status_of (str_of (get ''status''))\<rparr>)"

definition as_edge :: "jsval \<Rightarrow> edge" where
  "as_edge v = (let get = jm_get (members_of v) in
    \<lparr>ed_id = str_of (get ''id''), ed_from = str_of (get ''from''), ed_to = str_of (get ''to''),
     ed_type = str_of (get ''type''), ed_attrs = opt_members (get ''attributes''),
     ed_discovered = str_of (get ''discovered_at''), ed_seen = str_of (get ''last_seen''),
     ed_status = status_of (str_of (get ''status''))\<rparr>)"

definition as_graph :: "jsval \<Rightarrow> graph" where
  "as_graph v =
    \<lparr>gr_entities = map as_entity (elements_of (jm_get (members_of v) ''entities'')),
     gr_edges = map as_edge (elements_of (jm_get (members_of v) ''edges''))\<rparr>"

text \<open>The documents that pass, in terms of their fields.\<close>

definition entity_valid :: "yaml \<Rightarrow> entity \<Rightarrow> bool" where
  "entity_valid ya e \<longleftrightarrow> en_id e \<noteq> [] \<and> en_kind e \<noteq> [] \<and> en_name e \<noteq> [] \<and> en_source e \<noteq> []
     \<and> ya_date_time ya (en_discovered e) \<and> ya_date_time ya (en_seen e)"

definition edge_valid :: "yaml \<Rightarrow> edge \<Rightarrow> bool" where
  "edge_valid ya e \<longleftrightarrow> ed_id e \<noteq> [] \<and> ed_from e \<noteq> [] \<and> ed_to e \<noteq> [] \<and> ed_type e \<noteq> []
     \<and> ya_date_time ya (ed_discovered e) \<and> ya_date_time ya (ed_seen e)"

definition graph_valid :: "yaml \<Rightarrow> graph \<Rightarrow> bool" where
  "graph_valid ya g \<longleftrightarrow> list_all (entity_valid ya) (gr_entities g) \<and> list_all (edge_valid ya) (gr_edges g)"

named_theorems schema_simps \<open>evaluation of the schema predicates on a typed document\<close>

declare req_def [schema_simps] optional_def [schema_simps] closed_def [schema_simps] is_str_def [schema_simps]
  is_object_def [schema_simps] is_array_def [schema_simps] status_schema_def [schema_simps]
  opt_member_def [schema_simps] members_of_def [schema_simps] str_of_def [schema_simps]
  opt_str_def [schema_simps] opt_members_def [schema_simps] elements_of_def [schema_simps]

lemma status_str_in [simp]: "status_str s \<in> {''active'', ''stale'', ''gone''}" "status_of (status_str s) = s"
  by (cases s; simp add: status_of_def)+

lemma entity_schema_json: "entity_schema ya (entity_json e) \<longleftrightarrow> entity_valid ya e"
  using status_str_in(1) [of "en_status e"]
  by (simp add: entity_schema_def entity_json_def entity_valid_def schema_simps split: option.split)

lemma edge_schema_json: "edge_schema ya (edge_json e) \<longleftrightarrow> edge_valid ya e"
  using status_str_in(1) [of "ed_status e"]
  by (simp add: edge_schema_def edge_json_def edge_valid_def schema_simps split: option.split)

lemma graph_schema_json: "graph_schema ya (graph_json g) \<longleftrightarrow> graph_valid ya g"
  by (simp add: graph_schema_def graph_json_def graph_valid_def schema_simps list.pred_map comp_def
      entity_schema_json edge_schema_json)

lemma as_entity_json [simp]: "as_entity (entity_json e) = e"
  by (cases e) (simp add: as_entity_def entity_json_def Let_def schema_simps split: option.split)

lemma as_edge_json [simp]: "as_edge (edge_json e) = e"
  by (cases e) (simp add: as_edge_def edge_json_def Let_def schema_simps split: option.split)

lemma as_graph_json [simp]: "as_graph (graph_json g) = g"
  by (cases g) (simp add: as_graph_def graph_json_def schema_simps comp_def)
text \<open>The cast loses nothing: a value the schema accepts and the typed document have the same properties.\<close>

lemma req_str: "req k (is_str P) kvs \<Longrightarrow> \<exists>s. jm_get kvs k = Some (JStr s) \<and> P s"
  by (auto simp: schema_simps split: option.splits jsval.splits)

lemma req_object: "req k is_object kvs \<Longrightarrow> \<exists>o1. jm_get kvs k = Some (JObj o1)"
  by (auto simp: schema_simps split: option.splits jsval.splits)

lemma optional_str: "optional k (is_str P) kvs \<Longrightarrow> jm_get kvs k = None \<or> (\<exists>s. jm_get kvs k = Some (JStr s) \<and> P s)"
  by (auto simp: schema_simps split: option.splits jsval.splits)

lemma closed_get: "closed ks kvs \<Longrightarrow> k \<notin> set ks \<Longrightarrow> jm_get kvs k = None"
  by (auto simp: closed_def list_all_iff map_of_eq_None_iff)

lemma entity_cast_exact:
  assumes "entity_schema ya v"
  shows "jm_get (members_of (entity_json (as_entity v))) k = jm_get (members_of v) k \<and> entity_valid ya (as_entity v)"
proof -
  obtain kvs where v: "v = JObj kvs" using assms by (auto simp: entity_schema_def split: jsval.splits)
  note sch = assms [unfolded v entity_schema_def, simplified]
  obtain i where i: "jm_get kvs ''id'' = Some (JStr i)" "i \<noteq> []"
    using sch req_str [of "''id''"] unfolding status_schema_def by blast
  obtain ki where ki: "jm_get kvs ''kind'' = Some (JStr ki)" "ki \<noteq> []"
    using sch req_str [of "''kind''"] unfolding status_schema_def by blast
  obtain n where n: "jm_get kvs ''name'' = Some (JStr n)" "n \<noteq> []"
    using sch req_str [of "''name''"] unfolding status_schema_def by blast
  obtain sr where sr: "jm_get kvs ''source'' = Some (JStr sr)" "sr \<noteq> []"
    using sch req_str [of "''source''"] unfolding status_schema_def by blast
  obtain d where d: "jm_get kvs ''discovered_at'' = Some (JStr d)" "ya_date_time ya d"
    using sch req_str [of "''discovered_at''"] unfolding status_schema_def by blast
  obtain l where l: "jm_get kvs ''last_seen'' = Some (JStr l)" "ya_date_time ya l"
    using sch req_str [of "''last_seen''"] unfolding status_schema_def by blast
  obtain st where st: "jm_get kvs ''status'' = Some (JStr st)" "st \<in> {''active'', ''stale'', ''gone''}"
    using sch req_str [of "''status''"] unfolding status_schema_def by blast
  obtain o1 where attrs: "jm_get kvs ''attributes'' = Some (JObj o1)" using sch req_object by blast
  have platform: "jm_get kvs ''platformId'' = None \<or> (\<exists>p. jm_get kvs ''platformId'' = Some (JStr p))"
    using sch optional_str by blast
  have status: "status_str (status_of st) = st" using st(2) by (auto simp: status_of_def)
  have rest: "jm_get kvs k = None" if "k \<notin> set [''id'', ''kind'', ''name'', ''attributes'', ''source'', ''platformId'',
      ''discovered_at'', ''last_seen'', ''status'']"
    using that sch closed_get by blast
  have "jm_get (members_of (entity_json (as_entity v))) k = jm_get kvs k"
    using i(1) ki(1) n(1) sr(1) d(1) l(1) st(1) attrs platform status rest
    by (cases "k = ''platformId''") (auto simp: as_entity_def entity_json_def Let_def v schema_simps)
  then show ?thesis using i ki n sr d l attrs by (simp add: entity_valid_def as_entity_def v Let_def schema_simps)
qed

lemma edge_cast_valid: "edge_schema ya v \<Longrightarrow> edge_valid ya (as_edge v)"
  unfolding edge_schema_def edge_valid_def as_edge_def Let_def
  by (auto simp: members_of_def str_of_def dest!: req_str split: jsval.splits)

section \<open>Lists of elements by id\<close>

text \<open>\<open>find\<close>, and \<open>findIndex\<close> with an update in place or a \<open>push\<close>.\<close>

definition lookup_by :: "('a \<Rightarrow> string) \<Rightarrow> string \<Rightarrow> 'a list \<Rightarrow> 'a option" where
  "lookup_by key i xs = find (\<lambda>x. key x = i) xs"

fun upsert_by :: "('a \<Rightarrow> string) \<Rightarrow> ('a \<Rightarrow> 'a \<Rightarrow> 'a) \<Rightarrow> 'a \<Rightarrow> 'a list \<Rightarrow> 'a list" where
  "upsert_by key merge x [] = [x]"
| "upsert_by key merge x (y # ys) = (if key y = key x then merge y x # ys else y # upsert_by key merge x ys)"

text \<open>
  The contract of a collection whose \<open>upsert\<close> merges an element over the one of the same id: the
  lookup of the id finds the merged element, every other lookup is as before.
\<close>

locale merging_store =
  fixes key :: "'a \<Rightarrow> string"
    and merge :: "'a \<Rightarrow> 'a \<Rightarrow> 'a"
    and get :: "string \<Rightarrow> 'm \<Rightarrow> 'a option"
    and upsert :: "'a \<Rightarrow> 'm \<Rightarrow> 'm"
  assumes get_upsert:
      "get i (upsert x m) = (if i = key x then Some (case get i m of None \<Rightarrow> x | Some y \<Rightarrow> merge y x) else get i m)"
    and key_merge: "key (merge y x) = key x"
begin

lemma upsert_keeps: "get i m \<noteq> None \<Longrightarrow> get i (upsert x m) \<noteq> None"
  by (simp add: get_upsert)

lemma upserts_keep: "get i m \<noteq> None \<Longrightarrow> get i (fold upsert xs m) \<noteq> None"
  by (induction xs arbitrary: m) (auto simp: get_upsert)

lemma upserts_other: "i \<notin> key ` set xs \<Longrightarrow> get i (fold upsert xs m) = get i m"
  by (induction xs arbitrary: m) (auto simp: get_upsert)

lemma upserts_present: "x \<in> set xs \<Longrightarrow> get (key x) (fold upsert xs m) \<noteq> None"
proof (induction xs arbitrary: m)
  case (Cons y ys)
  show ?case
  proof (cases "x = y")
    case True
    have "get (key y) (upsert y m) \<noteq> None" by (simp add: get_upsert)
    then show ?thesis using True upserts_keep [of "key y" "upsert y m" ys] by simp
  next
    case False
    then show ?thesis using Cons by simp
  qed
qed simp

lemma upserts_distinct:
  "distinct (map key xs) \<Longrightarrow> x \<in> set xs
   \<Longrightarrow> get (key x) (fold upsert xs m) = Some (case get (key x) m of None \<Rightarrow> x | Some y \<Rightarrow> merge y x)"
proof (induction xs arbitrary: m)
  case (Cons y ys)
  show ?case
  proof (cases "x = y")
    case True
    then show ?thesis using Cons.prems upserts_other [of "key x" ys "upsert x m"] by (auto simp: get_upsert)
  next
    case False
    then have "x \<in> set ys" "key x \<noteq> key y" using Cons.prems by (auto simp: rev_image_eqI)
    then show ?thesis using Cons.IH [of "upsert y m"] Cons.prems by (simp add: get_upsert)
  qed
qed simp

lemma upsert_swap:
  "key x \<noteq> key y \<Longrightarrow> get i (upsert x (upsert y m)) = get i (upsert y (upsert x m))"
  by (auto simp: get_upsert)

end

lemma lookup_upsert:
  assumes "\<And>y. key (merge y x) = key x"
  shows "lookup_by key i (upsert_by key merge x xs)
    = (if i = key x then Some (case lookup_by key i xs of None \<Rightarrow> x | Some y \<Rightarrow> merge y x) else lookup_by key i xs)"
  using assms by (induction xs) (auto simp: lookup_by_def)

lemma lookup_member: "lookup_by key i xs = Some y \<Longrightarrow> y \<in> set xs \<and> key y = i"
  by (induction xs) (auto simp: lookup_by_def split: if_splits)

lemma upsert_members:
  "set (upsert_by key merge x xs) \<subseteq> insert x (set xs) \<union> {merge y x | y. y \<in> set xs}"
  by (induction xs) auto

lemma upsert_length:
  "length (upsert_by key merge x xs) = (if lookup_by key (key x) xs = None then Suc (length xs) else length xs)"
  by (induction xs) (auto simp: lookup_by_def)

lemma upsert_keys:
  assumes "\<And>y. key (merge y x) = key x"
  shows "map key (upsert_by key merge x xs)
    = (if key x \<in> set (map key xs) then map key xs else map key xs @ [key x])"
  using assms by (induction xs) auto

text \<open>\<open>{ ...old, ...new }\<close>: an optional property the new element does not have is kept.\<close>

definition merge_entity :: "entity \<Rightarrow> entity \<Rightarrow> entity" where
  "merge_entity old new =
    new\<lparr>en_platform := (case en_platform new of None \<Rightarrow> en_platform old | Some p \<Rightarrow> Some p)\<rparr>"

definition merge_edge :: "edge \<Rightarrow> edge \<Rightarrow> edge" where
  "merge_edge old new = new\<lparr>ed_attrs := (case ed_attrs new of None \<Rightarrow> ed_attrs old | Some a \<Rightarrow> Some a)\<rparr>"

interpretation entities: merging_store en_id merge_entity "lookup_by en_id" "upsert_by en_id merge_entity"
  by unfold_locales (simp_all add: lookup_upsert merge_entity_def)

interpretation edges: merging_store ed_id merge_edge "lookup_by ed_id" "upsert_by ed_id merge_edge"
  by unfold_locales (simp_all add: lookup_upsert merge_edge_def)
section \<open>The store\<close>

text \<open>The graph file: absent, unreadable, or with a YAML text. \<open>write_ok\<close> says whether the atomic write
  succeeds; when it does not, the file is as before (theory \<open>Files\<close>).\<close>

type_synonym graph_file = "string disk_file"

definition read_graph :: "yaml \<Rightarrow> graph_file \<Rightarrow> graph res" where
  "read_graph ya f =
    (case f of
       Absent \<Rightarrow> Inr empty_graph
     | Unreadable e \<Rightarrow> Inl (IoError e)
     | Content raw \<Rightarrow>
         (case ya_load ya raw of
            Inl m \<Rightarrow> Inl (GraphStoreError ''INVALID_GRAPH'' (''failed to parse graph YAML: '' @ m))
          | Inr v \<Rightarrow>
              if v = JNull \<or> v = JUndef then Inr empty_graph
              else if \<not> graph_schema ya v
              then Inl (GraphStoreError ''INVALID_GRAPH'' (''graph failed schema validation: '' @ ya_errors ya v))
              else Inr (as_graph v)))"

definition write_graph :: "yaml \<Rightarrow> bool \<Rightarrow> graph \<Rightarrow> graph_file \<Rightarrow> graph_file \<times> unit res" where
  "write_graph ya write_ok g f =
    (if \<not> graph_schema ya (graph_json g)
     then (f, Inl (GraphStoreError ''INVALID_GRAPH'' (''refusing to write invalid graph: '' @ ya_errors ya (graph_json g))))
     else (case ya_dump ya (graph_json g) of
         Inl m \<Rightarrow> (f, Inl (Error m))
       | Inr t \<Rightarrow> if write_ok then (Content t, Inr ()) else (f, Inl (IoError ''EIO''))))"

definition upsert_entity :: "yaml \<Rightarrow> bool \<Rightarrow> entity \<Rightarrow> graph_file \<Rightarrow> graph_file \<times> unit res" where
  "upsert_entity ya write_ok e f =
    (case read_graph ya f of
       Inl err \<Rightarrow> (f, Inl err)
     | Inr g \<Rightarrow> write_graph ya write_ok (g\<lparr>gr_entities := upsert_by en_id merge_entity e (gr_entities g)\<rparr>) f)"

definition upsert_edge :: "yaml \<Rightarrow> bool \<Rightarrow> edge \<Rightarrow> graph_file \<Rightarrow> graph_file \<times> unit res" where
  "upsert_edge ya write_ok e f =
    (case read_graph ya f of
       Inl err \<Rightarrow> (f, Inl err)
     | Inr g \<Rightarrow> write_graph ya write_ok (g\<lparr>gr_edges := upsert_by ed_id merge_edge e (gr_edges g)\<rparr>) f)"

definition get_entity :: "yaml \<Rightarrow> string \<Rightarrow> graph_file \<Rightarrow> entity option res" where
  "get_entity ya i f = rbind (read_graph ya f) (\<lambda>g. Inr (lookup_by en_id i (gr_entities g)))"

definition entities_by_kind :: "yaml \<Rightarrow> string \<Rightarrow> graph_file \<Rightarrow> entity list res" where
  "entities_by_kind ya k f = rbind (read_graph ya f) (\<lambda>g. Inr (filter (\<lambda>e. en_kind e = k) (gr_entities g)))"

definition incident :: "string \<Rightarrow> string option \<Rightarrow> graph \<Rightarrow> edge list" where
  "incident i ty g =
    filter (\<lambda>e. case ty of Some t \<Rightarrow> ed_type e = t | None \<Rightarrow> True)
      (filter (\<lambda>e. ed_from e = i \<or> ed_to e = i) (gr_edges g))"

definition edges_of :: "yaml \<Rightarrow> string \<Rightarrow> string option \<Rightarrow> graph_file \<Rightarrow> edge list res" where
  "edges_of ya i ty f = rbind (read_graph ya f) (\<lambda>g. Inr (incident i ty g))"

definition neighbors_in :: "string \<Rightarrow> string option \<Rightarrow> graph \<Rightarrow> entity list" where
  "neighbors_in i ty g =
    (let ids = map (\<lambda>e. if ed_from e = i then ed_to e else ed_from e) (incident i ty g) in
     filter (\<lambda>e. en_id e \<in> set ids) (gr_entities g))"

definition neighbors :: "yaml \<Rightarrow> string \<Rightarrow> string option \<Rightarrow> graph_file \<Rightarrow> entity list res" where
  "neighbors ya i ty f = rbind (read_graph ya f) (\<lambda>g. Inr (neighbors_in i ty g))"

definition all_graph :: "yaml \<Rightarrow> graph_file \<Rightarrow> graph res" where
  "all_graph ya f = read_graph ya f"

section \<open>What the store keeps\<close>

text \<open>The library's contract: a text it dumps from a JSON value loads as that value, and what it loads is a
  JSON value or nothing.\<close>

definition yaml_ok :: "yaml \<Rightarrow> bool" where
  "yaml_ok ya \<longleftrightarrow> (\<forall>v t. is_json v \<longrightarrow> ya_dump ya v = Inr t \<longrightarrow> ya_load ya t = Inr v)
     \<and> (\<forall>v t. ya_load ya t = Inr v \<longrightarrow> is_json v \<or> v = JUndef)"

definition entity_plain :: "entity \<Rightarrow> bool" where
  "entity_plain e \<longleftrightarrow> list_all (\<lambda>kv. is_json (snd kv)) (en_attrs e)"

definition edge_plain :: "edge \<Rightarrow> bool" where
  "edge_plain e \<longleftrightarrow> (case ed_attrs e of Some kvs \<Rightarrow> list_all (\<lambda>kv. is_json (snd kv)) kvs | None \<Rightarrow> True)"

definition graph_plain :: "graph \<Rightarrow> bool" where
  "graph_plain g \<longleftrightarrow> list_all entity_plain (gr_entities g) \<and> list_all edge_plain (gr_edges g)"

definition dumps :: "yaml \<Rightarrow> jsval \<Rightarrow> bool" where
  "dumps ya v \<longleftrightarrow> (case ya_dump ya v of Inr _ \<Rightarrow> True | Inl _ \<Rightarrow> False)"

lemma graph_json_not_null [simp]: "graph_json g \<noteq> JNull" "graph_json g \<noteq> JUndef"
  by (simp_all add: graph_json_def)

lemma is_json_entity: "is_json (entity_json e) \<longleftrightarrow> entity_plain e"
  by (auto simp: entity_json_def entity_plain_def opt_member_def all_json_members_iff list_all_iff split: option.split)

lemma is_json_edge: "is_json (edge_json e) \<longleftrightarrow> edge_plain e"
  by (auto simp: edge_json_def edge_plain_def opt_member_def all_json_members_iff list_all_iff split: option.split)

lemma is_json_graph: "is_json (graph_json g) \<longleftrightarrow> graph_plain g"
  by (simp add: graph_json_def graph_plain_def all_json_iff list_all_iff is_json_entity is_json_edge)

lemma is_json_get: "is_json (JObj kvs) \<Longrightarrow> jm_get kvs k = Some v \<Longrightarrow> is_json v"
  by (auto simp: all_json_members_iff dest!: map_of_SomeD)

lemma plain_read:
  assumes "is_json v"
  shows "graph_plain (as_graph v)"
proof -
  have "list_all is_json (elements_of (jm_get (members_of v) k))" for k
  proof (cases "jm_get (members_of v) k")
    case (Some x)
    then have "is_json x" using assms is_json_get by (cases v) (auto simp: members_of_def)
    then show ?thesis using Some by (cases x) (auto simp: elements_of_def all_json_iff list_all_iff)
  qed (simp add: elements_of_def)
  moreover have "entity_plain (as_entity x)" if "is_json x" for x
    using that is_json_get [of _ "''attributes''"]
    by (fastforce simp: entity_plain_def as_entity_def Let_def members_of_def opt_members_def list_all_iff
        all_json_members_iff split: jsval.splits option.splits)
  moreover have "edge_plain (as_edge x)" if "is_json x" for x
    using that is_json_get [of _ "''attributes''"]
    by (fastforce simp: edge_plain_def as_edge_def Let_def members_of_def opt_members_def list_all_iff
        all_json_members_iff split: jsval.splits option.splits)
  ultimately show ?thesis by (simp add: graph_plain_def as_graph_def list_all_iff)
qed

lemma write_graph_result:
  assumes "yaml_ok ya" "graph_plain g" "write_graph ya ok g f = (f', r)"
  shows "(case r of Inl e \<Rightarrow> f' = f | Inr _ \<Rightarrow> read_graph ya f' = Inr g)"
    and "r = Inr () \<longleftrightarrow> graph_valid ya g \<and> dumps ya (graph_json g) \<and> ok"
proof -
  have load: "ya_dump ya (graph_json g) = Inr t \<Longrightarrow> ya_load ya t = Inr (graph_json g)" for t
    using assms(1,2) is_json_graph unfolding yaml_ok_def by blast
  show "case r of Inl e \<Rightarrow> f' = f | Inr _ \<Rightarrow> read_graph ya f' = Inr g"
    using assms(3) load by (auto simp: write_graph_def read_graph_def split: if_splits sum.splits)
  show "r = Inr () \<longleftrightarrow> graph_valid ya g \<and> dumps ya (graph_json g) \<and> ok"
    using assms(3) by (auto simp: write_graph_def dumps_def graph_schema_json split: if_splits sum.splits)
qed

text \<open>What a read returns passes the schema and holds JSON values.\<close>

lemma graph_cast_valid: "graph_schema ya v \<Longrightarrow> graph_valid ya (as_graph v)"
  using entity_cast_exact edge_cast_valid
  by (auto simp: graph_schema_def graph_valid_def as_graph_def req_def is_array_def members_of_def elements_of_def
      list_all_iff split: jsval.splits option.splits)

lemma read_graph_good:
  assumes "yaml_ok ya" "read_graph ya f = Inr g"
  shows "graph_valid ya g \<and> graph_plain g"
proof -
  have "graph_valid ya empty_graph" "graph_plain empty_graph"
    by (simp_all add: graph_plain_def graph_valid_def empty_graph_def)
  then show ?thesis
    using assms plain_read graph_cast_valid
    by (auto simp: read_graph_def yaml_ok_def split: disk_file.splits sum.splits if_splits)
qed

text \<open>Both writes as one operation on the document.\<close>

datatype graph_op = PutEntity entity | PutEdge edge

fun apply_op :: "graph_op \<Rightarrow> graph \<Rightarrow> graph" where
  "apply_op (PutEntity e) g = g\<lparr>gr_entities := upsert_by en_id merge_entity e (gr_entities g)\<rparr>"
| "apply_op (PutEdge e) g = g\<lparr>gr_edges := upsert_by ed_id merge_edge e (gr_edges g)\<rparr>"

fun store_op :: "yaml \<Rightarrow> bool \<Rightarrow> graph_op \<Rightarrow> graph_file \<Rightarrow> graph_file \<times> unit res" where
  "store_op ya ok (PutEntity e) f = upsert_entity ya ok e f"
| "store_op ya ok (PutEdge e) f = upsert_edge ya ok e f"

fun op_good :: "yaml \<Rightarrow> graph_op \<Rightarrow> bool" where
  "op_good ya (PutEntity e) = (entity_valid ya e \<and> entity_plain e)"
| "op_good ya (PutEdge e) = (edge_valid ya e \<and> edge_plain e)"

lemma store_op_eq:
  "store_op ya ok x f = (case read_graph ya f of Inl err \<Rightarrow> (f, Inl err) | Inr g \<Rightarrow> write_graph ya ok (apply_op x g) f)"
  by (cases x) (auto simp: upsert_entity_def upsert_edge_def split: sum.split)

lemma merge_plain [simp]:
  "entity_plain (merge_entity old new) \<longleftrightarrow> entity_plain new" "entity_valid ya (merge_entity old new) \<longleftrightarrow> entity_valid ya new"
  "edge_plain o1 \<Longrightarrow> edge_plain n1 \<Longrightarrow> edge_plain (merge_edge o1 n1)"
  "edge_valid ya (merge_edge o1 n1) \<longleftrightarrow> edge_valid ya n1"
  by (auto simp: entity_plain_def entity_valid_def edge_plain_def edge_valid_def merge_entity_def merge_edge_def
      split: option.splits)

lemma apply_op_plain: "op_good ya x \<Longrightarrow> graph_plain g \<Longrightarrow> graph_plain (apply_op x g)"
  by (cases x) (auto simp: graph_plain_def list_all_iff dest!: upsert_members [THEN subsetD])

lemma apply_op_valid: "op_good ya x \<Longrightarrow> graph_valid ya g \<Longrightarrow> graph_valid ya (apply_op x g)"
  by (cases x) (auto simp: graph_valid_def list_all_iff dest!: upsert_members [THEN subsetD])

lemma apply_op_good:
  "op_good ya x \<Longrightarrow> graph_valid ya g \<and> graph_plain g \<Longrightarrow> graph_valid ya (apply_op x g) \<and> graph_plain (apply_op x g)"
  using apply_op_plain apply_op_valid by blast

lemma store_op_result:
  assumes "yaml_ok ya" "op_good ya x" "store_op ya ok x f = (f', r)"
  shows "case r of Inl e \<Rightarrow> f' = f
    | Inr _ \<Rightarrow> \<exists>g. read_graph ya f = Inr g \<and> read_graph ya f' = Inr (apply_op x g)"
proof (cases "read_graph ya f")
  case (Inr g)
  then have "graph_plain (apply_op x g)" using read_graph_good [OF assms(1)] apply_op_good [OF assms(2)] by blast
  then show ?thesis
    using Inr assms(3) write_graph_result(1) [OF assms(1), of "apply_op x g" ok f f' r]
    by (auto simp: store_op_eq split: sum.splits)
qed (use assms in \<open>auto simp: store_op_eq\<close>)

definition run_ops :: "yaml \<Rightarrow> (bool \<times> graph_op) list \<Rightarrow> graph_file \<Rightarrow> graph_file" where
  "run_ops ya xs f = fold (\<lambda>(ok, x) f1. fst (store_op ya ok x f1)) xs f"

lemma run_ops_simps [simp]:
  "run_ops ya [] f = f" "run_ops ya ((ok, x) # xs) f = run_ops ya xs (fst (store_op ya ok x f))"
  by (simp_all add: run_ops_def)

text \<open>The ids of the entities and those of the edges.\<close>

definition ids_of :: "graph \<Rightarrow> (string + string) set" where
  "ids_of g = Inl ` en_id ` set (gr_entities g) \<union> Inr ` ed_id ` set (gr_edges g)"

lemma apply_op_ids: "ids_of g \<subseteq> ids_of (apply_op x g)"
proof (cases x)
  case (PutEntity e)
  then show ?thesis
    using upsert_keys [where key = en_id and merge = merge_entity and x = e and xs = "gr_entities g", OF entities.key_merge]
    by (auto simp: ids_of_def simp flip: set_map split: if_splits)
next
  case (PutEdge e)
  then show ?thesis
    using upsert_keys [where key = ed_id and merge = merge_edge and x = e and xs = "gr_edges g", OF edges.key_merge]
    by (auto simp: ids_of_def simp flip: set_map split: if_splits)
qed

fun op_plain :: "graph_op \<Rightarrow> bool" where
  "op_plain (PutEntity e) = entity_plain e"
| "op_plain (PutEdge e) = edge_plain e"

lemma plain_op: "op_plain x \<Longrightarrow> graph_plain g \<Longrightarrow> graph_plain (apply_op x g)"
  by (cases x) (auto simp: graph_plain_def list_all_iff dest!: upsert_members [THEN subsetD])

lemma store_op_plain_result:
  assumes "yaml_ok ya" "op_plain x" "read_graph ya f = Inr g" "store_op ya ok x f = (f', r)"
  shows "read_graph ya f' = Inr (case r of Inr _ \<Rightarrow> apply_op x g | Inl _ \<Rightarrow> g)"
proof -
  have "graph_plain (apply_op x g)" using plain_op [OF assms(2)] read_graph_good [OF assms(1,3)] by blast
  from write_graph_result(1) [OF assms(1) this, of ok f f' r] show ?thesis
    using assms(3,4) by (auto simp: store_op_eq split: sum.splits)
qed

fun op_valid :: "yaml \<Rightarrow> graph_op \<Rightarrow> bool" where
  "op_valid ya (PutEntity e) = entity_valid ya e"
| "op_valid ya (PutEdge e) = edge_valid ya e"

lemma apply_valid_iff:
  assumes "graph_valid ya g"
  shows "graph_valid ya (apply_op x g) \<longleftrightarrow> op_valid ya x"
proof (cases x)
  case (PutEntity e)
  obtain m where m: "m \<in> set (gr_entities (apply_op x g))" "entity_valid ya m \<longleftrightarrow> entity_valid ya e"
    using PutEntity lookup_member [of en_id "en_id e" "gr_entities (apply_op x g)"]
    by (fastforce simp: entities.get_upsert split: option.splits)
  have "entity_valid ya e" if "graph_valid ya (apply_op x g)" using that m by (auto simp: graph_valid_def list_all_iff)
  moreover have "graph_valid ya (apply_op x g)" if "entity_valid ya e"
    using that assms PutEntity by (auto simp: graph_valid_def list_all_iff dest!: upsert_members [THEN subsetD])
  ultimately show ?thesis using PutEntity by auto
next
  case (PutEdge e)
  obtain m where m: "m \<in> set (gr_edges (apply_op x g))" "edge_valid ya m \<longleftrightarrow> edge_valid ya e"
    using PutEdge lookup_member [of ed_id "ed_id e" "gr_edges (apply_op x g)"]
    by (fastforce simp: edges.get_upsert split: option.splits)
  have "edge_valid ya e" if "graph_valid ya (apply_op x g)" using that m by (auto simp: graph_valid_def list_all_iff)
  moreover have "graph_valid ya (apply_op x g)" if "edge_valid ya e"
    using that assms PutEdge by (auto simp: graph_valid_def list_all_iff dest!: upsert_members [THEN subsetD])
  ultimately show ?thesis using PutEdge by auto
qed

text \<open>The operations of a run that did not fail.\<close>

fun accepted :: "yaml \<Rightarrow> (bool \<times> graph_op) list \<Rightarrow> graph_file \<Rightarrow> graph_op list" where
  "accepted ya [] f = []"
| "accepted ya ((ok, x) # xs) f =
     (case store_op ya ok x f of
        (f1, Inr _) \<Rightarrow> x # accepted ya xs f1
      | (f1, Inl _) \<Rightarrow> accepted ya xs f1)"

text \<open>
  C27: Starting from a file the store can read, no sequence of upserts of any elements, valid or not, and
  whichever of their writes fail, makes it unreadable or loses an element. Every later document passes
  the schema, is the old one with the upserts that did not fail, and only those, applied in order, all of
  them of elements that fit the schema, and so holds every entity id and every edge id that was there.
  The attributes are JSON data, and the YAML library loads what it dumped.
\<close>

lemma graph_never_forgets:
  assumes "yaml_ok ya" "read_graph ya f = Inr g" "list_all (\<lambda>(ok, x). op_plain x) xs"
  shows "\<exists>g'. read_graph ya (run_ops ya xs f) = Inr g' \<and> graph_valid ya g'
    \<and> g' = fold apply_op (accepted ya xs f) g \<and> list_all (op_valid ya) (accepted ya xs f)
    \<and> ids_of g \<subseteq> ids_of g'"
  using assms(2,3)
proof (induction xs arbitrary: f g)
  case Nil
  then show ?case using read_graph_good [OF assms(1)] by auto
next
  case (Cons y xs)
  obtain ok x where y: "y = (ok, x)" by fastforce
  obtain f1 r where op: "store_op ya ok x f = (f1, r)" by fastforce
  have plain: "op_plain x" "list_all (\<lambda>(ok, x). op_plain x) xs" using Cons.prems y by auto
  note r1 = store_op_plain_result [OF assms(1) plain(1) Cons.prems(1) op]
  have g: "graph_valid ya g" using read_graph_good [OF assms(1) Cons.prems(1)] by simp
  show ?case
  proof (cases r)
    case (Inl e)
    then show ?thesis using Cons.IH [of f1 g] r1 plain y op by simp
  next
    case (Inr u)
    then have "graph_valid ya (apply_op x g)" using read_graph_good [OF assms(1), of f1] r1 by simp
    then have "op_valid ya x" using apply_valid_iff [OF g] by simp
    then show ?thesis
      using Cons.IH [of f1 "apply_op x g"] r1 plain(2) y op Inr apply_op_ids [of g x] by auto
  qed
qed

text \<open>
  A successful upsert writes the merged element and nothing else changes: the lookup of its id
  finds the new element, with the old platform when it names none, every other id is as before, the
  edges are the same, and the list grows only when the id is new. It succeeds exactly when the
  element is valid and the write does.
\<close>

lemma upsert_entity_exact:
  assumes "yaml_ok ya" "read_graph ya f = Inr g" "entity_plain e" "\<forall>v. is_json v \<longrightarrow> dumps ya v"
    and "upsert_entity ya ok e f = (f', r)"
  shows "(r = Inr () \<longleftrightarrow> entity_valid ya e \<and> ok)
    \<and> (r \<noteq> Inr () \<longrightarrow> f' = f)
    \<and> (r = Inr () \<longrightarrow> (\<exists>g'. read_graph ya f' = Inr g' \<and> gr_edges g' = gr_edges g
        \<and> (\<forall>i. lookup_by en_id i (gr_entities g') =
             (if i = en_id e
              then Some (case lookup_by en_id i (gr_entities g) of None \<Rightarrow> e | Some old \<Rightarrow> merge_entity old e)
              else lookup_by en_id i (gr_entities g)))
        \<and> length (gr_entities g') = (if lookup_by en_id (en_id e) (gr_entities g) = None
             then Suc (length (gr_entities g)) else length (gr_entities g))))"
proof -
  let ?g = "apply_op (PutEntity e) g"
  note old = read_graph_good [OF assms(1,2)]
  have plain: "graph_plain ?g"
    using old assms(3) by (auto simp: graph_plain_def list_all_iff dest!: upsert_members [THEN subsetD])
  let ?m = "case lookup_by en_id (en_id e) (gr_entities g) of None \<Rightarrow> e | Some old \<Rightarrow> merge_entity old e"
  have "lookup_by en_id (en_id e) (gr_entities ?g) = Some ?m" by (simp add: entities.get_upsert)
  then have member: "?m \<in> set (gr_entities ?g)" using lookup_member by metis
  have m_valid: "entity_valid ya ?m \<longleftrightarrow> entity_valid ya e" by (simp split: option.split)
  have valid: "graph_valid ya ?g \<longleftrightarrow> entity_valid ya e"
  proof
    assume "graph_valid ya ?g"
    then show "entity_valid ya e" using member m_valid unfolding graph_valid_def list_all_iff by blast
  next
    assume "entity_valid ya e"
    then show "graph_valid ya ?g" using old assms(3) by (intro apply_op_valid) simp_all
  qed
  have w: "write_graph ya ok ?g f = (f', r)" using assms(2,5) by (simp add: upsert_entity_def)
  have "dumps ya (graph_json ?g)" using assms(4) plain is_json_graph by blast
  then have iff: "r = Inr () \<longleftrightarrow> entity_valid ya e \<and> ok"
    using write_graph_result(2) [OF assms(1) plain w] valid by blast
  have "case r of Inl err \<Rightarrow> f' = f | Inr _ \<Rightarrow> read_graph ya f' = Inr ?g"
    by (rule write_graph_result(1) [OF assms(1) plain w])
  then show ?thesis
    using iff by (cases r) (auto simp: entities.get_upsert upsert_length)
qed

text \<open>Edges name their endpoints in either direction, so being a neighbour is symmetric.\<close>

lemma neighbors_in_iff:
  "n \<in> set (neighbors_in i ty g) \<longleftrightarrow> n \<in> set (gr_entities g)
     \<and> (\<exists>e \<in> set (gr_edges g). (case ty of Some t \<Rightarrow> ed_type e = t | None \<Rightarrow> True)
          \<and> (ed_from e = i \<and> ed_to e = en_id n \<or> ed_to e = i \<and> ed_from e = en_id n))"
  unfolding neighbors_in_def incident_def Let_def set_filter set_map image_iff by auto

lemma neighbors_symmetric:
  assumes "a \<in> set (gr_entities g)" "b \<in> set (gr_entities g)"
  shows "b \<in> set (neighbors_in (en_id a) ty g) \<longleftrightarrow> a \<in> set (neighbors_in (en_id b) ty g)"
  using assms by (auto simp: neighbors_in_iff)

section \<open>Concurrent upserts\<close>

lemma store_ops_fold:
  assumes "yaml_ok ya" "\<forall>v. is_json v \<longrightarrow> dumps ya v" "read_graph ya f = Inr g" "\<forall>i \<in> set qs. op_good ya (ops i)"
  shows "read_graph ya (fold (\<lambda>i f1. fst (store_op ya True (ops i) f1)) qs f) = Inr (fold (\<lambda>i. apply_op (ops i)) qs g)"
  using assms(3,4)
proof (induction qs arbitrary: f g)
  case (Cons i qs)
  have good: "op_good ya (ops i)" using Cons.prems(2) by simp
  obtain f1 r where op: "store_op ya True (ops i) f = (f1, r)" by fastforce
  have "graph_valid ya (apply_op (ops i) g) \<and> graph_plain (apply_op (ops i) g)"
    using read_graph_good [OF assms(1) Cons.prems(1)] apply_op_good [OF good] by blast
  moreover from this have "dumps ya (graph_json (apply_op (ops i) g))" using assms(2) is_json_graph by blast
  ultimately have "r = Inr ()"
    using op Cons.prems(1) write_graph_result(2) [OF assms(1), of "apply_op (ops i) g" True f f1 r]
    by (simp add: store_op_eq)
  then have "read_graph ya f1 = Inr (apply_op (ops i) g)"
    using store_op_result [OF assms(1) good op] Cons.prems(1) by auto
  then show ?case using Cons op by simp
qed simp

lemma apply_entities: "gr_entities (fold (\<lambda>i. apply_op (PutEntity (es i))) qs g) = fold (upsert_by en_id merge_entity) (map es qs) (gr_entities g)"
  by (induction qs arbitrary: g) simp_all

text \<open>
  C28: Any number of \<open>upsertEntity\<close> calls running at once on one file, interleaved in any way under its
  mutex: from every state they reach, all of them can complete, and then the file holds every one of
  their entities, merged over what was there, and everything that was there before.
\<close>

lemma concurrent_upserts_all_kept:
  assumes "yaml_ok ya" "\<forall>v. is_json v \<longrightarrow> dumps ya v" "read_graph ya (init p) = Inr g"
    and "\<forall>i<n. entity_valid ya (es i) \<and> entity_plain (es i)" "inj_on (en_id \<circ> es) {..<n}"
    and "runs_to (\<lambda>_. p) (\<lambda>i f. fst (upsert_entity ya True (es i) f)) (fresh_tasks init) s" "\<forall>k \<ge> n. ta_phase s k = Idle"
  shows "\<exists>s' g'. runs_to (\<lambda>_. p) (\<lambda>i f. fst (upsert_entity ya True (es i) f)) s s'
    \<and> (\<forall>i<n. ta_phase s' i = Finished) \<and> read_graph ya (ta_files s' p) = Inr g'
    \<and> (\<forall>i<n. lookup_by en_id (en_id (es i)) (gr_entities g') =
          Some (case lookup_by en_id (en_id (es i)) (gr_entities g) of None \<Rightarrow> es i | Some old \<Rightarrow> merge_entity old (es i)))
    \<and> (\<forall>j. j \<notin> en_id ` es ` {..<n} \<longrightarrow> lookup_by en_id j (gr_entities g') = lookup_by en_id j (gr_entities g))"
proof -
  let ?job = "\<lambda>i f. fst (upsert_entity ya True (es i) f)"
  obtain s' where s': "runs_to (\<lambda>_. p) ?job s s'" "\<forall>i<n. ta_phase s' i = Finished"
      "distinct (queue_of p s')" "set (queue_of p s') = {..<n}"
      "ta_files s' p = serial ?job (queue_of p s') (init p)"
    using tasks_end [OF assms(6,7)] by (auto simp: lessThan_def)
  let ?q = "queue_of p s'"
  let ?g = "fold (\<lambda>i. apply_op (PutEntity (es i))) ?q g"
  have "read_graph ya (ta_files s' p) = Inr ?g"
    using store_ops_fold [OF assms(1-3), of ?q "\<lambda>i. PutEntity (es i)"] s'(4,5) assms(4) by (simp add: serial_def)
  moreover have "distinct (map en_id (map es ?q))"
    using s'(3,4) assms(5) by (simp add: distinct_map comp_inj_on_iff [symmetric] comp_def inj_on_def)
  ultimately show ?thesis
    using s'(1,2,4) entities.upserts_distinct [of "map es ?q"] entities.upserts_other [of _ "map es ?q"]
    by (intro exI [of _ s'] exI [of _ ?g]) (simp add: apply_entities image_image lessThan_def)
qed
section \<open>Witnesses\<close>

definition demo_yaml :: yaml where
  "demo_yaml = \<lparr>ya_load = (\<lambda>s. case parse_rendered s of Some v \<Rightarrow> Inr v | None \<Rightarrow> Inl ''bad indentation''),
     ya_dump = (\<lambda>v. if is_json v then Inr (render v) else Inl ''unacceptable kind of an object to dump''),
     ya_errors = (\<lambda>v. ''must have required property''), ya_date_time = (\<lambda>s. s \<noteq> [])\<rparr>"

lemma demo_yaml_ok: "yaml_ok demo_yaml" "\<forall>v. is_json v \<longrightarrow> dumps demo_yaml v"
  by (auto simp: yaml_ok_def dumps_def demo_yaml_def parse_rendered split: if_splits option.splits
      intro: parse_rendered_json)

lemma demo_file:
  assumes "graph_valid demo_yaml g" "graph_plain g"
  shows "read_graph demo_yaml (Content (render (graph_json g))) = Inr g"
proof -
  have "is_json (graph_json g)" using assms(2) by (simp add: is_json_graph)
  then have "ya_load demo_yaml (render (graph_json g)) = Inr (graph_json g)"
    by (simp add: demo_yaml_def parse_rendered)
  then show ?thesis using assms(1) by (simp add: read_graph_def graph_schema_json)
qed

definition demo_entity :: "string \<Rightarrow> string \<Rightarrow> attributes \<Rightarrow> entity" where
  "demo_entity i k attrs = \<lparr>en_id = i, en_kind = k, en_name = i, en_attrs = attrs, en_source = ''demo'',
     en_platform = Some ''p1'', en_discovered = ''t0'', en_seen = ''t0'', en_status = Active\<rparr>"

definition demo_edge :: "string \<Rightarrow> string \<Rightarrow> edge" where
  "demo_edge a b = \<lparr>ed_id = a @ ''-'' @ b, ed_from = a, ed_to = b, ed_type = ''runs-on'', ed_attrs = None,
     ed_discovered = ''t0'', ed_seen = ''t0'', ed_status = Active\<rparr>"

lemma demo_entity_good: "i \<noteq> [] \<Longrightarrow> k \<noteq> [] \<Longrightarrow> op_good demo_yaml (PutEntity (demo_entity i k []))"
  by (simp add: entity_valid_def entity_plain_def demo_entity_def demo_yaml_def)

lemma demo_edge_good: "a \<noteq> [] \<Longrightarrow> b \<noteq> [] \<Longrightarrow> op_good demo_yaml (PutEdge (demo_edge a b))"
  by (simp add: edge_valid_def edge_plain_def demo_edge_def demo_yaml_def)

text \<open>A node, an entity without a name, a write that fails and an edge.\<close>

lemma graph_never_forgets_witness:
  "\<exists>g'. read_graph demo_yaml (run_ops demo_yaml [(True, PutEntity (demo_entity ''n'' ''node'' [])),
      (True, PutEntity (demo_entity [] ''service'' [])), (False, PutEntity (demo_entity ''s'' ''service'' [])),
      (True, PutEdge (demo_edge ''s'' ''n''))] Absent) = Inr g'
    \<and> graph_valid demo_yaml g'"
  using graph_never_forgets [of demo_yaml Absent empty_graph "[(True, PutEntity (demo_entity ''n'' ''node'' [])),
      (True, PutEntity (demo_entity [] ''service'' [])), (False, PutEntity (demo_entity ''s'' ''service'' [])),
      (True, PutEdge (demo_edge ''s'' ''n''))]", OF demo_yaml_ok(1)]
  by (auto simp: read_graph_def entity_plain_def edge_plain_def demo_entity_def demo_edge_def)

lemma upsert_entity_exact_witness:
  "\<exists>g'. read_graph demo_yaml (fst (upsert_entity demo_yaml True (demo_entity ''n'' ''node'' []) Absent)) = Inr g'
    \<and> lookup_by en_id ''n'' (gr_entities g') = Some (demo_entity ''n'' ''node'' []) \<and> length (gr_entities g') = 1"
proof -
  obtain f' r where up: "upsert_entity demo_yaml True (demo_entity ''n'' ''node'' []) Absent = (f', r)" by fastforce
  have "read_graph demo_yaml Absent = Inr empty_graph" by (simp add: read_graph_def)
  note ex = upsert_entity_exact [OF demo_yaml_ok(1) this _ demo_yaml_ok(2) up]
  have "entity_plain (demo_entity ''n'' ''node'' [])" "entity_valid demo_yaml (demo_entity ''n'' ''node'' [])"
    using demo_entity_good [of "''n''" "''node''"] by auto
  moreover have "en_id (demo_entity ''n'' ''node'' []) = ''n''" by (simp add: demo_entity_def)
  ultimately show ?thesis using ex up by (auto simp: empty_graph_def lookup_by_def)
qed

lemma concurrent_upserts_all_kept_witness:
  "\<exists>(s' :: graph_file tasks) g'. ta_phase s' 0 = Finished \<and> ta_phase s' 1 = Finished \<and> read_graph demo_yaml (ta_files s' ''g'') = Inr g'
    \<and> lookup_by en_id ''a'' (gr_entities g') = Some (demo_entity ''a'' ''node'' [])
    \<and> lookup_by en_id ''b'' (gr_entities g') = Some (demo_entity ''b'' ''node'' [])"
proof -
  define es where "es i = demo_entity (if i = (0 :: nat) then ''a'' else ''b'') ''node'' []" for i
  have good: "\<forall>i<2. entity_valid demo_yaml (es i) \<and> entity_plain (es i)"
    using demo_entity_good [of _ "''node''"] by (auto simp: es_def)
  have inj: "inj_on (en_id \<circ> es) {..<2}"
    by (auto simp: inj_on_def es_def demo_entity_def less_2_cases_iff split: if_splits)
  have r: "read_graph demo_yaml ((\<lambda>_. Absent) ''g'') = Inr empty_graph" by (simp add: read_graph_def)
  have idle: "\<forall>k \<ge> 2. ta_phase (fresh_tasks (\<lambda>_. Absent :: graph_file)) k = Idle" by (simp add: fresh_tasks_def)
  have none: "lookup_by en_id i (gr_entities empty_graph) = None" for i
    by (simp add: empty_graph_def lookup_by_def)
  obtain s' :: "graph_file tasks" and g' where s': "\<forall>i<2. ta_phase s' i = Finished" "read_graph demo_yaml (ta_files s' ''g'') = Inr g'"
      "\<forall>i<2. lookup_by en_id (en_id (es i)) (gr_entities g') =
        Some (case lookup_by en_id (en_id (es i)) (gr_entities empty_graph) of None \<Rightarrow> es i | Some old \<Rightarrow> merge_entity old (es i))"
    using concurrent_upserts_all_kept [where p = "''g''" and init = "\<lambda>_. Absent", OF demo_yaml_ok r good inj rtranclp.rtrancl_refl idle]
    by (elim exE conjE) (rule that)
  have "lookup_by en_id ''a'' (gr_entities g') = Some (demo_entity ''a'' ''node'' [])"
      "lookup_by en_id ''b'' (gr_entities g') = Some (demo_entity ''b'' ''node'' [])"
    using s'(3) [rule_format, of 0] s'(3) [rule_format, of 1] by (simp_all add: none es_def demo_entity_def)
  then show ?thesis using s'(1) [rule_format, of 0] s'(1) [rule_format, of 1] s'(2) by (intro exI [of _ s'] exI [of _ g']) simp
qed

end
