(* ===== verification/Clocks.thy ===== *)
theory Clocks
  imports Metrics
begin

text \<open>
  \<open>src/metrics/clock-store.ts\<close>: the running MTTR and gate-latency clocks, one signed file each. A file
  holds what \<open>JSON.parse\<close> makes of it (\<open>None\<close> when it throws); \<open>readdir\<close> lists the files in the order of
  the association list, which no theorem depends on. Ids are plain file names.
\<close>

section \<open>Clocks and their files\<close>

datatype clock_kind = MttrClock | GateLatencyClock

fun kind_str :: "clock_kind \<Rightarrow> string" where
  "kind_str MttrClock = ''mttr''"
| "kind_str GateLatencyClock = ''gate-latency''"

type_synonym metadata = "(string \<times> string) list"

record clock =
  ck_id :: string
  ck_kind :: string
  ck_key :: string
  ck_started :: int
  ck_meta :: metadata

record stop_result =
  sr_started :: int
  sr_duration :: int
  sr_meta :: metadata

definition clock_json :: "clock \<Rightarrow> jsval" where
  "clock_json c = JObj [(''id'', JStr (ck_id c)), (''kind'', JStr (ck_kind c)),
     (''key'', JStr (ck_key c)), (''startedAt'', JInt (ck_started c)),
     (''metadata'', JObj (map (\<lambda>(k, v). (k, JStr v)) (ck_meta c)))]"

definition meta_of_json :: "jsval \<Rightarrow> metadata option" where
  "meta_of_json v =
    (case v of JObj kvs \<Rightarrow> all_some (map (\<lambda>(k, x). map_option (Pair k) (as_str x)) kvs) | _ \<Rightarrow> None)"

definition clock_of_json :: "jsval \<Rightarrow> clock option" where
  "clock_of_json v =
    (case (as_str (field v ''id''), as_str (field v ''kind''), as_str (field v ''key''),
           as_int (field v ''startedAt''), meta_of_json (field v ''metadata'')) of
       (Some i, Some kd, Some k, Some t, Some md) \<Rightarrow>
         Some \<lparr>ck_id = i, ck_kind = kd, ck_key = k, ck_started = t, ck_meta = md\<rparr>
     | _ \<Rightarrow> None)"

record clock_store =
  cs_files :: "(string, jsval option disk_file) jsmap"
  cs_blocked :: "string option"

definition SAFE_CLOCK_ID :: "string \<Rightarrow> bool" where
  "SAFE_CLOCK_ID s \<longleftrightarrow> 1 \<le> length s \<and> length s \<le> 128
     \<and> list_all (\<lambda>c. is_alnum c \<or> c \<in> {CHR ''_'', CHR '':'', CHR ''-''}) s"

definition clock_path :: "string \<Rightarrow> string" where
  "clock_path i = i @ ''.json''"

definition is_json_file :: "string \<Rightarrow> bool" where
  "is_json_file f \<longleftrightarrow> ends_with ''.json'' f"

definition composite :: "string \<Rightarrow> string \<Rightarrow> string" where
  "composite kd k = kd @ '':'' @ k"

section \<open>Reading\<close>

definition read_clock_file :: "runtime \<Rightarrow> jsval option disk_file option \<Rightarrow> clock option res" where
  "read_clock_file rt f =
    (case f of
       None \<Rightarrow> Inr None
     | Some Absent \<Rightarrow> Inr None
     | Some (Unreadable e) \<Rightarrow> Inl (IoError e)
     | Some (Content None) \<Rightarrow> Inl (Error ''JSON'')
     | Some (Content (Some s)) \<Rightarrow>
         if \<not> verify_payload rt hmac_env s then Inr None
         else (case clock_of_json (field s ''payload'') of
                 None \<Rightarrow> Inl (TypeError ''clock'') | Some c \<Rightarrow> Inr (Some c)))"

definition read_by_id :: "runtime \<Rightarrow> string \<Rightarrow> clock_store \<Rightarrow> clock option res" where
  "read_by_id rt i cs = read_clock_file rt (jm_get (cs_files cs) (clock_path i))"

definition list_all_clocks :: "runtime \<Rightarrow> clock_store \<Rightarrow> clock list res" where
  "list_all_clocks rt cs =
    (case cs_blocked cs of
       Some e \<Rightarrow> Inl (IoError e)
     | None \<Rightarrow>
         rbind (collect (map (\<lambda>f. read_by_id rt (take (length f - 5) f) cs)
                  (filter is_json_file (map fst (cs_files cs)))))
           (\<lambda>xs. Inr (map the (filter (\<lambda>x. x \<noteq> None) xs))))"

definition find_by_key :: "runtime \<Rightarrow> string \<Rightarrow> string \<Rightarrow> clock_store \<Rightarrow> clock option res" where
  "find_by_key rt kd k cs =
     rbind (list_all_clocks rt cs) (\<lambda>xs. Inr (List.find (\<lambda>c. ck_kind c = kd \<and> ck_key c = k) xs))"

section \<open>Operations\<close>

text \<open>\<open>rnd\<close> is the hexadecimal text of the four random bytes; an atomic write that fails leaves no trace.\<close>

definition start_clock ::
  "runtime \<Rightarrow> int \<Rightarrow> string \<Rightarrow> bool \<Rightarrow> clock_kind \<Rightarrow> string \<Rightarrow> metadata \<Rightarrow> clock_store
   \<Rightarrow> clock_store \<times> string res" where
  "start_clock rt now rnd disk_ok kd k md cs =
    (if \<not> SAFE_CLOCK_ID (composite (kind_str kd) k)
     then (cs, Inl (Error (''invalid clock key: '' @ composite (kind_str kd) k)))
     else case find_by_key rt (kind_str kd) k cs of
       Inl e \<Rightarrow> (cs, Inl e)
     | Inr (Some c) \<Rightarrow> (cs, Inl (Error (''clock already running for kind='' @ kind_str kd @ '' key='' @ k)))
     | Inr None \<Rightarrow>
         let i = kind_str kd @ ''--'' @ k @ ''--'' @ rnd;
             c = \<lparr>ck_id = i, ck_kind = kind_str kd, ck_key = k, ck_started = now, ck_meta = md\<rparr>
         in (case sign_payload rt hmac_env (clock_json c) of
               Inl e \<Rightarrow> (cs, Inl e)
             | Inr s \<Rightarrow>
                 if disk_ok
                 then (cs\<lparr>cs_files := jm_set (clock_path i) (Content (Some s)) (cs_files cs)\<rparr>, Inr i)
                 else (cs, Inl (IoError ''EIO''))))"

definition unlink_clock :: "bool \<Rightarrow> string \<Rightarrow> clock_store \<Rightarrow> clock_store" where
  "unlink_clock ok i cs = (if ok then cs\<lparr>cs_files := jm_del (clock_path i) (cs_files cs)\<rparr> else cs)"

definition named_clock :: "runtime \<Rightarrow> string \<Rightarrow> clock_store \<Rightarrow> clock option res" where
  "named_clock rt s cs =
    (if contains ''--'' s then read_by_id rt s cs
     else if CHR '':'' \<in> set s
     then find_by_key rt (takeWhile (\<lambda>c. c \<noteq> CHR '':'') s) (tl (dropWhile (\<lambda>c. c \<noteq> CHR '':'') s)) cs
     else Inr None)"

definition stop_clock ::
  "runtime \<Rightarrow> int \<Rightarrow> bool \<Rightarrow> string \<Rightarrow> clock_store \<Rightarrow> clock_store \<times> stop_result option res" where
  "stop_clock rt now unlink_ok s cs =
    (case named_clock rt s cs of
       Inl e \<Rightarrow> (cs, Inl e)
     | Inr None \<Rightarrow> (cs, Inr None)
     | Inr (Some c) \<Rightarrow>
         (unlink_clock unlink_ok (ck_id c) cs,
          Inr (Some \<lparr>sr_started = ck_started c, sr_duration = now - ck_started c, sr_meta = ck_meta c\<rparr>)))"

fun purge_each :: "(string \<Rightarrow> bool) \<Rightarrow> int \<Rightarrow> clock list \<Rightarrow> clock_store \<Rightarrow> clock_store \<times> nat" where
  "purge_each ok threshold [] cs = (cs, 0)"
| "purge_each ok threshold (c # xs) cs =
     (if ck_started c < threshold \<and> ok (ck_id c)
      then (case purge_each ok threshold xs (unlink_clock True (ck_id c) cs) of (cs1, n) \<Rightarrow> (cs1, n + 1))
      else purge_each ok threshold xs cs)"

definition purge_stale ::
  "runtime \<Rightarrow> int \<Rightarrow> (string \<Rightarrow> bool) \<Rightarrow> int \<Rightarrow> clock_store \<Rightarrow> clock_store \<times> nat res" where
  "purge_stale rt now ok older cs =
    (case list_all_clocks rt cs of
       Inl e \<Rightarrow> (cs, Inl e)
     | Inr xs \<Rightarrow>
         if older = 0 then (cs, Inr (length xs))
         else (case purge_each ok (now - older) xs cs of (cs1, n) \<Rightarrow> (cs1, Inr n)))"

section \<open>The abstract clocks\<close>

text \<open>What the store promises: a map from kind and key to the running clock.\<close>

type_synonym clock_map = "string \<times> string \<Rightarrow> clock option"

definition clocks_of :: "runtime \<Rightarrow> clock_store \<Rightarrow> clock_map" where
  "clocks_of rt cs = (\<lambda>(kd, k). case find_by_key rt kd k cs of Inr x \<Rightarrow> x | Inl _ \<Rightarrow> None)"

text \<open>The clock a file of the directory holds.\<close>

definition clock_at :: "runtime \<Rightarrow> clock_store \<Rightarrow> string \<Rightarrow> clock option" where
  "clock_at rt cs f =
    (if is_json_file f
     then (case read_clock_file rt (jm_get (cs_files cs) f) of Inr c \<Rightarrow> c | Inl _ \<Rightarrow> None) else None)"

text \<open>The ids \<open>start\<close> makes: the random part is eight characters.\<close>

definition own_id :: "clock \<Rightarrow> bool" where
  "own_id c \<longleftrightarrow> ck_kind c \<in> {kind_str MttrClock, kind_str GateLatencyClock}
     \<and> (\<exists>r. length r = 8 \<and> ck_id c = ck_kind c @ ''--'' @ ck_key c @ ''--'' @ r)"

text \<open>
  A sound store: it lists, each clock is in the file of its id, the id is of the shape \<open>start\<close> gives, and
  no two clocks have the same kind and key. Files of other names and files whose signature fails may lie
  in the directory.
\<close>

definition clocks_ok :: "runtime \<Rightarrow> clock_store \<Rightarrow> bool" where
  "clocks_ok rt cs \<longleftrightarrow>
     cs_blocked cs = None \<and> jm_wf (cs_files cs)
     \<and> (\<forall>f. is_json_file f \<longrightarrow> (\<exists>c. read_clock_file rt (jm_get (cs_files cs) f) = Inr c))
     \<and> (\<forall>f c. clock_at rt cs f = Some c \<longrightarrow> f = clock_path (ck_id c) \<and> own_id c)
     \<and> (\<forall>f g c d. clock_at rt cs f = Some c \<longrightarrow> clock_at rt cs g = Some d
          \<longrightarrow> ck_kind c = ck_kind d \<longrightarrow> ck_key c = ck_key d \<longrightarrow> f = g)"

lemma clock_path_ext: "is_json_file f \<Longrightarrow> clock_path (take (length f - 5) f) = f"
proof -
  assume "is_json_file f"
  then have "take 5 (rev f) = rev ''.json''" by (simp add: is_json_file_def eval_nat_numeral)
  then have "rev (drop (length f - 5) f) = rev ''.json''" by (simp only: take_rev)
  then have "drop (length f - 5) f = ''.json''" by (simp only: rev_is_rev_conv)
  then show ?thesis by (metis append_take_drop_id clock_path_def)
qed

lemma ends_clock_path [simp]: "is_json_file (clock_path i)"
  by (simp add: clock_path_def is_json_file_def)

lemma clock_path_inj [simp]: "clock_path i = clock_path j \<longleftrightarrow> i = j"
  by (simp add: clock_path_def)

lemma find_in: "List.find P xs = Some c \<Longrightarrow> c \<in> set xs \<and> P c"
  by (auto simp: find_Some_iff)

lemma clocks_okD:
  assumes "clocks_ok rt cs"
  shows "cs_blocked cs = None" "is_json_file f \<Longrightarrow> \<exists>c. read_clock_file rt (jm_get (cs_files cs) f) = Inr c"
    "clock_at rt cs f = Some c \<Longrightarrow> f = clock_path (ck_id c)"
    "clock_at rt cs f = Some c \<Longrightarrow> clock_at rt cs g = Some d \<Longrightarrow> ck_kind c = ck_kind d
       \<Longrightarrow> ck_key c = ck_key d \<Longrightarrow> f = g"
    "clock_at rt cs f = Some c \<Longrightarrow> own_id c" "jm_wf (cs_files cs)"
  using assms unfolding clocks_ok_def by blast+

text \<open>A store whose files hold some of the clocks of a sound one, in the same places, is sound.\<close>

lemma clocks_ok_fewer:
  assumes ok: "clocks_ok rt cs" and "cs_blocked cs' = cs_blocked cs" "jm_wf (cs_files cs')"
    and reads: "\<And>f. is_json_file f \<Longrightarrow> \<exists>c. read_clock_file rt (jm_get (cs_files cs') f) = Inr c"
    and fewer: "\<And>f c. clock_at rt cs' f = Some c \<Longrightarrow> clock_at rt cs f = Some c"
  shows "clocks_ok rt cs'"
  unfolding clocks_ok_def
proof (intro conjI allI impI)
  show "f = clock_path (ck_id c)" "own_id c" if "clock_at rt cs' f = Some c" for f c
    using clocks_okD(3,5) [OF ok fewer [OF that]] .
  show "f = g" if "clock_at rt cs' f = Some c" "clock_at rt cs' g = Some d" "ck_kind c = ck_kind d" "ck_key c = ck_key d"
    for f g c d
    using clocks_okD(4) [OF ok fewer [OF that(1)] fewer [OF that(2)] that(3,4)] .
qed (use assms(2,3) clocks_okD(1) [OF ok] reads in simp_all)

lemma clock_at_listed:
  assumes "clock_at rt cs f = Some c"
  shows "is_json_file f \<and> f \<in> fst ` set (cs_files cs)"
proof -
  have "jm_get (cs_files cs) f \<noteq> None" "is_json_file f"
    using assms by (cases "jm_get (cs_files cs) f"; simp add: clock_at_def read_clock_file_def split: if_splits)+
  then show ?thesis by (simp only: map_of_eq_None_iff not_not simp_thms)
qed

lemma list_all_clocks_ok:
  assumes ok: "clocks_ok rt cs"
  shows "list_all_clocks rt cs =
     Inr (List.map_filter (clock_at rt cs) (filter is_json_file (map fst (cs_files cs))))"
proof -
  have "read_by_id rt (take (length f - 5) f) cs = Inr (clock_at rt cs f)" if "is_json_file f" for f
  proof -
    obtain c where "read_clock_file rt (jm_get (cs_files cs) f) = Inr c"
      using clocks_okD(2) [OF ok \<open>is_json_file f\<close>] by blast
    then show ?thesis
      using that clock_path_ext [OF that] by (simp add: read_by_id_def clock_at_def)
  qed
  then have "map (\<lambda>f. read_by_id rt (take (length f - 5) f) cs) (filter is_json_file (map fst (cs_files cs)))
      = map Inr (map (clock_at rt cs) (filter is_json_file (map fst (cs_files cs))))"
    by (simp del: filter_map)
  moreover have "map the (filter (\<lambda>x. x \<noteq> None) (map F fs)) = List.map_filter F fs" for F :: "string \<Rightarrow> clock option" and fs
    by (induction fs) (auto simp: map_filter_simps split: option.splits)
  ultimately show ?thesis
    using clocks_okD(1) [OF ok]
    by (simp only: list_all_clocks_def collect_map_Inr rbind.simps option.case)
qed

lemma set_map_filter_some: "c \<in> set (List.map_filter F fs) \<longleftrightarrow> (\<exists>f \<in> set fs. F f = Some c)"
  by (induction fs) (auto simp: map_filter_simps split: option.splits)

lemma set_list_all:
  assumes ok: "clocks_ok rt cs" and xs: "list_all_clocks rt cs = Inr xs"
  shows "c \<in> set xs \<longleftrightarrow> clock_at rt cs (clock_path (ck_id c)) = Some c"
proof -
  have "c \<in> set xs \<longleftrightarrow> (\<exists>f. is_json_file f \<and> f \<in> fst ` set (cs_files cs) \<and> clock_at rt cs f = Some c)"
    using list_all_clocks_ok [OF ok] xs set_map_filter_some [of c "clock_at rt cs"] by auto
  then show ?thesis using clock_at_listed clocks_okD(3) [OF ok] by metis
qed

lemma distinct_list_all:
  assumes ok: "clocks_ok rt cs" and xs: "list_all_clocks rt cs = Inr xs"
  shows "distinct xs"
proof -
  have "distinct (List.map_filter (clock_at rt cs) fs)" if "distinct fs" for fs
    using that
  proof (induction fs)
    case (Cons f fs)
    have "clock_at rt cs g \<noteq> Some c" if "clock_at rt cs f = Some c" "g \<in> set fs" for c g
      using Cons.prems that clocks_okD(3) [OF ok] by auto
    with Cons show ?case
      by (auto simp: map_filter_simps set_map_filter_some split: option.splits)
  qed (simp add: map_filter_simps)
  then show ?thesis
    using list_all_clocks_ok [OF ok] xs clocks_okD(6) [OF ok] by simp
qed

lemma find_by_key_clocks_of:
  assumes ok: "clocks_ok rt cs"
  shows "find_by_key rt kd k cs = Inr (clocks_of rt cs (kd, k))"
  using list_all_clocks_ok [OF ok] by (simp add: clocks_of_def find_by_key_def)

lemma clocks_of_iff:
  assumes ok: "clocks_ok rt cs"
  shows "clocks_of rt cs (kd, k) = Some c \<longleftrightarrow>
     clock_at rt cs (clock_path (ck_id c)) = Some c \<and> ck_kind c = kd \<and> ck_key c = k"
proof -
  obtain xs where xs: "list_all_clocks rt cs = Inr xs" using list_all_clocks_ok [OF ok] by blast
  have eq: "clocks_of rt cs (kd, k) = List.find (\<lambda>c. ck_kind c = kd \<and> ck_key c = k) xs"
    by (simp add: clocks_of_def find_by_key_def xs)
  show ?thesis
  proof
    assume "clocks_of rt cs (kd, k) = Some c"
    from find_in [OF this [unfolded eq]] show "clock_at rt cs (clock_path (ck_id c)) = Some c \<and> ck_kind c = kd \<and> ck_key c = k"
      using set_list_all [OF ok xs, of c] by simp
  next
    assume c: "clock_at rt cs (clock_path (ck_id c)) = Some c \<and> ck_kind c = kd \<and> ck_key c = k"
    then have "List.find (\<lambda>c. ck_kind c = kd \<and> ck_key c = k) xs \<noteq> None"
      using set_list_all [OF ok xs] by (auto simp: find_None_iff)
    then obtain d where d: "List.find (\<lambda>c. ck_kind c = kd \<and> ck_key c = k) xs = Some d" by blast
    from find_in [OF this] have "clock_at rt cs (clock_path (ck_id d)) = Some d" "ck_kind d = kd" "ck_key d = k"
      using set_list_all [OF ok xs] by auto
    with c have "clock_path (ck_id d) = clock_path (ck_id c)"
      using clocks_okD(4) [OF ok, of "clock_path (ck_id d)" d "clock_path (ck_id c)" c] by blast
    with c d \<open>clock_at rt cs (clock_path (ck_id d)) = Some d\<close> show "clocks_of rt cs (kd, k) = Some c"
      by (simp add: eq)
  qed
qed

lemma clock_map_eqI:
  fixes m n :: clock_map
  assumes "\<And>kd k c. m (kd, k) = Some c \<longleftrightarrow> n (kd, k) = Some c"
  shows "m = n"
proof (rule ext)
  fix p
  show "m p = n p" using assms [of "fst p" "snd p"] by (metis not_None_eq prod.collapse)
qed

section \<open>Ids\<close>

text \<open>The kind and key an id was made of.\<close>

definition id_key :: "string \<Rightarrow> string \<times> string" where
  "id_key s =
    (let kd = (if starts_with ''mttr--'' s then ''mttr'' else ''gate-latency''); rest = drop (length kd + 2) s
     in (kd, take (length rest - 10) rest))"

lemma id_key_own:
  assumes "own_id c"
  shows "id_key (ck_id c) = (ck_kind c, ck_key c)"
proof -
  obtain r where "length r = 8" "ck_id c = ck_kind c @ ''--'' @ ck_key c @ ''--'' @ r"
    "ck_kind c = ''mttr'' \<or> ck_kind c = ''gate-latency''"
    using assms by (auto simp: own_id_def)
  then show ?thesis by (auto simp: id_key_def)
qed

lemma id_with_dashes: "own_id c \<Longrightarrow> contains ''--'' (ck_id c) \<and> ck_kind c = fst (id_key (ck_id c))"
  using id_key_own [of c] by (auto simp: own_id_def)

section \<open>The operations refine the map\<close>

lemma clock_roundtrip [simp]: "clock_of_json (clock_json c) = Some c"
proof -
  have "meta_of_json (JObj (map (\<lambda>(k, v). (k, JStr v)) md)) = Some md" for md :: metadata
    by (induction md) (auto simp: meta_of_json_def)
  then show ?thesis by (simp add: clock_of_json_def clock_json_def)
qed

lemma read_signed_clock:
  "sign_payload rt hmac_env (clock_json c) = Inr s \<Longrightarrow>
   read_clock_file rt (Some (Content (Some s))) = Inr (Some c)"
  by (simp add: read_clock_file_def env.sign_verifies env.sign_keeps_payload)

definition put_clock :: "string \<Rightarrow> jsval \<Rightarrow> clock_store \<Rightarrow> clock_store" where
  "put_clock p s cs = cs\<lparr>cs_files := jm_set p (Content (Some s)) (cs_files cs)\<rparr>"

lemma clock_at_put:
  assumes "sign_payload rt hmac_env (clock_json c) = Inr s"
  shows "clock_at rt (put_clock (clock_path (ck_id c)) s cs) = (clock_at rt cs)(clock_path (ck_id c) \<mapsto> c)"
  using read_signed_clock [OF assms]
  by (auto simp: clock_at_def put_clock_def store_simps intro!: ext)

lemma clock_at_unlink:
  "clock_at rt (unlink_clock True i cs) = (clock_at rt cs)(clock_path i := None)"
  by (rule ext) (simp add: clock_at_def unlink_clock_def store_simps read_clock_file_def)

lemma put_clock_ok:
  assumes ok: "clocks_ok rt cs" and s: "sign_payload rt hmac_env (clock_json c) = Inr s"
    and new: "clocks_of rt cs (ck_kind c, ck_key c) = None" and own: "own_id c"
  shows "clocks_ok rt (put_clock (clock_path (ck_id c)) s cs)"
    and "clocks_of rt (put_clock (clock_path (ck_id c)) s cs) = (clocks_of rt cs)((ck_kind c, ck_key c) \<mapsto> c)"
proof -
  let ?cs = "put_clock (clock_path (ck_id c)) s cs"
  have none: "\<not> (ck_kind d = ck_kind c \<and> ck_key d = ck_key c)" if "clock_at rt cs f = Some d" for f d
    using clocks_of_iff [OF ok, of "ck_kind c" "ck_key c" d] new that clocks_okD(3) [OF ok that] by auto
  note at = clock_at_put [OF s, of cs]
  have old: "f \<noteq> clock_path (ck_id c)" if "clock_at rt cs f = Some d" for f d
  proof
    assume "f = clock_path (ck_id c)"
    then have "ck_id d = ck_id c" using clocks_okD(3) [OF ok that] by simp
    with id_key_own [OF own] id_key_own [OF clocks_okD(5) [OF ok that]] none [OF that] show False by simp
  qed
  show ok': "clocks_ok rt ?cs"
    unfolding clocks_ok_def
  proof (intro conjI allI impI)
    show "\<exists>x. read_clock_file rt (jm_get (cs_files ?cs) f) = Inr x" if "is_json_file f" for f
      using clocks_okD(2) [OF ok that] read_signed_clock [OF s] by (auto simp: put_clock_def store_simps)
    show "f = g" if "clock_at rt ?cs f = Some a" "clock_at rt ?cs g = Some b"
      "ck_kind a = ck_kind b" "ck_key a = ck_key b" for f g a b
      using that none [of f a] none [of g b] clocks_okD(4) [OF ok, of f a g b]
      by (auto simp: at split: if_splits)
    show "f = clock_path (ck_id a)" "own_id a" if "clock_at rt ?cs f = Some a" for f a
      using that clocks_okD(3,5) [OF ok, of f a] own by (auto simp: at split: if_splits)
  qed (use clocks_okD(1,6) [OF ok] in \<open>simp_all add: put_clock_def distinct_update\<close>)
  show "clocks_of rt ?cs = (clocks_of rt cs)((ck_kind c, ck_key c) \<mapsto> c)"
  proof (rule clock_map_eqI)
    fix kd k d
    show "clocks_of rt ?cs (kd, k) = Some d \<longleftrightarrow> ((clocks_of rt cs)((ck_kind c, ck_key c) \<mapsto> c)) (kd, k) = Some d"
      using none [of _ d] old [of _ d] by (auto simp: clocks_of_iff [OF ok'] clocks_of_iff [OF ok] at)
  qed
qed

lemma unlink_reads:
  "\<exists>c. read_clock_file rt (jm_get (cs_files cs) f) = Inr c \<Longrightarrow>
   \<exists>c. read_clock_file rt (jm_get (cs_files (unlink_clock ok i cs)) f) = Inr c"
  by (auto simp: unlink_clock_def store_simps read_clock_file_def)

lemma unlink_wf: "jm_wf (cs_files cs) \<Longrightarrow> jm_wf (cs_files (unlink_clock ok i cs))"
  by (simp add: unlink_clock_def distinct_delete)

lemma unlink_clock_ok:
  assumes ok: "clocks_ok rt cs" and c: "clocks_of rt cs (kd, k) = Some c"
  shows "clocks_ok rt (unlink_clock True (ck_id c) cs)"
    and "clocks_of rt (unlink_clock True (ck_id c) cs) = (clocks_of rt cs)((kd, k) := None)"
proof -
  let ?cs = "unlink_clock True (ck_id c) cs"
  show ok': "clocks_ok rt ?cs"
  proof (rule clocks_ok_fewer [OF ok])
    show "\<exists>x. read_clock_file rt (jm_get (cs_files ?cs) f) = Inr x" if "is_json_file f" for f
      by (rule unlink_reads [OF clocks_okD(2) [OF ok that]])
    show "clock_at rt cs f = Some a" if "clock_at rt ?cs f = Some a" for f a
      using that by (auto simp: clock_at_unlink split: if_splits)
  qed (rule unlink_wf [OF clocks_okD(6) [OF ok]] | simp add: unlink_clock_def)+
  show "clocks_of rt ?cs = (clocks_of rt cs)((kd, k) := None)"
  proof (rule clock_map_eqI)
    fix kd' k' d
    note F = clocks_of_iff [OF ok]
    have c': "clock_at rt cs (clock_path (ck_id c)) = Some c" "ck_kind c = kd" "ck_key c = k"
      using c unfolding F by auto
    show "clocks_of rt ?cs (kd', k') = Some d \<longleftrightarrow> ((clocks_of rt cs)((kd, k) := None)) (kd', k') = Some d"
    proof (cases "ck_id d = ck_id c")
      case True
      then have "\<not> (clock_at rt cs (clock_path (ck_id d)) = Some d \<and> (ck_kind d, ck_key d) \<noteq> (kd, k))"
        using c' by auto
      then show ?thesis using True F [of kd' k' d] by (auto simp: clocks_of_iff [OF ok'] clock_at_unlink)
    next
      case False
      then have "\<not> clock_at rt cs (clock_path (ck_id d)) = Some d" if "ck_kind d = kd" "ck_key d = k"
        using clocks_okD(4) [OF ok _ c'(1), of "clock_path (ck_id d)" d] that c'(2,3) by auto
      then show ?thesis using False F [of kd' k' d] by (auto simp: clocks_of_iff [OF ok'] clock_at_unlink)
    qed
  qed
qed

lemma purge_each_fst:
  "fst (purge_each ok th (c # xs) cs) =
     fst (purge_each ok th xs (if ck_started c < th \<and> ok (ck_id c) then unlink_clock True (ck_id c) cs else cs))"
  by (simp add: case_prod_beta)

lemma purge_each_snd:
  "snd (purge_each ok th xs cs) = length (filter (\<lambda>c. ck_started c < th \<and> ok (ck_id c)) xs)"
  by (induction xs arbitrary: cs) (simp_all add: case_prod_beta)

lemma purge_each_at:
  "clock_at rt (fst (purge_each ok th xs cs)) f =
     (if \<exists>c \<in> set xs. ck_started c < th \<and> ok (ck_id c) \<and> f = clock_path (ck_id c) then None else clock_at rt cs f)"
  by (induction xs arbitrary: cs) (simp_all add: purge_each_fst clock_at_unlink del: purge_each.simps(2), blast?)

lemma purge_each_keeps:
  "(\<exists>c. read_clock_file rt (jm_get (cs_files cs) f) = Inr c) \<Longrightarrow> jm_wf (cs_files cs) \<Longrightarrow>
   (\<exists>c. read_clock_file rt (jm_get (cs_files (fst (purge_each ok th xs cs))) f) = Inr c)
   \<and> jm_wf (cs_files (fst (purge_each ok th xs cs)))"
  by (induction xs arbitrary: cs)
     (simp_all add: purge_each_fst unlink_reads unlink_wf del: purge_each.simps(2))

lemma purge_each_blocked: "cs_blocked (fst (purge_each ok th xs cs)) = cs_blocked cs"
  by (induction xs arbitrary: cs) (simp_all add: purge_each_fst unlink_clock_def del: purge_each.simps(2))

definition purged :: "(string \<Rightarrow> bool) \<Rightarrow> int \<Rightarrow> clock_map \<Rightarrow> (string \<times> string) set" where
  "purged ok th m = {p. \<exists>c. m p = Some c \<and> ck_started c < th \<and> ok (ck_id c)}"

lemma purge_clocks_ok:
  assumes ok: "clocks_ok rt cs" and xs: "list_all_clocks rt cs = Inr xs"
  shows "clocks_ok rt (fst (purge_each u th xs cs))"
    and "clocks_of rt (fst (purge_each u th xs cs)) = (\<lambda>p. if p \<in> purged u th (clocks_of rt cs) then None else clocks_of rt cs p)"
proof -
  let ?cs = "fst (purge_each u th xs cs)"
  have at': "clock_at rt ?cs f = Some c \<longleftrightarrow> clock_at rt cs f = Some c \<and> \<not> (ck_started c < th \<and> u (ck_id c))" for f c
  proof -
    have "(\<exists>d \<in> set xs. ck_started d < th \<and> u (ck_id d) \<and> f = clock_path (ck_id d)) \<longleftrightarrow> ck_started c < th \<and> u (ck_id c)"
      if f: "clock_at rt cs f = Some c"
      using f clocks_okD(3) [OF ok f] set_list_all [OF ok xs] by (metis option.inject)
    then show ?thesis by (auto simp: purge_each_at)
  qed
  show ok': "clocks_ok rt ?cs"
    using at' purge_each_keeps [OF clocks_okD(2) [OF ok] clocks_okD(6) [OF ok]]
      purge_each_keeps [OF clocks_okD(2) [OF ok ends_clock_path] clocks_okD(6) [OF ok]]
    by (intro clocks_ok_fewer [OF ok]) (simp_all add: purge_each_blocked)
  show "clocks_of rt ?cs = (\<lambda>p. if p \<in> purged u th (clocks_of rt cs) then None else clocks_of rt cs p)"
  proof (rule clock_map_eqI)
    fix kd k c
    show "clocks_of rt ?cs (kd, k) = Some c \<longleftrightarrow>
      (if (kd, k) \<in> purged u th (clocks_of rt cs) then None else clocks_of rt cs (kd, k)) = Some c"
      unfolding clocks_of_iff [OF ok'] at' using clocks_of_iff [OF ok, of kd k c] by (auto simp: purged_def)
  qed
qed

text \<open>The clocks listed, as many as the map has.\<close>

lemma card_clocks:
  assumes ok: "clocks_ok rt cs" and xs: "list_all_clocks rt cs = Inr xs"
  shows "length (filter P xs) = card {p. \<exists>c. clocks_of rt cs p = Some c \<and> P c}"
proof -
  have mem: "c \<in> set xs \<longleftrightarrow> clocks_of rt cs (ck_kind c, ck_key c) = Some c" for c
    by (simp add: set_list_all [OF ok xs] clocks_of_iff [OF ok])
  have kk: "(ck_kind c, ck_key c) = p" if "clocks_of rt cs p = Some c" for c p
    using that clocks_of_iff [OF ok, of "fst p" "snd p" c] by auto
  have "{p. \<exists>c. clocks_of rt cs p = Some c \<and> P c} = (\<lambda>c. (ck_kind c, ck_key c)) ` set (filter P xs)"
  proof (intro equalityI subsetI)
    fix p assume "p \<in> {p. \<exists>c. clocks_of rt cs p = Some c \<and> P c}"
    then obtain c where c: "clocks_of rt cs p = Some c" "P c" by blast
    then have "c \<in> set (filter P xs)" using mem kk [OF c(1)] by simp
    then have "(\<lambda>c. (ck_kind c, ck_key c)) c \<in> (\<lambda>c. (ck_kind c, ck_key c)) ` set (filter P xs)" by (rule imageI)
    then show "p \<in> (\<lambda>c. (ck_kind c, ck_key c)) ` set (filter P xs)" using kk [OF c(1)] by simp
  next
    fix p assume "p \<in> (\<lambda>c. (ck_kind c, ck_key c)) ` set (filter P xs)"
    then show "p \<in> {p. \<exists>c. clocks_of rt cs p = Some c \<and> P c}" using mem by auto
  qed
  moreover have "inj_on (\<lambda>c. (ck_kind c, ck_key c)) (set (filter P xs))"
    using mem by (intro inj_onI) (metis filter_is_subset option.inject subsetD)
  ultimately show ?thesis
    using distinct_card [OF distinct_filter [OF distinct_list_all [OF ok xs]], of P] by (simp add: card_image)
qed

section \<open>The store as a machine and its specification\<close>

text \<open>
  One operation after another, with what the disk does in it: whether the write or the unlink succeeds,
  and for a purge which ids it can unlink. \<open>StopOp\<close> takes any text, as \<open>stop\<close> does.
\<close>

datatype clock_op =
    StartOp int string bool clock_kind string metadata
  | StopOp int bool string
  | PurgeOp int "string \<Rightarrow> bool" int

datatype clock_answer = Started "string option" | Stopped "stop_result option" | Purged nat | StoreFailed

definition clock_step :: "runtime \<Rightarrow> clock_op \<Rightarrow> clock_store \<Rightarrow> clock_store \<times> clock_answer" where
  "clock_step rt op cs =
    (case op of
       StartOp now rnd w kd k md \<Rightarrow>
         (case start_clock rt now rnd w kd k md cs of
            (cs1, Inr i) \<Rightarrow> (cs1, Started (Some i)) | (cs1, Inl e) \<Rightarrow> (cs1, Started None))
     | StopOp now u s \<Rightarrow>
         (case stop_clock rt now u s cs of
            (cs1, Inr r) \<Rightarrow> (cs1, Stopped r) | (cs1, Inl e) \<Rightarrow> (cs1, StoreFailed))
     | PurgeOp now u older \<Rightarrow>
         (case purge_stale rt now u older cs of
            (cs1, Inr n) \<Rightarrow> (cs1, Purged n) | (cs1, Inl e) \<Rightarrow> (cs1, StoreFailed)))"

text \<open>
  The specification over the map. A text with a double dash names a clock by its id only, so a key with a
  double dash is never found by kind and key.
\<close>

definition named_in :: "string \<Rightarrow> clock_map \<Rightarrow> clock option" where
  "named_in s m =
    (if contains ''--'' s
     then (case m (id_key s) of Some c \<Rightarrow> if ck_id c = s then Some c else None | None \<Rightarrow> None)
     else if CHR '':'' \<in> set s
     then m (takeWhile (\<lambda>c. c \<noteq> CHR '':'') s, tl (dropWhile (\<lambda>c. c \<noteq> CHR '':'') s))
     else None)"

definition clock_spec :: "bool \<Rightarrow> clock_op \<Rightarrow> clock_map \<Rightarrow> clock_map \<times> clock_answer" where
  "clock_spec secret op m =
    (case op of
       StartOp now rnd w kd k md \<Rightarrow>
         let i = kind_str kd @ ''--'' @ k @ ''--'' @ rnd in
         if SAFE_CLOCK_ID (composite (kind_str kd) k) \<and> m (kind_str kd, k) = None \<and> secret \<and> w
         then (m((kind_str kd, k) \<mapsto>
                 \<lparr>ck_id = i, ck_kind = kind_str kd, ck_key = k, ck_started = now, ck_meta = md\<rparr>), Started (Some i))
         else (m, Started None)
     | StopOp now u s \<Rightarrow>
         (case named_in s m of
            None \<Rightarrow> (m, Stopped None)
          | Some c \<Rightarrow> (if u then m((ck_kind c, ck_key c) := None) else m,
                Stopped (Some \<lparr>sr_started = ck_started c, sr_duration = now - ck_started c, sr_meta = ck_meta c\<rparr>)))
     | PurgeOp now u older \<Rightarrow>
         if older = 0 then (m, Purged (card (dom m)))
         else (\<lambda>p. if p \<in> purged u (now - older) m then None else m p, Purged (card (purged u (now - older) m))))"

definition has_secret :: "runtime \<Rightarrow> bool" where
  "has_secret rt \<longleftrightarrow> (case get_secret rt hmac_env of Inr _ \<Rightarrow> True | Inl _ \<Rightarrow> False)"

text \<open>What every call has: the keys of an object are distinct, and the random part is eight digits.\<close>

definition clock_allowed :: "clock_op \<Rightarrow> clock_store \<Rightarrow> bool" where
  "clock_allowed op cs \<longleftrightarrow>
    (case op of StartOp now rnd w kd k md \<Rightarrow> length rnd = 8 \<and> distinct (map fst md) | _ \<Rightarrow> True)"

lemma clock_json_signs:
  assumes "distinct (map fst (ck_meta c))"
  shows "(\<exists>s. sign_payload rt hmac_env (clock_json c) = Inr s) \<longleftrightarrow> has_secret rt"
proof -
  have "is_json (JObj (map (\<lambda>(k, v). (k, JStr v)) (ck_meta c)))"
    using assms by (auto simp: all_json_members_iff comp_def split_def)
  then show ?thesis by (auto simp: sign_payload_Inr clock_json_def has_secret_def split: sum.splits)
qed

lemma start_refines:
  assumes ok: "clocks_ok rt cs" and al: "clock_allowed (StartOp now rnd w kd k md) cs"
    and run: "clock_step rt (StartOp now rnd w kd k md) cs = (cs', x)"
  shows "clocks_ok rt cs' \<and> clock_spec (has_secret rt) (StartOp now rnd w kd k md) (clocks_of rt cs) = (clocks_of rt cs', x)"
proof -
  let ?id = "kind_str kd @ ''--'' @ k @ ''--'' @ rnd"
  let ?c = "\<lparr>ck_id = ?id, ck_kind = kind_str kd, ck_key = k, ck_started = now, ck_meta = md\<rparr>"
  have find: "find_by_key rt (kind_str kd) k cs = Inr (clocks_of rt cs (kind_str kd, k))"
    by (rule find_by_key_clocks_of [OF ok])
  have signs: "(\<exists>s. sign_payload rt hmac_env (clock_json ?c) = Inr s) \<longleftrightarrow> has_secret rt"
    using al by (intro clock_json_signs) (simp add: clock_allowed_def)
  have own: "own_id ?c" using al by (cases kd) (auto simp: own_id_def clock_allowed_def)
  show ?thesis
  proof (cases "SAFE_CLOCK_ID (composite (kind_str kd) k) \<and> clocks_of rt cs (kind_str kd, k) = None \<and> has_secret rt \<and> w")
    case True
    then obtain s where s: "sign_payload rt hmac_env (clock_json ?c) = Inr s" using signs by blast
    have put: "cs' = put_clock (clock_path (ck_id ?c)) s cs" "x = Started (Some ?id)"
      using run True find s by (simp_all add: clock_step_def start_clock_def Let_def put_clock_def)
    have "clocks_of rt cs (ck_kind ?c, ck_key ?c) = None" using True by simp
    from put_clock_ok [OF ok s this own] show ?thesis
      using True put by (simp add: clock_spec_def Let_def)
  next
    case False
    then have "cs' = cs" "x = Started None"
      using run find signs by (auto simp: clock_step_def start_clock_def Let_def split: option.splits if_splits sum.splits)
    then show ?thesis using False ok by (auto simp: clock_spec_def Let_def)
  qed
qed

lemma named_clock_in:
  assumes ok: "clocks_ok rt cs"
  shows "named_clock rt s cs = Inr (named_in s (clocks_of rt cs))"
proof (cases "contains ''--'' s")
  case True
  obtain x where x: "read_clock_file rt (jm_get (cs_files cs) (clock_path s)) = Inr x"
    using clocks_okD(2) [OF ok ends_clock_path] by blast
  then have at: "clock_at rt cs (clock_path s) = x" by (simp add: clock_at_def)
  have "named_in s (clocks_of rt cs) = x"
  proof (cases x)
    case None
    have "ck_id c \<noteq> s" if "clocks_of rt cs (id_key s) = Some c" for c
      using that clocks_of_iff [OF ok, of "fst (id_key s)" "snd (id_key s)" c] at None by auto
    with True None show ?thesis by (auto simp: named_in_def split: option.splits)
  next
    case (Some c)
    then have c: "ck_id c = s" "own_id c" using at clocks_okD(3,5) [OF ok, of "clock_path s" c] by auto
    then have "clocks_of rt cs (id_key s) = Some c"
      using id_key_own at Some by (simp add: clocks_of_iff [OF ok] flip: c(1))
    with True c Some show ?thesis by (simp add: named_in_def)
  qed
  then show ?thesis using True x by (simp add: named_clock_def read_by_id_def)
qed (simp add: named_clock_def named_in_def find_by_key_clocks_of [OF ok])

lemma named_in_Some:
  assumes ok: "clocks_ok rt cs" and "named_in s (clocks_of rt cs) = Some c"
  shows "clocks_of rt cs (ck_kind c, ck_key c) = Some c"
proof -
  obtain p where "clocks_of rt cs p = Some c"
    using assms(2) by (auto simp: named_in_def split: if_splits option.splits)
  then show ?thesis using clocks_of_iff [OF ok] by (cases p) auto
qed

lemma stop_refines:
  assumes ok: "clocks_ok rt cs" and run: "clock_step rt (StopOp now u s) cs = (cs', x)"
  shows "clocks_ok rt cs' \<and> clock_spec b (StopOp now u s) (clocks_of rt cs) = (clocks_of rt cs', x)"
proof (cases "named_in s (clocks_of rt cs)")
  case None
  then show ?thesis
    using run ok by (auto simp: clock_step_def stop_clock_def clock_spec_def named_clock_in [OF ok])
next
  case (Some c)
  have "cs' = unlink_clock u (ck_id c) cs"
    "x = Stopped (Some \<lparr>sr_started = ck_started c, sr_duration = now - ck_started c, sr_meta = ck_meta c\<rparr>)"
    using run Some by (simp_all add: clock_step_def stop_clock_def named_clock_in [OF ok])
  then show ?thesis
    using unlink_clock_ok [OF ok named_in_Some [OF ok Some]] Some ok
    by (cases u) (simp_all add: clock_spec_def unlink_clock_def)
qed

lemma purge_refines:
  assumes ok: "clocks_ok rt cs" and run: "clock_step rt (PurgeOp now u older) cs = (cs', x)"
  shows "clocks_ok rt cs' \<and> clock_spec b (PurgeOp now u older) (clocks_of rt cs) = (clocks_of rt cs', x)"
proof -
  obtain xs where xs: "list_all_clocks rt cs = Inr xs" using list_all_clocks_ok [OF ok] by blast
  show ?thesis
  proof (cases "older = 0")
    case True
    have "length xs = card (dom (clocks_of rt cs))"
      using card_clocks [OF ok xs, of "\<lambda>_. True"] by (simp add: dom_def)
    then show ?thesis using True run xs ok by (auto simp: clock_step_def purge_stale_def clock_spec_def)
  next
    case False
    then have "cs' = fst (purge_each u (now - older) xs cs)" "x = Purged (snd (purge_each u (now - older) xs cs))"
      using run xs by (auto simp: clock_step_def purge_stale_def split: prod.splits)
    then show ?thesis
      using False purge_clocks_ok [OF ok xs] card_clocks [OF ok xs]
      by (simp add: clock_spec_def purge_each_snd purged_def)
  qed
qed

lemma clock_step_refines:
  assumes "clocks_ok rt cs" "clock_allowed op cs" "clock_step rt op cs = (cs', x)"
  shows "clocks_ok rt cs' \<and> clock_spec (has_secret rt) op (clocks_of rt cs) = (clocks_of rt cs', x)"
proof (cases op)
  case StartOp
  with assms show ?thesis using start_refines by metis
next
  case StopOp
  with assms show ?thesis using stop_refines by metis
next
  case PurgeOp
  with assms show ?thesis using purge_refines by metis
qed

interpretation clk: refined_machine "clock_step rt" "clock_spec (has_secret rt)" "clocks_ok rt" "clocks_of rt"
  clock_allowed for rt
  by unfold_locales (drule (2) clock_step_refines, simp)+

text \<open>
  C21: from a store that can be read, along any run of starts, stops and purges, one after another, with
  writes and unlinks that may fail, the signed files answer exactly like one map from kind and key to a
  clock. A start answers with the id it made, and fails if the key is not safe, a clock of that kind and
  key runs, the secret is unusable or the write fails. A stop by id or by kind and key returns the time
  since the start with the metadata given then, and ends the clock unless its file cannot be removed; a
  key with a double dash is taken for an id and not found. A purge removes exactly the clocks older than
  its limit whose files can be removed, and returns their number, with limit 0 that of all.
\<close>

theorem clocks_refine_map:
  assumes "clocks_ok rt cs" "run_allowed (clock_step rt) clock_allowed ops cs"
    and "run_out (clock_step rt) ops cs = (cs', answers)"
  shows "clocks_ok rt cs' \<and> run_out (clock_spec (has_secret rt)) ops (clocks_of rt cs) = (clocks_of rt cs', answers)"
  using clk.run_refines [OF assms] .

lemma empty_store_ok: "clocks_ok rt \<lparr>cs_files = [], cs_blocked = None\<rparr>"
  by (simp add: clocks_ok_def clock_at_def read_clock_file_def)

definition demo_ops :: "clock_op list" where
  "demo_ops = [StartOp 5 ''01234567'' True MttrClock ''o1'' [], StartOp 6 ''89abcdef'' True MttrClock ''o1'' [],
     StopOp 9 True ''mttr--o1--01234567'']"

theorem clocks_refine_map_witness:
  "\<exists>cs'. run_out (clock_step demo_rt) demo_ops \<lparr>cs_files = [], cs_blocked = None\<rparr>
    = (cs', [Started (Some ''mttr--o1--01234567''), Started None,
             Stopped (Some \<lparr>sr_started = 5, sr_duration = 4, sr_meta = []\<rparr>)])"
proof -
  let ?cs = "\<lparr>cs_files = [], cs_blocked = None\<rparr>"
  have al: "run_allowed (clock_step demo_rt) clock_allowed demo_ops ?cs"
    by (simp add: demo_ops_def clock_allowed_def)
  obtain cs' xs where run: "run_out (clock_step demo_rt) demo_ops ?cs = (cs', xs)" by fastforce
  have none: "clocks_of demo_rt ?cs = (\<lambda>_. None)"
    by (rule clock_map_eqI) (simp add: clocks_of_def find_by_key_def list_all_clocks_def)
  have secret: "has_secret demo_rt" by (simp add: has_secret_def demo_secret)
  have "snd (run_out (clock_spec True) demo_ops (\<lambda>_. None)) = [Started (Some ''mttr--o1--01234567''), Started None,
             Stopped (Some \<lparr>sr_started = 5, sr_duration = 4, sr_meta = []\<rparr>)]"
    by (simp add: demo_ops_def clock_spec_def Let_def named_in_def id_key_def SAFE_CLOCK_ID_def composite_def
        is_alnum_def is_digit_def is_lower_def is_upper_def)
  with clocks_refine_map [OF empty_store_ok al run] none secret run show ?thesis by simp
qed

section \<open>Where the store falls short of the map\<close>

text \<open>A key with a double dash is taken for an id, so its clock is never found by kind and key.\<close>

lemma double_dash_key_never_stops:
  assumes "contains ''--'' k"
    and "jm_get (cs_files cs) (clock_path (composite (kind_str kd) k)) = None"
  shows "stop_clock rt now u (composite (kind_str kd) k) cs = (cs, Inr None)"
proof -
  have "contains ''--'' (composite (kind_str kd) k)"
    using assms(1) by (cases kd) (simp_all add: composite_def)
  then show ?thesis
    using assms(2) by (simp add: stop_clock_def named_clock_def read_by_id_def read_clock_file_def)
qed

lemma collect_Inl: "Inl e \<in> set rs \<Longrightarrow> \<exists>e. collect rs = Inl e"
  by (cases "collect rs") (auto simp: collect_Inr_iff)

text \<open>One file that is not JSON makes every start and every listing throw.\<close>

lemma malformed_file_blocks_starts:
  assumes "jm_get (cs_files cs) f = Some (Content None)" "is_json_file f" "cs_blocked cs = None"
    and "SAFE_CLOCK_ID (composite (kind_str kd) k)"
  shows "\<exists>e. start_clock rt now rnd ok kd k md cs = (cs, Inl e)"
proof -
  let ?rs = "map (\<lambda>f. read_by_id rt (take (length f - 5) f) cs) (filter is_json_file (map fst (cs_files cs)))"
  have "read_by_id rt (take (length f - 5) f) cs = Inl (Error ''JSON'')"
    using assms(1) clock_path_ext [OF assms(2)] by (simp add: read_by_id_def read_clock_file_def)
  moreover have "f \<in> set (map fst (cs_files cs))"
    using imageI [OF map_of_SomeD [OF assms(1)], of fst] by (simp only: fst_conv set_map)
  then have "f \<in> set (filter is_json_file (map fst (cs_files cs)))"
    using assms(2) by (simp only: set_filter mem_Collect_eq)
  then have "read_by_id rt (take (length f - 5) f) cs \<in> set ?rs"
    unfolding set_map by (rule imageI)
  ultimately have "Inl (Error ''JSON'') \<in> set ?rs" by (simp only:)
  from collect_Inl [OF this] obtain e where "collect ?rs = Inl e" by blast
  then show ?thesis
    using assms(3,4) by (simp add: start_clock_def find_by_key_def list_all_clocks_def)
qed

end
