(* ===== verification/Observation.thy ===== *)
theory Observation
  imports Clocks AuditLog
begin

text \<open>
  The observation layer of \<open>src/observation\<close>: the fault catalog, the dedup cache, the store with its
  retention, the promoter that submits intake requests, and the collector that runs the probes. What a
  probe finds, the clock, the disk and the intake program are the environment.
\<close>

section \<open>Observations and the catalog\<close>

datatype severity = P0 | P1 | P2

fun severity_str :: "severity \<Rightarrow> string" where
  "severity_str P0 = ''P0''" | "severity_str P1 = ''P1''" | "severity_str P2 = ''P2''"

datatype fault_pattern =
    CrashLoop | OomKill | DiskIoError | ZfsPoolDegraded | UnifiApOffline | CertExpiryImminent
  | BackupOverdue | Service5xx | DaemonHeartbeatStale | EntityGone | ReplicaMismatch | ImageChanged
  | PrometheusAlert | DatastoreUnhealthy | ReplicationLag | DatastoreNearCapacity
  | DatastoreDiskPressure | CapacityWarning | CapacityCritical | CapacityGrowth | PolicyDrift
  | ObservabilityGap

fun pattern_str :: "fault_pattern \<Rightarrow> string" where
  "pattern_str CrashLoop = ''crash_loop''"
| "pattern_str OomKill = ''oom_kill''"
| "pattern_str DiskIoError = ''disk_io_error''"
| "pattern_str ZfsPoolDegraded = ''zfs_pool_degraded''"
| "pattern_str UnifiApOffline = ''unifi_ap_offline''"
| "pattern_str CertExpiryImminent = ''cert_expiry_imminent''"
| "pattern_str BackupOverdue = ''backup_overdue''"
| "pattern_str Service5xx = ''service_5xx''"
| "pattern_str DaemonHeartbeatStale = ''daemon_heartbeat_stale''"
| "pattern_str EntityGone = ''entity_gone''"
| "pattern_str ReplicaMismatch = ''replica_mismatch''"
| "pattern_str ImageChanged = ''image_changed''"
| "pattern_str PrometheusAlert = ''prometheus_alert''"
| "pattern_str DatastoreUnhealthy = ''datastore_unhealthy''"
| "pattern_str ReplicationLag = ''replication_lag''"
| "pattern_str DatastoreNearCapacity = ''datastore_near_capacity''"
| "pattern_str DatastoreDiskPressure = ''datastore_disk_pressure''"
| "pattern_str CapacityWarning = ''capacity_warning''"
| "pattern_str CapacityCritical = ''capacity_critical''"
| "pattern_str CapacityGrowth = ''capacity_growth''"
| "pattern_str PolicyDrift = ''policy_drift''"
| "pattern_str ObservabilityGap = ''observability_gap''"

record catalog_entry =
  fc_detection :: string
  fc_severity :: severity
  fc_type :: action_type
  fc_destr :: destructiveness

abbreviation entry :: "string \<Rightarrow> severity \<Rightarrow> action_type \<Rightarrow> destructiveness \<Rightarrow> catalog_entry" where
  "entry d s t r \<equiv> \<lparr>fc_detection = d, fc_severity = s, fc_type = t, fc_destr = r\<rparr>"

fun FAULT_CATALOG :: "fault_pattern \<Rightarrow> catalog_entry" where
  "FAULT_CATALOG CrashLoop = entry ''k8s events / docker restart count'' P1 Bug Reversible"
| "FAULT_CATALOG OomKill = entry ''k8s events / docker stats / dmesg'' P1 Bug PersistentModifying"
| "FAULT_CATALOG DiskIoError = entry ''SMART warnings / dmesg'' P0 Infra DataAffecting"
| "FAULT_CATALOG ZfsPoolDegraded = entry ''zpool status non-ONLINE'' P0 Infra DataAffecting"
| "FAULT_CATALOG UnifiApOffline = entry ''UniFi events API'' P1 Bug Reversible"
| "FAULT_CATALOG CertExpiryImminent = entry ''x509 issuer scan within 7d'' P2 Hotfix Reversible"
| "FAULT_CATALOG BackupOverdue = entry ''manifest age check >24h'' P1 Infra Reversible"
| "FAULT_CATALOG Service5xx = entry ''HTTP probe sustained 5xx >5min'' P1 Bug Reversible"
| "FAULT_CATALOG DaemonHeartbeatStale =
     entry ''autonomous-dev daemon heartbeat file stale'' P0 Hotfix Reversible"
| "FAULT_CATALOG EntityGone =
     entry ''inventory refresh sweep: entity last_seen exceeds gone threshold'' P1 Infra Reversible"
| "FAULT_CATALOG ReplicaMismatch =
     entry ''inventory refresh sweep: replicas_running < replicas_desired'' P1 Bug Reversible"
| "FAULT_CATALOG ImageChanged =
     entry ''inventory refresh sweep: entity image attribute differs from previous sweep'' P2 Infra Reversible"
| "FAULT_CATALOG PrometheusAlert =
     entry ''Alertmanager/Prometheus firing alert: GET /api/v2/alerts?active=true or /api/v1/alerts''
       P1 Infra Reversible"
| "FAULT_CATALOG DatastoreUnhealthy =
     entry ''datastore liveness probe: exec client ping/status returns error or non-zero exit''
       P0 Infra DataAffecting"
| "FAULT_CATALOG ReplicationLag =
     entry ''datastore replication probe: replica lag exceeds threshold or replication slot absent''
       P1 Infra DataAffecting"
| "FAULT_CATALOG DatastoreNearCapacity =
     entry ''datastore capacity probe: connection count or memory usage approaching configured maximum''
       P1 Infra Reversible"
| "FAULT_CATALOG DatastoreDiskPressure =
     entry ''datastore disk probe: data directory usage approaching configured limit'' P0 Infra DataAffecting"
| "FAULT_CATALOG PolicyDrift =
     entry (''policy-drift probe: live service/workload placement evaluated against generated homelab '' @
       ''policy rules; violation emitted when placement contradicts a placement or affinity rule'')
       P1 Infra Reversible"
| "FAULT_CATALOG CapacityWarning =
     entry ''capacity probe: storage fill ratio exceeds warn threshold (default 80 %); emitted for any capacity-bearing entity (storage-array, storage-disk, share, datastore, pool)''
       P1 Infra Reversible"
| "FAULT_CATALOG CapacityCritical =
     entry ''capacity probe: storage fill ratio exceeds critical threshold (default 90 %); same entity kinds as capacity_warning''
       P0 Infra DataAffecting"
| "FAULT_CATALOG CapacityGrowth =
     entry ''capacity probe: fill-rate projection shows storage reaching 100 % within the configured growth window (default 7 days), even when below warn threshold''
       P1 Infra Reversible"
| "FAULT_CATALOG ObservabilityGap =
     entry (''observability onboarder (issue #41): a discovered service is not wired into metrics '' @
       ''scraping (Prometheus), log queryability (Loki/OpenSearch), or a Grafana dashboard; '' @
       ''one observation per missing channel per entity; details carry entityId, entityName, '' @
       ''channel, and an optional proposal for remediation'') P2 Infra ReadOnly"

definition all_patterns :: "fault_pattern list" where
  "all_patterns = [CrashLoop, OomKill, DiskIoError, ZfsPoolDegraded, UnifiApOffline, CertExpiryImminent,
     BackupOverdue, Service5xx, DaemonHeartbeatStale, EntityGone, ReplicaMismatch, ImageChanged,
     PrometheusAlert, DatastoreUnhealthy, ReplicationLag, DatastoreNearCapacity, DatastoreDiskPressure,
     PolicyDrift, CapacityWarning, CapacityCritical, CapacityGrowth, ObservabilityGap]"

definition is_fault_pattern :: "string \<Rightarrow> bool" where
  "is_fault_pattern s \<longleftrightarrow> s \<in> pattern_str ` set all_patterns"

record observation =
  ob_id :: string
  ob_platform :: string
  ob_pattern :: fault_pattern
  ob_resource :: string
  ob_severity :: severity
  ob_at :: string
  ob_details :: "jsval option"
  ob_key :: "string option"

text \<open>\<open>makeObservation\<close> and the sentinel of \<open>unreachable\<close>; \<open>uuid\<close> and \<open>now\<close> are fresh at each call.\<close>

definition make_observation ::
  "runtime \<Rightarrow> string \<Rightarrow> int \<Rightarrow> string \<Rightarrow> fault_pattern \<Rightarrow> string \<Rightarrow> severity \<Rightarrow> jsval option \<Rightarrow> observation" where
  "make_observation rt uuid t platform pat res sev details =
    \<lparr>ob_id = uuid, ob_platform = platform, ob_pattern = pat, ob_resource = res, ob_severity = sev,
     ob_at = rt_iso rt t, ob_details = details,
     ob_key = Some (platform @ '':'' @ pattern_str pat @ '':'' @ res)\<rparr>"

definition unreachable ::
  "runtime \<Rightarrow> string \<Rightarrow> int \<Rightarrow> string \<Rightarrow> string \<Rightarrow> string \<Rightarrow> string option \<Rightarrow> observation" where
  "unreachable rt uuid t platform err probe res =
    make_observation rt uuid t platform DaemonHeartbeatStale
      (case res of None \<Rightarrow> probe @ ''/'' @ platform | Some r \<Rightarrow> r) P0
      (Some (JObj [(''error'', JStr err), (''probe'', JStr probe), (''reason'', JStr ''platform_unreachable'')]))"

section \<open>The dedup cache\<close>

type_synonym dedup_cache = "(string, int) jsmap"

definition DEFAULT_WINDOW_MS :: int where
  "DEFAULT_WINDOW_MS = 3600000"

definition key_of :: "observation \<Rightarrow> string" where
  "key_of obs =
    (case ob_key obs of Some k \<Rightarrow> k
     | None \<Rightarrow> ob_platform obs @ '':'' @ pattern_str (ob_pattern obs) @ '':'' @ ob_resource obs)"

definition is_duplicate :: "int \<Rightarrow> observation \<Rightarrow> int \<Rightarrow> dedup_cache \<Rightarrow> dedup_cache \<times> bool" where
  "is_duplicate window obs t cache =
    (case jm_get cache (key_of obs) of
       Some seen \<Rightarrow> if t - seen < window then (cache, True) else (jm_set (key_of obs) t cache, False)
     | None \<Rightarrow> (jm_set (key_of obs) t cache, False))"

definition hydrate :: "runtime \<Rightarrow> int \<Rightarrow> observation list \<Rightarrow> int \<Rightarrow> dedup_cache \<Rightarrow> dedup_cache" where
  "hydrate rt window obs t cache =
    fold (\<lambda>o1 c. case rt_parse rt (ob_at o1) of
        None \<Rightarrow> c
      | Some ts \<Rightarrow> if t - ts < window then jm_set (key_of o1) ts c else c) obs cache"

section \<open>The store\<close>

text \<open>A file is the observation its JSON text holds (\<open>None\<close> when it cannot be read or parsed) with its
  modification time.\<close>

record obs_store =
  os_files :: "(string, observation option \<times> int) jsmap"
  os_blocked :: "string option"

definition RETENTION_DAYS :: int where
  "RETENTION_DAYS = 90"

definition MS_PER_DAY :: int where
  "MS_PER_DAY = 86400000"

definition save_observation :: "bool \<Rightarrow> int \<Rightarrow> observation \<Rightarrow> obs_store \<Rightarrow> obs_store \<times> string res" where
  "save_observation disk_ok t obs st =
    (if disk_ok
     then (st\<lparr>os_files := jm_set (ob_id obs @ ''.json'') (Some obs, t) (os_files st)\<rparr>, Inr (ob_id obs @ ''.json''))
     else (st, Inl (IoError ''EIO'')))"

definition load_observation :: "string \<Rightarrow> obs_store \<Rightarrow> observation res" where
  "load_observation i st =
    (case jm_get (os_files st) (i @ ''.json'') of
       None \<Rightarrow> Inl (IoError ''ENOENT'')
     | Some (None, t) \<Rightarrow> Inl (Error ''JSON'')
     | Some (Some obs, t) \<Rightarrow> Inr obs)"

record list_filter =
  lf_since :: "int option"
  lf_platform :: "string option"
  lf_severity :: "string option"

definition passes_filter :: "runtime \<Rightarrow> list_filter \<Rightarrow> observation \<Rightarrow> bool" where
  "passes_filter rt lf obs \<longleftrightarrow>
     (case (lf_since lf, rt_parse rt (ob_at obs)) of (Some s, Some t) \<Rightarrow> \<not> t < s | _ \<Rightarrow> True)
     \<and> (case lf_platform lf of Some p \<Rightarrow> ob_platform obs = p | None \<Rightarrow> True)
     \<and> (case lf_severity lf of Some s \<Rightarrow> severity_str (ob_severity obs) = s | None \<Rightarrow> True)"

text \<open>\<open>Array.prototype.sort\<close> with a comparator: stable.\<close>

fun insert_cmp :: "('a \<Rightarrow> 'a \<Rightarrow> int) \<Rightarrow> 'a \<Rightarrow> 'a list \<Rightarrow> 'a list" where
  "insert_cmp cmp x [] = [x]"
| "insert_cmp cmp x (y # ys) = (if cmp x y \<le> 0 then x # y # ys else y # insert_cmp cmp x ys)"

definition sort_cmp :: "('a \<Rightarrow> 'a \<Rightarrow> int) \<Rightarrow> 'a list \<Rightarrow> 'a list" where
  "sort_cmp cmp xs = foldr (insert_cmp cmp) xs []"

text \<open>\<open>collate\<close> is \<open>localeCompare\<close>.\<close>

definition list_observations ::
  "runtime \<Rightarrow> (string \<Rightarrow> string \<Rightarrow> int) \<Rightarrow> list_filter \<Rightarrow> obs_store \<Rightarrow> observation list res" where
  "list_observations rt collate lf st =
    (case os_blocked st of
       Some e \<Rightarrow> Inl (IoError e)
     | None \<Rightarrow>
         Inr (sort_cmp (\<lambda>a b. collate (ob_at b) (ob_at a))
           (filter (passes_filter rt lf)
             (concat (map (\<lambda>f. if ends_with ''.json'' f \<and> \<not> contains ''.tmp.'' f
                  then (case jm_get (os_files st) f of Some (Some obs, t) \<Rightarrow> [obs] | _ \<Rightarrow> []) else [])
                (map fst (os_files st)))))))"

text \<open>\<open>unlink_ok\<close> tells which removals succeed.\<close>

definition expired_files :: "int \<Rightarrow> (string \<Rightarrow> bool) \<Rightarrow> obs_store \<Rightarrow> string list" where
  "expired_files t unlink_ok st =
    filter (\<lambda>f. ends_with ''.json'' f \<and> unlink_ok f
        \<and> (case jm_get (os_files st) f of Some (c, mtime) \<Rightarrow> mtime < t - RETENTION_DAYS * MS_PER_DAY | None \<Rightarrow> False))
      (map fst (os_files st))"

definition cleanup :: "int \<Rightarrow> (string \<Rightarrow> bool) \<Rightarrow> obs_store \<Rightarrow> obs_store \<times> nat res" where
  "cleanup t unlink_ok st =
    (case os_blocked st of
       Some e \<Rightarrow> (st, Inl (IoError e))
     | None \<Rightarrow> (st\<lparr>os_files := fold jm_del (expired_files t unlink_ok st) (os_files st)\<rparr>,
                Inr (length (expired_files t unlink_ok st))))"

section \<open>The promoter\<close>

text \<open>
  The world of one process: the cache, the store, the audit log and the clock store when they are
  wired, what the intake program accepted (the observation, when, and its arguments), the warnings and
  the timers. Each observation handled takes one tick; the environment gives the clock and the outcome
  of every effect at that tick.
\<close>

record submission =
  sb_obs :: observation
  sb_time :: int
  sb_args :: "string list"

record obs_world =
  ow_dedup :: dedup_cache
  ow_store :: obs_store
  ow_audit :: "audit_log option"
  ow_clocks :: "clock_store option"
  ow_submits :: "submission list"
  ow_warnings :: "string list"
  ow_timers :: "(string \<times> int) list"
  ow_tick :: nat

record obs_env =
  oe_rt :: runtime
  oe_key :: "string res"
  oe_now :: "nat \<Rightarrow> int"
  oe_disk :: "nat \<Rightarrow> bool"
  oe_exec :: "nat \<Rightarrow> error option"
  oe_audit :: "nat \<Rightarrow> string \<Rightarrow> append_io"
  oe_rnd :: "nat \<Rightarrow> string"
  oe_window :: int
  oe_repo :: string
  oe_collate :: "string \<Rightarrow> string \<Rightarrow> int"

definition map_to_request_type :: "observation \<Rightarrow> action_type" where
  "map_to_request_type obs = fc_type (FAULT_CATALOG (ob_pattern obs))"

definition map_to_destructiveness :: "observation \<Rightarrow> destructiveness" where
  "map_to_destructiveness obs = fc_destr (FAULT_CATALOG (ob_pattern obs))"

definition build_bug_report :: "observation \<Rightarrow> string" where
  "build_bug_report obs =
    join [nl] ([''Pattern: '' @ pattern_str (ob_pattern obs) @ '' on '' @ ob_resource obs,
        ''Platform: '' @ ob_platform obs,
        ''Severity: '' @ severity_str (ob_severity obs),
        ''Discovered: '' @ ob_at obs]
      @ (case ob_details obs of None \<Rightarrow> [] | Some d \<Rightarrow> [''Details: '' @ render d]))"

definition submit_args :: "string \<Rightarrow> action_type option \<Rightarrow> observation \<Rightarrow> string list" where
  "submit_args repo override obs =
    [''request'', ''submit'',
     ''--type'', action_type_str (case override of Some t \<Rightarrow> t | None \<Rightarrow> map_to_request_type obs),
     ''--source'', ''production-intelligence'', ''--repo'', repo,
     ''--description'', build_bug_report obs,
     ''--metadata'', render (JObj [(''destructiveness'', JStr (destr_str (map_to_destructiveness obs))),
        (''observation_id'', JStr (ob_id obs)), (''severity'', JStr (severity_str (ob_severity obs)))])]"

definition audit_event ::
  "obs_env \<Rightarrow> nat \<Rightarrow> string \<Rightarrow> (string \<times> jsval) list \<Rightarrow> string \<Rightarrow> obs_world \<Rightarrow> obs_world \<times> unit res" where
  "audit_event env n event payload platform w =
    (case emit_audit (oe_rt env) (oe_key env) (oe_audit env n event) (oe_now env n) event (JObj payload)
            \<lparr>ao_platform = Some platform, ao_actor = None\<rparr> (ow_audit w) of
       (a, r) \<Rightarrow> (w\<lparr>ow_audit := a\<rparr>, rbind r (\<lambda>_. Inr ())))"

definition promote ::
  "obs_env \<Rightarrow> nat \<Rightarrow> action_type option \<Rightarrow> observation \<Rightarrow> obs_world \<Rightarrow> obs_world \<times> unit res" where
  "promote env n override obs w =
    (let args = submit_args (oe_repo env) override obs in
     case oe_exec env n of
       Some e \<Rightarrow> (w, Inl e)
     | None \<Rightarrow>
         let w1 = w\<lparr>ow_submits := ow_submits w @ [\<lparr>sb_obs = obs, sb_time = oe_now env n, sb_args = args\<rparr>]\<rparr>;
             w2 = (case ow_clocks w1 of
                     None \<Rightarrow> w1
                   | Some cs \<Rightarrow> w1\<lparr>ow_clocks := Some (fst (start_clock (oe_rt env) (oe_now env n) (oe_rnd env n)
                       (oe_disk env n) MttrClock (ob_id obs)
                       [(''platform'', ob_platform obs), (''pattern'', pattern_str (ob_pattern obs))] cs))\<rparr>)
         in audit_event env n ''observation_promoted''
              [(''observation_id'', JStr (ob_id obs)), (''pattern'', JStr (pattern_str (ob_pattern obs))),
               (''request_type'', JStr (action_type_str
                  (case override of Some t \<Rightarrow> t | None \<Rightarrow> map_to_request_type obs))),
               (''destructiveness'', JStr (destr_str (map_to_destructiveness obs))),
               (''override'', JBool (override \<noteq> None))]
              (ob_platform obs) w2)"

text \<open>\<open>cancel\<close> and \<open>resolved\<close>: the outcome of a promoted observation. The counters file and the metrics
  are those of \<open>emitFPRate\<close>; the probe label is the pattern.\<close>

definition cancel_observation ::
  "obs_env \<Rightarrow> int \<Rightarrow> bool \<Rightarrow> observation \<Rightarrow> obs_world \<Rightarrow> jsval option disk_file \<Rightarrow> metrics
   \<Rightarrow> obs_world \<times> jsval option disk_file \<times> metrics" where
  "cancel_observation env t disk_ok obs w f m =
    ((case ow_clocks w of
        None \<Rightarrow> w
      | Some cs \<Rightarrow> w\<lparr>ow_clocks := Some (fst (stop_clock (oe_rt env) t disk_ok (''mttr:'' @ ob_id obs) cs))\<rparr>),
     emit_fp_rate (oe_rt env) t disk_ok (pattern_str (ob_pattern obs)) True f m)"

definition resolved_observation ::
  "obs_env \<Rightarrow> int \<Rightarrow> bool \<Rightarrow> observation \<Rightarrow> jsval option disk_file \<Rightarrow> metrics
   \<Rightarrow> jsval option disk_file \<times> metrics" where
  "resolved_observation env t disk_ok obs f m =
    emit_fp_rate (oe_rt env) t disk_ok (pattern_str (ob_pattern obs)) False f m"

section \<open>The collector\<close>

datatype cadence = Fast | Medium | Slow | Daily

fun CADENCE_MS :: "cadence \<Rightarrow> int" where
  "CADENCE_MS Fast = 5 * 60000"
| "CADENCE_MS Medium = 15 * 60000"
| "CADENCE_MS Slow = 3600000"
| "CADENCE_MS Daily = 24 * 3600000"

record probe =
  pr_id :: string
  pr_platform :: string
  pr_cadence :: cadence
  pr_scan :: "nat \<Rightarrow> observation list res"

definition warn :: "string \<Rightarrow> obs_world \<Rightarrow> obs_world" where
  "warn msg w = w\<lparr>ow_warnings := ow_warnings w @ [msg]\<rparr>"

text \<open>The body of the loop in \<open>runProbe\<close>: whether the observation is reported as fresh, or the error
  that ends the run.\<close>

definition handle_observation ::
  "obs_env \<Rightarrow> bool \<Rightarrow> observation \<Rightarrow> obs_world \<Rightarrow> obs_world \<times> bool res" where
  "handle_observation env dry obs w0 =
    (let n = ow_tick w0; w = w0\<lparr>ow_tick := n + 1\<rparr> in
     case is_duplicate (oe_window env) obs (oe_now env n) (ow_dedup w) of
       (cache, True) \<Rightarrow>
         (case audit_event env n ''observation_dedup_suppressed''
                 [(''observation_id'', JStr (ob_id obs)), (''pattern'', JStr (pattern_str (ob_pattern obs))),
                  (''dedup_key'', case ob_key obs of Some k \<Rightarrow> JStr k | None \<Rightarrow> JNull)]
                 (ob_platform obs) (w\<lparr>ow_dedup := cache\<rparr>) of
            (w1, Inl e) \<Rightarrow> (w1, Inl e)
          | (w1, Inr _) \<Rightarrow> (w1, Inr False))
     | (cache, False) \<Rightarrow>
         if dry then (w\<lparr>ow_dedup := cache\<rparr>, Inr True)
         else
           (case save_observation (oe_disk env n) (oe_now env n) obs (ow_store w) of
              (st, Inl e) \<Rightarrow>
                (warn (''failed to persist observation '' @ ob_id obs) (w\<lparr>ow_dedup := cache, ow_store := st\<rparr>), Inr False)
            | (st, Inr _) \<Rightarrow>
                (case audit_event env n ''observation_created''
                        [(''observation_id'', JStr (ob_id obs)), (''pattern'', JStr (pattern_str (ob_pattern obs))),
                         (''severity'', JStr (severity_str (ob_severity obs)))]
                        (ob_platform obs) (w\<lparr>ow_dedup := cache, ow_store := st\<rparr>) of
                   (w1, Inl e) \<Rightarrow> (warn (''failed to persist observation '' @ ob_id obs) w1, Inr False)
                 | (w1, Inr _) \<Rightarrow>
                     (case promote env n None obs w1 of
                        (w2, Inl e) \<Rightarrow> (warn (''failed to promote observation '' @ ob_id obs) w2, Inr True)
                      | (w2, Inr _) \<Rightarrow> (w2, Inr True)))))"

fun handle_all ::
  "obs_env \<Rightarrow> bool \<Rightarrow> observation list \<Rightarrow> obs_world \<Rightarrow> obs_world \<times> observation list res" where
  "handle_all env dry [] w = (w, Inr [])"
| "handle_all env dry (obs # rest) w =
     (case handle_observation env dry obs w of
        (w1, Inl e) \<Rightarrow> (w1, Inl e)
      | (w1, Inr fresh) \<Rightarrow>
          (case handle_all env dry rest w1 of
             (w2, Inl e) \<Rightarrow> (w2, Inl e)
           | (w2, Inr os) \<Rightarrow> (w2, Inr (if fresh then obs # os else os))))"

definition run_probe ::
  "obs_env \<Rightarrow> bool \<Rightarrow> probe \<Rightarrow> obs_world \<Rightarrow> obs_world \<times> observation list res" where
  "run_probe env dry p w =
    (case pr_scan p (ow_tick w) of
       Inl e \<Rightarrow> (warn (''probe '' @ pr_id p @ '' scan threw unexpectedly'') w, Inr [])
     | Inr scanned \<Rightarrow> handle_all env dry scanned w)"

fun run_probes ::
  "obs_env \<Rightarrow> bool \<Rightarrow> probe list \<Rightarrow> obs_world \<Rightarrow> obs_world \<times> observation list res" where
  "run_probes env dry [] w = (w, Inr [])"
| "run_probes env dry (p # ps) w =
     (case run_probe env dry p w of
        (w1, Inl e) \<Rightarrow> (w1, Inl e)
      | (w1, Inr os) \<Rightarrow>
          (case run_probes env dry ps w1 of
             (w2, Inl e) \<Rightarrow> (w2, Inl e) | (w2, Inr os2) \<Rightarrow> (w2, Inr (os @ os2))))"

definition run_all_probes ::
  "obs_env \<Rightarrow> string option \<Rightarrow> bool \<Rightarrow> probe list \<Rightarrow> obs_world \<Rightarrow> obs_world \<times> observation list res" where
  "run_all_probes env platform dry ps w =
    run_probes env dry (case platform of Some i \<Rightarrow> filter (\<lambda>p. pr_platform p = i) ps | None \<Rightarrow> ps) w"

text \<open>A timer is its callback, named by the probe or the cleanup, and its interval.\<close>

definition collector_start :: "obs_env \<Rightarrow> int \<Rightarrow> probe list \<Rightarrow> obs_world \<Rightarrow> obs_world \<times> unit res" where
  "collector_start env t ps w =
    (if ow_timers w \<noteq> [] then (w, Inr ())
     else case list_observations (oe_rt env) (oe_collate env)
                 \<lparr>lf_since = Some (t - 3600000), lf_platform = None, lf_severity = None\<rparr> (ow_store w) of
       Inl e \<Rightarrow> (w, Inl e)
     | Inr recent \<Rightarrow>
         (w\<lparr>ow_dedup := hydrate (oe_rt env) (oe_window env) recent t (ow_dedup w),
            ow_timers := map (\<lambda>p. (''probe '' @ pr_id p, CADENCE_MS (pr_cadence p))) ps
               @ [(''cleanup'', 24 * 3600000)]\<rparr>, Inr ()))"

definition collector_stop :: "obs_world \<Rightarrow> obs_world" where
  "collector_stop w = w\<lparr>ow_timers := []\<rparr>"

section \<open>What one observation does\<close>

lemma all_patterns_complete: "set all_patterns = UNIV"
proof -
  have "p \<in> set all_patterns" for p by (cases p) (simp_all add: all_patterns_def)
  then show ?thesis by blast
qed

lemma is_fault_pattern_iff: "is_fault_pattern s \<longleftrightarrow> (\<exists>p. s = pattern_str p)"
  by (auto simp: is_fault_pattern_def all_patterns_complete)

lemma audit_event_frame:
  assumes "audit_event env n ev pl pf w = (w', r)"
  shows "ow_dedup w' = ow_dedup w" "ow_store w' = ow_store w"
    "ow_submits w' = ow_submits w" "ow_tick w' = ow_tick w"
  using assms by (auto simp: audit_event_def split: prod.splits)

lemma warn_frame [simp]:
  "ow_dedup (warn m w) = ow_dedup w" "ow_store (warn m w) = ow_store w"
  "ow_submits (warn m w) = ow_submits w" "ow_tick (warn m w) = ow_tick w"
  by (simp_all add: warn_def)

definition submission_of :: "obs_env \<Rightarrow> nat \<Rightarrow> observation \<Rightarrow> submission" where
  "submission_of env n obs =
    \<lparr>sb_obs = obs, sb_time = oe_now env n, sb_args = submit_args (oe_repo env) None obs\<rparr>"

lemma promote_frame:
  assumes "promote env n None obs w = (w', r)"
  shows "ow_dedup w' = ow_dedup w" "ow_store w' = ow_store w" "ow_tick w' = ow_tick w"
    "ow_submits w' = ow_submits w @ (if oe_exec env n = None then [submission_of env n obs] else [])"
proof -
  have "ow_dedup w' = ow_dedup w \<and> ow_store w' = ow_store w \<and> ow_tick w' = ow_tick w
    \<and> ow_submits w' = ow_submits w @ (if oe_exec env n = None then [submission_of env n obs] else [])"
  proof (cases "oe_exec env n")
    case None
    note run = assms [unfolded promote_def Let_def None option.case]
    from audit_event_frame [OF run] show ?thesis
      using None by (simp add: submission_of_def split: option.splits)
  next
    case (Some e)
    with assms show ?thesis by (simp add: promote_def Let_def)
  qed
  then show "ow_dedup w' = ow_dedup w" "ow_store w' = ow_store w" "ow_tick w' = ow_tick w"
    "ow_submits w' = ow_submits w @ (if oe_exec env n = None then [submission_of env n obs] else [])"
    by blast+
qed

text \<open>Whether the cache lets an observation through now.\<close>

definition unseen :: "obs_env \<Rightarrow> observation \<Rightarrow> obs_world \<Rightarrow> bool" where
  "unseen env obs w \<longleftrightarrow>
    (case jm_get (ow_dedup w) (key_of obs) of
       Some seen \<Rightarrow> oe_window env \<le> oe_now env (ow_tick w) - seen | None \<Rightarrow> True)"

definition accepted_cache :: "obs_env \<Rightarrow> observation \<Rightarrow> obs_world \<Rightarrow> dedup_cache" where
  "accepted_cache env obs w = jm_set (key_of obs) (oe_now env (ow_tick w)) (ow_dedup w)"

definition saved_store :: "obs_env \<Rightarrow> observation \<Rightarrow> obs_world \<Rightarrow> obs_store" where
  "saved_store env obs w = (ow_store w)\<lparr>os_files :=
     jm_set (ob_id obs @ ''.json'') (Some obs, oe_now env (ow_tick w)) (os_files (ow_store w))\<rparr>"

lemma handle_observation_cases:
  assumes "handle_observation env dry obs w = (w', r)"
  obtains
    (duplicate) "\<not> unseen env obs w" "ow_dedup w' = ow_dedup w" "ow_store w' = ow_store w"
      "ow_submits w' = ow_submits w" "\<forall>b. r = Inr b \<longrightarrow> \<not> b" "ow_tick w' = ow_tick w + 1"
  | (dry) "unseen env obs w" "dry" "ow_dedup w' = accepted_cache env obs w" "ow_store w' = ow_store w"
      "ow_submits w' = ow_submits w" "r = Inr True" "ow_tick w' = ow_tick w + 1"
  | (lost) "unseen env obs w" "\<not> dry" "ow_dedup w' = accepted_cache env obs w"
      "ow_store w' = ow_store w \<or> ow_store w' = saved_store env obs w"
      "ow_submits w' = ow_submits w" "r = Inr False" "ow_tick w' = ow_tick w + 1"
  | (kept) "unseen env obs w" "\<not> dry" "ow_dedup w' = accepted_cache env obs w"
      "ow_store w' = saved_store env obs w" "r = Inr True" "ow_tick w' = ow_tick w + 1"
      "ow_submits w' = ow_submits w
         @ (if oe_exec env (ow_tick w) = None then [submission_of env (ow_tick w) obs] else [])"
proof -
  let ?n = "ow_tick w" and ?w = "w\<lparr>ow_tick := ow_tick w + 1\<rparr>"
  show thesis
  proof (cases "unseen env obs w")
    case False
    then have "is_duplicate (oe_window env) obs (oe_now env ?n) (ow_dedup w) = (ow_dedup w, True)"
      by (auto simp: unseen_def is_duplicate_def split: option.splits)
    then obtain w1 x where a: "audit_event env ?n ''observation_dedup_suppressed''
        [(''observation_id'', JStr (ob_id obs)), (''pattern'', JStr (pattern_str (ob_pattern obs))),
         (''dedup_key'', case ob_key obs of Some k \<Rightarrow> JStr k | None \<Rightarrow> JNull)] (ob_platform obs) ?w = (w1, x)"
      and "w' = w1" "r = (case x of Inl e \<Rightarrow> Inl e | Inr _ \<Rightarrow> Inr False)"
      using assms by (auto simp: handle_observation_def Let_def split: prod.splits sum.splits)
    with audit_event_frame [OF a] False show thesis
      by (intro duplicate) (auto split: sum.splits)
  next
    case True
    then have acc: "is_duplicate (oe_window env) obs (oe_now env ?n) (ow_dedup w) = (accepted_cache env obs w, False)"
      by (auto simp: unseen_def is_duplicate_def accepted_cache_def split: option.splits)
    show thesis
    proof (cases dry)
      case d: True
      with assms acc True show thesis by (intro dry) (auto simp: handle_observation_def Let_def)
    next
      case nd: False
      show thesis
      proof (cases "oe_disk env ?n")
        case False
        with assms acc True nd show thesis
          by (intro lost) (auto simp: handle_observation_def Let_def save_observation_def)
      next
        case ok: True
        let ?w1 = "?w\<lparr>ow_dedup := accepted_cache env obs w, ow_store := saved_store env obs w\<rparr>"
        obtain w2 x where a: "audit_event env ?n ''observation_created''
            [(''observation_id'', JStr (ob_id obs)), (''pattern'', JStr (pattern_str (ob_pattern obs))),
             (''severity'', JStr (severity_str (ob_severity obs)))] (ob_platform obs) ?w1 = (w2, x)"
          by fastforce
        note w2 = audit_event_frame [OF a, simplified]
        show thesis
        proof (cases x)
          case (Inl e)
          with assms acc True nd ok a w2 show thesis
            by (intro lost) (auto simp: handle_observation_def Let_def save_observation_def saved_store_def)
        next
          case (Inr u)
          obtain w3 y where p: "promote env ?n None obs w2 = (w3, y)" by fastforce
          have "(w', r) = ((case y of Inl e \<Rightarrow> warn (''failed to promote observation '' @ ob_id obs) w3 | Inr _ \<Rightarrow> w3), Inr True)"
            using assms acc nd ok a p Inr
            by (auto simp: handle_observation_def Let_def save_observation_def saved_store_def split: sum.splits)
          then show thesis
            using promote_frame [OF p] w2 True nd by (intro kept) (auto split: sum.splits)
        qed
      qed
    qed
  qed
qed

section \<open>At most one request per fault and window\<close>

text \<open>Every request is covered by the cache, and two requests of one key are a window apart.\<close>

definition requests_spaced :: "obs_env \<Rightarrow> obs_world \<Rightarrow> bool" where
  "requests_spaced env w \<longleftrightarrow>
     (\<forall>s \<in> set (ow_submits w). \<exists>l. jm_get (ow_dedup w) (key_of (sb_obs s)) = Some l \<and> sb_time s \<le> l)
     \<and> sorted_wrt (\<lambda>a b. key_of (sb_obs a) = key_of (sb_obs b) \<longrightarrow> oe_window env \<le> sb_time b - sb_time a)
         (ow_submits w)"

lemma accepted_covers:
  assumes "requests_spaced env w" "unseen env obs w" "0 \<le> oe_window env" "s \<in> set (ow_submits w)"
  shows "\<exists>l. jm_get (accepted_cache env obs w) (key_of (sb_obs s)) = Some l \<and> sb_time s \<le> l"
    and "key_of (sb_obs s) = key_of obs \<Longrightarrow> oe_window env \<le> oe_now env (ow_tick w) - sb_time s"
proof -
  obtain l where l: "jm_get (ow_dedup w) (key_of (sb_obs s)) = Some l" "sb_time s \<le> l"
    using assms(1,4) by (auto simp: requests_spaced_def)
  then show "\<exists>l. jm_get (accepted_cache env obs w) (key_of (sb_obs s)) = Some l \<and> sb_time s \<le> l"
    using assms(2,3) by (auto simp: accepted_cache_def store_simps unseen_def)
  show "oe_window env \<le> oe_now env (ow_tick w) - sb_time s" if "key_of (sb_obs s) = key_of obs"
    using assms(2) l that by (simp add: unseen_def)
qed

lemma handle_spaced:
  assumes sp: "requests_spaced env w" and win: "0 \<le> oe_window env"
    and run: "handle_observation env dry obs w = (w', r)"
  shows "requests_spaced env w'"
  using run
proof (cases rule: handle_observation_cases)
  case duplicate
  then show ?thesis using sp by (simp add: requests_spaced_def)
next
  case dry
  then show ?thesis using sp accepted_covers(1) [OF sp _ win] by (simp add: requests_spaced_def)
next
  case lost
  then show ?thesis using sp accepted_covers(1) [OF sp _ win] by (simp add: requests_spaced_def)
next
  case kept
  have "jm_get (accepted_cache env obs w) (key_of obs) = Some (oe_now env (ow_tick w))"
    by (simp add: accepted_cache_def store_simps)
  then show ?thesis
    using kept sp accepted_covers [OF sp kept(1) win]
    by (auto simp: requests_spaced_def sorted_wrt_append submission_of_def)
qed

lemma handle_all_spaced:
  "requests_spaced env w \<Longrightarrow> 0 \<le> oe_window env \<Longrightarrow> requests_spaced env (fst (handle_all env dry os w))"
proof (induction os arbitrary: w)
  case (Cons obs os)
  obtain w1 x where first: "handle_observation env dry obs w = (w1, x)" by fastforce
  from Cons.IH [OF handle_spaced [OF Cons.prems first] Cons.prems(2)]
    handle_spaced [OF Cons.prems first] show ?case
    using first by (auto split: prod.splits sum.splits)
qed simp

text \<open>One timer tick or one \<open>observe scan\<close>: a probe run, dry or not.\<close>

definition probe_tick :: "obs_env \<Rightarrow> bool \<times> probe \<Rightarrow> obs_world \<Rightarrow> obs_world" where
  "probe_tick env e w = fst (run_probe env (fst e) (snd e) w)"

interpretation ticks: invariant_machine "probe_tick env" "\<lambda>_. 0 \<le> oe_window env" "requests_spaced env" for env
  by unfold_locales
     (auto simp: probe_tick_def run_probe_def requests_spaced_def [of _ "warn _ _"] handle_all_spaced
       simp flip: requests_spaced_def split: sum.splits)

text \<open>
  C22: however often the probes run, in whatever order and whatever they find, two intake requests with
  the same dedup key are at least one window apart.
\<close>

theorem requests_one_per_window:
  assumes "0 \<le> oe_window env" "ow_submits w = []"
    and "i < j" "j < length (ow_submits (fold (probe_tick env) ticks w))"
  shows "let subs = ow_submits (fold (probe_tick env) ticks w) in
    key_of (sb_obs (subs ! i)) = key_of (sb_obs (subs ! j))
    \<longrightarrow> oe_window env \<le> sb_time (subs ! j) - sb_time (subs ! i)"
proof -
  have "requests_spaced env w" using assms(2) by (simp add: requests_spaced_def)
  then have "requests_spaced env (fold (probe_tick env) ticks w)"
    by (rule ticks.run_keeps) (simp add: assms(1) list_all_iff)
  then show ?thesis
    using assms(3,4) by (auto simp: requests_spaced_def sorted_wrt_iff_nth_less Let_def)
qed

section \<open>What a run accounts for\<close>

lemma handle_all_accounts:
  assumes "handle_all env False os w = (w', Inr fresh)"
  shows "subseq fresh os
    \<and> (\<exists>new. ow_submits w' = ow_submits w @ new \<and> subseq (map sb_obs new) fresh
         \<and> ((\<forall>n. oe_exec env n = None) \<longrightarrow> map sb_obs new = fresh)
         \<and> (\<forall>s \<in> set new. sb_args s = submit_args (oe_repo env) None (sb_obs s)))
    \<and> (\<forall>obs. ob_id obs \<notin> ob_id ` set os \<longrightarrow>
         load_observation (ob_id obs) (ow_store w) = Inr obs \<longrightarrow> load_observation (ob_id obs) (ow_store w') = Inr obs)
    \<and> (distinct (map ob_id os) \<longrightarrow> (\<forall>obs \<in> set fresh. load_observation (ob_id obs) (ow_store w') = Inr obs))"
  using assms
proof (induction os arbitrary: w fresh)
  case (Cons obs os)
  obtain w1 b rest where first: "handle_observation env False obs w = (w1, Inr b)"
    and rest: "handle_all env False os w1 = (w', Inr rest)" "fresh = (if b then obs # rest else rest)"
    using Cons.prems by (auto split: prod.splits sum.splits)
  note ih = Cons.IH [OF rest(1)]
  have other: "load_observation (ob_id o1) (ow_store w1) = load_observation (ob_id o1) (ow_store w)"
    if "ob_id o1 \<noteq> ob_id obs" for o1
    using first that
    by (cases rule: handle_observation_cases) (auto simp: load_observation_def saved_store_def store_simps)
  have others: "\<forall>o1. ob_id o1 \<notin> ob_id ` set (obs # os) \<longrightarrow>
         load_observation (ob_id o1) (ow_store w) = Inr o1 \<longrightarrow> load_observation (ob_id o1) (ow_store w') = Inr o1"
    proof (intro allI impI)
      fix o1
      assume new: "ob_id o1 \<notin> ob_id ` set (obs # os)" and old: "load_observation (ob_id o1) (ow_store w) = Inr o1"
      then have "load_observation (ob_id o1) (ow_store w1) = Inr o1" using other [of o1] by simp
      then show "load_observation (ob_id o1) (ow_store w') = Inr o1" using ih new by simp
    qed
  show ?case
    using first
  proof (cases rule: handle_observation_cases)
    case kept
    then have b by simp
    have "load_observation (ob_id obs) (ow_store w1) = Inr obs"
      using kept by (simp add: load_observation_def saved_store_def store_simps)
    with ih have mine: "distinct (map ob_id (obs # os)) \<longrightarrow> load_observation (ob_id obs) (ow_store w') = Inr obs"
      by auto
    obtain new where new: "ow_submits w' = ow_submits w1 @ new" "subseq (map sb_obs new) rest"
      "(\<forall>n. oe_exec env n = None) \<longrightarrow> map sb_obs new = rest"
      "\<forall>s \<in> set new. sb_args s = submit_args (oe_repo env) None (sb_obs s)" using ih by blast
    let ?new = "(if oe_exec env (ow_tick w) = None then [submission_of env (ow_tick w) obs] else []) @ new"
    have "ow_submits w' = ow_submits w @ ?new" "subseq (map sb_obs ?new) (obs # rest)"
      "(\<forall>n. oe_exec env n = None) \<longrightarrow> map sb_obs ?new = obs # rest"
      "\<forall>s \<in> set ?new. sb_args s = submit_args (oe_repo env) None (sb_obs s)"
      using new kept by (auto simp: submission_of_def)
    then have "\<exists>new. ow_submits w' = ow_submits w @ new \<and> subseq (map sb_obs new) fresh
         \<and> ((\<forall>n. oe_exec env n = None) \<longrightarrow> map sb_obs new = fresh)
         \<and> (\<forall>s \<in> set new. sb_args s = submit_args (oe_repo env) None (sb_obs s))"
      using rest(2) \<open>b\<close> by (intro exI [of _ ?new]) simp
    moreover have "subseq fresh (obs # os)" using ih rest(2) \<open>b\<close> by simp
    moreover have "distinct (map ob_id (obs # os)) \<longrightarrow> (\<forall>o1 \<in> set fresh. load_observation (ob_id o1) (ow_store w') = Inr o1)"
      using ih mine rest(2) \<open>b\<close> by simp
    ultimately show ?thesis using others by blast
  next
    case dry
    then show ?thesis by simp
  next
    case duplicate
    then have "\<not> b" by simp
    with ih rest(2) duplicate others show ?thesis by (auto intro: list_emb_Cons simp del: image_insert)
  next
    case lost
    then have "\<not> b" by simp
    with ih rest(2) lost others show ?thesis by (auto intro: list_emb_Cons simp del: image_insert)
  qed
qed simp

text \<open>
  A run that returns reports, in order, observations of its scan; each is stored under its id, every
  intake request it made carries the arguments of a reported observation, and when the intake program
  accepts everything, exactly the reported observations were submitted.
\<close>

theorem run_probe_accounts:
  assumes "run_probe env False p w = (w', Inr fresh)" "pr_scan p (ow_tick w) = Inr scanned"
    and "distinct (map ob_id scanned)"
  shows "subseq fresh scanned
    \<and> (\<forall>obs \<in> set fresh. load_observation (ob_id obs) (ow_store w') = Inr obs)
    \<and> (\<exists>new. ow_submits w' = ow_submits w @ new \<and> subseq (map sb_obs new) fresh
         \<and> ((\<forall>n. oe_exec env n = None) \<longrightarrow> map sb_obs new = fresh)
         \<and> (\<forall>s \<in> set new. sb_args s = submit_args (oe_repo env) None (sb_obs s)))"
proof -
  have "handle_all env False scanned w = (w', Inr fresh)"
    using assms(1,2) by (simp add: run_probe_def)
  from handle_all_accounts [OF this] assms(3) show ?thesis by blast
qed

section \<open>Dedup across a restart\<close>

lemma insert_cmp_set: "set (insert_cmp cmp x xs) = insert x (set xs)"
  by (induction xs) auto

lemma sort_cmp_set: "set (sort_cmp cmp xs) = set xs"
  unfolding sort_cmp_def by (induction xs) (auto simp: insert_cmp_set)

lemma hydrate_window:
  "(\<forall>k ts. jm_get cache k = Some ts \<longrightarrow> t - ts < window) \<Longrightarrow>
   jm_get (hydrate rt window os t cache) k = Some ts \<Longrightarrow> t - ts < window"
proof (induction os arbitrary: cache)
  case (Cons obs os)
  let ?c = "case rt_parse rt (ob_at obs) of None \<Rightarrow> cache
    | Some ts \<Rightarrow> if t - ts < window then jm_set (key_of obs) ts cache else cache"
  have "\<forall>k ts. jm_get ?c k = Some ts \<longrightarrow> t - ts < window"
    using Cons.prems(1) by (auto simp: store_simps split: option.splits)
  from Cons.IH [OF this] Cons.prems(2) show ?case by (simp add: hydrate_def)
qed (auto simp: hydrate_def)

lemma hydrate_keeps:
  "jm_get cache k \<noteq> None \<Longrightarrow> jm_get (hydrate rt window os t cache) k \<noteq> None"
proof (induction os arbitrary: cache)
  case (Cons obs os)
  let ?c = "case rt_parse rt (ob_at obs) of None \<Rightarrow> cache
    | Some ts \<Rightarrow> if t - ts < window then jm_set (key_of obs) ts cache else cache"
  have "jm_get ?c k \<noteq> None" using Cons.prems by (auto simp: store_simps split: option.splits)
  from Cons.IH [OF this] show ?case by (simp add: hydrate_def)
qed (simp add: hydrate_def)

lemma hydrate_knows:
  assumes "obs \<in> set os" "rt_parse rt (ob_at obs) = Some ts" "t - ts < window"
  shows "jm_get (hydrate rt window os t cache) (key_of obs) \<noteq> None"
proof -
  obtain xs ys where os: "os = xs @ obs # ys" using split_list [OF assms(1)] by blast
  have "jm_get (hydrate rt window os t cache) (key_of obs)
      = jm_get (hydrate rt window ys t (jm_set (key_of obs) ts (hydrate rt window xs t cache))) (key_of obs)"
    using assms(2,3) by (simp add: os hydrate_def)
  also have "\<dots> \<noteq> None" by (rule hydrate_keeps) (simp add: store_simps)
  finally show ?thesis .
qed

lemma listed_observation:
  assumes "jm_get (os_files st) f = Some (Some obs, m)" "ends_with ''.json'' f" "\<not> contains ''.tmp.'' f"
    and "passes_filter rt lf obs" "list_observations rt collate lf st = Inr os"
  shows "obs \<in> set os"
proof -
  have "f \<in> set (map fst (os_files st))"
    using imageI [OF map_of_SomeD [OF assms(1)], of fst] by (simp only: fst_conv set_map)
  moreover have "obs \<in> set (if ends_with ''.json'' f \<and> \<not> contains ''.tmp.'' f
      then (case jm_get (os_files st) f of Some (Some obs, t) \<Rightarrow> [obs] | _ \<Rightarrow> []) else [])"
    unfolding assms(1) using assms(2,3) by (simp del: contains.simps)
  ultimately have "obs \<in> set (concat (map (\<lambda>f. if ends_with ''.json'' f \<and> \<not> contains ''.tmp.'' f
      then (case jm_get (os_files st) f of Some (Some obs, t) \<Rightarrow> [obs] | _ \<Rightarrow> []) else []) (map fst (os_files st))))"
    unfolding set_concat set_map by blast
  moreover have "os = sort_cmp (\<lambda>a b. collate (ob_at b) (ob_at a)) (filter (passes_filter rt lf)
      (concat (map (\<lambda>f. if ends_with ''.json'' f \<and> \<not> contains ''.tmp.'' f
      then (case jm_get (os_files st) f of Some (Some obs, t) \<Rightarrow> [obs] | _ \<Rightarrow> []) else []) (map fst (os_files st)))))"
    using assms(5) by (cases "os_blocked st") (simp_all only: list_observations_def option.case sum.inject sum.distinct)
  ultimately show ?thesis using assms(4) by (simp only: sort_cmp_set set_filter mem_Collect_eq)
qed

text \<open>
  A collector that starts after a restart suppresses what was already reported: while an observation
  of the last hour is in the store, every observation of its key is a duplicate at the start.
\<close>

theorem restart_remembers:
  assumes start: "collector_start env t ps w = (w', Inr ())" "ow_timers w = []" "ow_dedup w = []"
    and window: "oe_window env = DEFAULT_WINDOW_MS"
    and stored: "jm_get (os_files (ow_store w)) f = Some (Some obs, m)"
      "ends_with ''.json'' f" "\<not> contains ''.tmp.'' f"
    and recent: "rt_parse (oe_rt env) (ob_at obs) = Some ts" "t - ts < DEFAULT_WINDOW_MS"
    and same: "key_of obs' = key_of obs"
  shows "is_duplicate (oe_window env) obs' t (ow_dedup w') = (ow_dedup w', True)"
proof -
  let ?lf = "\<lparr>lf_since = Some (t - 3600000), lf_platform = None, lf_severity = None\<rparr>"
  obtain os where os: "list_observations (oe_rt env) (oe_collate env) ?lf (ow_store w) = Inr os"
    and w': "ow_dedup w' = hydrate (oe_rt env) (oe_window env) os t []"
    using start by (auto simp: collector_start_def split: sum.splits)
  have "passes_filter (oe_rt env) ?lf obs"
    using recent by (simp add: passes_filter_def DEFAULT_WINDOW_MS_def)
  with stored os have "obs \<in> set os" by (intro listed_observation [where f = f])
  then obtain l where l: "jm_get (ow_dedup w') (key_of obs) = Some l"
    using hydrate_knows [OF _ recent(1), of os t "oe_window env" "[]"] recent(2) window w' by auto
  moreover have "t - l < oe_window env"
    using hydrate_window [of "[]" t "oe_window env"] l by (simp add: w')
  ultimately show ?thesis using same by (simp add: is_duplicate_def)
qed

section \<open>Where dedup and persistence differ\<close>

text \<open>The listing is sorted newest first, so of two stored observations of a key the older one's time
  stays in the cache.\<close>

lemma hydrate_oldest_wins:
  assumes "key_of old = key_of new" "rt_parse rt (ob_at old) = Some t1" "rt_parse rt (ob_at new) = Some t2"
    and "t - t1 < window" "t - t2 < window"
  shows "jm_get (hydrate rt window [new, old] t cache) (key_of new) = Some t1"
  using assms by (simp add: hydrate_def store_simps)

text \<open>The cache is marked before the observation is stored: when the disk fails, nothing is stored,
  nothing is submitted, and the fault is suppressed for the rest of the window.\<close>

lemma failed_save_suppresses:
  assumes "\<not> oe_disk env (ow_tick w)" "unseen env obs w"
    and "handle_observation env False obs w = (w', r)" "t - oe_now env (ow_tick w) < oe_window env"
  shows "r = Inr False \<and> ow_store w' = ow_store w \<and> ow_submits w' = ow_submits w
    \<and> snd (is_duplicate (oe_window env) obs t (ow_dedup w'))"
  using assms
  by (auto simp: handle_observation_def Let_def save_observation_def is_duplicate_def unseen_def store_simps
      split: option.splits)

text \<open>An audit log that cannot be written ends the run at the first duplicate.\<close>

lemma audit_failure_ends_run:
  assumes "\<not> unseen env obs w" "ow_audit w = Some al"
    and "\<And>ev pl n. \<exists>e. snd (al_append (oe_rt env) (oe_key env) (oe_audit env n ev) (oe_now env n) ev pl
             \<lparr>ao_platform = Some (ob_platform obs), ao_actor = None\<rparr> al) = Inl e"
  shows "\<exists>w' e. handle_all env dry (obs # os) w = (w', Inl e)"
proof -
  obtain w' r where run: "handle_observation env dry obs w = (w', r)" by fastforce
  have "is_duplicate (oe_window env) obs (oe_now env (ow_tick w)) (ow_dedup w) = (ow_dedup w, True)"
    using assms(1) by (auto simp: unseen_def is_duplicate_def split: option.splits)
  then have "\<exists>e. r = Inl e"
    using run assms(2) assms(3) [of "ow_tick w" "''observation_dedup_suppressed''"]
    by (auto simp: handle_observation_def Let_def audit_event_def emit_audit_def split: prod.splits sum.splits)
       (metis rbind.simps(1) snd_conv sum.distinct(1))+
  with run show ?thesis by auto
qed

section \<open>Retention\<close>

lemma fold_del_get: "jm_get (fold jm_del fs m) f = (if f \<in> set fs then None else jm_get m f)"
  by (induction fs arbitrary: m) (auto simp: store_simps)

text \<open>
  Cleanup removes exactly the JSON files last written more than 90 days ago, and counts them.
\<close>

theorem cleanup_exact:
  assumes "cleanup t (\<lambda>_. True) st = (st', Inr n)" "jm_wf (os_files st)"
  shows "(\<forall>f. jm_get (os_files st') f =
      (case jm_get (os_files st) f of
         Some (c, m) \<Rightarrow> if ends_with ''.json'' f \<and> t - m > 90 * 86400000 then None else Some (c, m)
       | None \<Rightarrow> None))
    \<and> n = card {f. \<exists>c m. jm_get (os_files st) f = Some (c, m) \<and> ends_with ''.json'' f \<and> t - m > 90 * 86400000}"
proof -
  let ?E = "{f. \<exists>c m. jm_get (os_files st) f = Some (c, m) \<and> ends_with ''.json'' f \<and> t - m > 90 * 86400000}"
  have st': "os_files st' = fold jm_del (expired_files t (\<lambda>_. True) st) (os_files st)"
    and n: "n = length (expired_files t (\<lambda>_. True) st)"
    using assms(1) by (auto simp: cleanup_def split: option.splits)
  have "f \<in> set (map fst (os_files st))" if "jm_get (os_files st) f = Some x" for f x
    using imageI [OF map_of_SomeD [OF that], of fst] by (simp only: fst_conv set_map)
  then have E: "set (expired_files t (\<lambda>_. True) st) = ?E"
    unfolding expired_files_def set_filter
    by (auto simp: RETENTION_DAYS_def MS_PER_DAY_def simp del: set_map split: option.splits)
  have "n = card ?E"
    using distinct_card [of "expired_files t (\<lambda>_. True) st"] assms(2) n E
    by (simp add: expired_files_def)
  moreover have "jm_get (os_files st') f =
      (case jm_get (os_files st) f of
         Some (c, m) \<Rightarrow> if ends_with ''.json'' f \<and> t - m > 90 * 86400000 then None else Some (c, m)
       | None \<Rightarrow> None)" for f
    unfolding st' fold_del_get E by (auto split: option.split)
  ultimately show ?thesis by blast
qed

section \<open>Examples\<close>

definition demo_obs :: observation where
  "demo_obs = make_observation demo_rt ''u1'' 5 ''k3s'' CrashLoop ''Pod/web'' P1 None"

definition demo_oenv :: obs_env where
  "demo_oenv = \<lparr>oe_rt = demo_rt, oe_key = Inr ''k'', oe_now = (\<lambda>n. 6 * int n), oe_disk = (\<lambda>_. True),
     oe_exec = (\<lambda>_. None), oe_audit = (\<lambda>_ _. AppendOk), oe_rnd = (\<lambda>_. ''r''), oe_window = 10,
     oe_repo = ''homelab'', oe_collate = (\<lambda>_ _. 0)\<rparr>"

definition demo_oworld :: obs_world where
  "demo_oworld = \<lparr>ow_dedup = [], ow_store = \<lparr>os_files = [], os_blocked = None\<rparr>, ow_audit = None,
     ow_clocks = None, ow_submits = [], ow_warnings = [], ow_timers = [], ow_tick = 0\<rparr>"

definition demo_probe :: probe where
  "demo_probe = \<lparr>pr_id = ''k8s'', pr_platform = ''k3s'', pr_cadence = Fast, pr_scan = (\<lambda>_. Inr [demo_obs])\<rparr>"

lemmas run_defs = probe_tick_def run_probe_def handle_observation_def is_duplicate_def save_observation_def
  audit_event_def emit_audit_def promote_def Let_def demo_oenv_def demo_oworld_def demo_probe_def

lemma map_eq_two: "map f xs = [a, b] \<Longrightarrow> 1 < length xs \<and> f (xs ! 0) = a \<and> f (xs ! 1) = b"
  by (auto simp: map_eq_Cons_conv)

theorem requests_one_per_window_witness:
  "let subs = ow_submits (fold (probe_tick demo_oenv) [(False, demo_probe), (False, demo_probe), (False, demo_probe)] demo_oworld)
   in 10 \<le> sb_time (subs ! 1) - sb_time (subs ! 0)"
proof -
  let ?ticks = "[(False, demo_probe), (False, demo_probe), (False, demo_probe)]"
  let ?subs = "ow_submits (fold (probe_tick demo_oenv) ?ticks demo_oworld)"
  have "map sb_obs ?subs = [demo_obs, demo_obs]"
    by (simp add: run_defs)
  from map_eq_two [OF this]
  have two: "1 < length ?subs" "sb_obs (?subs ! 0) = sb_obs (?subs ! 1)" by simp_all
  have "0 \<le> oe_window demo_oenv" "ow_submits demo_oworld = []" "oe_window demo_oenv = 10"
    by (simp_all add: demo_oenv_def demo_oworld_def)
  with requests_one_per_window [of demo_oenv demo_oworld 0 1 ?ticks] two show ?thesis
    by (simp only: Let_def simp_thms zero_less_one)
qed

theorem run_probe_accounts_witness:
  "\<exists>w'. run_probe demo_oenv False demo_probe demo_oworld = (w', Inr [demo_obs])
     \<and> load_observation (ob_id demo_obs) (ow_store w') = Inr demo_obs
     \<and> map sb_obs (ow_submits w') = [demo_obs]"
proof -
  obtain w' where run: "run_probe demo_oenv False demo_probe demo_oworld = (w', Inr [demo_obs])"
    by (simp add: run_defs)
  have "pr_scan demo_probe (ow_tick demo_oworld) = Inr [demo_obs]" "distinct (map ob_id [demo_obs])"
    by (simp_all add: demo_probe_def)
  note acc = run_probe_accounts [OF run this]
  have "\<forall>n. oe_exec demo_oenv n = None" "ow_submits demo_oworld = []"
    by (simp_all add: demo_oenv_def demo_oworld_def)
  moreover obtain new where "ow_submits w' = ow_submits demo_oworld @ new"
      "(\<forall>n. oe_exec demo_oenv n = None) \<longrightarrow> map sb_obs new = [demo_obs]"
    using acc by (elim conjE exE)
  ultimately have "map sb_obs (ow_submits w') = [demo_obs]" by (simp only: append_Nil simp_thms)
  moreover have "load_observation (ob_id demo_obs) (ow_store w') = Inr demo_obs"
    using acc [THEN conjunct2, THEN conjunct1] by (rule bspec) simp
  ultimately show ?thesis using run by (intro exI [of _ w'] conjI)
qed

theorem restart_remembers_witness:
  "\<exists>w'. collector_start (demo_oenv\<lparr>oe_window := DEFAULT_WINDOW_MS\<rparr>) 6 [demo_probe]
      (demo_oworld\<lparr>ow_store := \<lparr>os_files = [(''u1.json'', (Some demo_obs, 5))], os_blocked = None\<rparr>\<rparr>) = (w', Inr ())
    \<and> snd (is_duplicate DEFAULT_WINDOW_MS demo_obs 6 (ow_dedup w'))"
proof -
  let ?env = "demo_oenv\<lparr>oe_window := DEFAULT_WINDOW_MS\<rparr>"
  let ?w = "demo_oworld\<lparr>ow_store := \<lparr>os_files = [(''u1.json'', (Some demo_obs, 5))], os_blocked = None\<rparr>\<rparr>"
  obtain w' where start: "collector_start ?env 6 [demo_probe] ?w = (w', Inr ())"
    by (simp add: collector_start_def list_observations_def demo_oworld_def)
  have "is_duplicate (oe_window ?env) demo_obs 6 (ow_dedup w') = (ow_dedup w', True)"
    by (rule restart_remembers [OF start, where f = "''u1.json''" and obs = demo_obs and m = 5 and ts = 5])
       (simp_all add: demo_oworld_def demo_oenv_def demo_obs_def make_observation_def DEFAULT_WINDOW_MS_def)
  with start show ?thesis by (auto simp: demo_oenv_def)
qed

theorem cleanup_exact_witness:
  "\<exists>st' n. cleanup 8000000000 (\<lambda>_. True)
      \<lparr>os_files = [(''a.json'', (None, 5)), (''b.json'', (None, 7999999999)), (''c.txt'', (None, 5))], os_blocked = None\<rparr>
    = (st', Inr n) \<and> map (jm_get (os_files st')) [''a.json'', ''b.json''] = [None, Some (None, 7999999999)]"
proof -
  let ?st = "\<lparr>os_files = [(''a.json'', (None, 5)), (''b.json'', (None, 7999999999)), (''c.txt'', (None, 5))], os_blocked = None\<rparr>"
  obtain st' n where run: "cleanup 8000000000 (\<lambda>_. True) ?st = (st', Inr n)"
    by (simp add: cleanup_def)
  have "jm_wf (os_files ?st)" by simp
  from cleanup_exact [OF run this] run show ?thesis by auto
qed

end
