(* ===== verification/Topology.thy ===== *)
theory Topology
  imports Graph Observation
begin

text \<open>
  \<open>src/rules/topology.ts\<close>: the facts the rules system derives for each node and platform of the
  inventory graph from its attributes and its neighbours: capability tags, environment tier, role and
  the roles of the services it hosts.
\<close>

section \<open>JavaScript values the attributes hold\<close>

text \<open>\<open>typeof v === 'string' ? v : ''\<close>, and a number read by \<open>typeof v === 'number' && v > 0\<close>.\<close>

definition attr_str :: "string \<Rightarrow> attributes \<Rightarrow> string" where
  "attr_str k kvs = str_of (jm_get kvs k)"

definition positive :: "jsnum \<Rightarrow> bool" where
  "positive n \<longleftrightarrow> (case n of Fin i \<Rightarrow> i > 0 | PosInf \<Rightarrow> True | _ \<Rightarrow> False)"

text \<open>\<open>parseInt(s, 10)\<close>: leading white space, a sign, then the longest run of digits (\<open>NaN\<close> if empty).\<close>

definition parse_int :: "string \<Rightarrow> jsnum" where
  "parse_int s =
    (let t = dropWhile is_space s;
         neg = (t \<noteq> [] \<and> hd t = CHR ''-'');
         u = (if t \<noteq> [] \<and> (hd t = CHR ''-'' \<or> hd t = CHR ''+'') then tl t else t);
         ds = takeWhile is_digit u in
     if ds = [] then NaN else Fin (if neg then - int (str_nat ds) else int (str_nat ds)))"

text \<open>A \<open>Set\<close> in insertion order.\<close>

definition set_add :: "'a \<Rightarrow> 'a list \<Rightarrow> 'a list" where
  "set_add x xs = (if x \<in> set xs then xs else xs @ [x])"

lemma set_set_add [simp]: "set (set_add x xs) = insert x (set xs)"
  by (auto simp: set_add_def)

lemma distinct_set_add [simp]: "distinct xs \<Longrightarrow> distinct (set_add x xs)"
  by (simp add: set_add_def)

section \<open>Capability tags\<close>

definition has_gpu :: "entity \<Rightarrow> entity list \<Rightarrow> bool" where
  "has_gpu e ns \<longleftrightarrow>
     (case jm_get (en_attrs e) ''gpu_count'' of
        Some (JNum n) \<Rightarrow> positive n
      | Some (JStr s) \<Rightarrow> positive (parse_int s)
      | _ \<Rightarrow> False)
     \<or> list_ex (\<lambda>n. en_kind n = ''gpu'') ns"

definition has_array :: "entity \<Rightarrow> entity list \<Rightarrow> bool" where
  "has_array e ns \<longleftrightarrow>
     (case jm_get (en_attrs e) ''array_state'' of Some (JStr s) \<Rightarrow> trim s \<noteq> [] | _ \<Rightarrow> False)
     \<or> list_ex (\<lambda>n. en_kind n = ''storage-array'') ns"

definition has_storage :: "entity \<Rightarrow> entity list \<Rightarrow> bool" where
  "has_storage e ns \<longleftrightarrow>
     en_kind e \<in> {''storage-array'', ''share'', ''storage-volume''}
     \<or> contains ''storage'' (attr_str ''role'' (en_attrs e))
     \<or> list_ex (\<lambda>n. en_kind n = ''share'' \<or> en_kind n = ''storage-volume'') ns
     \<or> has_array e ns"

definition is_manager :: "entity \<Rightarrow> bool" where
  "is_manager e \<longleftrightarrow>
     to_lower (attr_str ''manager_status'' (en_attrs e)) \<in> {''leader'', ''reachable'', ''manager''}
     \<or> attr_str ''role'' (en_attrs e) \<in> {''manager'', ''control-plane''}
     \<or> to_lower (attr_str ''node_role'' (en_attrs e)) \<in> {''master'', ''control-plane''}
     \<or> to_lower (attr_str ''platform_type'' (en_attrs e)) = ''proxmox''"

definition is_compute :: "entity \<Rightarrow> bool" where
  "is_compute e \<longleftrightarrow> en_kind e = ''node'' \<or> en_kind e = ''platform''"

definition infer_capability_tags :: "entity \<Rightarrow> entity list \<Rightarrow> string list" where
  "infer_capability_tags e ns =
    sort ((if has_gpu e ns then [''gpu''] else [])
      @ (if has_array e ns then [''array''] else [])
      @ (if has_storage e ns then [''storage''] else [])
      @ (if is_manager e then [''manager''] else [])
      @ (if is_compute e \<and> \<not> is_manager e then [''worker''] else []))"

section \<open>Tier and role\<close>

definition explicit_env :: "attributes \<Rightarrow> string option" where
  "explicit_env kvs =
    (case filter (\<lambda>k. trim (attr_str k kvs) \<noteq> []) [''env'', ''env_tier'', ''environment''] of
       [] \<Rightarrow> None
     | k # _ \<Rightarrow> Some (to_lower (trim (attr_str k kvs))))"

definition infer_env_tier :: "entity \<Rightarrow> string list \<Rightarrow> string" where
  "infer_env_tier e tags =
    (case explicit_env (en_attrs e) of
       Some v \<Rightarrow> v
     | None \<Rightarrow> if ''manager'' \<in> set tags then ''infra'' else if ''array'' \<in> set tags then ''prod'' else ''unknown'')"

definition infer_node_role :: "entity \<Rightarrow> string list \<Rightarrow> string" where
  "infer_node_role e tags =
    (let role = attr_str ''role'' (en_attrs e);
         ptype = to_lower (attr_str ''platform_type'' (en_attrs e)) in
     if role \<noteq> [] then role
     else if ptype = ''proxmox'' then ''hypervisor''
     else if ptype = ''unraid'' then ''storage''
     else if ''manager'' \<in> set tags then ''manager''
     else if ''array'' \<in> set tags then ''storage''
     else ''compute'')"

section \<open>The analyzer\<close>

record node_facts =
  nf_id :: string
  nf_name :: string
  nf_kind :: string
  nf_role :: string
  nf_env :: string
  nf_tags :: "string list"
  nf_hosted :: "string list"

record topology =
  to_generated :: string
  to_nodes :: "node_facts list"

text \<open>The two lookup maps: the neighbour ids of each id in the order the edges name them, and the
  entities by id (a later entity of the same id wins).\<close>

definition neighbor_ids :: "(string, string list) jsmap \<Rightarrow> string \<Rightarrow> string list" where
  "neighbor_ids m i = (case jm_get m i of Some s \<Rightarrow> s | None \<Rightarrow> [])"

definition add_neighbor :: "string \<Rightarrow> string \<Rightarrow> (string, string list) jsmap \<Rightarrow> (string, string list) jsmap" where
  "add_neighbor i j m = jm_set i (set_add j (neighbor_ids m i)) m"

definition neighbor_map :: "edge list \<Rightarrow> (string, string list) jsmap" where
  "neighbor_map es = fold (\<lambda>e m. add_neighbor (ed_to e) (ed_from e) (add_neighbor (ed_from e) (ed_to e) m)) es []"

definition entity_by_id :: "entity list \<Rightarrow> (string, entity) jsmap" where
  "entity_by_id es = fold (\<lambda>e m. jm_set (en_id e) e m) es []"

definition resolve_neighbors :: "graph \<Rightarrow> entity \<Rightarrow> entity list" where
  "resolve_neighbors g e =
    concat (map (\<lambda>i. case jm_get (entity_by_id (gr_entities g)) i of Some n \<Rightarrow> [n] | None \<Rightarrow> [])
      (neighbor_ids (neighbor_map (gr_edges g)) (en_id e)))"

definition is_service :: "entity \<Rightarrow> bool" where
  "is_service e \<longleftrightarrow> en_kind e = ''service'' \<or> en_kind e = ''container''"

definition hosted_roles :: "entity list \<Rightarrow> string list" where
  "hosted_roles ns =
    sort (fold (\<lambda>n s. let r = trim (attr_str ''role'' (en_attrs n)) in
        if is_service n \<and> r \<noteq> [] then set_add r s else s) ns [])"

definition node_facts_of :: "graph \<Rightarrow> entity \<Rightarrow> node_facts" where
  "node_facts_of g e =
    (let ns = resolve_neighbors g e; tags = infer_capability_tags e ns in
     \<lparr>nf_id = en_id e, nf_name = en_name e, nf_kind = en_kind e, nf_role = infer_node_role e tags,
      nf_env = infer_env_tier e tags, nf_tags = tags, nf_hosted = hosted_roles ns\<rparr>)"

definition topology_of :: "(string \<Rightarrow> string \<Rightarrow> int) \<Rightarrow> string \<Rightarrow> graph \<Rightarrow> topology" where
  "topology_of collate ts g =
    \<lparr>to_generated = ts,
     to_nodes = sort_cmp (\<lambda>a b. collate (nf_id a) (nf_id b)) (map (node_facts_of g) (filter is_compute (gr_entities g)))\<rparr>"

definition analyze :: "yaml \<Rightarrow> (string \<Rightarrow> string \<Rightarrow> int) \<Rightarrow> string \<Rightarrow> graph_file \<Rightarrow> topology res" where
  "analyze ya collate ts f = rbind (all_graph ya f) (\<lambda>g. Inr (topology_of collate ts g))"

section \<open>What the tags mean\<close>

lemma set_tags:
  "set (infer_capability_tags e ns) =
     (if has_gpu e ns then {''gpu''} else {}) \<union> (if has_array e ns then {''array''} else {})
     \<union> (if has_storage e ns then {''storage''} else {}) \<union> (if is_manager e then {''manager''} else {})
     \<union> (if is_compute e \<and> \<not> is_manager e then {''worker''} else {})"
  by (simp add: infer_capability_tags_def)

lemma tag_iff:
  "''gpu'' \<in> set (infer_capability_tags e ns) \<longleftrightarrow> has_gpu e ns"
  "''array'' \<in> set (infer_capability_tags e ns) \<longleftrightarrow> has_array e ns"
  "''storage'' \<in> set (infer_capability_tags e ns) \<longleftrightarrow> has_storage e ns"
  "''manager'' \<in> set (infer_capability_tags e ns) \<longleftrightarrow> is_manager e"
  "''worker'' \<in> set (infer_capability_tags e ns) \<longleftrightarrow> is_compute e \<and> \<not> is_manager e"
  by (simp_all add: set_tags)

text \<open>
  The capability tags of an entity are sorted, without repetition, and only the five known ones; a
  node or platform is a worker exactly when it is not a manager, nothing else is ever a worker, and an
  array host is always a storage node.
\<close>

lemma capability_tags_consistent:
  "sorted (infer_capability_tags e ns) \<and> distinct (infer_capability_tags e ns)
   \<and> set (infer_capability_tags e ns) \<subseteq> {''gpu'', ''array'', ''storage'', ''manager'', ''worker''}
   \<and> (''worker'' \<in> set (infer_capability_tags e ns) \<longleftrightarrow>
        is_compute e \<and> ''manager'' \<notin> set (infer_capability_tags e ns))
   \<and> (''array'' \<in> set (infer_capability_tags e ns) \<longrightarrow> ''storage'' \<in> set (infer_capability_tags e ns))"
proof -
  have "distinct (infer_capability_tags e ns)" "sorted (infer_capability_tags e ns)"
    by (simp_all add: infer_capability_tags_def)
  moreover have "has_array e ns \<Longrightarrow> has_storage e ns" by (simp add: has_storage_def)
  moreover have "set (infer_capability_tags e ns) \<subseteq> {''gpu'', ''array'', ''storage'', ''manager'', ''worker''}"
    by (simp add: set_tags)
  ultimately show ?thesis by (simp add: tag_iff)
qed

lemma capability_tags_consistent_witness:
  "let e = demo_entity ''n1'' ''node'' [(''array_state'', JStr ''STARTED''), (''gpu_count'', JStr ''2'')];
       m = demo_entity ''n2'' ''node'' [(''node_role'', JStr ''Master'')] in
   infer_capability_tags e [] = [''array'', ''gpu'', ''storage'', ''worker'']
   \<and> infer_capability_tags m [demo_entity ''g0'' ''gpu'' []] = [''gpu'', ''manager'']
   \<and> sorted (infer_capability_tags e [])"
  using capability_tags_consistent
  by (simp add: Let_def) code_simp

section \<open>The lookup maps\<close>

lemma add_neighbor_ids: "j \<in> set (neighbor_ids (add_neighbor a b m) i) \<longleftrightarrow> i = a \<and> j = b \<or> j \<in> set (neighbor_ids m i)"
  by (auto simp: add_neighbor_def neighbor_ids_def store_simps)

lemma neighbor_fold:
  "j \<in> set (neighbor_ids (fold (\<lambda>e m. add_neighbor (ed_to e) (ed_from e) (add_neighbor (ed_from e) (ed_to e) m)) es m) i)
   \<longleftrightarrow> j \<in> set (neighbor_ids m i) \<or> (\<exists>e \<in> set es. ed_from e = i \<and> ed_to e = j \<or> ed_to e = i \<and> ed_from e = j)"
  by (induction es arbitrary: m) (auto simp: add_neighbor_ids)

lemma neighbor_map_iff:
  "j \<in> set (neighbor_ids (neighbor_map es) i) \<longleftrightarrow> (\<exists>e \<in> set es. ed_from e = i \<and> ed_to e = j \<or> ed_to e = i \<and> ed_from e = j)"
  unfolding neighbor_map_def by (subst neighbor_fold) (simp add: neighbor_ids_def)

lemma lookup_distinct: "distinct (map en_id es) \<Longrightarrow> lookup_by en_id i es = Some e \<longleftrightarrow> e \<in> set es \<and> en_id e = i"
  by (induction es) (auto simp: lookup_by_def)

lemma lookup_none: "lookup_by en_id i es = None \<longleftrightarrow> i \<notin> en_id ` set es"
  by (induction es) (auto simp: lookup_by_def)

lemma entity_fold:
  "distinct (map en_id es) \<Longrightarrow>
   jm_get (fold (\<lambda>e m. jm_set (en_id e) e m) es m) i
     = (case lookup_by en_id i es of Some e \<Rightarrow> Some e | None \<Rightarrow> jm_get m i)"
proof (induction es arbitrary: m)
  case (Cons e es)
  have "lookup_by en_id (en_id e) es = None" using Cons.prems by (simp add: lookup_none)
  then show ?case using Cons by (auto simp: store_simps lookup_by_def split: option.splits)
qed (simp add: lookup_by_def)

lemma entity_by_id_get: "distinct (map en_id es) \<Longrightarrow> jm_get (entity_by_id es) i = lookup_by en_id i es"
  by (simp add: entity_by_id_def entity_fold split: option.split)

text \<open>The analyzer's neighbours are the ones the store's own query returns.\<close>

lemma resolve_neighbors_iff:
  assumes "distinct (map en_id (gr_entities g))"
  shows "n \<in> set (resolve_neighbors g e) \<longleftrightarrow> n \<in> set (gr_entities g) \<and> en_id n \<in> set (neighbor_ids (neighbor_map (gr_edges g)) (en_id e))"
proof -
  have "n \<in> set (case x of Some y \<Rightarrow> [y] | None \<Rightarrow> []) \<longleftrightarrow> x = Some n" for x by (cases x) auto
  then show ?thesis
    by (auto simp: resolve_neighbors_def entity_by_id_get [OF assms] lookup_distinct [OF assms])
qed

lemma resolve_neighbors_eq:
  "distinct (map en_id (gr_entities g)) \<Longrightarrow> set (resolve_neighbors g e) = set (neighbors_in (en_id e) None g)"
  by (auto simp: resolve_neighbors_iff neighbors_in_iff neighbor_map_iff)

end
