(* ===== verification/Drift.thy ===== *)
theory Drift
  imports Topology
begin

text \<open>
  The policy document the homelab generates from its topology (\<open>src/rules/policy-generator.ts\<close>) and the
  probe that compares the placement of services in the graph with it
  (\<open>src/observation/probes/policy-drift.ts\<close>).
\<close>

section \<open>Policy documents\<close>

datatype rule_effect = Allow | Deny | RequireApproval

fun effect_str :: "rule_effect \<Rightarrow> string" where
  "effect_str Allow = ''allow''"
| "effect_str Deny = ''deny''"
| "effect_str RequireApproval = ''require-approval''"

record target_predicate =
  tp_kind :: "string option"
  tp_env :: "string option"
  tp_tag :: "(string \<times> string) option"
  tp_capability :: "string option"

record policy_rule =
  pr_id :: string
  pr_description :: "string option"
  pr_when :: "target_predicate option"
  pr_type :: string
  pr_effect :: rule_effect
  pr_params :: attributes

text \<open>The rules, in the words of the source.\<close>

definition rule_no_workloads_on_manager :: policy_rule where
  "rule_no_workloads_on_manager =
    \<lparr>pr_id = ''no-workloads-on-manager'',
     pr_description = Some ''Forbid deploying application workloads to nodes tagged as manager (Docker Swarm leader/reachable, Kubernetes control-plane). Manager nodes run only cluster-control-plane processes.'',
     pr_when = Some \<lparr>tp_kind = None, tp_env = None, tp_tag = None, tp_capability = Some ''manager''\<rparr>,
     pr_type = ''placement'', pr_effect = Deny,
     pr_params = [(''reason'', JStr ''Manager nodes are reserved for orchestrator control-plane processes. Add a worker node or re-tag the target to remove the manager capability.'')]\<rparr>"

definition rule_infra_env_approval :: policy_rule where
  "rule_infra_env_approval =
    \<lparr>pr_id = ''infra-env-approval'',
     pr_description = Some ''Any deploy to an infra-tier target requires operator approval (defence-in-depth guard beyond the manager capability deny rule).'',
     pr_when = Some \<lparr>tp_kind = None, tp_env = Some ''infra'', tp_tag = None, tp_capability = None\<rparr>,
     pr_type = ''placement'', pr_effect = RequireApproval,
     pr_params = [(''approvers'', JArr [JStr ''homelab-operators''])]\<rparr>"

definition rule_gpu_required_for_media :: policy_rule where
  "rule_gpu_required_for_media =
    \<lparr>pr_id = ''gpu-required-for-media'',
     pr_description = Some ''Services classified with role=media (Plex, Jellyfin, transcoding services) must be deployed to a node that advertises the gpu capability. Deploying to a non-GPU node would cause transcoding to fail or degrade.'',
     pr_when = Some \<lparr>tp_kind = None, tp_env = None, tp_tag = Some (''role'', ''media''), tp_capability = None\<rparr>,
     pr_type = ''placement'', pr_effect = Deny,
     pr_params = [(''require'', JObj [(''capability'', JStr ''gpu'')]),
       (''reason'', JStr ''Media transcoding services require GPU hardware acceleration. Target a node tagged with the gpu capability.'')]\<rparr>"

definition rule_media_anti_affinity :: policy_rule where
  "rule_media_anti_affinity =
    \<lparr>pr_id = ''media-anti-affinity'',
     pr_description = Some ''Prevent co-locating two media-role services on the same node to avoid GPU memory contention and reduce single-point-of-failure blast radius.'',
     pr_when = Some \<lparr>tp_kind = None, tp_env = None, tp_tag = Some (''role'', ''media''), tp_capability = None\<rparr>,
     pr_type = ''affinity'', pr_effect = Deny,
     pr_params = [(''antiAffinity'', JObj [(''role'', JStr ''media'')]),
       (''reason'', JStr ''A media-role service is already running on this node. Choose a different GPU node or remove the existing media service first.'')]\<rparr>"

definition rule_arr_stack_anti_affinity :: policy_rule where
  "rule_arr_stack_anti_affinity =
    \<lparr>pr_id = ''arr-stack-anti-affinity'',
     pr_description = Some ''Prevent deploying more than one arr-stack service (Sonarr, Radarr, Lidarr, Prowlarr, etc.) to the same node to reduce blast radius and avoid shared-dependency conflicts.'',
     pr_when = Some \<lparr>tp_kind = None, tp_env = None, tp_tag = Some (''role'', ''arr-stack''), tp_capability = None\<rparr>,
     pr_type = ''affinity'', pr_effect = Deny,
     pr_params = [(''antiAffinity'', JObj [(''role'', JStr ''arr-stack'')]),
       (''maxPerNode'', JInt 1),
       (''reason'', JStr ''An arr-stack service is already running on this node. Distribute the *arr services across different nodes.'')]\<rparr>"

definition rule_prod_approval :: policy_rule where
  "rule_prod_approval =
    \<lparr>pr_id = ''prod-approval'',
     pr_description = Some ''Every deployment to a production-tier target requires explicit operator approval before the deploy proceeds.'',
     pr_when = Some \<lparr>tp_kind = None, tp_env = Some ''prod'', tp_tag = None, tp_capability = None\<rparr>,
     pr_type = ''placement'', pr_effect = RequireApproval,
     pr_params = [(''approvers'', JArr [JStr ''homelab-operators''])]\<rparr>"

definition rule_prod_maintenance_window :: policy_rule where
  "rule_prod_maintenance_window =
    \<lparr>pr_id = ''prod-maintenance-window'',
     pr_description = Some ''Production deployments are only permitted between 06:00 and 22:00 UTC to avoid impacting overnight batch jobs and backups.'',
     pr_when = Some \<lparr>tp_kind = None, tp_env = Some ''prod'', tp_tag = None, tp_capability = None\<rparr>,
     pr_type = ''maintenance-window'', pr_effect = Deny,
     pr_params = [(''allow'', JObj [(''start'', JStr ''06:00''), (''end'', JStr ''22:00''), (''timezone'', JStr ''UTC'')]),
       (''reason'', JStr (''Prod deploys are restricted to 06:00'' @ [CHR 0xE2, CHR 0x80, CHR 0x93] @ ''22:00 UTC. Reschedule or request an emergency override.''))]\<rparr>"

definition rule_blast_radius_cap :: policy_rule where
  "rule_blast_radius_cap =
    \<lparr>pr_id = ''blast-radius-cap'',
     pr_description = Some ''A single deploy action may affect at most 3 targets simultaneously. Wider changes must be broken into sequential batches.'',
     pr_when = None,
     pr_type = ''blast-radius'', pr_effect = Deny,
     pr_params = [(''maxTargets'', JInt 3),
       (''reason'', JStr ''Batch size exceeds the homelab blast-radius cap of 3 targets. Split the action into smaller batches.'')]\<rparr>"

definition rule_destructiveness_floor :: policy_rule where
  "rule_destructiveness_floor =
    \<lparr>pr_id = ''destructiveness-floor'',
     pr_description = Some ''Any data-affecting or architectural deploy action requires operator approval regardless of environment. This tightens the core safety FLOOR for the homelab and is validated never to loosen it.'',
     pr_when = None,
     pr_type = ''placement'', pr_effect = RequireApproval,
     pr_params = [(''minDestructiveness'', JStr ''data-affecting''),
       (''approvers'', JArr [JStr ''homelab-operators'']),
       (''reason'', JStr ''This action is classified as data-affecting or architectural. Obtain operator approval before proceeding.'')]\<rparr>"

definition rule_storage_array_protection :: policy_rule where
  "rule_storage_array_protection =
    \<lparr>pr_id = ''storage-array-protection'',
     pr_description = Some ''Deny deploying application workloads to nodes tagged with the storage or array capability. Storage nodes (Unraid, NAS) are reserved for data persistence and should not run additional compute workloads without approval.'',
     pr_when = Some \<lparr>tp_kind = None, tp_env = None, tp_tag = None, tp_capability = Some ''storage''\<rparr>,
     pr_type = ''placement'', pr_effect = RequireApproval,
     pr_params = [(''approvers'', JArr [JStr ''homelab-operators'']),
       (''reason'', JStr ''This node is a storage array. Deploying workloads here may destabilize the array or consume parity-rebuild capacity. Obtain explicit approval.'')]\<rparr>"

definition rule_prod_concurrent_deploy_quota :: policy_rule where
  "rule_prod_concurrent_deploy_quota =
    \<lparr>pr_id = ''prod-concurrent-deploy-quota'',
     pr_description = Some ''At most one deploy may be in-flight to the prod environment at a time to prevent overlapping changes from masking failures.'',
     pr_when = Some \<lparr>tp_kind = None, tp_env = Some ''prod'', tp_tag = None, tp_capability = None\<rparr>,
     pr_type = ''quota'', pr_effect = Deny,
     pr_params = [(''maxConcurrent'', JInt 1),
       (''scope'', JStr ''env''),
       (''reason'', JStr ''A prod deploy is already in progress. Wait for it to complete before starting another.'')]\<rparr>"

definition build_invariant_rules :: "policy_rule list" where
  "build_invariant_rules =
    [rule_no_workloads_on_manager, rule_infra_env_approval, rule_gpu_required_for_media, rule_media_anti_affinity,
     rule_arr_stack_anti_affinity, rule_prod_approval, rule_prod_maintenance_window, rule_blast_radius_cap,
     rule_destructiveness_floor]"

definition build_topology_derived_rules :: "topology \<Rightarrow> policy_rule list" where
  "build_topology_derived_rules t =
    (if list_ex (\<lambda>n. ''storage'' \<in> set (nf_tags n)) (to_nodes t) then [rule_storage_array_protection] else [])
    @ (if list_ex (\<lambda>n. nf_env n = ''prod'') (to_nodes t) then [rule_prod_concurrent_deploy_quota] else [])"

definition generate_policy :: "topology \<Rightarrow> policy_rule list" where
  "generate_policy t = build_invariant_rules @ build_topology_derived_rules t"

section \<open>The probe\<close>

fun effect_to_severity :: "rule_effect \<Rightarrow> severity" where
  "effect_to_severity Deny = P0"
| "effect_to_severity RequireApproval = P1"
| "effect_to_severity Allow = P2"

text \<open>\<open>getNestedString\<close>: an array is an object without the keys.\<close>

fun get_nested_string :: "jsval \<Rightarrow> string list \<Rightarrow> string" where
  "get_nested_string (JStr s) [] = s"
| "get_nested_string v [] = []"
| "get_nested_string (JObj kvs) (k # ks) =
     (case jm_get kvs k of Some v \<Rightarrow> get_nested_string v ks | None \<Rightarrow> [])"
| "get_nested_string v (k # ks) = []"

definition when_value :: "target_predicate option \<Rightarrow> jsval" where
  "when_value w =
    (case w of
       None \<Rightarrow> JObj []
     | Some p \<Rightarrow> JObj
         (opt_member ''kind'' (map_option JStr (tp_kind p)) @ opt_member ''env'' (map_option JStr (tp_env p))
          @ opt_member ''tag'' (map_option (\<lambda>(k, v). JObj [(''key'', JStr k), (''value'', JStr v)]) (tp_tag p))
          @ opt_member ''capability'' (map_option JStr (tp_capability p))))"

record placement =
  pl_node :: entity
  pl_tags :: "string list"
  pl_services :: "entity list"

definition placements :: "graph \<Rightarrow> placement list" where
  "placements g =
    map (\<lambda>e. let ns = resolve_neighbors g e in
        \<lparr>pl_node = e, pl_tags = infer_capability_tags e ns, pl_services = filter is_service ns\<rparr>)
      (filter is_compute (gr_entities g))"

text \<open>One call of \<open>makeViolationObservation\<close>.\<close>

record violation =
  vi_rule :: policy_rule
  vi_node :: entity
  vi_service :: entity
  vi_expected :: string
  vi_observed :: string

definition service_role :: "entity \<Rightarrow> string" where
  "service_role e = attr_str ''role'' (en_attrs e)"

definition capability_violations :: "policy_rule \<Rightarrow> string \<Rightarrow> placement list \<Rightarrow> violation list" where
  "capability_violations r c ps =
    concat (map (\<lambda>p. if c \<notin> set (pl_tags p) then [] else
      map (\<lambda>v. \<lparr>vi_rule = r, vi_node = pl_node p, vi_service = v,
          vi_expected = ''no workloads on node with capability '' @ [CHR 0x27] @ c @ [CHR 0x27],
          vi_observed = ''service '' @ [CHR 0x27] @ en_name v @ [CHR 0x27] @ '' is co-located on node '' @ [CHR 0x27]
            @ en_name (pl_node p) @ [CHR 0x27] @ '' tagged '' @ [CHR 0x27] @ c @ [CHR 0x27]\<rparr>)
        (pl_services p)) ps)"

definition required_violations :: "policy_rule \<Rightarrow> string \<Rightarrow> string \<Rightarrow> placement list \<Rightarrow> violation list" where
  "required_violations r role c ps =
    concat (map (\<lambda>p. if c \<in> set (pl_tags p) then [] else
      map (\<lambda>v. \<lparr>vi_rule = r, vi_node = pl_node p, vi_service = v,
          vi_expected = ''service with role '' @ [CHR 0x27] @ role @ [CHR 0x27] @ '' must run on a node with ''
            @ [CHR 0x27] @ c @ [CHR 0x27] @ '' capability'',
          vi_observed = ''service '' @ [CHR 0x27] @ en_name v @ [CHR 0x27] @ '' (role='' @ [CHR 0x27] @ service_role v
            @ [CHR 0x27] @ '') is running on node '' @ [CHR 0x27] @ en_name (pl_node p) @ [CHR 0x27]
            @ '' which lacks the '' @ [CHR 0x27] @ c @ [CHR 0x27] @ '' capability''\<rparr>)
        (filter (\<lambda>v. service_role v = role) (pl_services p))) ps)"

text \<open>\<open>params.maxPerNode\<close>, 1 when it is not a number, and \<open>slice(n)\<close>.\<close>

definition max_per_node :: "attributes \<Rightarrow> int" where
  "max_per_node kvs = (case jm_get kvs ''maxPerNode'' of Some (JNum (Fin n)) \<Rightarrow> n | _ \<Rightarrow> 1)"

definition slice_from :: "int \<Rightarrow> 'a list \<Rightarrow> 'a list" where
  "slice_from n xs = (if n < 0 then drop (length xs - nat (- n)) xs else drop (nat n) xs)"

definition violators :: "(string \<Rightarrow> string \<Rightarrow> int) \<Rightarrow> string \<Rightarrow> int \<Rightarrow> entity list \<Rightarrow> entity list" where
  "violators collate role n services =
    (let matching = filter (\<lambda>v. service_role v = role) services in
     if int (length matching) \<le> n then []
     else slice_from n (sort_cmp (\<lambda>a b. collate (en_id a) (en_id b)) matching))"

definition affinity_violations ::
  "(string \<Rightarrow> string \<Rightarrow> int) \<Rightarrow> policy_rule \<Rightarrow> string \<Rightarrow> int \<Rightarrow> placement list \<Rightarrow> violation list" where
  "affinity_violations collate r role n ps =
    concat (map (\<lambda>p.
      map (\<lambda>v. \<lparr>vi_rule = r, vi_node = pl_node p, vi_service = v,
          vi_expected = ''at most '' @ int_str n @ '' service(s) with role '' @ [CHR 0x27] @ role @ [CHR 0x27] @ '' per node'',
          vi_observed = nat_str (length (filter (\<lambda>v. service_role v = role) (pl_services p)))
            @ '' service(s) with role '' @ [CHR 0x27] @ role @ [CHR 0x27] @ '' are co-located on node '' @ [CHR 0x27]
            @ en_name (pl_node p) @ [CHR 0x27]\<rparr>)
        (violators collate role n (pl_services p))) ps)"

definition evaluate_rule :: "(string \<Rightarrow> string \<Rightarrow> int) \<Rightarrow> placement list \<Rightarrow> policy_rule \<Rightarrow> violation list" where
  "evaluate_rule collate ps r =
    (let capability = get_nested_string (when_value (pr_when r)) [''capability''];
         tag_value = get_nested_string (when_value (pr_when r)) [''tag'', ''value''];
         required = get_nested_string (JObj (pr_params r)) [''require'', ''capability''];
         role = get_nested_string (JObj (pr_params r)) [''antiAffinity'', ''role''] in
     if pr_type r = ''placement'' \<and> capability \<noteq> [] then capability_violations r capability ps
     else if pr_type r = ''placement'' \<and> tag_value \<noteq> [] \<and> required \<noteq> [] then required_violations r tag_value required ps
     else if pr_type r = ''affinity'' \<and> role \<noteq> [] then affinity_violations collate r role (max_per_node (pr_params r)) ps
     else [])"

definition drift_violations :: "(string \<Rightarrow> string \<Rightarrow> int) \<Rightarrow> policy_rule list \<Rightarrow> graph \<Rightarrow> violation list" where
  "drift_violations collate rules g = concat (map (evaluate_rule collate (placements g)) rules)"

text \<open>The world of one scan: the runtime, the fresh identifiers and times of its observations, the YAML
  library, \<open>localeCompare\<close>, and the platform the probe was made for.\<close>

record drift_env =
  dr_rt :: runtime
  dr_uuid :: "nat \<Rightarrow> string"
  dr_time :: "nat \<Rightarrow> int"
  dr_yaml :: yaml
  dr_collate :: "string \<Rightarrow> string \<Rightarrow> int"
  dr_platform :: string

definition violation_key :: "string \<Rightarrow> violation \<Rightarrow> string" where
  "violation_key platform v = platform @ '':policy_drift:rule/'' @ pr_id (vi_rule v) @ ''/'' @ en_id (vi_service v)"

definition make_violation_observation :: "drift_env \<Rightarrow> nat \<Rightarrow> violation \<Rightarrow> observation" where
  "make_violation_observation env k v =
    (make_observation (dr_rt env) (dr_uuid env k) (dr_time env k) (dr_platform env) PolicyDrift
       (''service/'' @ en_name (vi_service v) @ ''@node/'' @ en_name (vi_node v))
       (effect_to_severity (pr_effect (vi_rule v)))
       (Some (JObj
         [(''rule_id'', JStr (pr_id (vi_rule v))), (''rule_type'', JStr (pr_type (vi_rule v))),
          (''rule_effect'', JStr (effect_str (pr_effect (vi_rule v)))),
          (''expected'', JStr (vi_expected v)), (''observed'', JStr (vi_observed v)),
          (''node_id'', JStr (en_id (vi_node v))), (''node_name'', JStr (en_name (vi_node v))),
          (''service_id'', JStr (en_id (vi_service v))), (''service_name'', JStr (en_name (vi_service v)))])))
     \<lparr>ob_key := Some (violation_key (dr_platform env) v)\<rparr>"

text \<open>The graph is read twice, once for the topology and once for the placements; it may have changed in
  between. \<open>scan\<close> catches every error.\<close>

definition drift_evaluate :: "drift_env \<Rightarrow> string \<Rightarrow> graph_file \<Rightarrow> graph_file \<Rightarrow> observation list res" where
  "drift_evaluate env ts f1 f2 =
    rbind (analyze (dr_yaml env) (dr_collate env) ts f1) (\<lambda>t.
    rbind (all_graph (dr_yaml env) f2) (\<lambda>g.
      let vs = drift_violations (dr_collate env) (generate_policy t) g in
      Inr (map (\<lambda>(k, v). make_violation_observation env k v) (enumerate 0 vs))))"

definition drift_scan :: "drift_env \<Rightarrow> string \<Rightarrow> graph_file \<Rightarrow> graph_file \<Rightarrow> observation list" where
  "drift_scan env ts f1 f2 = (case drift_evaluate env ts f1 f2 of Inl e \<Rightarrow> [] | Inr os \<Rightarrow> os)"
section \<open>What the generated rules look for\<close>

lemmas rule_defs = rule_no_workloads_on_manager_def rule_infra_env_approval_def rule_gpu_required_for_media_def
  rule_media_anti_affinity_def rule_arr_stack_anti_affinity_def rule_prod_approval_def
  rule_prod_maintenance_window_def rule_blast_radius_cap_def rule_destructiveness_floor_def
  rule_storage_array_protection_def rule_prod_concurrent_deploy_quota_def

lemmas evaluate_defs = evaluate_rule_def Let_def when_value_def opt_member_def max_per_node_def

lemma evaluate_rules [simp]:
  "evaluate_rule collate ps rule_no_workloads_on_manager = capability_violations rule_no_workloads_on_manager ''manager'' ps"
  "evaluate_rule collate ps rule_infra_env_approval = []"
  "evaluate_rule collate ps rule_gpu_required_for_media = required_violations rule_gpu_required_for_media ''media'' ''gpu'' ps"
  "evaluate_rule collate ps rule_media_anti_affinity = affinity_violations collate rule_media_anti_affinity ''media'' 1 ps"
  "evaluate_rule collate ps rule_arr_stack_anti_affinity =
     affinity_violations collate rule_arr_stack_anti_affinity ''arr-stack'' 1 ps"
  "evaluate_rule collate ps rule_prod_approval = []"
  "evaluate_rule collate ps rule_prod_maintenance_window = []"
  "evaluate_rule collate ps rule_blast_radius_cap = []"
  "evaluate_rule collate ps rule_destructiveness_floor = []"
  "evaluate_rule collate ps rule_storage_array_protection =
     capability_violations rule_storage_array_protection ''storage'' ps"
  "evaluate_rule collate ps rule_prod_concurrent_deploy_quota = []"
  by (simp_all add: evaluate_defs rule_defs)

definition found :: "violation \<Rightarrow> policy_rule \<times> entity \<times> entity" where
  "found v = (vi_rule v, vi_node v, vi_service v)"

text \<open>The services of a placement an affinity rule reports, and how many they are.\<close>

lemma set_insert_cmp [simp]: "set (insert_cmp cmp x xs) = insert x (set xs)"
  by (induction xs) auto

lemma set_sort_cmp [simp]: "set (sort_cmp cmp xs) = set xs"
  by (induction xs) (simp_all add: sort_cmp_def)

lemma length_insert_cmp [simp]: "length (insert_cmp cmp x xs) = Suc (length xs)"
  by (induction xs) auto

lemma length_sort_cmp [simp]: "length (sort_cmp cmp xs) = length xs"
  by (induction xs) (simp_all add: sort_cmp_def)

lemma violators_subset: "set (violators collate role n vs) \<subseteq> {v \<in> set vs. service_role v = role}"
  by (auto simp: violators_def slice_from_def Let_def dest!: in_set_dropD)

lemma violators_length:
  "0 \<le> n \<Longrightarrow> int (length (violators collate role n vs)) = max 0 (int (length (filter (\<lambda>v. service_role v = role) vs)) - n)"
  by (auto simp: violators_def slice_from_def Let_def)

lemma found_capability:
  "found ` set (capability_violations r c ps) =
     {(r, pl_node p, s) | p s. p \<in> set ps \<and> s \<in> set (pl_services p) \<and> c \<in> set (pl_tags p)}"
  by (auto simp: capability_violations_def image_UN image_image found_def split: if_splits)

lemma found_required:
  "found ` set (required_violations r role c ps) =
     {(r, pl_node p, s) | p s. p \<in> set ps \<and> s \<in> set (pl_services p) \<and> service_role s = role \<and> c \<notin> set (pl_tags p)}"
  by (auto simp: required_violations_def image_UN image_image found_def split: if_splits)

lemma found_affinity:
  "found ` set (affinity_violations collate r role n ps) =
     {(r, pl_node p, s) | p s. p \<in> set ps \<and> s \<in> set (pl_services p) \<and> s \<in> set (violators collate role n (pl_services p))}"
  using violators_subset [of collate role n]
  by (auto simp: affinity_violations_def image_UN image_image found_def)

lemma storage_in_topology:
  "list_ex (\<lambda>n. ''storage'' \<in> set (nf_tags n)) (to_nodes (topology_of collate ts g))
   \<longleftrightarrow> (\<exists>p \<in> set (placements g). ''storage'' \<in> set (pl_tags p))"
  by (auto simp: list_ex_iff topology_of_def placements_def node_facts_of_def Let_def)

text \<open>The rules that find something, each with what it looks for at a placement.\<close>

definition breaks :: "(string \<Rightarrow> string \<Rightarrow> int) \<Rightarrow> policy_rule \<Rightarrow> placement \<Rightarrow> entity \<Rightarrow> bool" where
  "breaks collate r p s \<longleftrightarrow> s \<in> set (pl_services p) \<and>
     (r = rule_no_workloads_on_manager \<and> ''manager'' \<in> set (pl_tags p)
      \<or> r = rule_storage_array_protection \<and> ''storage'' \<in> set (pl_tags p)
      \<or> r = rule_gpu_required_for_media \<and> service_role s = ''media'' \<and> ''gpu'' \<notin> set (pl_tags p)
      \<or> r = rule_media_anti_affinity \<and> s \<in> set (violators collate ''media'' 1 (pl_services p))
      \<or> r = rule_arr_stack_anti_affinity \<and> s \<in> set (violators collate ''arr-stack'' 1 (pl_services p)))"

lemma drift_violations_found:
  "found ` set (drift_violations collate (generate_policy (topology_of collate ts g)) g)
   = {(r, pl_node p, s) | r p s. p \<in> set (placements g) \<and> breaks collate r p s}"
proof -
  have storage: "found ` set (if list_ex (\<lambda>n. ''storage'' \<in> set (nf_tags n)) (to_nodes (topology_of collate ts g))
      then capability_violations rule_storage_array_protection ''storage'' (placements g) else [])
    = {(rule_storage_array_protection, pl_node p, s) | p s.
        p \<in> set (placements g) \<and> s \<in> set (pl_services p) \<and> ''storage'' \<in> set (pl_tags p)}"
  proof (cases "\<exists>p \<in> set (placements g). ''storage'' \<in> set (pl_tags p)")
    case True
    then show ?thesis unfolding storage_in_topology by (simp add: found_capability)
  next
    case False
    then show ?thesis unfolding storage_in_topology by auto
  qed
  have split: "set (drift_violations collate (generate_policy (topology_of collate ts g)) g) =
      set (capability_violations rule_no_workloads_on_manager ''manager'' (placements g))
      \<union> set (required_violations rule_gpu_required_for_media ''media'' ''gpu'' (placements g))
      \<union> set (affinity_violations collate rule_media_anti_affinity ''media'' 1 (placements g))
      \<union> set (affinity_violations collate rule_arr_stack_anti_affinity ''arr-stack'' 1 (placements g))
      \<union> set (if list_ex (\<lambda>n. ''storage'' \<in> set (nf_tags n)) (to_nodes (topology_of collate ts g))
          then capability_violations rule_storage_array_protection ''storage'' (placements g) else [])"
    by (simp add: drift_violations_def generate_policy_def build_invariant_rules_def build_topology_derived_rules_def)
      blast
  show ?thesis
    unfolding split image_Un storage found_capability found_required found_affinity breaks_def by blast
qed

lemma scan_readable:
  assumes "read_graph (dr_yaml env) f = Inr g"
  shows "drift_scan env ts f f = map (\<lambda>(k, v). make_violation_observation env k v)
    (enumerate 0 (drift_violations (dr_collate env) (generate_policy (topology_of (dr_collate env) ts g)) g))"
  using assms by (simp add: drift_scan_def drift_evaluate_def analyze_def all_graph_def Let_def)

lemma make_violation_key [simp]:
  "ob_key (make_violation_observation env k v) = Some (violation_key (dr_platform env) v)"
  "ob_severity (make_violation_observation env k v) = effect_to_severity (pr_effect (vi_rule v))"
  "ob_resource (make_violation_observation env k v) = ''service/'' @ en_name (vi_service v) @ ''@node/'' @ en_name (vi_node v)"
  "ob_pattern (make_violation_observation env k v) = PolicyDrift"
  by (simp_all add: make_violation_observation_def make_observation_def)

lemma scan_found:
  assumes "read_graph (dr_yaml env) f = Inr g"
  shows "(\<exists>ob \<in> set (drift_scan env ts f f). ob_key ob = Some key \<and> ob_severity ob = sev \<and> ob_resource ob = res)
    \<longleftrightarrow> (\<exists>r. \<exists>p \<in> set (placements g). \<exists>s. breaks (dr_collate env) r p s
          \<and> key = dr_platform env @ '':policy_drift:rule/'' @ pr_id r @ ''/'' @ en_id s
          \<and> sev = effect_to_severity (pr_effect r)
          \<and> res = ''service/'' @ en_name s @ ''@node/'' @ en_name (pl_node p))"
proof -
  let ?vs = "drift_violations (dr_collate env) (generate_policy (topology_of (dr_collate env) ts g)) g"
  let ?look = "\<lambda>ob. (ob_key ob, ob_severity ob, ob_resource ob)"
  let ?says = "\<lambda>v. (Some (violation_key (dr_platform env) v), effect_to_severity (pr_effect (vi_rule v)),
    ''service/'' @ en_name (vi_service v) @ ''@node/'' @ en_name (vi_node v))"
  have "map ?look (drift_scan env ts f f) = map ?says (map snd (enumerate 0 ?vs))"
    unfolding scan_readable [OF assms] by (simp add: comp_def case_prod_unfold del: map_snd_enumerate)
  then have "?look ` set (drift_scan env ts f f) = ?says ` set ?vs" unfolding set_map [symmetric] by simp
  moreover have "(\<exists>ob \<in> set (drift_scan env ts f f). ob_key ob = Some key \<and> ob_severity ob = sev \<and> ob_resource ob = res)
    \<longleftrightarrow> (Some key, sev, res) \<in> ?look ` set (drift_scan env ts f f)"
    unfolding image_iff prod.inject by metis
  ultimately have "(\<exists>ob \<in> set (drift_scan env ts f f). ob_key ob = Some key \<and> ob_severity ob = sev \<and> ob_resource ob = res)
    \<longleftrightarrow> (\<exists>v \<in> set ?vs. key = violation_key (dr_platform env) v \<and> sev = effect_to_severity (pr_effect (vi_rule v))
          \<and> res = ''service/'' @ en_name (vi_service v) @ ''@node/'' @ en_name (vi_node v))"
    by auto
  also have "\<dots> \<longleftrightarrow> (\<exists>(r, n, s) \<in> found ` set ?vs.
      key = dr_platform env @ '':policy_drift:rule/'' @ pr_id r @ ''/'' @ en_id s
      \<and> sev = effect_to_severity (pr_effect r) \<and> res = ''service/'' @ en_name s @ ''@node/'' @ en_name n)"
    by (auto simp: found_def violation_key_def)
  finally show ?thesis unfolding drift_violations_found by blast
qed

section \<open>What a scan reports\<close>

text \<open>The deployment a graph describes, read off its entities and edges: what is joined to a node or
  platform, which services run on it, and whether it has a GPU or is a storage host.\<close>

definition joined :: "graph \<Rightarrow> entity \<Rightarrow> entity \<Rightarrow> bool" where
  "joined g n x \<longleftrightarrow> (\<exists>d \<in> set (gr_edges g).
     ed_from d = en_id n \<and> ed_to d = en_id x \<or> ed_to d = en_id n \<and> ed_from d = en_id x)"

definition runs_on :: "graph \<Rightarrow> entity \<Rightarrow> entity \<Rightarrow> bool" where
  "runs_on g n s \<longleftrightarrow> n \<in> set (gr_entities g) \<and> en_kind n \<in> {''node'', ''platform''}
     \<and> s \<in> set (gr_entities g) \<and> en_kind s \<in> {''service'', ''container''} \<and> joined g n s"

definition gpu_host :: "graph \<Rightarrow> entity \<Rightarrow> bool" where
  "gpu_host g n \<longleftrightarrow>
     (\<exists>c. jm_get (en_attrs n) ''gpu_count'' = Some (JNum c) \<and> positive c)
     \<or> (\<exists>s. jm_get (en_attrs n) ''gpu_count'' = Some (JStr s) \<and> positive (parse_int s))
     \<or> (\<exists>x \<in> set (gr_entities g). joined g n x \<and> en_kind x = ''gpu'')"

definition storage_host :: "graph \<Rightarrow> entity \<Rightarrow> bool" where
  "storage_host g n \<longleftrightarrow>
     (\<exists>s. jm_get (en_attrs n) ''array_state'' = Some (JStr s) \<and> trim s \<noteq> [])
     \<or> contains ''storage'' (attr_str ''role'' (en_attrs n))
     \<or> (\<exists>x \<in> set (gr_entities g). joined g n x \<and> en_kind x \<in> {''storage-array'', ''share'', ''storage-volume''})"

definition has_role :: "string \<Rightarrow> entity \<Rightarrow> bool" where
  "has_role r s \<longleftrightarrow> jm_get (en_attrs s) ''role'' = Some (JStr r)"

text \<open>The five rules a placement can break, by the id and the severity the report carries. Of the services of
  one anti-affinity role on a host, the first in the order of the ids may stay.\<close>

definition breach :: "(string \<Rightarrow> string \<Rightarrow> int) \<Rightarrow> graph \<Rightarrow> string \<Rightarrow> severity \<Rightarrow> entity \<Rightarrow> entity \<Rightarrow> bool" where
  "breach collate g i sev n s \<longleftrightarrow> runs_on g n s \<and>
     (i = ''no-workloads-on-manager'' \<and> sev = P0 \<and> is_manager n
      \<or> i = ''storage-array-protection'' \<and> sev = P1 \<and> storage_host g n
      \<or> i = ''gpu-required-for-media'' \<and> sev = P0 \<and> has_role ''media'' s \<and> \<not> gpu_host g n
      \<or> i = ''media-anti-affinity'' \<and> sev = P0 \<and> has_role ''media'' s
          \<and> (\<exists>s'. runs_on g n s' \<and> has_role ''media'' s' \<and> collate (en_id s') (en_id s) < 0)
      \<or> i = ''arr-stack-anti-affinity'' \<and> sev = P0 \<and> has_role ''arr-stack'' s
          \<and> (\<exists>s'. runs_on g n s' \<and> has_role ''arr-stack'' s' \<and> collate (en_id s') (en_id s) < 0))"

text \<open>\<open>localeCompare\<close> orders the strings of a set and tells them apart.\<close>

definition collates :: "(string \<Rightarrow> string \<Rightarrow> int) \<Rightarrow> string set \<Rightarrow> bool" where
  "collates c I \<longleftrightarrow>
     (\<forall>a \<in> I. c a a = 0)
     \<and> (\<forall>a \<in> I. \<forall>b \<in> I. a \<noteq> b \<longrightarrow> c a b \<noteq> 0 \<and> (c a b < 0 \<longleftrightarrow> c b a > 0))
     \<and> (\<forall>a \<in> I. \<forall>b \<in> I. \<forall>d \<in> I. c a b < 0 \<longrightarrow> c b d < 0 \<longrightarrow> c a d < 0)"

lemma collates_subset: "collates c I \<Longrightarrow> J \<subseteq> I \<Longrightarrow> collates c J"
  unfolding collates_def by blast

lemma collates_trans:
  "collates c I \<Longrightarrow> a \<in> I \<Longrightarrow> b \<in> I \<Longrightarrow> d \<in> I \<Longrightarrow> c a b < 0 \<Longrightarrow> c b d < 0 \<Longrightarrow> c a d < 0"
  unfolding collates_def by blast

lemma collates_swap:
  "collates c I \<Longrightarrow> a \<in> I \<Longrightarrow> b \<in> I \<Longrightarrow> a \<noteq> b \<Longrightarrow> c a b \<noteq> 0 \<and> (c a b < 0 \<longleftrightarrow> c b a > 0)"
  unfolding collates_def by blast

abbreviation before :: "(string \<Rightarrow> string \<Rightarrow> int) \<Rightarrow> entity \<Rightarrow> entity \<Rightarrow> bool" where
  "before c a b \<equiv> c (en_id a) (en_id b) < 0"

lemma insert_cmp_ordered:
  assumes "collates c (insert (en_id x) (en_id ` set ys))" "en_id x \<notin> en_id ` set ys" "sorted_wrt (before c) ys"
  shows "sorted_wrt (before c) (insert_cmp (\<lambda>a b. c (en_id a) (en_id b)) x ys)"
  using assms
proof (induction ys)
  case (Cons y ys)
  let ?I = "insert (en_id x) (en_id ` set (y # ys))"
  have xy: "c (en_id x) (en_id y) \<noteq> 0"
    using collates_swap [OF Cons.prems(1), of "en_id x" "en_id y"] Cons.prems(2) by simp
  show ?case
  proof (cases "c (en_id x) (en_id y) \<le> 0")
    case True
    then have less: "before c x y" using xy by simp
    have "before c x z" if z: "z \<in> set ys" for z
    proof -
      have "before c y z" using Cons.prems(3) z by simp
      moreover have "en_id x \<in> ?I" "en_id y \<in> ?I" "en_id z \<in> ?I" using z by auto
      ultimately show ?thesis using collates_trans [OF Cons.prems(1)] less by blast
    qed
    then show ?thesis using less True Cons.prems(3) by simp
  next
    case False
    moreover have "en_id x \<in> ?I" "en_id y \<in> ?I" "en_id y \<noteq> en_id x" using Cons.prems(2) by auto
    ultimately have "before c y x" using collates_swap [OF Cons.prems(1), of "en_id y" "en_id x"] by linarith
    moreover have "collates c (insert (en_id x) (en_id ` set ys))"
      using Cons.prems(1) by (rule collates_subset) auto
    ultimately show ?thesis using False Cons.IH Cons.prems(2,3) by auto
  qed
qed simp

lemma sort_cmp_ordered:
  assumes "collates c (en_id ` set xs)" "distinct (map en_id xs)"
  shows "sorted_wrt (before c) (sort_cmp (\<lambda>a b. c (en_id a) (en_id b)) xs)"
  using assms
proof (induction xs)
  case (Cons x xs)
  have eq: "sort_cmp f (x # xs) = insert_cmp f x (sort_cmp f xs)" for f :: "entity \<Rightarrow> entity \<Rightarrow> int"
    by (simp add: sort_cmp_def)
  have "collates c (en_id ` set xs)" using Cons.prems(1) by (rule collates_subset) auto
  then show ?case unfolding eq using Cons by (intro insert_cmp_ordered) simp_all
qed (simp add: sort_cmp_def)

text \<open>With a limit of one, every service of the role but the first is reported.\<close>

lemma violators_iff:
  assumes "collates c (en_id ` set vs)" "distinct (map en_id vs)"
  shows "s \<in> set (violators c role 1 vs) \<longleftrightarrow>
    s \<in> set vs \<and> service_role s = role \<and> (\<exists>s' \<in> set vs. service_role s' = role \<and> before c s' s)"
proof -
  let ?ms = "filter (\<lambda>v. service_role v = role) vs"
  let ?ss = "sort_cmp (\<lambda>a b. c (en_id a) (en_id b)) ?ms"
  have dist: "distinct (map en_id ?ms)" using assms(2) distinct_map_filter by blast
  have "collates c (en_id ` set ?ms)" using assms(1) by (rule collates_subset) auto
  from sort_cmp_ordered [OF this dist] have sorted: "sorted_wrt (before c) ?ss" .
  have members: "set ?ss = {v \<in> set vs. service_role v = role}" by auto
  have tail: "violators c role 1 vs = tl ?ss"
  proof -
    have len: "length ?ms = length ?ss" by simp
    show ?thesis
      unfolding violators_def slice_from_def Let_def len by (cases ?ss) (simp_all add: drop_Suc del: length_sort_cmp)
  qed
  have refl: "\<not> before c a a" if "a \<in> set vs" for a using assms(1) that by (auto simp: collates_def)
  have asym: "\<not> (before c a b \<and> before c b a)" if "a \<in> set vs" "b \<in> set vs" for a b
    using assms(1) that refl unfolding collates_def by blast
  show ?thesis
  proof (cases ?ss)
    case Nil
    then show ?thesis using members tail by auto
  next
    case (Cons h ts)
    have h: "h \<in> set vs" "service_role h = role" "\<forall>z \<in> set ts. before c h z"
      using Cons members sorted by auto
    have iff: "s \<in> set ts \<longleftrightarrow> s \<in> set ?ss \<and> (\<exists>s' \<in> set ?ss. before c s' s)"
    proof
      assume "s \<in> set ts"
      then show "s \<in> set ?ss \<and> (\<exists>s' \<in> set ?ss. before c s' s)" using Cons h(3) by auto
    next
      assume r: "s \<in> set ?ss \<and> (\<exists>s' \<in> set ?ss. before c s' s)"
      then obtain s' where s': "s' \<in> set ?ss" "before c s' s" by blast
      show "s \<in> set ts"
      proof (rule ccontr)
        assume "s \<notin> set ts"
        then have [simp]: "s = h" using r Cons by simp
        have "s' \<noteq> h" using s'(2) refl h(1) by auto
        then have "before c h s'" using s'(1) Cons h(3) by auto
        moreover have "s' \<in> set vs" using s'(1) members by auto
        ultimately show False using asym s'(2) h(1) by auto
      qed
    qed
    then show ?thesis using tail Cons members by auto
  qed
qed

text \<open>The probe's neighbours, each once, are the entities joined to the node.\<close>

lemma neighbor_ids_distinct: "distinct (neighbor_ids (neighbor_map es) i)"
proof -
  have "distinct (neighbor_ids (fold (\<lambda>e m. add_neighbor (ed_to e) (ed_from e) (add_neighbor (ed_from e) (ed_to e) m)) es m) i)"
    if "\<And>i. distinct (neighbor_ids m i)" for m
    using that
    by (induction es arbitrary: m) (auto simp: add_neighbor_def neighbor_ids_def store_simps)
  then show ?thesis by (simp add: neighbor_map_def neighbor_ids_def)
qed

lemma resolve_joined:
  "distinct (map en_id (gr_entities g)) \<Longrightarrow> x \<in> set (resolve_neighbors g n) \<longleftrightarrow> x \<in> set (gr_entities g) \<and> joined g n x"
  by (auto simp: resolve_neighbors_iff neighbor_map_iff joined_def)

lemma resolve_distinct:
  assumes "distinct (map en_id (gr_entities g))"
  shows "distinct (map en_id (resolve_neighbors g n))"
proof -
  let ?of = "\<lambda>i. case lookup_by en_id i (gr_entities g) of Some n \<Rightarrow> [n] | None \<Rightarrow> []"
  have one: "map en_id (?of i) = (if lookup_by en_id i (gr_entities g) = None then [] else [i])" for i
    by (auto simp: lookup_member split: option.split)
  have "map en_id (concat (map ?of js)) = filter (\<lambda>i. lookup_by en_id i (gr_entities g) \<noteq> None) js" for js
    by (induction js) (simp_all only: list.map concat.simps map_append one filter.simps, simp_all)
  then show ?thesis
    unfolding resolve_neighbors_def entity_by_id_get [OF assms] using neighbor_ids_distinct by simp
qed

lemma role_iff: "r \<noteq> [] \<Longrightarrow> service_role s = r \<longleftrightarrow> has_role r s"
  unfolding service_role_def attr_str_def has_role_def str_of_def
  by (auto split: option.splits jsval.splits)

lemma tags_host:
  assumes "distinct (map en_id (gr_entities g))" "is_compute n"
  shows "has_gpu n (resolve_neighbors g n) \<longleftrightarrow> gpu_host g n" "has_storage n (resolve_neighbors g n) \<longleftrightarrow> storage_host g n"
proof -
  show "has_gpu n (resolve_neighbors g n) \<longleftrightarrow> gpu_host g n"
    by (auto simp: has_gpu_def gpu_host_def list_ex_iff resolve_joined [OF assms(1)] split: option.splits jsval.splits)
  show "has_storage n (resolve_neighbors g n) \<longleftrightarrow> storage_host g n"
  proof -
    have array: "(case jm_get (en_attrs n) ''array_state'' of Some (JStr s) \<Rightarrow> trim s \<noteq> [] | _ \<Rightarrow> False)
        \<longleftrightarrow> (\<exists>s. jm_get (en_attrs n) ''array_state'' = Some (JStr s) \<and> trim s \<noteq> [])"
      by (auto split: option.splits jsval.splits)
    have kind: "en_kind n \<notin> {''storage-array'', ''share'', ''storage-volume''}" using assms(2) by (auto simp: is_compute_def)
    show ?thesis
      unfolding has_storage_def has_array_def storage_host_def array list_ex_iff Bex_def resolve_joined [OF assms(1)]
      using kind by blast
  qed
qed

lemma breaks_breach:
  assumes "distinct (map en_id (gr_entities g))" "collates collate (en_id ` set (gr_entities g))"
  shows "(\<exists>r. \<exists>p \<in> set (placements g). breaks collate r p s \<and> pl_node p = n \<and> i = pr_id r \<and> sev = effect_to_severity (pr_effect r))
    \<longleftrightarrow> breach collate g i sev n s"
proof -
  define p where "p = \<lparr>pl_node = n, pl_tags = infer_capability_tags n (resolve_neighbors g n),
    pl_services = filter is_service (resolve_neighbors g n)\<rparr>"
  have services: "x \<in> set (pl_services p) \<longleftrightarrow> runs_on g n x" if "is_compute n" "n \<in> set (gr_entities g)" for x
    using that by (auto simp: p_def resolve_joined [OF assms(1)] runs_on_def is_service_def is_compute_def)
  have "collates collate (en_id ` set (pl_services p))"
    using assms(2) by (rule collates_subset) (auto simp: p_def resolve_joined [OF assms(1)])
  moreover have "distinct (map en_id (pl_services p))"
    using resolve_distinct [OF assms(1)] distinct_map_filter by (auto simp: p_def)
  ultimately have vio: "x \<in> set (violators collate role 1 (pl_services p)) \<longleftrightarrow> x \<in> set (pl_services p) \<and> service_role x = role
      \<and> (\<exists>s' \<in> set (pl_services p). service_role s' = role \<and> before collate s' x)" for x role
    by (rule violators_iff)
  have one: "(\<exists>q \<in> set (placements g). Q q \<and> pl_node q = n) \<longleftrightarrow> n \<in> set (gr_entities g) \<and> is_compute n \<and> Q p" for Q
    unfolding placements_def p_def Let_def by auto
  have "(\<exists>r. \<exists>p \<in> set (placements g). breaks collate r p s \<and> pl_node p = n \<and> i = pr_id r \<and> sev = effect_to_severity (pr_effect r))
    \<longleftrightarrow> n \<in> set (gr_entities g) \<and> is_compute n \<and> (\<exists>r. breaks collate r p s \<and> i = pr_id r \<and> sev = effect_to_severity (pr_effect r))"
    using one [of "\<lambda>q. \<exists>r. breaks collate r q s \<and> i = pr_id r \<and> sev = effect_to_severity (pr_effect r)"] by blast
  also have "\<dots> \<longleftrightarrow> breach collate g i sev n s"
  proof (cases "n \<in> set (gr_entities g) \<and> is_compute n")
    case True
    note sv = services [OF conjunct2 [OF True] conjunct1 [OF True]]
    note th = tags_host [OF assms(1) conjunct2 [OF True]]
    have tags: "''manager'' \<in> set (pl_tags p) \<longleftrightarrow> is_manager n" "''storage'' \<in> set (pl_tags p) \<longleftrightarrow> storage_host g n"
      "''gpu'' \<in> set (pl_tags p) \<longleftrightarrow> gpu_host g n"
      unfolding p_def by (simp_all add: tag_iff th)
    have roles: "service_role x = ''media'' \<longleftrightarrow> has_role ''media'' x"
      "service_role x = ''arr-stack'' \<longleftrightarrow> has_role ''arr-stack'' x" for x by (simp_all add: role_iff)
    have breaks: "breaks collate r p s \<longleftrightarrow> runs_on g n s \<and>
       (r = rule_no_workloads_on_manager \<and> is_manager n
        \<or> r = rule_storage_array_protection \<and> storage_host g n
        \<or> r = rule_gpu_required_for_media \<and> has_role ''media'' s \<and> \<not> gpu_host g n
        \<or> r = rule_media_anti_affinity \<and> has_role ''media'' s
            \<and> (\<exists>s'. runs_on g n s' \<and> has_role ''media'' s' \<and> before collate s' s)
        \<or> r = rule_arr_stack_anti_affinity \<and> has_role ''arr-stack'' s
            \<and> (\<exists>s'. runs_on g n s' \<and> has_role ''arr-stack'' s' \<and> before collate s' s))" for r
      unfolding breaks_def vio tags roles Bex_def sv by blast
    have ids: "pr_id rule_no_workloads_on_manager = ''no-workloads-on-manager''" "effect_to_severity (pr_effect rule_no_workloads_on_manager) = P0"
      "pr_id rule_storage_array_protection = ''storage-array-protection''" "effect_to_severity (pr_effect rule_storage_array_protection) = P1"
      "pr_id rule_gpu_required_for_media = ''gpu-required-for-media''" "effect_to_severity (pr_effect rule_gpu_required_for_media) = P0"
      "pr_id rule_media_anti_affinity = ''media-anti-affinity''" "effect_to_severity (pr_effect rule_media_anti_affinity) = P0"
      "pr_id rule_arr_stack_anti_affinity = ''arr-stack-anti-affinity''" "effect_to_severity (pr_effect rule_arr_stack_anti_affinity) = P0"
      by (simp_all add: rule_defs)
    have pick: "(\<exists>r. (r = a \<and> A \<or> r = b \<and> B \<or> r = c \<and> C \<or> r = d \<and> D \<or> r = e \<and> E) \<and> i = pr_id r \<and> sev = effect_to_severity (pr_effect r))
      \<longleftrightarrow> i = pr_id a \<and> sev = effect_to_severity (pr_effect a) \<and> A
        \<or> i = pr_id b \<and> sev = effect_to_severity (pr_effect b) \<and> B
        \<or> i = pr_id c \<and> sev = effect_to_severity (pr_effect c) \<and> C
        \<or> i = pr_id d \<and> sev = effect_to_severity (pr_effect d) \<and> D
        \<or> i = pr_id e \<and> sev = effect_to_severity (pr_effect e) \<and> E" for a b c d e A B C D E
      by blast
    have pull: "(\<exists>r. (P \<and> D r) \<and> E r) \<longleftrightarrow> P \<and> (\<exists>r. D r \<and> E r)" for P D E by blast
    show ?thesis unfolding breaks pull pick ids breach_def by (simp only: True simp_thms)
  next
    case False
    then show ?thesis by (auto simp: breach_def runs_on_def is_compute_def)
  qed
  finally show ?thesis .
qed

text \<open>
  C29: A scan of a readable graph that does not change during it reports exactly the breaches of the
  generated policy, read off the entities and edges: a service or container joined to a manager, to a storage
  host, a media service joined to a host without a GPU, and of the media services, and of the arr-stack
  services, joined to one host all but the first in the order of the ids. Each report carries the rule's id
  in its key, the rule's severity and the names of the service and the host. The ids of the entities are
  distinct and \<open>localeCompare\<close> orders them and tells them apart.
\<close>

lemma drift_exact:
  assumes "read_graph (dr_yaml env) f = Inr g" "distinct (map en_id (gr_entities g))"
    and "collates (dr_collate env) (en_id ` set (gr_entities g))"
  shows "(\<exists>ob \<in> set (drift_scan env ts f f). ob_key ob = Some key \<and> ob_severity ob = sev \<and> ob_resource ob = res)
    \<longleftrightarrow> (\<exists>i n s. breach (dr_collate env) g i sev n s
          \<and> key = dr_platform env @ '':policy_drift:rule/'' @ i @ ''/'' @ en_id s
          \<and> res = ''service/'' @ en_name s @ ''@node/'' @ en_name n)"
  unfolding scan_found [OF assms(1)] breaks_breach [OF assms(2,3), symmetric] by blast

lemma violators_empty:
  "(\<forall>s. s \<notin> set (violators collate role 1 vs)) \<longleftrightarrow> length (filter (\<lambda>v. service_role v = role) vs) \<le> 1"
proof -
  have "violators collate role 1 vs = [] \<longleftrightarrow> length (violators collate role 1 vs) = 0" by simp
  also have "\<dots> \<longleftrightarrow> length (filter (\<lambda>v. service_role v = role) vs) \<le> 1"
    using violators_length [of 1 collate role vs] by linarith
  finally show ?thesis by (cases "violators collate role 1 vs") auto
qed

lemma no_breach:
  "(\<forall>r s. \<not> breaks collate r p s) \<longleftrightarrow>
    (\<forall>s \<in> set (pl_services p). ''manager'' \<notin> set (pl_tags p) \<and> ''storage'' \<notin> set (pl_tags p)
        \<and> (service_role s = ''media'' \<longrightarrow> ''gpu'' \<in> set (pl_tags p)))
    \<and> length (filter (\<lambda>s. service_role s = ''media'') (pl_services p)) \<le> 1
    \<and> length (filter (\<lambda>s. service_role s = ''arr-stack'') (pl_services p)) \<le> 1"
proof -
  have "(\<forall>r s. \<not> breaks collate r p s) \<longleftrightarrow>
      (\<forall>s \<in> set (pl_services p). ''manager'' \<notin> set (pl_tags p) \<and> ''storage'' \<notin> set (pl_tags p)
           \<and> (service_role s = ''media'' \<longrightarrow> ''gpu'' \<in> set (pl_tags p)))
       \<and> (\<forall>s. s \<notin> set (violators collate ''media'' 1 (pl_services p)))
       \<and> (\<forall>s. s \<notin> set (violators collate ''arr-stack'' 1 (pl_services p)))"
    using violators_subset [of collate _ 1 "pl_services p"] unfolding breaks_def by blast
  then show ?thesis unfolding violators_empty .
qed

text \<open>
  A scan of a readable graph is silent exactly when the placement conforms: no service beside a
  manager or a storage node, every media service on a node with a GPU, and at most one media and one
  arr-stack service per node.
\<close>

lemma drift_clean_iff:
  assumes "read_graph (dr_yaml env) f = Inr g"
  shows "drift_scan env ts f f = [] \<longleftrightarrow>
    (\<forall>p \<in> set (placements g).
       (\<forall>s \<in> set (pl_services p). ''manager'' \<notin> set (pl_tags p) \<and> ''storage'' \<notin> set (pl_tags p)
           \<and> (service_role s = ''media'' \<longrightarrow> ''gpu'' \<in> set (pl_tags p)))
       \<and> length (filter (\<lambda>s. service_role s = ''media'') (pl_services p)) \<le> 1
       \<and> length (filter (\<lambda>s. service_role s = ''arr-stack'') (pl_services p)) \<le> 1)"
proof -
  let ?vs = "drift_violations (dr_collate env) (generate_policy (topology_of (dr_collate env) ts g)) g"
  have "drift_scan env ts f f = [] \<longleftrightarrow> found ` set ?vs = {}"
    by (simp add: scan_readable [OF assms] enumerate_eq_zip)
  also have "\<dots> \<longleftrightarrow> (\<forall>p \<in> set (placements g). \<forall>r s. \<not> breaks (dr_collate env) r p s)"
    unfolding drift_violations_found by auto
  finally show ?thesis unfolding no_breach .
qed

text \<open>Two observations of one platform with one key are of the same rule and the same service: the key
  does not name the node.\<close>

lemma violation_key_eq:
  assumes "v \<in> set (drift_violations collate (generate_policy t) g)" "w \<in> set (drift_violations collate (generate_policy t) g)"
    and "vi_rule v = vi_rule w" "vi_service v = vi_service w"
  shows "violation_key platform v = violation_key platform w"
  using assms by (simp add: violation_key_def)

text \<open>The rules are not in the order of their ids, and none has the id the file's header lists second.\<close>

lemma rule_ids [simp]:
  "pr_id rule_no_workloads_on_manager = ''no-workloads-on-manager''" "pr_id rule_infra_env_approval = ''infra-env-approval''"
  "pr_id rule_gpu_required_for_media = ''gpu-required-for-media''" "pr_id rule_media_anti_affinity = ''media-anti-affinity''"
  "pr_id rule_arr_stack_anti_affinity = ''arr-stack-anti-affinity''" "pr_id rule_prod_approval = ''prod-approval''"
  "pr_id rule_prod_maintenance_window = ''prod-maintenance-window''" "pr_id rule_blast_radius_cap = ''blast-radius-cap''"
  "pr_id rule_destructiveness_floor = ''destructiveness-floor''"
  "pr_id rule_storage_array_protection = ''storage-array-protection''"
  "pr_id rule_prod_concurrent_deploy_quota = ''prod-concurrent-deploy-quota''"
  by (simp_all add: rule_defs)

lemma rules_not_by_id:
  "\<not> sorted (map pr_id build_invariant_rules)
   \<and> ''manager-accidental-deploy-guard'' \<notin> set (map pr_id (generate_policy t))"
  by (auto simp: generate_policy_def build_invariant_rules_def build_topology_derived_rules_def)

text \<open>The topology trims a service's role, the probe does not: a second media service whose role has a
  space counts as hosted media and breaks no rule.\<close>

definition demo_drift_graph :: "string \<Rightarrow> graph" where
  "demo_drift_graph role =
    \<lparr>gr_entities = [demo_entity ''n'' ''node'' [(''node_role'', JStr ''master'')],
       demo_entity ''s'' ''service'' [(''role'', JStr role)]],
     gr_edges = [demo_edge ''s'' ''n'']\<rparr>"

definition demo_drift_env :: drift_env where
  "demo_drift_env = \<lparr>dr_rt = demo_rt, dr_uuid = (\<lambda>k. ''u''), dr_time = (\<lambda>k. 0), dr_yaml = demo_yaml,
     dr_collate = (\<lambda>a b. if a = b then 0 else if a < b then - 1 else 1), dr_platform = ''homelab''\<rparr>"

lemma demo_drift_read:
  "read_graph demo_yaml (Content (render (graph_json (demo_drift_graph role)))) = Inr (demo_drift_graph role)"
  by (rule demo_file) (simp_all add: demo_drift_graph_def graph_valid_def graph_plain_def entity_valid_def
    entity_plain_def edge_valid_def edge_plain_def demo_entity_def demo_edge_def demo_yaml_def)

lemma demo_placement:
  "placements (demo_drift_graph ''web'') =
     [\<lparr>pl_node = demo_entity ''n'' ''node'' [(''node_role'', JStr ''master'')], pl_tags = [''manager''],
       pl_services = [demo_entity ''s'' ''service'' [(''role'', JStr ''web'')]]\<rparr>]"
  by code_simp

text \<open>A manager with two arr-stack services: both are workloads on a manager, and the second breaks the
  anti-affinity rule.\<close>

definition demo_host :: entity where
  "demo_host = demo_entity ''n'' ''node'' [(''node_role'', JStr ''master'')]"

definition demo_arr :: "string \<Rightarrow> string \<Rightarrow> entity" where
  "demo_arr i k = demo_entity i k [(''role'', JStr ''arr-stack'')]"

definition demo_shared_graph :: graph where
  "demo_shared_graph =
    \<lparr>gr_entities = [demo_host, demo_arr ''t'' ''service'', demo_arr ''s'' ''container''],
     gr_edges = [demo_edge ''t'' ''n'', demo_edge ''n'' ''s'']\<rparr>"

abbreviation demo_shared_file :: graph_file where
  "demo_shared_file \<equiv> Content (render (graph_json demo_shared_graph))"

lemma demo_shared_simps [simp]:
  "en_id demo_host = ''n''" "en_kind demo_host = ''node''" "en_name demo_host = ''n''"
  "en_id (demo_arr i k) = i" "en_kind (demo_arr i k) = k" "en_name (demo_arr i k) = i"
  "has_role r (demo_arr i k) \<longleftrightarrow> r = ''arr-stack''"
  by (auto simp: demo_host_def demo_arr_def demo_entity_def has_role_def)

lemma demo_shared_read: "read_graph (dr_yaml demo_drift_env) demo_shared_file = Inr demo_shared_graph"
  unfolding demo_drift_env_def drift_env.simps
  by (rule demo_file) (simp_all add: demo_shared_graph_def graph_valid_def graph_plain_def entity_valid_def
    entity_plain_def edge_valid_def edge_plain_def demo_host_def demo_arr_def demo_entity_def demo_edge_def demo_yaml_def)

lemma demo_collate: "dr_collate demo_drift_env a b = (if a = b then 0 else if a < b then - 1 else 1)"
  by (simp add: demo_drift_env_def)

lemma demo_shared_ids:
  "distinct (map en_id (gr_entities demo_shared_graph))"
  "collates (dr_collate demo_drift_env) (en_id ` set (gr_entities demo_shared_graph))"
  by (simp_all add: demo_shared_graph_def collates_def demo_collate)

lemma demo_shared_runs:
  "runs_on demo_shared_graph n x \<longleftrightarrow> n = demo_host \<and> (x = demo_arr ''t'' ''service'' \<or> x = demo_arr ''s'' ''container'')"
proof -
  have kind: "n \<in> set (gr_entities demo_shared_graph) \<and> en_kind n \<in> {''node'', ''platform''} \<longleftrightarrow> n = demo_host" for n
    by (auto simp: demo_shared_graph_def)
  have kind': "x \<in> set (gr_entities demo_shared_graph) \<and> en_kind x \<in> {''service'', ''container''}
      \<longleftrightarrow> x = demo_arr ''t'' ''service'' \<or> x = demo_arr ''s'' ''container''" for x
    by (auto simp: demo_shared_graph_def)
  have "joined demo_shared_graph demo_host (demo_arr ''t'' ''service'')"
    "joined demo_shared_graph demo_host (demo_arr ''s'' ''container'')"
    by (simp_all add: joined_def demo_shared_graph_def demo_edge_def)
  then show ?thesis unfolding runs_on_def using kind [of n] kind' [of x] by metis
qed

lemma drift_exact_witness:
  "(\<exists>ob \<in> set (drift_scan demo_drift_env ''t'' demo_shared_file demo_shared_file).
      ob_key ob = Some ''homelab:policy_drift:rule/arr-stack-anti-affinity/t'' \<and> ob_severity ob = P0
      \<and> ob_resource ob = ''service/t@node/n'')
   \<and> \<not> (\<exists>ob \<in> set (drift_scan demo_drift_env ''t'' demo_shared_file demo_shared_file).
      ob_key ob = Some ''homelab:policy_drift:rule/arr-stack-anti-affinity/s'' \<and> ob_severity ob = P0
      \<and> ob_resource ob = ''service/s@node/n'')"
proof (rule conjI)
  note exact = drift_exact [OF demo_shared_read demo_shared_ids]
  have t: "breach (dr_collate demo_drift_env) demo_shared_graph ''arr-stack-anti-affinity'' P0 demo_host (demo_arr ''t'' ''service'')"
    unfolding breach_def demo_shared_runs by (auto simp: demo_collate)
  have platform: "dr_platform demo_drift_env = ''homelab''" by (simp add: demo_drift_env_def)
  show "\<exists>ob \<in> set (drift_scan demo_drift_env ''t'' demo_shared_file demo_shared_file).
      ob_key ob = Some ''homelab:policy_drift:rule/arr-stack-anti-affinity/t'' \<and> ob_severity ob = P0
      \<and> ob_resource ob = ''service/t@node/n''"
    unfolding exact by (rule exI, rule exI, rule exI, rule conjI [OF t]) (simp add: platform)
  have s: "\<not> breach (dr_collate demo_drift_env) demo_shared_graph ''arr-stack-anti-affinity'' P0 n x" if "en_id x = ''s''" for n x
    using that unfolding breach_def demo_shared_runs by (auto simp: demo_collate)
  have ids: "i \<in> {''no-workloads-on-manager'', ''storage-array-protection'', ''gpu-required-for-media'',
      ''media-anti-affinity'', ''arr-stack-anti-affinity''}" if "breach c g i sev n x" for c g i sev n x
    using that unfolding breach_def by (elim disjE conjE) simp_all
  show "\<not> (\<exists>ob \<in> set (drift_scan demo_drift_env ''t'' demo_shared_file demo_shared_file).
      ob_key ob = Some ''homelab:policy_drift:rule/arr-stack-anti-affinity/s'' \<and> ob_severity ob = P0
      \<and> ob_resource ob = ''service/s@node/n'')"
    unfolding exact platform
  proof (intro notI, elim exE conjE)
    fix i n x
    assume br: "breach (dr_collate demo_drift_env) demo_shared_graph i P0 n x"
      and key: "''homelab:policy_drift:rule/arr-stack-anti-affinity/s'' = ''homelab'' @ '':policy_drift:rule/'' @ i @ ''/'' @ en_id x"
    have "i = ''arr-stack-anti-affinity''" "en_id x = ''s''" using ids [OF br] key by auto
    then show False using s br by blast
  qed
qed

lemma drift_clean_iff_witness:
  "drift_scan demo_drift_env ''t'' (Content (render (graph_json (demo_drift_graph ''web''))))
      (Content (render (graph_json (demo_drift_graph ''web'')))) \<noteq> []"
proof -
  have r: "read_graph (dr_yaml demo_drift_env) (Content (render (graph_json (demo_drift_graph ''web'')))) = Inr (demo_drift_graph ''web'')"
    by (simp add: demo_drift_env_def demo_drift_read)
  show ?thesis unfolding drift_clean_iff [OF r] demo_placement by simp
qed

lemma untrimmed_role_missed:
  "(let g = \<lparr>gr_entities = [demo_entity ''n'' ''node'' [(''gpu_count'', JInt 1)],
        demo_entity ''s'' ''service'' [(''role'', JStr ''media'')], demo_entity ''r'' ''service'' [(''role'', JStr ''media '')]],
      gr_edges = [demo_edge ''s'' ''n'', demo_edge ''r'' ''n'']\<rparr> in
    map nf_hosted (to_nodes (topology_of collate ts g)) = [[''media'']]
    \<and> drift_violations collate (generate_policy (topology_of collate ts g)) g = [])"
  by code_simp

end
