(* ===== verification/Inventory.thy ===== *)
theory Inventory
  imports Graph
begin

text \<open>
  The list of discovered platforms (\<open>discovery/inventory-types.ts\<close>, \<open>inventory.ts\<close>) over its YAML
  file and the schema \<open>inventory-v1.json\<close>, its refinement to a map from ids to platforms, and the
  projection of a platform into the graph (\<open>graph-bridge.ts\<close>).
\<close>

section \<open>Platforms\<close>

datatype platform_type =
    PtUnraid | PtProxmoxVe | PtDocker | PtKubernetes | PtDockerSwarm | PtPortainer | PtUnifi | PtTruenas

fun platform_type_str :: "platform_type \<Rightarrow> string" where
  "platform_type_str PtUnraid = ''unraid''"
| "platform_type_str PtProxmoxVe = ''proxmox-ve''"
| "platform_type_str PtDocker = ''docker''"
| "platform_type_str PtKubernetes = ''kubernetes''"
| "platform_type_str PtDockerSwarm = ''docker-swarm''"
| "platform_type_str PtPortainer = ''portainer''"
| "platform_type_str PtUnifi = ''unifi''"
| "platform_type_str PtTruenas = ''truenas''"

definition platform_types :: "platform_type list" where
  "platform_types = [PtUnraid, PtProxmoxVe, PtDocker, PtKubernetes, PtDockerSwarm, PtPortainer, PtUnifi, PtTruenas]"

record platform =
  pf_id :: string
  pf_type :: platform_type
  pf_host :: string
  pf_port :: int
  pf_ssh_host :: "string option"
  pf_ssh_port :: "int option"
  pf_discovered :: string
  pf_seen :: string
  pf_metadata :: "attributes option"
  pf_connection :: "attributes option"

definition platform_json :: "platform \<Rightarrow> jsval" where
  "platform_json p = JObj
    ([(''id'', JStr (pf_id p)), (''type'', JStr (platform_type_str (pf_type p))), (''host'', JStr (pf_host p)),
      (''port'', JInt (pf_port p))]
     @ opt_member ''ssh_host'' (map_option JStr (pf_ssh_host p)) @ opt_member ''ssh_port'' (map_option JInt (pf_ssh_port p))
     @ [(''discovered_at'', JStr (pf_discovered p)), (''last_seen'', JStr (pf_seen p))]
     @ opt_member ''metadata'' (map_option JObj (pf_metadata p)) @ opt_member ''connection'' (map_option JObj (pf_connection p)))"

definition inventory_json :: "platform list \<Rightarrow> jsval" where
  "inventory_json ps = JObj [(''version'', JStr ''1.0''), (''platforms'', JArr (map platform_json ps))]"

section \<open>The schema\<close>

text \<open>\<open>^[a-z0-9][a-z0-9-]{0,62}$\<close>, a port, and the open object \<open>connection\<close>.\<close>

definition id_pattern :: "string \<Rightarrow> bool" where
  "id_pattern s \<longleftrightarrow> (case s of [] \<Rightarrow> False | c # cs \<Rightarrow>
     (is_lower c \<or> is_digit c) \<and> length cs \<le> 62 \<and> list_all (\<lambda>d. is_lower d \<or> is_digit d \<or> d = CHR ''-'') cs)"

definition is_port :: "jsval \<Rightarrow> bool" where
  "is_port v \<longleftrightarrow> (case v of JNum (Fin n) \<Rightarrow> 1 \<le> n \<and> n \<le> 65535 | _ \<Rightarrow> False)"

definition connection_schema :: "jsval \<Rightarrow> bool" where
  "connection_schema v \<longleftrightarrow> (case v of
     JObj o1 \<Rightarrow> optional ''ssh_cert_path'' (is_str (\<lambda>_. True)) o1
       \<and> optional ''mcp_endpoint'' (\<lambda>x. x = JNull \<or> is_str (\<lambda>_. True) x) o1
   | _ \<Rightarrow> False)"

definition platform_schema :: "yaml \<Rightarrow> jsval \<Rightarrow> bool" where
  "platform_schema ya v \<longleftrightarrow> (case v of
     JObj o1 \<Rightarrow> closed [''id'', ''type'', ''host'', ''port'', ''ssh_host'', ''ssh_port'', ''discovered_at'', ''last_seen'',
         ''metadata'', ''connection''] o1
       \<and> req ''id'' (is_str id_pattern) o1 \<and> req ''type'' (is_str (\<lambda>s. s \<in> platform_type_str ` set platform_types)) o1
       \<and> req ''host'' (is_str (\<lambda>_. True)) o1 \<and> req ''port'' is_port o1
       \<and> optional ''ssh_host'' (is_str (\<lambda>_. True)) o1 \<and> optional ''ssh_port'' is_port o1
       \<and> req ''discovered_at'' (is_str (ya_date_time ya)) o1 \<and> req ''last_seen'' (is_str (ya_date_time ya)) o1
       \<and> optional ''metadata'' is_object o1 \<and> optional ''connection'' connection_schema o1
   | _ \<Rightarrow> False)"

definition inventory_schema :: "yaml \<Rightarrow> jsval \<Rightarrow> bool" where
  "inventory_schema ya v \<longleftrightarrow> (case v of
     JObj o1 \<Rightarrow> closed [''version'', ''platforms''] o1 \<and> req ''version'' (\<lambda>x. x = JStr ''1.0'') o1
       \<and> req ''platforms'' (is_array (platform_schema ya)) o1
   | _ \<Rightarrow> False)"

text \<open>\<open>parsed as InventoryFile\<close>.\<close>

definition int_of :: "jsval option \<Rightarrow> int" where
  "int_of v = (case v of Some (JNum (Fin n)) \<Rightarrow> n | _ \<Rightarrow> 0)"

definition opt_int :: "jsval option \<Rightarrow> int option" where
  "opt_int v = (case v of Some (JNum (Fin n)) \<Rightarrow> Some n | _ \<Rightarrow> None)"

definition type_of_str :: "string \<Rightarrow> platform_type" where
  "type_of_str s = (case find (\<lambda>t. platform_type_str t = s) platform_types of Some t \<Rightarrow> t | None \<Rightarrow> PtUnraid)"

definition as_platform :: "jsval \<Rightarrow> platform" where
  "as_platform v = (let get = jm_get (members_of v) in
    \<lparr>pf_id = str_of (get ''id''), pf_type = type_of_str (str_of (get ''type'')), pf_host = str_of (get ''host''),
     pf_port = int_of (get ''port''), pf_ssh_host = opt_str (get ''ssh_host''), pf_ssh_port = opt_int (get ''ssh_port''),
     pf_discovered = str_of (get ''discovered_at''), pf_seen = str_of (get ''last_seen''),
     pf_metadata = opt_members (get ''metadata''), pf_connection = opt_members (get ''connection'')\<rparr>)"

definition as_inventory :: "jsval \<Rightarrow> platform list" where
  "as_inventory v = map as_platform (elements_of (jm_get (members_of v) ''platforms''))"

definition port_ok :: "int \<Rightarrow> bool" where
  "port_ok n \<longleftrightarrow> 1 \<le> n \<and> n \<le> 65535"

definition platform_valid :: "yaml \<Rightarrow> platform \<Rightarrow> bool" where
  "platform_valid ya p \<longleftrightarrow> id_pattern (pf_id p) \<and> port_ok (pf_port p) \<and> pred_option port_ok (pf_ssh_port p)
     \<and> ya_date_time ya (pf_discovered p) \<and> ya_date_time ya (pf_seen p)
     \<and> pred_option (\<lambda>c. connection_schema (JObj c)) (pf_connection p)"

definition platform_plain :: "platform \<Rightarrow> bool" where
  "platform_plain p \<longleftrightarrow> pred_option (list_all (\<lambda>kv. is_json (snd kv))) (pf_metadata p)
     \<and> pred_option (list_all (\<lambda>kv. is_json (snd kv))) (pf_connection p)"

lemma type_of_str_str [simp]: "type_of_str (platform_type_str t) = t" "platform_type_str t \<in> platform_type_str ` set platform_types"
  by (cases t; simp add: type_of_str_def platform_types_def)+

lemma platform_schema_json: "platform_schema ya (platform_json p) \<longleftrightarrow> platform_valid ya p"
  using type_of_str_str(2) [of "pf_type p"]
  by (cases "pf_ssh_host p"; cases "pf_ssh_port p"; cases "pf_metadata p"; cases "pf_connection p")
    (simp_all add: platform_schema_def platform_json_def platform_valid_def schema_simps is_port_def port_ok_def
      connection_schema_def)

lemma inventory_schema_json: "inventory_schema ya (inventory_json ps) \<longleftrightarrow> list_all (platform_valid ya) ps"
  by (simp add: inventory_schema_def inventory_json_def schema_simps list.pred_map comp_def platform_schema_json)

lemma as_platform_json [simp]: "as_platform (platform_json p) = p"
  by (cases "pf_ssh_host p"; cases "pf_ssh_port p"; cases "pf_metadata p"; cases "pf_connection p"; cases p)
    (simp_all add: as_platform_def platform_json_def Let_def schema_simps int_of_def opt_int_def)

lemma as_inventory_json [simp]: "as_inventory (inventory_json ps) = ps"
  by (simp add: as_inventory_def inventory_json_def schema_simps comp_def)

lemma is_json_platform: "is_json (platform_json p) \<longleftrightarrow> platform_plain p"
  by (cases "pf_ssh_host p"; cases "pf_ssh_port p"; cases "pf_metadata p"; cases "pf_connection p")
    (auto simp: platform_json_def platform_plain_def opt_member_def all_json_members_iff list_all_iff)

lemma is_json_inventory: "is_json (inventory_json ps) \<longleftrightarrow> list_all platform_plain ps"
  by (simp add: inventory_json_def all_json_iff list_all_iff is_json_platform)

section \<open>The manager\<close>

type_synonym inventory_file = "string disk_file"

definition read_inventory :: "yaml \<Rightarrow> inventory_file \<Rightarrow> platform list res" where
  "read_inventory ya f =
    (case f of
       Absent \<Rightarrow> Inr []
     | Unreadable e \<Rightarrow> Inl (IoError e)
     | Content raw \<Rightarrow>
         (case ya_load ya raw of
            Inl m \<Rightarrow> Inl (InventoryError ''INVALID_INVENTORY'' (''failed to parse inventory YAML: '' @ m))
          | Inr v \<Rightarrow>
              if v = JNull \<or> v = JUndef then Inr []
              else if \<not> inventory_schema ya v
              then Inl (InventoryError ''INVALID_INVENTORY'' (''inventory failed schema validation: '' @ ya_errors ya v))
              else Inr (as_inventory v)))"

definition write_inventory :: "yaml \<Rightarrow> bool \<Rightarrow> platform list \<Rightarrow> inventory_file \<Rightarrow> inventory_file \<times> unit res" where
  "write_inventory ya write_ok ps f =
    (if \<not> inventory_schema ya (inventory_json ps)
     then (f, Inl (InventoryError ''INVALID_INVENTORY''
       (''refusing to write invalid inventory: '' @ ya_errors ya (inventory_json ps))))
     else (case ya_dump ya (inventory_json ps) of
         Inl m \<Rightarrow> (f, Inl (Error m))
       | Inr t \<Rightarrow> if write_ok then (Content t, Inr ()) else (f, Inl (IoError ''EIO''))))"

text \<open>The given platform, whose two times default to the current one.\<close>

definition add_platform ::
  "yaml \<Rightarrow> bool \<Rightarrow> string \<Rightarrow> platform \<Rightarrow> string option \<Rightarrow> string option \<Rightarrow> inventory_file
   \<Rightarrow> inventory_file \<times> unit res" where
  "add_platform ya write_ok ts input discovered seen f =
    (case read_inventory ya f of
       Inl e \<Rightarrow> (f, Inl e)
     | Inr ps \<Rightarrow>
         if list_ex (\<lambda>p. pf_id p = pf_id input) ps
         then (f, Inl (InventoryError ''DUPLICATE_ID'' (''platform id already exists: '' @ pf_id input)))
         else write_inventory ya write_ok
           (ps @ [input\<lparr>pf_discovered := (case discovered of Some d \<Rightarrow> d | None \<Rightarrow> ts),
              pf_seen := (case seen of Some s \<Rightarrow> s | None \<Rightarrow> ts)\<rparr>]) f)"

record platform_update =
  up_type :: "platform_type option"
  up_host :: "string option"
  up_port :: "int option"
  up_ssh_host :: "string option"
  up_ssh_port :: "int option"
  up_discovered :: "string option"
  up_seen :: "string option"
  up_metadata :: "attributes option"
  up_connection :: "attributes option"

definition over :: "'a option \<Rightarrow> 'a \<Rightarrow> 'a" where
  "over new old = (case new of Some x \<Rightarrow> x | None \<Rightarrow> old)"

definition over_opt :: "'a option \<Rightarrow> 'a option \<Rightarrow> 'a option" where
  "over_opt new old = (case new of Some x \<Rightarrow> Some x | None \<Rightarrow> old)"

definition merge_platform :: "string \<Rightarrow> platform \<Rightarrow> platform_update \<Rightarrow> platform" where
  "merge_platform ts p u =
    \<lparr>pf_id = pf_id p, pf_type = over (up_type u) (pf_type p), pf_host = over (up_host u) (pf_host p),
     pf_port = over (up_port u) (pf_port p), pf_ssh_host = over_opt (up_ssh_host u) (pf_ssh_host p),
     pf_ssh_port = over_opt (up_ssh_port u) (pf_ssh_port p),
     pf_discovered = over (up_discovered u) (pf_discovered p), pf_seen = over (up_seen u) ts,
     pf_metadata = over_opt (up_metadata u) (pf_metadata p), pf_connection = over_opt (up_connection u) (pf_connection p)\<rparr>"

text \<open>\<open>findIndex\<close> and the assignment at the index.\<close>

fun replace_first :: "string \<Rightarrow> platform \<Rightarrow> platform list \<Rightarrow> platform list" where
  "replace_first i q [] = []"
| "replace_first i q (p # ps) = (if pf_id p = i then q # ps else p # replace_first i q ps)"

definition update_platform ::
  "yaml \<Rightarrow> bool \<Rightarrow> string \<Rightarrow> string \<Rightarrow> platform_update \<Rightarrow> inventory_file \<Rightarrow> inventory_file \<times> platform res" where
  "update_platform ya write_ok ts i u f =
    (case read_inventory ya f of
       Inl e \<Rightarrow> (f, Inl e)
     | Inr ps \<Rightarrow>
         (case find (\<lambda>p. pf_id p = i) ps of
            None \<Rightarrow> (f, Inl (InventoryError ''NOT_FOUND'' (''platform not found: '' @ i)))
          | Some existing \<Rightarrow>
              let merged = merge_platform ts existing u in
              (case write_inventory ya write_ok (replace_first i merged ps) f of
                 (f1, Inl e) \<Rightarrow> (f1, Inl e)
               | (f1, Inr _) \<Rightarrow> (f1, Inr merged))))"

definition get_platform :: "yaml \<Rightarrow> string \<Rightarrow> inventory_file \<Rightarrow> platform option res" where
  "get_platform ya i f = rbind (read_inventory ya f) (\<lambda>ps. Inr (find (\<lambda>p. pf_id p = i) ps))"

definition list_platforms :: "yaml \<Rightarrow> platform_type option \<Rightarrow> inventory_file \<Rightarrow> platform list res" where
  "list_platforms ya ty f =
    rbind (read_inventory ya f) (\<lambda>ps. Inr (case ty of None \<Rightarrow> ps | Some t \<Rightarrow> filter (\<lambda>p. pf_type p = t) ps))"

fun remove_first :: "string \<Rightarrow> platform list \<Rightarrow> platform list" where
  "remove_first i [] = []"
| "remove_first i (p # ps) = (if pf_id p = i then ps else p # remove_first i ps)"

definition remove_platform :: "yaml \<Rightarrow> bool \<Rightarrow> string \<Rightarrow> inventory_file \<Rightarrow> inventory_file \<times> unit res" where
  "remove_platform ya write_ok i f =
    (case read_inventory ya f of
       Inl e \<Rightarrow> (f, Inl e)
     | Inr ps \<Rightarrow>
         if list_ex (\<lambda>p. pf_id p = i) ps then write_inventory ya write_ok (remove_first i ps) f else (f, Inr ()))"

section \<open>The projection into the graph\<close>

definition platform_to_entities :: "platform \<Rightarrow> entity \<times> entity \<times> edge" where
  "platform_to_entities p =
    (let pid = ''platform:'' @ pf_id p; nid = ''node:'' @ pf_host p;
         ssh = opt_member ''ssh_host'' (map_option JStr (pf_ssh_host p)) @ opt_member ''ssh_port'' (map_option JInt (pf_ssh_port p)) in
     (\<lparr>en_id = pid, en_kind = ''platform'', en_name = pf_id p,
       en_attrs = [(''type'', JStr (platform_type_str (pf_type p))), (''host'', JStr (pf_host p)), (''port'', JInt (pf_port p))]
         @ ssh @ opt_member ''metadata'' (map_option JObj (pf_metadata p))
         @ opt_member ''connection'' (map_option JObj (pf_connection p)),
       en_source = ''inventory-manager'', en_platform = Some (pf_id p), en_discovered = pf_discovered p,
       en_seen = pf_seen p, en_status = Active\<rparr>,
      \<lparr>en_id = nid, en_kind = ''node'', en_name = pf_host p, en_attrs = (''host'', JStr (pf_host p)) # ssh,
       en_source = ''inventory-manager'', en_platform = None, en_discovered = pf_discovered p, en_seen = pf_seen p,
       en_status = Active\<rparr>,
      \<lparr>ed_id = ''runs-on:'' @ pf_id p, ed_from = pid, ed_to = nid, ed_type = ''runs-on'', ed_attrs = None,
       ed_discovered = pf_discovered p, ed_seen = pf_seen p, ed_status = Active\<rparr>))"
section \<open>The manager refines a map from ids to platforms\<close>

lemma write_inventory_result:
  assumes "yaml_ok ya" "list_all platform_plain ps" "write_inventory ya ok ps f = (f', r)"
  shows "(case r of Inl e \<Rightarrow> f' = f | Inr _ \<Rightarrow> read_inventory ya f' = Inr ps)"
    and "r = Inr () \<longleftrightarrow> list_all (platform_valid ya) ps \<and> dumps ya (inventory_json ps) \<and> ok"
proof -
  have load: "ya_dump ya (inventory_json ps) = Inr t \<Longrightarrow> ya_load ya t = Inr (inventory_json ps)" for t
    using assms(1,2) is_json_inventory unfolding yaml_ok_def by blast
  have "inventory_json ps \<noteq> JNull" "inventory_json ps \<noteq> JUndef" by (simp_all add: inventory_json_def)
  then show "case r of Inl e \<Rightarrow> f' = f | Inr _ \<Rightarrow> read_inventory ya f' = Inr ps"
    using assms(3) load by (auto simp: write_inventory_def read_inventory_def split: if_splits sum.splits)
  show "r = Inr () \<longleftrightarrow> list_all (platform_valid ya) ps \<and> dumps ya (inventory_json ps) \<and> ok"
    using assms(3) by (auto simp: write_inventory_def dumps_def inventory_schema_json split: if_splits sum.splits)
qed

definition inventory_map :: "platform list \<Rightarrow> string \<Rightarrow> platform option" where
  "inventory_map ps = map_of (map (\<lambda>p. (pf_id p, p)) ps)"

lemma find_platform [simp]: "find (\<lambda>p. pf_id p = i) ps = inventory_map ps i"
  by (induction ps) (auto simp: inventory_map_def)

lemma inventory_map_None: "inventory_map ps i = None \<longleftrightarrow> i \<notin> pf_id ` set ps"
  by (induction ps) (auto simp: inventory_map_def)

lemma list_ex_platform [simp]: "list_ex (\<lambda>p. pf_id p = i) ps \<longleftrightarrow> inventory_map ps i \<noteq> None"
  by (induction ps) (auto simp: inventory_map_def)

lemma inventory_map_Some: "inventory_map ps i = Some p \<Longrightarrow> p \<in> set ps \<and> pf_id p = i"
  by (induction ps) (auto simp: inventory_map_def split: if_splits)

lemma inventory_map_snoc: "inventory_map ps (pf_id p) = None \<Longrightarrow> inventory_map (ps @ [p]) = (inventory_map ps)(pf_id p \<mapsto> p)"
  by (induction ps) (auto simp: inventory_map_def fun_eq_iff split: if_splits)

lemma inventory_map_replace:
  "inventory_map ps i \<noteq> None \<Longrightarrow> pf_id q = i \<Longrightarrow> inventory_map (replace_first i q ps) = (inventory_map ps)(i \<mapsto> q)"
  by (induction ps) (auto simp: inventory_map_def fun_eq_iff split: if_splits)

lemma inventory_map_remove: "distinct (map pf_id ps) \<Longrightarrow> inventory_map (remove_first i ps) = (inventory_map ps)(i := None)"
proof (induction ps)
  case (Cons p ps)
  have "pf_id p = i \<Longrightarrow> inventory_map ps i = None" using Cons.prems by (auto simp: inventory_map_None)
  then show ?case using Cons by (auto simp: inventory_map_def fun_eq_iff split: if_splits)
qed (simp add: inventory_map_def)

lemma replace_ids: "pf_id q = i \<Longrightarrow> map pf_id (replace_first i q ps) = map pf_id ps"
  by (induction ps) auto

lemma replace_members: "set (replace_first i q ps) \<subseteq> insert q (set ps)"
  by (induction ps) auto

lemma remove_members: "set (remove_first i ps) \<subseteq> set ps"
  by (induction ps) auto

lemma remove_distinct: "distinct (map pf_id ps) \<Longrightarrow> distinct (map pf_id (remove_first i ps))"
  using remove_members by (induction ps) force+

definition inventory_good :: "yaml \<Rightarrow> platform list \<Rightarrow> bool" where
  "inventory_good ya ps \<longleftrightarrow> distinct (map pf_id ps) \<and> list_all platform_plain ps \<and> list_all (platform_valid ya) ps"

lemma good_remove: "inventory_good ya ps \<Longrightarrow> inventory_good ya (remove_first i ps)"
  using remove_members [of i ps] by (auto simp: inventory_good_def remove_distinct list_all_iff)

text \<open>One operation with its time and whether its write reaches the disk. An answer names the code of a
  refusal; a listing is compared as a set.\<close>

datatype inventory_op =
    AddPlatform string bool platform "string option" "string option"
  | UpdatePlatform string bool string platform_update
  | RemovePlatform bool string
  | GetPlatform string
  | ListPlatforms "platform_type option"

datatype inventory_answer =
    Done | Got "platform option" | Updated platform | Listed "platform set" | Refused string

fun error_code :: "error \<Rightarrow> string" where
  "error_code (InventoryError c m) = c"
| "error_code (IoError c) = c"
| "error_code e = error_message e"

definition stamped :: "string \<Rightarrow> platform \<Rightarrow> string option \<Rightarrow> string option \<Rightarrow> platform" where
  "stamped ts p d s = p\<lparr>pf_discovered := over d ts, pf_seen := over s ts\<rparr>"

fun inventory_step :: "yaml \<Rightarrow> inventory_op \<Rightarrow> inventory_file \<Rightarrow> inventory_file \<times> inventory_answer" where
  "inventory_step ya (AddPlatform ts w p d s) f =
     (case add_platform ya w ts p d s f of (f1, Inl e) \<Rightarrow> (f1, Refused (error_code e)) | (f1, Inr _) \<Rightarrow> (f1, Done))"
| "inventory_step ya (UpdatePlatform ts w i u) f =
     (case update_platform ya w ts i u f of (f1, Inl e) \<Rightarrow> (f1, Refused (error_code e)) | (f1, Inr p) \<Rightarrow> (f1, Updated p))"
| "inventory_step ya (RemovePlatform w i) f =
     (case remove_platform ya w i f of (f1, Inl e) \<Rightarrow> (f1, Refused (error_code e)) | (f1, Inr _) \<Rightarrow> (f1, Done))"
| "inventory_step ya (GetPlatform i) f =
     (f, case get_platform ya i f of Inl e \<Rightarrow> Refused (error_code e) | Inr p \<Rightarrow> Got p)"
| "inventory_step ya (ListPlatforms ty) f =
     (f, case list_platforms ya ty f of Inl e \<Rightarrow> Refused (error_code e) | Inr ps \<Rightarrow> Listed (set ps))"

text \<open>
  The specification: a partial map. A platform that does not fit the schema is refused and changes
  nothing, and so does a write that fails.
\<close>

definition guarded :: "bool \<Rightarrow> bool \<Rightarrow> 'm \<times> inventory_answer \<Rightarrow> 'm \<Rightarrow> 'm \<times> inventory_answer" where
  "guarded valid w new m =
    (if \<not> valid then (m, Refused ''INVALID_INVENTORY'') else if \<not> w then (m, Refused ''EIO'') else new)"

fun inventory_spec ::
  "yaml \<Rightarrow> inventory_op \<Rightarrow> (string \<Rightarrow> platform option) \<Rightarrow> (string \<Rightarrow> platform option) \<times> inventory_answer" where
  "inventory_spec ya (AddPlatform ts w p d s) m =
     (if m (pf_id p) \<noteq> None then (m, Refused ''DUPLICATE_ID'')
      else guarded (platform_valid ya (stamped ts p d s)) w (m(pf_id p \<mapsto> stamped ts p d s), Done) m)"
| "inventory_spec ya (UpdatePlatform ts w i u) m =
     (case m i of
        None \<Rightarrow> (m, Refused ''NOT_FOUND'')
      | Some p \<Rightarrow> guarded (platform_valid ya (merge_platform ts p u)) w
          (m(i \<mapsto> merge_platform ts p u), Updated (merge_platform ts p u)) m)"
| "inventory_spec ya (RemovePlatform w i) m =
     (if m i = None then (m, Done) else guarded True w (m(i := None), Done) m)"
| "inventory_spec ya (GetPlatform i) m = (m, Got (m i))"
| "inventory_spec ya (ListPlatforms ty) m =
     (m, Listed {p. m (pf_id p) = Some p \<and> (case ty of None \<Rightarrow> True | Some t \<Rightarrow> pf_type p = t)})"

definition platforms_in :: "yaml \<Rightarrow> inventory_file \<Rightarrow> platform list" where
  "platforms_in ya f = (case read_inventory ya f of Inr ps \<Rightarrow> ps | Inl _ \<Rightarrow> [])"

definition inventory_ok :: "yaml \<Rightarrow> inventory_file \<Rightarrow> bool" where
  "inventory_ok ya f \<longleftrightarrow> yaml_ok ya \<and> (\<forall>v. is_json v \<longrightarrow> dumps ya v)
     \<and> (\<exists>ps. read_inventory ya f = Inr ps \<and> inventory_good ya ps)"

text \<open>The metadata and the connection a caller passes are data: no \<open>undefined\<close>, no \<open>NaN\<close>.\<close>

fun inventory_allowed :: "inventory_op \<Rightarrow> inventory_file \<Rightarrow> bool" where
  "inventory_allowed (AddPlatform ts w p d s) f = platform_plain p"
| "inventory_allowed (UpdatePlatform ts w i u) f =
     (pred_option (list_all (\<lambda>kv. is_json (snd kv))) (up_metadata u)
      \<and> pred_option (list_all (\<lambda>kv. is_json (snd kv))) (up_connection u))"
| "inventory_allowed _ f = True"

lemma merged_plain:
  assumes "inventory_allowed (UpdatePlatform ts w i u) f" "platform_plain p"
  shows "platform_plain (merge_platform ts p u)"
  using assms by (auto simp: platform_plain_def merge_platform_def over_opt_def split: option.splits)

text \<open>A write of platforms without duplicates: taken if they are valid and the disk works, refused otherwise.\<close>

lemma write_guarded:
  assumes "inventory_ok ya f" "distinct (map pf_id qs)" "list_all platform_plain qs"
    and "write_inventory ya w qs f = (f1, r)"
  obtains (taken) "list_all (platform_valid ya) qs" w "r = Inr ()" "inventory_ok ya f1" "platforms_in ya f1 = qs"
    | (invalid) m where "\<not> list_all (platform_valid ya) qs" "f1 = f" "r = Inl (InventoryError ''INVALID_INVENTORY'' m)"
    | (disk) "list_all (platform_valid ya) qs" "\<not> w" "f1 = f" "r = Inl (IoError ''EIO'')"
proof -
  have ok: "yaml_ok ya" "\<forall>v. is_json v \<longrightarrow> dumps ya v" using assms(1) by (auto simp: inventory_ok_def)
  have "dumps ya (inventory_json qs)" using ok(2) is_json_inventory assms(3) by blast
  then obtain t where t: "ya_dump ya (inventory_json qs) = Inr t" by (auto simp: dumps_def split: sum.splits)
  note res = write_inventory_result [OF ok(1) assms(3,4)]
  consider "\<not> list_all (platform_valid ya) qs" | "list_all (platform_valid ya) qs" w | "list_all (platform_valid ya) qs" "\<not> w"
    by blast
  then show thesis
  proof cases
    case 1
    then have "f1 = f" "r = Inl (InventoryError ''INVALID_INVENTORY'' (''refusing to write invalid inventory: '' @ ya_errors ya (inventory_json qs)))"
      using assms(4) by (simp_all add: write_inventory_def inventory_schema_json)
    with 1 show thesis by (rule invalid)
  next
    case 2
    then have "r = Inr ()" using res(2) \<open>dumps ya (inventory_json qs)\<close> by simp
    moreover from this have "read_inventory ya f1 = Inr qs" using res(1) by simp
    ultimately show thesis
      using taken 2 ok assms(2,3) by (auto simp: inventory_ok_def inventory_good_def platforms_in_def)
  next
    case 3
    then have "f1 = f" "r = Inl (IoError ''EIO'')" using assms(4) t by (simp_all add: write_inventory_def inventory_schema_json)
    with 3 show thesis by (rule disk)
  qed
qed

lemma inventory_members: "distinct (map pf_id ps) \<Longrightarrow> p \<in> set ps \<longleftrightarrow> inventory_map ps (pf_id p) = Some p"
  using inventory_map_Some [of ps "pf_id p" p]
  by (auto simp: inventory_map_def distinct_map comp_def intro!: map_of_is_SomeI)

lemma add_refines:
  assumes ok: "inventory_ok ya f" and ps: "read_inventory ya f = Inr ps" "inventory_good ya ps" "platform_plain p"
    and st: "inventory_step ya (AddPlatform ts w p d s) f = (f', a)"
  shows "inventory_ok ya f' \<and> inventory_spec ya (AddPlatform ts w p d s) (inventory_map ps) = (inventory_map (platforms_in ya f'), a)"
proof (cases "inventory_map ps (pf_id p)")
  case None
  let ?q = "stamped ts p d s" and ?qs = "ps @ [stamped ts p d s]"
  have id: "pf_id ?q = pf_id p" by (simp add: stamped_def)
  have here: "platforms_in ya f = ps" using ps by (simp add: platforms_in_def)
  have good: "distinct (map pf_id ?qs)" "list_all platform_plain ?qs"
    using None id ps by (auto simp: inventory_good_def inventory_map_None stamped_def platform_plain_def)
  have valid: "list_all (platform_valid ya) ?qs \<longleftrightarrow> platform_valid ya ?q" using ps(2) by (simp add: inventory_good_def)
  obtain f1 r where w: "write_inventory ya w ?qs f = (f1, r)" by fastforce
  have st': "f' = f1" "a = (case r of Inl e \<Rightarrow> Refused (error_code e) | Inr _ \<Rightarrow> Done)"
    using st None ps(1) w by (auto simp: add_platform_def stamped_def over_def split: sum.splits)
  from ok good w show ?thesis
    by (cases rule: write_guarded)
       (use st' None id valid ok here inventory_map_snoc [of ps ?q] in \<open>auto simp: guarded_def\<close>)
next
  case (Some q)
  then show ?thesis using st ps ok by (simp add: add_platform_def platforms_in_def)
qed

lemma update_refines:
  assumes ok: "inventory_ok ya f" and ps: "read_inventory ya f = Inr ps" "inventory_good ya ps"
    and al: "inventory_allowed (UpdatePlatform ts w i u) f"
    and st: "inventory_step ya (UpdatePlatform ts w i u) f = (f', a)"
  shows "inventory_ok ya f' \<and> inventory_spec ya (UpdatePlatform ts w i u) (inventory_map ps) = (inventory_map (platforms_in ya f'), a)"
proof (cases "inventory_map ps i")
  case None
  then show ?thesis using st ps ok by (simp add: update_platform_def platforms_in_def)
next
  case (Some p)
  let ?q = "merge_platform ts p u" and ?qs = "replace_first i (merge_platform ts p u) ps"
  have id: "pf_id ?q = i" using inventory_map_Some [OF Some] by (simp add: merge_platform_def)
  have here: "platforms_in ya f = ps" using ps by (simp add: platforms_in_def)
  have p: "p \<in> set ps" using inventory_map_Some [OF Some] by simp
  then have "platform_plain ?q" using merged_plain [OF al] ps(2) by (auto simp: inventory_good_def list_all_iff)
  then have good: "distinct (map pf_id ?qs)" "list_all platform_plain ?qs"
    using ps(2) id replace_members [of i ?q ps] by (auto simp: inventory_good_def replace_ids list_all_iff)
  have "?q \<in> set ?qs" using p id inventory_map_Some [OF Some] by (induction ps) auto
  then have valid: "list_all (platform_valid ya) ?qs \<longleftrightarrow> platform_valid ya ?q"
    using ps(2) replace_members [of i ?q ps] by (auto simp: inventory_good_def list_all_iff)
  obtain f1 r where w: "write_inventory ya w ?qs f = (f1, r)" by fastforce
  have st': "f' = f1" "a = (case r of Inl e \<Rightarrow> Refused (error_code e) | Inr _ \<Rightarrow> Updated ?q)"
    using st Some ps(1) w by (auto simp: update_platform_def Let_def split: sum.splits)
  from ok good w show ?thesis
    by (cases rule: write_guarded)
       (use st' Some id valid ok here inventory_map_replace [of ps i ?q] in \<open>simp_all add: guarded_def\<close>)
qed

lemma remove_refines:
  assumes ok: "inventory_ok ya f" and ps: "read_inventory ya f = Inr ps" "inventory_good ya ps"
    and st: "inventory_step ya (RemovePlatform w i) f = (f', a)"
  shows "inventory_ok ya f' \<and> inventory_spec ya (RemovePlatform w i) (inventory_map ps) = (inventory_map (platforms_in ya f'), a)"
proof (cases "inventory_map ps i")
  case None
  then show ?thesis using st ps ok by (simp add: remove_platform_def platforms_in_def)
next
  case (Some p)
  have here: "platforms_in ya f = ps" using ps by (simp add: platforms_in_def)
  obtain f1 r where w: "write_inventory ya w (remove_first i ps) f = (f1, r)" by fastforce
  have good: "distinct (map pf_id (remove_first i ps))" "list_all platform_plain (remove_first i ps)"
      "list_all (platform_valid ya) (remove_first i ps)"
    using good_remove [OF ps(2)] by (simp_all add: inventory_good_def)
  have st': "f' = f1" "a = (case r of Inl e \<Rightarrow> Refused (error_code e) | Inr _ \<Rightarrow> Done)"
    using st Some ps(1) w by (auto simp: remove_platform_def split: sum.splits)
  from ok good(1,2) w show ?thesis
    by (cases rule: write_guarded)
       (use st' Some ok here good(3) ps(2) inventory_map_remove [of ps i] in \<open>simp_all add: guarded_def inventory_good_def\<close>)
qed

lemma inventory_step_refines:
  assumes ok: "inventory_ok ya f" and al: "inventory_allowed x f" and st: "inventory_step ya x f = (f', a)"
  shows "inventory_ok ya f' \<and> inventory_spec ya x (inventory_map (platforms_in ya f)) = (inventory_map (platforms_in ya f'), a)"
proof -
  obtain ps where ps: "read_inventory ya f = Inr ps" "inventory_good ya ps" using ok by (auto simp: inventory_ok_def)
  have here: "platforms_in ya f = ps" using ps by (simp add: platforms_in_def)
  show ?thesis
  proof (cases x)
    case (AddPlatform ts w p d s)
    then show ?thesis using add_refines [OF ok ps] al st here by simp
  next
    case (UpdatePlatform ts w i u)
    then show ?thesis using update_refines [OF ok ps] al st here by metis
  next
    case (RemovePlatform w i)
    then show ?thesis using remove_refines [OF ok ps] st here by metis
  next
    case (GetPlatform i)
    then show ?thesis using st ps(1) here ok by (simp add: get_platform_def)
  next
    case (ListPlatforms ty)
    then have "f' = f" "a = Listed (set (case ty of None \<Rightarrow> ps | Some t \<Rightarrow> filter (\<lambda>p. pf_type p = t) ps))"
      using st ps(1) by (auto simp: list_platforms_def)
    moreover have "p \<in> set ps \<longleftrightarrow> inventory_map ps (pf_id p) = Some p" for p
      using ps(2) by (simp add: inventory_members inventory_good_def)
    ultimately show ?thesis using ListPlatforms here ok by (auto split: option.split)
  qed
qed

interpretation inventory: refined_machine "inventory_step ya" "inventory_spec ya" "inventory_ok ya"
  "\<lambda>f. inventory_map (platforms_in ya f)" inventory_allowed for ya
  by unfold_locales (use inventory_step_refines in blast)+

text \<open>
  C30: Any run of additions, updates, removals, lookups and listings of plain data, one after another and
  with writes that may fail, answers exactly like a map from ids to platforms. An addition of a known id,
  an update of an unknown one, a platform that would not fit the schema and a failing write are refused
  and change nothing; an update merges and never changes the id; and the file stays readable, valid and
  without duplicate ids. The YAML library is assumed to load what it dumped and to dump plain data.
\<close>

lemma inventory_refines_map:
  assumes "inventory_ok ya f" "run_allowed (inventory_step ya) inventory_allowed xs f"
    and "run_out (inventory_step ya) xs f = (f', answers)"
  shows "inventory_ok ya f'
    \<and> run_out (inventory_spec ya) xs (inventory_map (platforms_in ya f)) = (inventory_map (platforms_in ya f'), answers)"
  using inventory.run_refines [OF assms] .

definition demo_platform :: platform where
  "demo_platform = \<lparr>pf_id = ''nas-1'', pf_type = PtUnraid, pf_host = ''10.0.0.2'', pf_port = 443, pf_ssh_host = None,
     pf_ssh_port = Some 22, pf_discovered = ''t0'', pf_seen = ''t0'', pf_metadata = None, pf_connection = None\<rparr>"

definition no_update :: platform_update where
  "no_update = \<lparr>up_type = None, up_host = None, up_port = None, up_ssh_host = None, up_ssh_port = None,
     up_discovered = None, up_seen = None, up_metadata = None, up_connection = None\<rparr>"

lemma demo_inventory_ok: "inventory_ok demo_yaml Absent"
  using demo_yaml_ok by (auto simp: inventory_ok_def read_inventory_def inventory_good_def)

text \<open>An invalid platform, a failing write, an addition, and the same again.\<close>

definition demo_inventory_ops :: "inventory_op list" where
  "demo_inventory_ops = [AddPlatform ''t1'' True (demo_platform\<lparr>pf_port := 0\<rparr>) None None,
     AddPlatform ''t1'' False demo_platform None None, AddPlatform ''t1'' True demo_platform None None,
     AddPlatform ''t2'' True demo_platform None None]"

lemma inventory_refines_map_witness:
  "snd (run_out (inventory_step demo_yaml) demo_inventory_ops Absent)
   = [Refused ''INVALID_INVENTORY'', Refused ''EIO'', Done, Refused ''DUPLICATE_ID'']"
proof -
  have good: "platform_valid demo_yaml (stamped ''t1'' demo_platform None None)"
    "\<not> platform_valid demo_yaml (stamped ''t1'' (demo_platform\<lparr>pf_port := 0\<rparr>) None None)"
    by (simp_all add: platform_valid_def stamped_def over_def demo_platform_def id_pattern_def port_ok_def
        demo_yaml_def is_lower_def is_digit_def)
  obtain f' answers where run: "run_out (inventory_step demo_yaml) demo_inventory_ops Absent = (f', answers)" by fastforce
  have "run_allowed (inventory_step demo_yaml) inventory_allowed demo_inventory_ops Absent"
    by (simp add: demo_inventory_ops_def platform_plain_def demo_platform_def)
  from inventory_refines_map [OF demo_inventory_ok this run]
  have "run_out (inventory_spec demo_yaml) demo_inventory_ops (inventory_map [])
      = (inventory_map (platforms_in demo_yaml f'), answers)"
    by (simp add: platforms_in_def read_inventory_def)
  then show ?thesis using run good by (auto simp: inventory_map_def demo_inventory_ops_def guarded_def demo_platform_def)
qed

section \<open>The projection\<close>

text \<open>
  Of a platform the schema accepts, the platform entity and the edge are always accepted by the graph, the
  node entity only when the host is not empty, which the inventory schema allows.
\<close>

lemma projection_valid:
  assumes "platform_valid ya p" "platform_to_entities p = (pe, ne, e)"
  shows "entity_valid ya pe \<and> edge_valid ya e \<and> (entity_valid ya ne \<longleftrightarrow> pf_host p \<noteq> [])
    \<and> ed_from e = en_id pe \<and> ed_to e = en_id ne \<and> en_platform pe = Some (pf_id p)"
  using assms
  by (auto simp: platform_to_entities_def Let_def entity_valid_def edge_valid_def platform_valid_def id_pattern_def)


end
