(* ===== verification/Refresh.thy ===== *)
theory Refresh
  imports Topology Inventory
begin

text \<open>
  The refresh sweep of the inventory graph: the enumerator registry (\<open>discovery/enumerator.ts\<close>), the deep
  enumeration of every platform (\<open>deep-enumerator.ts\<close>) and the engine that marks what was not seen and
  reports drift (\<open>refresh.ts\<close>). What an enumerator finds over a connection is a parameter.
\<close>

section \<open>Deep enumeration\<close>

type_synonym 'c enumerator = "'c \<Rightarrow> platform \<Rightarrow> string \<Rightarrow> (entity list \<times> edge list) res"

definition register_enumerator :: "string \<Rightarrow> 'c enumerator \<Rightarrow> (string, 'c enumerator) jsmap \<Rightarrow> (string, 'c enumerator) jsmap" where
  "register_enumerator kind e reg = jm_set kind e reg"

definition get_enumerator :: "(string, 'c enumerator) jsmap \<Rightarrow> string \<Rightarrow> 'c enumerator option" where
  "get_enumerator reg kind = jm_get reg kind"

definition registered_kinds :: "(string, 'c enumerator) jsmap \<Rightarrow> string list" where
  "registered_kinds reg = map fst reg"

text \<open>The environment of an enumeration; \<open>ee_write\<close> says which writes of the graph file succeed.\<close>

record 'c enum_env =
  ee_yaml :: yaml
  ee_registry :: "(string, 'c enumerator) jsmap"
  ee_connect :: "string \<Rightarrow> 'c res"
  ee_inventory :: inventory_file
  ee_write :: "nat \<Rightarrow> bool"

record refresh_world =
  rw_graph :: graph_file
  rw_ticks :: nat
  rw_dedup :: dedup_cache
  rw_store :: obs_store

record platform_summary =
  ps_platform :: string
  ps_kind :: string
  ps_ok :: bool
  ps_entities :: nat
  ps_edges :: nat
  ps_error :: "string option"

record enumeration_result =
  er_summaries :: "platform_summary list"
  er_entities :: nat
  er_edges :: nat

definition put_entity :: "'c enum_env \<Rightarrow> entity \<Rightarrow> refresh_world \<Rightarrow> refresh_world \<times> unit res" where
  "put_entity env e w =
    (case upsert_entity (ee_yaml env) (ee_write env (rw_ticks w)) e (rw_graph w) of
       (f, r) \<Rightarrow> (w\<lparr>rw_graph := f, rw_ticks := rw_ticks w + 1\<rparr>, r))"

definition put_edge :: "'c enum_env \<Rightarrow> edge \<Rightarrow> refresh_world \<Rightarrow> refresh_world \<times> unit res" where
  "put_edge env e w =
    (case upsert_edge (ee_yaml env) (ee_write env (rw_ticks w)) e (rw_graph w) of
       (f, r) \<Rightarrow> (w\<lparr>rw_graph := f, rw_ticks := rw_ticks w + 1\<rparr>, r))"

text \<open>The two upsert loops: an element that is refused is noted, the others are still written.\<close>

fun put_all :: "('a \<Rightarrow> refresh_world \<Rightarrow> refresh_world \<times> unit res) \<Rightarrow> 'a list \<Rightarrow> refresh_world \<Rightarrow> refresh_world \<times> nat" where
  "put_all put [] w = (w, 0)"
| "put_all put (x # xs) w =
     (case put x w of
        (w1, r) \<Rightarrow> (case put_all put xs w1 of (w2, n) \<Rightarrow> (w2, case r of Inr _ \<Rightarrow> Suc n | Inl _ \<Rightarrow> n)))"

definition failed_summary :: "platform \<Rightarrow> string \<Rightarrow> platform_summary" where
  "failed_summary p msg = \<lparr>ps_platform = pf_id p, ps_kind = platform_type_str (pf_type p), ps_ok = False,
     ps_entities = 0, ps_edges = 0, ps_error = Some msg\<rparr>"

definition enumerate_platform ::
  "'c enum_env \<Rightarrow> string \<Rightarrow> platform \<Rightarrow> refresh_world \<Rightarrow> refresh_world \<times> platform_summary" where
  "enumerate_platform env ts p w =
    (let kind = platform_type_str (pf_type p) in
     case get_enumerator (ee_registry env) kind of
       None \<Rightarrow> (w, failed_summary p (''no enumerator registered for platform kind '' @ [CHR 0x27] @ kind @ [CHR 0x27]))
     | Some enum \<Rightarrow>
         (case ee_connect env (pf_id p) of
            Inl e \<Rightarrow> (w, failed_summary p (''connection failed: '' @ error_message e))
          | Inr c \<Rightarrow>
              (case enum c p ts of
                 Inl e \<Rightarrow> (w, failed_summary p (''enumeration failed: '' @ error_message e))
               | Inr (es, ds) \<Rightarrow>
                   (case put_all (put_entity env) es w of
                      (w1, n) \<Rightarrow> (case put_all (put_edge env) ds w1 of
                        (w2, k) \<Rightarrow> (w2, \<lparr>ps_platform = pf_id p, ps_kind = kind, ps_ok = True, ps_entities = n,
                           ps_edges = k, ps_error = None\<rparr>))))))"

fun enumerate_each ::
  "'c enum_env \<Rightarrow> string \<Rightarrow> platform list \<Rightarrow> refresh_world \<Rightarrow> refresh_world \<times> platform_summary list" where
  "enumerate_each env ts [] w = (w, [])"
| "enumerate_each env ts (p # ps) w =
     (case enumerate_platform env ts p w of
        (w1, s) \<Rightarrow> (case enumerate_each env ts ps w1 of (w2, ss) \<Rightarrow> (w2, s # ss)))"

definition deep_enumerate ::
  "'c enum_env \<Rightarrow> string list option \<Rightarrow> string \<Rightarrow> refresh_world \<Rightarrow> refresh_world \<times> enumeration_result res" where
  "deep_enumerate env only ts w =
    (case list_platforms (ee_yaml env) None (ee_inventory env) of
       Inl e \<Rightarrow> (w, Inl e)
     | Inr ps \<Rightarrow>
         let sel = filter (\<lambda>p. case only of None \<Rightarrow> True | Some ids \<Rightarrow> pf_id p \<in> set ids) ps in
         (case enumerate_each env ts sel w of
            (w1, ss) \<Rightarrow> (w1, Inr \<lparr>er_summaries = ss,
              er_entities = sum_list (map ps_entities (filter ps_ok ss)),
              er_edges = sum_list (map ps_edges (filter ps_ok ss))\<rparr>)))"

section \<open>The sweep\<close>

record refresh_thresholds =
  rt_stale :: int
  rt_gone :: int

definition DEFAULT_THRESHOLDS :: refresh_thresholds where
  "DEFAULT_THRESHOLDS = \<lparr>rt_stale = 5 * 60000, rt_gone = 30 * 60000\<rparr>"

datatype drift_event =
    DeAdded entity | DeGone entity | DeReplicas entity jsnum jsnum | DeImage entity string string

record sweep_result =
  sw_at :: string
  sw_entities :: nat
  sw_edges :: nat
  sw_failed :: nat
  sw_stale :: nat
  sw_gone :: nat
  sw_events :: "drift_event list"
  sw_emitted :: nat

text \<open>The age of an element at the start of the sweep, and a comparison that a date that does not parse
  (\<open>NaN\<close>) never satisfies.\<close>

definition age_at_least :: "runtime \<Rightarrow> int \<Rightarrow> string \<Rightarrow> int \<Rightarrow> bool" where
  "age_at_least rt t seen limit \<longleftrightarrow> (case rt_parse rt seen of Some s \<Rightarrow> t - s \<ge> limit | None \<Rightarrow> False)"

text \<open>The status an element that is not gone gets, if it changes.\<close>

definition next_status :: "runtime \<Rightarrow> refresh_thresholds \<Rightarrow> int \<Rightarrow> string \<Rightarrow> graph_status \<Rightarrow> graph_status option" where
  "next_status rt th t seen st =
    (if age_at_least rt t seen (rt_gone th) then Some Gone
     else if age_at_least rt t seen (rt_stale th) \<and> st = Active then Some Stale
     else None)"

definition of_platforms :: "string list \<Rightarrow> string option \<Rightarrow> bool" where
  "of_platforms ids p \<longleftrightarrow> (case p of Some i \<Rightarrow> i \<in> set ids | None \<Rightarrow> False)"

record 'c sweep_env =
  se_enum :: "'c enum_env"
  se_rt :: runtime
  se_thresholds :: refresh_thresholds
  se_window :: int
  se_uuid :: "nat \<Rightarrow> string"
  se_disk :: "nat \<Rightarrow> bool"

definition entity_status :: "'c sweep_env \<Rightarrow> int \<Rightarrow> string list \<Rightarrow> entity \<Rightarrow> graph_status option" where
  "entity_status env t ids e =
    (if \<not> of_platforms ids (en_platform e) \<or> en_status e = Gone then None
     else next_status (se_rt env) (se_thresholds env) t (en_seen e) (en_status e))"

fun reconcile_entities ::
  "'c sweep_env \<Rightarrow> int \<Rightarrow> string list \<Rightarrow> entity list \<Rightarrow> refresh_world \<Rightarrow> refresh_world \<times> (nat \<times> nat) res" where
  "reconcile_entities env t ids [] w = (w, Inr (0, 0))"
| "reconcile_entities env t ids (e # es) w =
     (case entity_status env t ids e of
        None \<Rightarrow> reconcile_entities env t ids es w
      | Some st \<Rightarrow>
          (case put_entity (se_enum env) (e\<lparr>en_status := st\<rparr>) w of
             (w1, Inl err) \<Rightarrow> (w1, Inl err)
           | (w1, Inr _) \<Rightarrow>
               (case reconcile_entities env t ids es w1 of
                  (w2, Inl err) \<Rightarrow> (w2, Inl err)
                | (w2, Inr (stale, gone)) \<Rightarrow>
                    (w2, Inr (if st = Gone then (stale, Suc gone) else (Suc stale, gone))))))"

text \<open>\<open>fromEntity?.platformId ?? toEntity?.platformId\<close>.\<close>

definition edge_platform :: "entity list \<Rightarrow> edge \<Rightarrow> string option" where
  "edge_platform es d =
    (let platform_of = (\<lambda>i. case lookup_by en_id i es of Some e \<Rightarrow> en_platform e | None \<Rightarrow> None) in
     case platform_of (ed_from d) of Some p \<Rightarrow> Some p | None \<Rightarrow> platform_of (ed_to d))"

definition edge_status :: "'c sweep_env \<Rightarrow> int \<Rightarrow> string list \<Rightarrow> entity list \<Rightarrow> edge \<Rightarrow> graph_status option" where
  "edge_status env t ids es d =
    (if ed_status d = Gone \<or> \<not> of_platforms ids (edge_platform es d) then None
     else next_status (se_rt env) (se_thresholds env) t (ed_seen d) (ed_status d))"

fun reconcile_edges ::
  "'c sweep_env \<Rightarrow> int \<Rightarrow> string list \<Rightarrow> entity list \<Rightarrow> edge list \<Rightarrow> refresh_world \<Rightarrow> refresh_world \<times> unit res" where
  "reconcile_edges env t ids es [] w = (w, Inr ())"
| "reconcile_edges env t ids es (d # ds) w =
     (case edge_status env t ids es d of
        None \<Rightarrow> reconcile_edges env t ids es ds w
      | Some st \<Rightarrow>
          (case put_edge (se_enum env) (d\<lparr>ed_status := st\<rparr>) w of
             (w1, Inl err) \<Rightarrow> (w1, Inl err)
           | (w1, Inr _) \<Rightarrow> reconcile_edges env t ids es ds w1))"

text \<open>The diff with the snapshot taken before the enumeration.\<close>

fun num_less :: "jsnum \<Rightarrow> jsnum \<Rightarrow> bool" where
  "num_less (Fin a) (Fin b) = (a < b)"
| "num_less NaN b = False"
| "num_less a NaN = False"
| "num_less a NegInf = False"
| "num_less PosInf b = False"
| "num_less a PosInf = True"
| "num_less NegInf b = True"

definition entity_events :: "(string, entity) jsmap \<Rightarrow> string list \<Rightarrow> entity \<Rightarrow> drift_event list" where
  "entity_events prior ids e =
    (if \<not> of_platforms ids (en_platform e) then []
     else case jm_get prior (en_id e) of
       None \<Rightarrow> [DeAdded e]
     | Some p \<Rightarrow>
         (if en_status e = Gone \<and> en_status p \<noteq> Gone then [DeGone e] else [])
         @ (case (jm_get (en_attrs e) ''replicas_running'', jm_get (en_attrs e) ''replicas_desired'') of
              (Some (JNum running), Some (JNum desired)) \<Rightarrow>
                if num_less running desired then [DeReplicas e running desired] else []
            | _ \<Rightarrow> [])
         @ (case (jm_get (en_attrs e) ''image'', jm_get (en_attrs p) ''image'') of
              (Some (JStr current), Some (JStr previous)) \<Rightarrow>
                if current \<noteq> previous then [DeImage e previous current] else []
            | _ \<Rightarrow> []))"

definition compute_diff :: "(string, entity) jsmap \<Rightarrow> entity list \<Rightarrow> string list \<Rightarrow> drift_event list" where
  "compute_diff prior post ids = concat (map (entity_events prior ids) post)"

definition drift_observation ::
  "string \<Rightarrow> string \<Rightarrow> entity \<Rightarrow> fault_pattern \<Rightarrow> severity \<Rightarrow> attributes \<Rightarrow> observation" where
  "drift_observation uuid ts e pat sev details =
    (let platform = (case en_platform e of Some p \<Rightarrow> p | None \<Rightarrow> ''unknown''); res = en_kind e @ ''/'' @ en_id e in
     \<lparr>ob_id = uuid, ob_platform = platform, ob_pattern = pat, ob_resource = res, ob_severity = sev, ob_at = ts,
      ob_details = Some (JObj ([(''entity_kind'', JStr (en_kind e)), (''entity_name'', JStr (en_name e))] @ details)),
      ob_key = Some (platform @ '':'' @ pattern_str pat @ '':'' @ res)\<rparr>)"

fun build_observation :: "string \<Rightarrow> string \<Rightarrow> drift_event \<Rightarrow> observation option" where
  "build_observation uuid ts (DeAdded e) = None"
| "build_observation uuid ts (DeGone e) =
     Some (drift_observation uuid ts e EntityGone P1 [(''last_seen'', JStr (en_seen e))])"
| "build_observation uuid ts (DeReplicas e running desired) =
     Some (drift_observation uuid ts e ReplicaMismatch P1
       [(''replicas_running'', JNum running), (''replicas_desired'', JNum desired)])"
| "build_observation uuid ts (DeImage e previous current) =
     Some (drift_observation uuid ts e ImageChanged P2
       [(''previous_image'', JStr previous), (''current_image'', JStr current)])"

fun emit_events :: "'c sweep_env \<Rightarrow> string \<Rightarrow> int \<Rightarrow> nat \<Rightarrow> drift_event list \<Rightarrow> refresh_world \<Rightarrow> refresh_world \<times> nat" where
  "emit_events env ts t n [] w = (w, 0)"
| "emit_events env ts t n (ev # evs) w =
     (case build_observation (se_uuid env n) ts ev of
        None \<Rightarrow> emit_events env ts t (Suc n) evs w
      | Some obs \<Rightarrow>
          (case is_duplicate (se_window env) obs t (rw_dedup w) of
             (cache, True) \<Rightarrow> emit_events env ts t (Suc n) evs (w\<lparr>rw_dedup := cache\<rparr>)
           | (cache, False) \<Rightarrow>
               (case save_observation (se_disk env n) t obs (rw_store w) of
                  (st, r) \<Rightarrow>
                    (case emit_events env ts t (Suc n) evs (w\<lparr>rw_dedup := cache, rw_store := st\<rparr>) of
                       (w1, k) \<Rightarrow> (w1, case r of Inr _ \<Rightarrow> Suc k | Inl _ \<Rightarrow> k)))))"

text \<open>One sweep, started at time \<open>t\<close>; \<open>ts\<close> is the stamp the enumerators use.\<close>

definition sweep ::
  "'c sweep_env \<Rightarrow> string list option \<Rightarrow> int \<Rightarrow> string \<Rightarrow> refresh_world \<Rightarrow> refresh_world \<times> sweep_result res" where
  "sweep env only t ts w =
    (case all_graph (ee_yaml (se_enum env)) (rw_graph w) of
       Inl e \<Rightarrow> (w, Inl e)
     | Inr g0 \<Rightarrow>
    (case deep_enumerate (se_enum env) only ts w of
       (w1, Inl e) \<Rightarrow> (w1, Inl e)
     | (w1, Inr en) \<Rightarrow>
    (let ids = map ps_platform (filter ps_ok (er_summaries en)) in
    (case all_graph (ee_yaml (se_enum env)) (rw_graph w1) of
       Inl e \<Rightarrow> (w1, Inl e)
     | Inr g1 \<Rightarrow>
    (case reconcile_entities env t ids (gr_entities g1) w1 of
       (w2, Inl e) \<Rightarrow> (w2, Inl e)
     | (w2, Inr (stale, gone)) \<Rightarrow>
    (case reconcile_edges env t ids (gr_entities g1) (gr_edges g1) w2 of
       (w3, Inl e) \<Rightarrow> (w3, Inl e)
     | (w3, Inr _) \<Rightarrow>
    (case all_graph (ee_yaml (se_enum env)) (rw_graph w3) of
       Inl e \<Rightarrow> (w3, Inl e)
     | Inr g2 \<Rightarrow>
    (let events = compute_diff (entity_by_id (gr_entities g0)) (gr_entities g2) ids in
    (case emit_events env (rt_iso (se_rt env) t) t 0 events w3 of
       (w4, sent) \<Rightarrow>
         (w4, Inr \<lparr>sw_at = rt_iso (se_rt env) t, sw_entities = er_entities en, sw_edges = er_edges en,
            sw_failed = length (filter (\<lambda>s. \<not> ps_ok s) (er_summaries en)), sw_stale = stale, sw_gone = gone,
            sw_events = events, sw_emitted = sent\<rparr>))))))))))"
section \<open>Nothing is ever deleted\<close>

text \<open>A step of the world that may fail half way keeps the graph readable, every id in it and the ids
  distinct, and does not touch the observations.\<close>

definition graph_distinct :: "graph \<Rightarrow> bool" where
  "graph_distinct g \<longleftrightarrow> distinct (map en_id (gr_entities g)) \<and> distinct (map ed_id (gr_edges g))"

lemma apply_op_distinct: "graph_distinct g \<Longrightarrow> graph_distinct (apply_op x g)"
  by (cases x)
    (simp_all add: graph_distinct_def upsert_keys [where key = en_id and merge = merge_entity, OF entities.key_merge]
      upsert_keys [where key = ed_id and merge = merge_edge, OF edges.key_merge])

definition keeps :: "yaml \<Rightarrow> refresh_world \<Rightarrow> refresh_world \<Rightarrow> bool" where
  "keeps ya w w' \<longleftrightarrow> rw_dedup w' = rw_dedup w \<and> rw_store w' = rw_store w
    \<and> (\<forall>g. read_graph ya (rw_graph w) = Inr g \<longrightarrow>
        (\<exists>g'. read_graph ya (rw_graph w') = Inr g' \<and> ids_of g \<subseteq> ids_of g' \<and> (graph_distinct g \<longrightarrow> graph_distinct g')))"

named_theorems keeps_intros \<open>steps of a sweep that keep the graph\<close>

lemma keeps_refl [keeps_intros]: "keeps ya w w"
  by (auto simp: keeps_def)

lemma keeps_trans: "keeps ya w w1 \<Longrightarrow> keeps ya w1 w2 \<Longrightarrow> keeps ya w w2"
  unfolding keeps_def by (intro conjI) (simp, simp, meson subset_trans)

lemma put_entity_result:
  assumes "yaml_ok (ee_yaml env)" "entity_plain e" "read_graph (ee_yaml env) (rw_graph w) = Inr g" "put_entity env e w = (w', r)"
  shows "read_graph (ee_yaml env) (rw_graph w') = Inr (case r of Inr _ \<Rightarrow> apply_op (PutEntity e) g | Inl _ \<Rightarrow> g)
    \<and> rw_dedup w' = rw_dedup w \<and> rw_store w' = rw_store w"
  using assms(4) store_op_plain_result [OF assms(1), of "PutEntity e" "rw_graph w" g] assms(2,3)
  by (auto simp: put_entity_def split: prod.splits)

lemma put_edge_result:
  assumes "yaml_ok (ee_yaml env)" "edge_plain e" "read_graph (ee_yaml env) (rw_graph w) = Inr g" "put_edge env e w = (w', r)"
  shows "read_graph (ee_yaml env) (rw_graph w') = Inr (case r of Inr _ \<Rightarrow> apply_op (PutEdge e) g | Inl _ \<Rightarrow> g)
    \<and> rw_dedup w' = rw_dedup w \<and> rw_store w' = rw_store w"
  using assms(4) store_op_plain_result [OF assms(1), of "PutEdge e" "rw_graph w" g] assms(2,3)
  by (auto simp: put_edge_def split: prod.splits)

lemma keeps_op:
  assumes "\<And>g. read_graph ya (rw_graph w) = Inr g
    \<Longrightarrow> read_graph ya (rw_graph w') = Inr (case r of Inr _ \<Rightarrow> apply_op x g | Inl _ \<Rightarrow> g)"
    and "rw_dedup w' = rw_dedup w" "rw_store w' = rw_store w"
  shows "keeps ya w w'"
  unfolding keeps_def using assms apply_op_ids apply_op_distinct by (cases r) auto

lemma put_entity_keeps [keeps_intros]:
  assumes "yaml_ok (ee_yaml env)" "entity_plain e" "put_entity env e w = (w', r)"
  shows "keeps (ee_yaml env) w w'"
  using put_entity_result [OF assms(1,2) _ assms(3)] assms(3)
  by (intro keeps_op [where x = "PutEntity e" and r = r]) (auto simp: put_entity_def split: prod.splits)

lemma put_edge_keeps [keeps_intros]:
  assumes "yaml_ok (ee_yaml env)" "edge_plain e" "put_edge env e w = (w', r)"
  shows "keeps (ee_yaml env) w w'"
  using put_edge_result [OF assms(1,2) _ assms(3)] assms(3)
  by (intro keeps_op [where x = "PutEdge e" and r = r]) (auto simp: put_edge_def split: prod.splits)

lemma put_all_keeps [keeps_intros]:
  assumes "\<And>x w w' r. x \<in> set xs \<Longrightarrow> put x w = (w', r) \<Longrightarrow> keeps ya w w'" "put_all put xs w = (w', n)"
  shows "keeps ya w w'"
  using assms
proof (induction xs arbitrary: w w' n)
  case (Cons x xs)
  obtain w1 r where 1: "put x w = (w1, r)" by fastforce
  obtain w2 k where 2: "put_all put xs w1 = (w2, k)" by fastforce
  have "keeps ya w w1" using Cons.prems(1) [OF _ 1] by simp
  moreover have "keeps ya w1 w2" using Cons.IH [OF _ 2] Cons.prems(1) by (meson list.set_intros(2))
  moreover have "w' = w2" using Cons.prems(2) 1 2 by simp
  ultimately show ?case using keeps_trans by blast
qed (auto intro: keeps_refl)

text \<open>What the enumerators return are JSON values.\<close>

definition enumerators_plain :: "'c enum_env \<Rightarrow> bool" where
  "enumerators_plain env \<longleftrightarrow>
    (\<forall>kind enum c p ts es ds. get_enumerator (ee_registry env) kind = Some enum \<longrightarrow> enum c p ts = Inr (es, ds)
       \<longrightarrow> list_all entity_plain es \<and> list_all edge_plain ds)"

lemma enumerate_platform_keeps [keeps_intros]:
  assumes ok: "yaml_ok (ee_yaml env)" "enumerators_plain env" and run: "enumerate_platform env ts p w = (w', s)"
  shows "keeps (ee_yaml env) w w'"
proof (cases "ps_ok s")
  case True
  then obtain enum c es ds w1 n k where
      e: "get_enumerator (ee_registry env) (platform_type_str (pf_type p)) = Some enum" "enum c p ts = Inr (es, ds)"
      "put_all (put_entity env) es w = (w1, n)" "put_all (put_edge env) ds w1 = (w', k)"
    using run by (auto simp: enumerate_platform_def Let_def failed_summary_def split: option.splits sum.splits prod.splits)
  have plain: "list_all entity_plain es" "list_all edge_plain ds" using ok(2) e(1,2) unfolding enumerators_plain_def by blast+
  have "keeps (ee_yaml env) w w1"
    by (rule put_all_keeps [OF _ e(3)]) (use plain(1) put_entity_keeps [OF ok(1)] in \<open>auto simp: list_all_iff\<close>)
  moreover have "keeps (ee_yaml env) w1 w'"
    by (rule put_all_keeps [OF _ e(4)]) (use plain(2) put_edge_keeps [OF ok(1)] in \<open>auto simp: list_all_iff\<close>)
  ultimately show ?thesis by (rule keeps_trans)
next
  case False
  then have "w' = w"
    using run by (auto simp: enumerate_platform_def Let_def split: option.splits sum.splits prod.splits)
  then show ?thesis by (simp add: keeps_refl)
qed

lemma enumerate_each_keeps [keeps_intros]:
  "yaml_ok (ee_yaml env) \<Longrightarrow> enumerators_plain env \<Longrightarrow> enumerate_each env ts ps w = (w', ss) \<Longrightarrow> keeps (ee_yaml env) w w'"
  by (induction ps arbitrary: w w' ss)
    (auto intro: keeps_refl keeps_trans enumerate_platform_keeps split: prod.splits)

lemma deep_enumerate_keeps [keeps_intros]:
  "yaml_ok (ee_yaml env) \<Longrightarrow> enumerators_plain env \<Longrightarrow> deep_enumerate env only ts w = (w', r) \<Longrightarrow> keeps (ee_yaml env) w w'"
  by (auto simp: deep_enumerate_def Let_def split: sum.splits prod.splits intro: keeps_refl enumerate_each_keeps)

lemma status_plain [simp]: "entity_plain (e\<lparr>en_status := st\<rparr>) \<longleftrightarrow> entity_plain e" "edge_plain (d\<lparr>ed_status := st\<rparr>) \<longleftrightarrow> edge_plain d"
  by (simp_all add: entity_plain_def edge_plain_def)

lemma reconcile_entities_keeps [keeps_intros]:
  "yaml_ok (ee_yaml (se_enum env)) \<Longrightarrow> list_all entity_plain es \<Longrightarrow> reconcile_entities env t ids es w = (w', r)
   \<Longrightarrow> keeps (ee_yaml (se_enum env)) w w'"
proof (induction es arbitrary: w w' r)
  case (Cons e es)
  show ?case
  proof (cases "entity_status env t ids e")
    case None
    then show ?thesis using Cons by simp
  next
    case (Some st)
    obtain w1 x where 1: "put_entity (se_enum env) (e\<lparr>en_status := st\<rparr>) w = (w1, x)" by fastforce
    have k: "keeps (ee_yaml (se_enum env)) w w1" using put_entity_keeps [OF Cons.prems(1) _ 1] Cons.prems(2) by simp
    show ?thesis
      using Cons.prems(2,3) Some 1 k Cons.IH [OF Cons.prems(1), of w1]
      by (auto split: sum.splits prod.splits intro: keeps_trans)
  qed
qed (auto intro: keeps_refl)

lemma reconcile_edges_keeps [keeps_intros]:
  "yaml_ok (ee_yaml (se_enum env)) \<Longrightarrow> list_all edge_plain ds \<Longrightarrow> reconcile_edges env t ids es ds w = (w', r)
   \<Longrightarrow> keeps (ee_yaml (se_enum env)) w w'"
proof (induction ds arbitrary: w w' r)
  case (Cons d ds)
  show ?case
  proof (cases "edge_status env t ids es d")
    case None
    then show ?thesis using Cons by simp
  next
    case (Some st)
    obtain w1 x where 1: "put_edge (se_enum env) (d\<lparr>ed_status := st\<rparr>) w = (w1, x)" by fastforce
    have k: "keeps (ee_yaml (se_enum env)) w w1" using put_edge_keeps [OF Cons.prems(1) _ 1] Cons.prems(2) by simp
    show ?thesis
      using Cons.prems(2,3) Some 1 k Cons.IH [OF Cons.prems(1), of w1]
      by (auto split: sum.splits prod.splits intro: keeps_trans)
  qed
qed (auto intro: keeps_refl)

lemma emit_graph: "emit_events env ts t n evs w = (w', k) \<Longrightarrow> rw_graph w' = rw_graph w"
  by (induction evs arbitrary: w w' n k) (fastforce split: option.splits prod.splits bool.splits)+


lemma sweep_stages:
  assumes ok: "yaml_ok (ee_yaml (se_enum env))" "enumerators_plain (se_enum env)"
    and g: "read_graph (ee_yaml (se_enum env)) (rw_graph w) = Inr g" and run: "sweep env only t ts w = (w', r)"
  shows "\<exists>w3. keeps (ee_yaml (se_enum env)) w w3 \<and> rw_graph w' = rw_graph w3
    \<and> (case r of Inl _ \<Rightarrow> w' = w3
       | Inr res \<Rightarrow> \<exists>k. emit_events env (rt_iso (se_rt env) t) t 0 (sw_events res) w3 = (w', k))"
proof -
  let ?ya = "ee_yaml (se_enum env)"
  obtain w1 x where en: "deep_enumerate (se_enum env) only ts w = (w1, x)" by fastforce
  have k1: "keeps ?ya w w1" by (rule deep_enumerate_keeps [OF ok en])
  then obtain g1 where g1: "read_graph ?ya (rw_graph w1) = Inr g1" using g unfolding keeps_def by blast
  have plain: "list_all entity_plain (gr_entities g1)" "list_all edge_plain (gr_edges g1)"
    using read_graph_good [OF ok(1) g1] by (auto simp: graph_plain_def)
  have k2: "keeps ?ya w1 w2" if "reconcile_entities env t ids (gr_entities g1) w1 = (w2, y)" for ids w2 y
    by (rule reconcile_entities_keeps [OF ok(1) plain(1) that])
  have k3: "keeps ?ya w2 w3" if "reconcile_edges env t ids (gr_entities g1) (gr_edges g1) w2 = (w3, y)" for ids w2 w3 y
    by (rule reconcile_edges_keeps [OF ok(1) plain(2) that])
  show ?thesis
    using run g en g1 k1
    by (auto simp: sweep_def all_graph_def Let_def emit_graph split: sum.splits prod.splits
        intro: keeps_trans [OF k1 k2] keeps_trans [OF k1 keeps_trans [OF k2 k3]])
qed

text \<open>
  C31: A sweep never deletes: whatever fails on the way (a connection, an enumerator, a write of the graph,
  of an observation), and whether it returns or rejects, the graph stays readable and holds the id of
  every entity and of every edge it held.
\<close>

lemma sweep_never_deletes:
  assumes "yaml_ok (ee_yaml (se_enum env))" "enumerators_plain (se_enum env)"
    and "read_graph (ee_yaml (se_enum env)) (rw_graph w) = Inr g" "sweep env only t ts w = (w', r)"
  shows "\<exists>g'. read_graph (ee_yaml (se_enum env)) (rw_graph w') = Inr g' \<and> ids_of g \<subseteq> ids_of g'"
  using sweep_stages [OF assms] assms(3) unfolding keeps_def by auto

section \<open>What a sweep marks\<close>

definition mark :: "'c sweep_env \<Rightarrow> int \<Rightarrow> string list \<Rightarrow> entity \<Rightarrow> entity" where
  "mark env t ids e = (case entity_status env t ids e of None \<Rightarrow> e | Some st \<Rightarrow> e\<lparr>en_status := st\<rparr>)"

definition mark_edge :: "'c sweep_env \<Rightarrow> int \<Rightarrow> string list \<Rightarrow> entity list \<Rightarrow> edge \<Rightarrow> edge" where
  "mark_edge env t ids es d = (case edge_status env t ids es d of None \<Rightarrow> d | Some st \<Rightarrow> d\<lparr>ed_status := st\<rparr>)"

lemma upsert_in_place:
  "key y = key x \<Longrightarrow> key x \<notin> key ` set pre \<Longrightarrow> upsert_by key merge x (pre @ y # post) = pre @ merge y x # post"
  by (induction pre) auto

lemma merge_status [simp]:
  "merge_entity e (e\<lparr>en_status := st\<rparr>) = e\<lparr>en_status := st\<rparr>" "merge_edge d (d\<lparr>ed_status := st\<rparr>) = d\<lparr>ed_status := st\<rparr>"
  by (cases "en_platform e"; simp add: merge_entity_def) (cases "ed_attrs d"; simp add: merge_edge_def)

lemma status_valid [simp]:
  "entity_valid ya (e\<lparr>en_status := st\<rparr>) \<longleftrightarrow> entity_valid ya e" "edge_valid ya (d\<lparr>ed_status := st\<rparr>) \<longleftrightarrow> edge_valid ya d"
  by (simp_all add: entity_valid_def edge_valid_def)

text \<open>The disk works and the YAML library dumps every JSON value.\<close>

definition enum_works :: "'c enum_env \<Rightarrow> bool" where
  "enum_works env \<longleftrightarrow> yaml_ok (ee_yaml env) \<and> (\<forall>v. is_json v \<longrightarrow> dumps (ee_yaml env) v) \<and> (\<forall>n. ee_write env n)"

lemma store_op_works:
  assumes "yaml_ok ya" "\<forall>v. is_json v \<longrightarrow> dumps ya v" "op_good ya x" "read_graph ya f = Inr g"
  shows "\<exists>f'. store_op ya True x f = (f', Inr ()) \<and> read_graph ya f' = Inr (apply_op x g)"
proof -
  have good: "graph_valid ya (apply_op x g) \<and> graph_plain (apply_op x g)"
    using apply_op_good [OF assms(3)] read_graph_good [OF assms(1,4)] by blast
  obtain f' r where w: "write_graph ya True (apply_op x g) f = (f', r)" by fastforce
  have "dumps ya (graph_json (apply_op x g))" using good assms(2) is_json_graph by blast
  then have "r = Inr ()" using write_graph_result(2) [OF assms(1) _ w] good by simp
  then show ?thesis using write_graph_result(1) [OF assms(1) _ w] good w assms(4) by (simp add: store_op_eq)
qed

lemma put_entity_works:
  assumes "enum_works env" "entity_valid (ee_yaml env) e" "entity_plain e" "read_graph (ee_yaml env) (rw_graph w) = Inr g"
  shows "\<exists>w'. put_entity env e w = (w', Inr ()) \<and> read_graph (ee_yaml env) (rw_graph w') = Inr (apply_op (PutEntity e) g)"
proof -
  have "op_good (ee_yaml env) (PutEntity e)" using assms(2,3) by simp
  from store_op_works [OF _ _ this assms(4)] assms(1) show ?thesis
    by (auto simp: put_entity_def enum_works_def)
qed


lemma entity_status_cases: "entity_status env t ids e = Some st \<Longrightarrow> st = Gone \<or> st = Stale"
  by (auto simp: entity_status_def next_status_def split: if_splits)

lemma reconcile_entities_exact:
  assumes "enum_works (se_enum env)" "read_graph (ee_yaml (se_enum env)) (rw_graph w) = Inr \<lparr>gr_entities = pre @ es, gr_edges = ds\<rparr>"
    and "distinct (map en_id (pre @ es))"
  shows "\<exists>w'. reconcile_entities env t ids es w = (w', Inr (length (filter (\<lambda>e. entity_status env t ids e = Some Stale) es),
        length (filter (\<lambda>e. entity_status env t ids e = Some Gone) es)))
    \<and> read_graph (ee_yaml (se_enum env)) (rw_graph w') = Inr \<lparr>gr_entities = pre @ map (mark env t ids) es, gr_edges = ds\<rparr>"
  using assms(2,3)
proof (induction es arbitrary: pre w)
  case (Cons e es)
  have id: "en_id (mark env t ids e) = en_id e" by (simp add: mark_def split: option.split)
  show ?case
  proof (cases "entity_status env t ids e")
    case None
    then have "read_graph (ee_yaml (se_enum env)) (rw_graph w) = Inr \<lparr>gr_entities = (pre @ [mark env t ids e]) @ es, gr_edges = ds\<rparr>"
      using Cons.prems(1) by (simp add: mark_def)
    from Cons.IH [OF this] Cons.prems(2) id None show ?thesis by auto
  next
    case (Some st)
    have good: "entity_valid (ee_yaml (se_enum env)) e" "entity_plain e"
      using read_graph_good [OF _ Cons.prems(1)] assms(1) by (auto simp: enum_works_def graph_valid_def graph_plain_def)
    obtain w1 where w1: "put_entity (se_enum env) (e\<lparr>en_status := st\<rparr>) w = (w1, Inr ())"
        "read_graph (ee_yaml (se_enum env)) (rw_graph w1) =
           Inr (apply_op (PutEntity (e\<lparr>en_status := st\<rparr>)) \<lparr>gr_entities = pre @ e # es, gr_edges = ds\<rparr>)"
      using put_entity_works [OF assms(1) _ _ Cons.prems(1), of "e\<lparr>en_status := st\<rparr>"] good by auto
    have "upsert_by en_id merge_entity (e\<lparr>en_status := st\<rparr>) (pre @ e # es) = pre @ mark env t ids e # es"
      using Cons.prems(2) Some upsert_in_place [of en_id e "e\<lparr>en_status := st\<rparr>" pre merge_entity es]
      by (simp add: mark_def)
    then have "read_graph (ee_yaml (se_enum env)) (rw_graph w1) = Inr \<lparr>gr_entities = (pre @ [mark env t ids e]) @ es, gr_edges = ds\<rparr>"
      using w1(2) by simp
    from Cons.IH [OF this] Cons.prems(2) id Some w1(1) entity_status_cases [OF Some] show ?thesis by auto
  qed
qed simp















section \<open>What a sweep reports\<close>

text \<open>An observation with a key is in the store; a key was seen within the window before the sweep.\<close>

definition stored_key :: "obs_store \<Rightarrow> string \<Rightarrow> bool" where
  "stored_key st k \<longleftrightarrow> (\<exists>f obs m. jm_get (os_files st) f = Some (Some obs, m) \<and> ob_key obs = Some k)"

definition seen_within :: "int \<Rightarrow> int \<Rightarrow> dedup_cache \<Rightarrow> string \<Rightarrow> bool" where
  "seen_within window t cache k \<longleftrightarrow> (case jm_get cache k of Some s \<Rightarrow> t - s < window | None \<Rightarrow> False)"

fun event_key :: "drift_event \<Rightarrow> string option" where
  "event_key (DeAdded e) = None"
| "event_key (DeGone e) = ob_key (drift_observation [] [] e EntityGone P1 [])"
| "event_key (DeReplicas e x y) = ob_key (drift_observation [] [] e ReplicaMismatch P1 [])"
| "event_key (DeImage e x y) = ob_key (drift_observation [] [] e ImageChanged P2 [])"

lemma build_key:
  "build_observation uuid ts ev = None \<longleftrightarrow> event_key ev = None"
  "build_observation uuid ts ev = Some obs \<Longrightarrow> event_key ev = Some (key_of obs) \<and> ob_key obs = Some (key_of obs) \<and> ob_id obs = uuid"
  by (cases ev; force simp: drift_observation_def Let_def key_of_def)+

lemma is_duplicate_cases:
  "is_duplicate window obs t cache =
    (if seen_within window t cache (key_of obs) then (cache, True) else (jm_set (key_of obs) t cache, False))"
  by (auto simp: is_duplicate_def seen_within_def split: option.split)

text \<open>A stored file the rest of the sweep does not overwrite.\<close>

definition safe_key :: "(nat \<Rightarrow> string) \<Rightarrow> nat \<Rightarrow> obs_store \<Rightarrow> string \<Rightarrow> bool" where
  "safe_key uuid n st k \<longleftrightarrow>
    (\<exists>f obs m. jm_get (os_files st) f = Some (Some obs, m) \<and> ob_key obs = Some k \<and> (\<forall>j \<ge> n. f \<noteq> uuid j @ ''.json''))"

lemma emit_events_stored:
  assumes disk: "\<And>n. se_disk env n" and inj: "inj (se_uuid env)" and window: "se_window env > 0"
    and run: "emit_events env ts t n evs w = (w', k)"
  shows "(\<forall>key. safe_key (se_uuid env) n (rw_store w) key \<longrightarrow> stored_key (rw_store w') key)
    \<and> (\<forall>ev \<in> set evs. \<forall>key. event_key ev = Some key
         \<longrightarrow> stored_key (rw_store w') key \<or> seen_within (se_window env) t (rw_dedup w) key)"
  using run
proof (induction evs arbitrary: n w w' k)
  case Nil
  then show ?case by (auto simp: safe_key_def stored_key_def)
next
  case (Cons ev evs)
  have later: "safe_key (se_uuid env) n st key \<Longrightarrow> safe_key (se_uuid env) (Suc n) st key" for st key
    unfolding safe_key_def by (meson Suc_leD)
  show ?case
  proof (cases "build_observation (se_uuid env n) ts ev")
    case None
    then have "event_key ev = None" using build_key(1) by blast
    then show ?thesis using Cons.IH [of "Suc n" w w' k] Cons.prems None later by auto
  next
    case (Some obs)
    note key = build_key(2) [OF Some]
    show ?thesis
    proof (cases "seen_within (se_window env) t (rw_dedup w) (key_of obs)")
      case True
      then have "emit_events env ts t (Suc n) evs w = (w', k)"
        using Cons.prems Some by (simp add: is_duplicate_cases)
      then show ?thesis using Cons.IH [of "Suc n" w w' k] key True later by auto
    next
      case False
      let ?w = "w\<lparr>rw_dedup := jm_set (key_of obs) t (rw_dedup w),
        rw_store := (rw_store w)\<lparr>os_files := jm_set (se_uuid env n @ ''.json'') (Some obs, t) (os_files (rw_store w))\<rparr>\<rparr>"
      obtain k' where run: "emit_events env ts t (Suc n) evs ?w = (w', k')"
        using Cons.prems Some False disk key by (auto simp: is_duplicate_cases save_observation_def split: prod.splits)
      note ih = Cons.IH [OF run]
      have fresh: "se_uuid env n \<noteq> se_uuid env j" if "Suc n \<le> j" for j using inj that by (auto dest: injD)
      have here: "stored_key (rw_store w') (key_of obs)"
      proof -
        have "safe_key (se_uuid env) (Suc n) (rw_store ?w) (key_of obs)"
          unfolding safe_key_def using key fresh
          by (intro exI [of _ "se_uuid env n @ ''.json''"] exI [of _ obs] exI [of _ t]) (simp add: store_simps)
        then show ?thesis using ih by blast
      qed
      have keep: "safe_key (se_uuid env) n (rw_store w) key' \<Longrightarrow> stored_key (rw_store w') key'" for key'
      proof -
        assume "safe_key (se_uuid env) n (rw_store w) key'"
        then obtain f o' m where f: "jm_get (os_files (rw_store w)) f = Some (Some o', m)" "ob_key o' = Some key'"
            "\<And>j. j \<ge> n \<Longrightarrow> f \<noteq> se_uuid env j @ ''.json''" unfolding safe_key_def by blast
        then have "jm_get (os_files (rw_store ?w)) f = Some (Some o', m)" by (simp add: store_simps)
        moreover have "\<forall>j \<ge> Suc n. f \<noteq> se_uuid env j @ ''.json''" using f(3) by simp
        ultimately have "safe_key (se_uuid env) (Suc n) (rw_store ?w) key'"
          unfolding safe_key_def using f(2) by blast
        then show ?thesis using ih by blast
      qed
      have seen: "seen_within (se_window env) t (rw_dedup ?w) key' \<Longrightarrow> key' \<noteq> key_of obs
          \<Longrightarrow> seen_within (se_window env) t (rw_dedup w) key'" for key'
        by (simp add: seen_within_def store_simps)
      have each: "stored_key (rw_store w') key' \<or> seen_within (se_window env) t (rw_dedup w) key'"
        if "ev' \<in> set (ev # evs)" "event_key ev' = Some key'" for ev' key'
      proof (cases "key' = key_of obs")
        case True
        then show ?thesis using here by simp
      next
        case False
        then have "ev' \<in> set evs" using that key by auto
        then have "stored_key (rw_store w') key' \<or> seen_within (se_window env) t (rw_dedup ?w) key'" using ih that(2) by blast
        then show ?thesis using seen [OF _ False] by blast
      qed
      then show ?thesis using keep by blast
    qed
  qed
qed

text \<open>
  C33: When every observation can be saved, every drift event of a sweep that is a fault (an entity gone,
  fewer replicas running than desired, another image) is stored as an observation with its key, unless
  that key was seen within the window before the sweep. The identifiers drawn are distinct and the window is
  positive. A save that fails loses the event for a whole window (\<open>failed_save_silences\<close>).
\<close>

lemma sweep_reports_drift:
  assumes "yaml_ok (ee_yaml (se_enum env))" "enumerators_plain (se_enum env)"
    and "read_graph (ee_yaml (se_enum env)) (rw_graph w) = Inr g"
    and "\<And>n. se_disk env n" "inj (se_uuid env)" "se_window env > 0"
    and "sweep env only t ts w = (w', Inr res)" "ev \<in> set (sw_events res)" "event_key ev = Some key"
  shows "stored_key (rw_store w') key \<or> seen_within (se_window env) t (rw_dedup w) key"
proof -
  obtain w3 k where w3: "keeps (ee_yaml (se_enum env)) w w3"
      "emit_events env (rt_iso (se_rt env) t) t 0 (sw_events res) w3 = (w', k)"
    using sweep_stages [OF assms(1-3,7)] by auto
  show ?thesis using emit_events_stored [OF assms(4-6) w3(2)] assms(8,9) w3(1) by (auto simp: keeps_def)
qed

text \<open>An entity that was there and becomes gone is such an event.\<close>

lemma gone_is_event:
  assumes "e \<in> set es" "entity_status env t ids e = Some Gone" "distinct (map en_id (gr_entities g0))"
    and "p \<in> set (gr_entities g0)" "en_id p = en_id e" "en_status p \<noteq> Gone"
  shows "DeGone (mark env t ids e) \<in> set (compute_diff (entity_by_id (gr_entities g0)) (map (mark env t ids) es) ids)"
proof -
  have "of_platforms ids (en_platform e)" using assms(2) by (auto simp: entity_status_def split: if_splits)
  moreover have "jm_get (entity_by_id (gr_entities g0)) (en_id e) = Some p"
    using assms(3-5) by (simp add: entity_by_id_get lookup_distinct)
  ultimately have "DeGone (mark env t ids e) \<in> set (entity_events (entity_by_id (gr_entities g0)) ids (mark env t ids e))"
    using assms(2,6) by (simp add: entity_events_def mark_def)
  then show ?thesis using assms(1) by (auto simp: compute_diff_def)
qed

section \<open>Where the engine falls short of its comments\<close>

text \<open>An edge is reconciled although the platform of its other endpoint failed.\<close>

lemma edge_of_failed_platform_marked:
  assumes "lookup_by en_id (ed_from d) es = Some a" "en_platform a = Some ''p1''"
    and "ed_status d = Active" "age_at_least (se_rt env) t (ed_seen d) (rt_gone (se_thresholds env))"
  shows "ed_status (mark_edge env t [''p1''] es d) = Gone"
  using assms by (simp add: mark_edge_def edge_status_def edge_platform_def of_platforms_def next_status_def Let_def)

text \<open>An inventory that cannot be read makes \<open>enumerate\<close> reject, which it is said never to do.\<close>

lemma enumerate_rejects:
  "read_inventory (ee_yaml env) (ee_inventory env) = Inl e \<Longrightarrow> deep_enumerate env only ts w = (w, Inl e)"
  by (simp add: deep_enumerate_def list_platforms_def)

text \<open>A replica mismatch is an event of every sweep that finds it, not only of the one in which the count
  dropped: the snapshot plays no part.\<close>

lemma mismatch_needs_no_drop:
  assumes "jm_get prior (en_id e) = Some e" "of_platforms ids (en_platform e)"
    and "jm_get (en_attrs e) ''replicas_running'' = Some (JInt 1)" "jm_get (en_attrs e) ''replicas_desired'' = Some (JInt 2)"
  shows "DeReplicas e (Fin 1) (Fin 2) \<in> set (entity_events prior ids e)"
  using assms by (simp add: entity_events_def)

text \<open>A Proxmox platform projected by the bridge is a worker of role compute: the analyzer looks at
  \<open>platform_type\<close>, the bridge writes \<open>type\<close>.\<close>

lemma bridged_proxmox_is_worker:
  assumes "pf_type p = PtProxmoxVe" "platform_to_entities p = (pe, ne, d)"
  shows "''worker'' \<in> set (infer_capability_tags pe []) \<and> ''manager'' \<notin> set (infer_capability_tags pe [])
    \<and> infer_node_role pe (infer_capability_tags pe []) = ''compute''"
proof -
  have attrs: "jm_get (en_attrs pe) k = None" if "k \<in> {''manager_status'', ''role'', ''node_role'', ''platform_type'', ''array_state''}" for k
    using assms(2) that by (auto simp: platform_to_entities_def Let_def opt_member_def split: option.splits)
  have kind: "en_kind pe = ''platform''" using assms(2) by (auto simp: platform_to_entities_def Let_def)
  have "\<not> is_manager pe" using attrs by (simp add: is_manager_def attr_str_def str_of_def)
  moreover have "\<not> has_array pe []" using attrs by (simp add: has_array_def)
  ultimately show ?thesis
    using attrs kind by (simp add: tag_iff is_compute_def infer_node_role_def attr_str_def str_of_def Let_def)
qed

text \<open>The window is opened before the observation is saved: one that could not be written is held for a
  duplicate as long as the window lasts.\<close>

lemma failed_save_silences:
  assumes "build_observation (se_uuid env n) ts ev = Some obs" "\<not> se_disk env n"
    and "\<not> seen_within (se_window env) t (rw_dedup w) (key_of obs)" "emit_events env ts t n [ev] w = (w', k)"
  shows "k = 0 \<and> rw_store w' = rw_store w \<and> jm_get (rw_dedup w') (key_of obs) = Some t"
  using assms by (auto simp: is_duplicate_cases save_observation_def store_simps split: prod.splits option.splits)

section \<open>A sweep on concrete data\<close>

text \<open>One Unraid host answers and reports nothing; the graph knows a service of it that was last seen at
  time 0; the sweep starts at time 10, the time after which an entity is gone.\<close>

definition demo_inventory :: inventory_file where
  "demo_inventory = Content (render (inventory_json [demo_platform]))"

definition demo_lost :: entity where
  "demo_lost = (demo_entity ''s'' ''service'' [])\<lparr>en_platform := Some ''nas-1'', en_seen := rt_iso demo_rt 0\<rparr>"

definition demo_sweep :: "unit sweep_env" where
  "demo_sweep = \<lparr>se_enum = \<lparr>ee_yaml = demo_yaml,
       ee_registry = register_enumerator ''unraid'' (\<lambda>c p ts. Inr ([], [])) [],
       ee_connect = (\<lambda>i. Inr ()), ee_inventory = demo_inventory, ee_write = (\<lambda>n. True)\<rparr>,
     se_rt = demo_rt, se_thresholds = \<lparr>rt_stale = 5, rt_gone = 10\<rparr>, se_window = 100,
     se_uuid = (\<lambda>n. replicate n (CHR ''u'')), se_disk = (\<lambda>n. True)\<rparr>"

definition demo_world :: refresh_world where
  "demo_world = \<lparr>rw_graph = Content (render (graph_json \<lparr>gr_entities = [demo_lost], gr_edges = []\<rparr>)), rw_ticks = 0,
     rw_dedup = [], rw_store = \<lparr>os_files = [], os_blocked = None\<rparr>\<rparr>"

lemma demo_inventory_read: "read_inventory demo_yaml demo_inventory = Inr [demo_platform]"
proof -
  have good: "list_all platform_plain [demo_platform]" "list_all (platform_valid demo_yaml) [demo_platform]"
    by (simp_all add: platform_valid_def demo_platform_def platform_plain_def id_pattern_def port_ok_def
        demo_yaml_def is_lower_def is_digit_def)
  have json: "is_json (inventory_json [demo_platform])" using good(1) is_json_inventory by blast
  have "\<exists>r. write_inventory demo_yaml True [demo_platform] Absent = (demo_inventory, r) \<and> r = Inr ()"
  proof -
    obtain f' r where w: "write_inventory demo_yaml True [demo_platform] Absent = (f', r)" by fastforce
    have "r = Inr ()"
      using write_inventory_result(2) [OF demo_yaml_ok(1) good(1) w] good(2) json demo_yaml_ok(2) by simp
    then show ?thesis using w json
      by (auto simp: write_inventory_def demo_inventory_def demo_yaml_def split: if_splits)
  qed
  then show ?thesis using write_inventory_result(1) [OF demo_yaml_ok(1) good(1)] by fastforce
qed

lemma demo_graph_read:
  "read_graph demo_yaml (rw_graph demo_world) = Inr \<lparr>gr_entities = [demo_lost], gr_edges = []\<rparr>"
proof -
  have "rt_iso demo_rt 0 \<noteq> []" by (simp add: demo_rt_def)
  then show ?thesis
    unfolding demo_world_def
    by (simp add: demo_file graph_valid_def graph_plain_def entity_valid_def entity_plain_def demo_lost_def
        demo_entity_def demo_yaml_def [THEN arg_cong [where f = ya_date_time]])
qed

lemma demo_sweep_simps [simp]:
  "ee_yaml (se_enum demo_sweep) = demo_yaml" "se_rt demo_sweep = demo_rt" "se_window demo_sweep = 100"
  "se_thresholds demo_sweep = \<lparr>rt_stale = 5, rt_gone = 10\<rparr>" "se_uuid demo_sweep = (\<lambda>n. replicate n (CHR ''u''))"
  "se_disk demo_sweep n" "rw_dedup demo_world = []"
  by (simp_all add: demo_sweep_def demo_world_def)

lemma demo_sweep_ok: "enum_works (se_enum demo_sweep)" "enumerators_plain (se_enum demo_sweep)" "inj (se_uuid demo_sweep)"
proof -
  show "enum_works (se_enum demo_sweep)" using demo_yaml_ok by (simp add: enum_works_def demo_sweep_def)
  show "enumerators_plain (se_enum demo_sweep)"
    by (auto simp: enumerators_plain_def demo_sweep_def get_enumerator_def register_enumerator_def split: if_splits)
  show "inj (se_uuid demo_sweep)" by (auto simp: inj_def replicate_eq_replicate)
qed

lemma demo_enumerate:
  "deep_enumerate (se_enum demo_sweep) None ts demo_world =
    (demo_world, Inr \<lparr>er_summaries = [\<lparr>ps_platform = ''nas-1'', ps_kind = ''unraid'', ps_ok = True, ps_entities = 0,
       ps_edges = 0, ps_error = None\<rparr>], er_entities = 0, er_edges = 0\<rparr>)"
  using demo_inventory_read
  by (simp add: deep_enumerate_def list_platforms_def demo_sweep_def enumerate_platform_def get_enumerator_def
      register_enumerator_def demo_platform_def Let_def)

lemma demo_lost_simps [simp]:
  "en_id demo_lost = ''s''" "en_kind demo_lost = ''service''" "en_attrs demo_lost = []" "en_status demo_lost = Active"
  "en_platform demo_lost = Some ''nas-1''"
  by (simp_all add: demo_lost_def demo_entity_def)

lemma demo_status: "entity_status demo_sweep 10 [''nas-1''] demo_lost = Some Gone"
  by (simp add: entity_status_def of_platforms_def next_status_def age_at_least_def demo_lost_def demo_entity_def)

lemma demo_sweep_returns:
  "\<exists>w' res. sweep demo_sweep None 10 ts demo_world = (w', Inr res) \<and> sw_events res = [DeGone (demo_lost\<lparr>en_status := Gone\<rparr>)]"
proof -
  have read: "read_graph (ee_yaml (se_enum demo_sweep)) (rw_graph demo_world) = Inr \<lparr>gr_entities = [] @ [demo_lost], gr_edges = []\<rparr>"
    using demo_graph_read by simp
  from reconcile_entities_exact [OF demo_sweep_ok(1) this, of 10 "[''nas-1'']"] obtain w2 where w2:
      "reconcile_entities demo_sweep 10 [''nas-1''] [demo_lost] demo_world = (w2, Inr (0, 1))"
      "read_graph demo_yaml (rw_graph w2) = Inr \<lparr>gr_entities = [demo_lost\<lparr>en_status := Gone\<rparr>], gr_edges = []\<rparr>"
    by (auto simp: demo_status mark_def)
  obtain w4 k where em: "emit_events demo_sweep (rt_iso demo_rt 10) 10 0 [DeGone (demo_lost\<lparr>en_status := Gone\<rparr>)] w2 = (w4, k)"
    by fastforce
  have "compute_diff (entity_by_id [demo_lost]) [demo_lost\<lparr>en_status := Gone\<rparr>] [''nas-1''] = [DeGone (demo_lost\<lparr>en_status := Gone\<rparr>)]"
    by (simp add: compute_diff_def entity_events_def of_platforms_def entity_by_id_get lookup_by_def)
  then show ?thesis
    using em w2 demo_graph_read
    by (simp add: sweep_def all_graph_def demo_enumerate Let_def del: reconcile_entities.simps emit_events.simps)
qed

lemma sweep_never_deletes_witness:
  "\<exists>g'. read_graph demo_yaml (rw_graph (fst (sweep demo_sweep None 10 ''t1'' demo_world))) = Inr g' \<and> Inl ''s'' \<in> ids_of g'"
proof -
  obtain w' r where run: "sweep demo_sweep None 10 ''t1'' demo_world = (w', r)" by fastforce
  show ?thesis
    using sweep_never_deletes [of demo_sweep demo_world _ None 10 "''t1''" w' r] demo_yaml_ok(1) demo_sweep_ok(2)
      demo_graph_read run
    by (auto simp: ids_of_def demo_lost_def demo_entity_def)
qed


lemma sweep_reports_drift_witness:
  "\<exists>w' res. sweep demo_sweep None 10 ''t1'' demo_world = (w', Inr res)
     \<and> stored_key (rw_store w') ''nas-1:entity_gone:service/s''"
proof -
  obtain w' res where run: "sweep demo_sweep None 10 ''t1'' demo_world = (w', Inr res)"
      "sw_events res = [DeGone (demo_lost\<lparr>en_status := Gone\<rparr>)]"
    using demo_sweep_returns by blast
  have key: "event_key (DeGone (demo_lost\<lparr>en_status := Gone\<rparr>)) = Some ''nas-1:entity_gone:service/s''"
    by (simp add: drift_observation_def demo_lost_def demo_entity_def Let_def)
  have "stored_key (rw_store w') ''nas-1:entity_gone:service/s''
      \<or> seen_within (se_window demo_sweep) 10 (rw_dedup demo_world) ''nas-1:entity_gone:service/s''"
    by (rule sweep_reports_drift [OF _ demo_sweep_ok(2) _ _ demo_sweep_ok(3) _ run(1) _ key])
      (use demo_yaml_ok(1) demo_graph_read run(2) in simp_all)
  then show ?thesis using run(1) by (simp add: seen_within_def)
qed

end
