(* ===== verification/Vault.thy ===== *)
theory Vault
  imports Json Complex_Main
begin

text \<open>
  The Vault secret resolver (\<open>secrets/vault-resolver.ts\<close>, \<open>errors.ts\<close>, \<open>types.ts\<close>): AppRole and token login,
  the cached token, and the reading of one field of a KV version 2 secret. What the server answers to the
  n-th request is a parameter; a body has the type the source casts it to.
\<close>

section \<open>Errors\<close>

text \<open>The arguments of the constructors with the message of the cause; \<open>Raw\<close> is an error of \<open>fetch\<close> or of
  \<open>json()\<close> that no branch wraps, with its name.\<close>

datatype vault_error =
    VaultUnreachable string string "string option"
  | VaultAuth string "string option" "string option"
  | VaultPermission string
  | SecretMissing string string
  | Raw string string

fun vault_message :: "vault_error \<Rightarrow> string" where
  "vault_message (VaultUnreachable address auth_method cause) = ''vault unreachable: '' @ address @ '' via '' @ auth_method"
| "vault_message (VaultAuth auth_method role_env secret_env) =
     ''vault auth failed: '' @ auth_method
       @ (case (role_env, secret_env) of (Some r, Some s) \<Rightarrow> ''; check '' @ r @ ''/'' @ s | _ \<Rightarrow> [])"
| "vault_message (VaultPermission path) = ''vault permission denied: cannot read '' @ path"
| "vault_message (SecretMissing path name) = ''vault path '' @ path @ '' missing field '' @ name"
| "vault_message (Raw name m) = m"

fun exit_code :: "vault_error \<Rightarrow> nat option" where
  "exit_code (VaultUnreachable a m c) = Some 20"
| "exit_code (VaultAuth m r s) = Some 21"
| "exit_code (VaultPermission p) = Some 22"
| "exit_code (SecretMissing p f) = Some 23"
| "exit_code (Raw n m) = None"

section \<open>State and server\<close>

datatype auth_method = AppRole | TokenAuth | Oidc | KubernetesAuth

fun method_str :: "auth_method \<Rightarrow> string" where
  "method_str AppRole = ''approle''"
| "method_str TokenAuth = ''token''"
| "method_str Oidc = ''oidc''"
| "method_str KubernetesAuth = ''kubernetes''"

record vault_config =
  vc_address :: string
  vc_method :: auth_method
  vc_approle :: "(string \<times> string) option"

record credential_ref =
  cr_path :: string
  cr_field :: string

record resolved_secret =
  rs_value :: string
  rs_hash :: string
  rs_ref :: credential_ref

text \<open>The body of a login and of a read: \<open>auth\<close> with \<open>client_token\<close> and \<open>lease_duration\<close>, and \<open>data\<close> with its
  \<open>data\<close> and the \<open>version\<close> of its \<open>metadata\<close>.\<close>

record vault_body =
  bo_auth :: "(string option \<times> int option) option"
  bo_data :: "((string \<times> string) list option \<times> int option) option"

datatype answer = Rejected string string | TimedOut | Answered nat "vault_body option"

record request =
  rq_url :: string
  rq_method :: string
  rq_headers :: "(string \<times> string) list"
  rq_body :: "string option"

record vault =
  va_cache :: "(string \<times> rat) option"
  va_sent :: "request list"

record vault_env =
  ve_config :: vault_config
  ve_vars :: "string \<Rightarrow> string option"
  ve_server :: "nat \<Rightarrow> answer"
  ve_ratio :: rat
  ve_sha256 :: "string \<Rightarrow> string"

definition unreachable_error :: "vault_env \<Rightarrow> string option \<Rightarrow> vault_error" where
  "unreachable_error env cause = VaultUnreachable (vc_address (ve_config env)) (method_str (vc_method (ve_config env))) cause"

definition auth_error :: "vault_env \<Rightarrow> string option \<Rightarrow> string option \<Rightarrow> vault_error" where
  "auth_error env r s = VaultAuth (method_str (vc_method (ve_config env))) r s"

section \<open>Operations\<close>

text \<open>A request; an abort and the timeout become \<open>VaultUnreachableError\<close>, other failures pass.\<close>

definition do_fetch :: "vault_env \<Rightarrow> request \<Rightarrow> vault \<Rightarrow> vault \<times> (vault_error + nat \<times> vault_body option)" where
  "do_fetch env rq v =
    (v\<lparr>va_sent := va_sent v @ [rq]\<rparr>,
     case ve_server env (length (va_sent v)) of
       Answered st body \<Rightarrow> Inr (st, body)
     | TimedOut \<Rightarrow> Inl (unreachable_error env (Some ''Vault request timed out''))
     | Rejected name m \<Rightarrow> if name = ''AbortError'' then Inl (unreachable_error env (Some m)) else Inl (Raw name m))"

definition ok_status :: "nat \<Rightarrow> bool" where
  "ok_status st \<longleftrightarrow> 200 \<le> st \<and> st \<le> 299"

definition not_json :: vault_error where
  "not_json = Raw ''SyntaxError'' ''Unexpected token''"

definition login_request :: "vault_env \<Rightarrow> string \<Rightarrow> string \<Rightarrow> request" where
  "login_request env role_id secret_id =
    \<lparr>rq_url = vc_address (ve_config env) @ ''/v1/auth/approle/login'', rq_method = ''POST'',
     rq_headers = [(''Content-Type'', ''application/json'')],
     rq_body = Some (render (JObj [(''role_id'', JStr role_id), (''secret_id'', JStr secret_id)]))\<rparr>"

definition login_approle :: "vault_env \<Rightarrow> int \<Rightarrow> vault \<Rightarrow> vault \<times> (vault_error + string)" where
  "login_approle env t v =
    (case vc_approle (ve_config env) of
       None \<Rightarrow> (v, Inl (auth_error env None None))
     | Some (re, se) \<Rightarrow>
         (case (ve_vars env re, ve_vars env se) of
            (Some role_id, Some secret_id) \<Rightarrow>
              if role_id = [] \<or> secret_id = [] then (v, Inl (auth_error env (Some re) (Some se)))
              else (case do_fetch env (login_request env role_id secret_id) v of
                 (v1, Inl (VaultAuth m r s)) \<Rightarrow> (v1, Inl (VaultAuth m r s))
               | (v1, Inl e) \<Rightarrow> (v1, Inl (unreachable_error env (Some (vault_message e))))
               | (v1, Inr (st, body)) \<Rightarrow>
                   if st = 400 \<or> st = 403 then (v1, Inl (auth_error env (Some re) (Some se)))
                   else if \<not> ok_status st then (v1, Inl (unreachable_error env None))
                   else (case body of
                      None \<Rightarrow> (v1, Inl not_json)
                    | Some b \<Rightarrow>
                        let token = (case bo_auth b of Some (tok, _) \<Rightarrow> tok | None \<Rightarrow> None);
                            lease = (case bo_auth b of Some (_, Some n) \<Rightarrow> n | _ \<Rightarrow> 3600) in
                        (case token of
                           None \<Rightarrow> (v1, Inl (auth_error env (Some re) (Some se)))
                         | Some tok \<Rightarrow>
                             if tok = [] then (v1, Inl (auth_error env (Some re) (Some se)))
                             else (v1\<lparr>va_cache := Some (tok, of_int t + of_int lease * ve_ratio env * 1000)\<rparr>, Inr tok))))
          | _ \<Rightarrow> (v, Inl (auth_error env (Some re) (Some se)))))"

definition login :: "vault_env \<Rightarrow> int \<Rightarrow> vault \<Rightarrow> vault \<times> (vault_error + string)" where
  "login env t v =
    (case vc_method (ve_config env) of
       AppRole \<Rightarrow> login_approle env t v
     | TokenAuth \<Rightarrow>
         (case ve_vars env ''VAULT_TOKEN'' of
            Some tok \<Rightarrow>
              if tok = [] then (v, Inl (auth_error env (Some ''VAULT_TOKEN'') None))
              else (v\<lparr>va_cache := Some (tok, of_int (t + 24 * 60 * 60 * 1000))\<rparr>, Inr tok)
          | None \<Rightarrow> (v, Inl (auth_error env (Some ''VAULT_TOKEN'') None)))
     | _ \<Rightarrow> (v, Inl (auth_error env None None)))"

text \<open>\<open>t\<close> is the time of the call, \<open>t1\<close> the time when a login has answered.\<close>

definition get_token :: "vault_env \<Rightarrow> int \<Rightarrow> int \<Rightarrow> vault \<Rightarrow> vault \<times> (vault_error + string)" where
  "get_token env t t1 v =
    (case va_cache v of
       Some (tok, expires) \<Rightarrow> if of_int t < expires then (v, Inr tok) else login env t1 v
     | None \<Rightarrow> login env t1 v)"

definition compute_ref_hash :: "vault_env \<Rightarrow> string \<Rightarrow> string \<Rightarrow> int \<Rightarrow> string" where
  "compute_ref_hash env path name version =
    ''sha256:'' @ ve_sha256 env (''vault:'' @ path @ '':'' @ name @ '':'' @ int_str version)"

definition read_request :: "vault_env \<Rightarrow> string \<Rightarrow> credential_ref \<Rightarrow> request" where
  "read_request env token ref =
    \<lparr>rq_url = vc_address (ve_config env) @ ''/v1/'' @ cr_path ref, rq_method = ''GET'',
     rq_headers = [(''X-Vault-Token'', token)], rq_body = None\<rparr>"

definition read_secret :: "vault_env \<Rightarrow> credential_ref \<Rightarrow> nat \<Rightarrow> vault_body option \<Rightarrow> vault_error + resolved_secret" where
  "read_secret env ref st body =
    (if st = 403 then Inl (VaultPermission (cr_path ref))
     else if st = 404 then Inl (SecretMissing (cr_path ref) (cr_field ref))
     else if st \<ge> 500 then Inl (unreachable_error env None)
     else if \<not> ok_status st then Inl (unreachable_error env None)
     else (case body of
        None \<Rightarrow> Inl not_json
      | Some b \<Rightarrow>
          (case bo_data b of
             Some (Some kvs, version) \<Rightarrow>
               (case map_of kvs (cr_field ref) of
                  None \<Rightarrow> Inl (SecretMissing (cr_path ref) (cr_field ref))
                | Some raw \<Rightarrow> Inr \<lparr>rs_value = raw,
                    rs_hash = compute_ref_hash env (cr_path ref) (cr_field ref) (case version of Some n \<Rightarrow> n | None \<Rightarrow> 0),
                    rs_ref = ref\<rparr>)
           | _ \<Rightarrow> Inl (SecretMissing (cr_path ref) (cr_field ref)))))"

definition resolve :: "vault_env \<Rightarrow> int \<Rightarrow> int \<Rightarrow> credential_ref \<Rightarrow> vault \<Rightarrow> vault \<times> (vault_error + resolved_secret)" where
  "resolve env t t1 ref v =
    (case get_token env t t1 v of
       (v1, Inl e) \<Rightarrow> (v1, Inl e)
     | (v1, Inr token) \<Rightarrow>
         (case do_fetch env (read_request env token ref) v1 of
            (v2, Inl (Raw name m)) \<Rightarrow> (v2, Inl (unreachable_error env (Some m)))
          | (v2, Inl e) \<Rightarrow> (v2, Inl e)
          | (v2, Inr (st, body)) \<Rightarrow> (v2, read_secret env ref st body)))"

definition ping :: "vault_env \<Rightarrow> vault \<Rightarrow> vault \<times> (vault_error + unit)" where
  "ping env v =
    (case do_fetch env \<lparr>rq_url = vc_address (ve_config env) @ ''/v1/sys/health'', rq_method = ''GET'', rq_headers = [],
        rq_body = None\<rparr> v of
       (v1, Inl (Raw name m)) \<Rightarrow> (v1, Inl (unreachable_error env (Some m)))
     | (v1, Inl e) \<Rightarrow> (v1, Inl e)
     | (v1, Inr (st, body)) \<Rightarrow>
         (v1, if st \<in> {200, 429, 473} \<or> st \<in> {501, 503} then Inr () else Inl (unreachable_error env None)))"

definition dispose :: "vault \<Rightarrow> vault" where
  "dispose v = v\<lparr>va_cache := None\<rparr>"

section \<open>Tokens\<close>

text \<open>What the requests carry: only a login has the role and the secret id, only a read the token, and all
  of them go to the configured address.\<close>

definition to_server :: "vault_env \<Rightarrow> request \<Rightarrow> bool" where
  "to_server env rq \<longleftrightarrow> (\<exists>rest. rq_url rq = vc_address (ve_config env) @ ''/v1/'' @ rest)"

text \<open>The requests one login sends, the token it gives, and until when it is used.\<close>

definition login_token :: "vault_env \<Rightarrow> int \<Rightarrow> nat \<Rightarrow> (string \<times> rat) option" where
  "login_token env t n =
    (case vc_method (ve_config env) of
       TokenAuth \<Rightarrow>
         (case ve_vars env ''VAULT_TOKEN'' of
            Some tok \<Rightarrow> if tok = [] then None else Some (tok, of_int (t + 24 * 60 * 60 * 1000))
          | None \<Rightarrow> None)
     | AppRole \<Rightarrow>
         (case ve_server env n of
            Answered st (Some b) \<Rightarrow>
              (case bo_auth b of
                 Some (Some tok, lease) \<Rightarrow>
                   if ok_status st \<and> tok \<noteq> []
                   then Some (tok, of_int t + of_int (case lease of Some l \<Rightarrow> l | None \<Rightarrow> 3600) * ve_ratio env * 1000)
                   else None
               | _ \<Rightarrow> None)
          | _ \<Rightarrow> None)
     | _ \<Rightarrow> None)"

lemma login_gives:
  assumes "login env t v = (v1, Inr tok)"
  shows "\<exists>expires. login_token env t (length (va_sent v)) = Some (tok, expires) \<and> va_cache v1 = Some (tok, expires)"
  using assms
  by (auto simp: login_def login_approle_def login_token_def do_fetch_def ok_status_def Let_def
      split: auth_method.splits option.splits prod.splits if_splits answer.splits vault_error.splits sum.splits)

datatype vault_op = Resolve int int credential_ref | Ping | Dispose

fun vault_step :: "vault_env \<Rightarrow> vault_op \<Rightarrow> vault \<Rightarrow> vault" where
  "vault_step env (Resolve t t1 ref) v = fst (resolve env t t1 ref v)"
| "vault_step env Ping v = fst (ping env v)"
| "vault_step env Dispose v = dispose v"

definition new_vault :: vault where
  "new_vault = \<lparr>va_cache = None, va_sent = []\<rparr>"

abbreviation vault_run :: "vault_env \<Rightarrow> vault_op list \<Rightarrow> vault" where
  "vault_run env ops \<equiv> fold (vault_step env) ops new_vault"

text \<open>The n-th request was that of a login, when the method sends one.\<close>

definition login_sent :: "vault_env \<Rightarrow> request list \<Rightarrow> nat \<Rightarrow> bool" where
  "login_sent env sent n \<longleftrightarrow> vc_method (ve_config env) = AppRole \<longrightarrow>
     n < length sent \<and> (\<exists>role_id secret_id. sent ! n = login_request env role_id secret_id)"

text \<open>
  The token and its time are those of the login in one of the operations so far, a resolve whose login
  answered at \<open>s1\<close>, after which nothing was disposed: \<open>later\<close> are the operations since then.
\<close>

definition given_by_login :: "vault_env \<Rightarrow> vault_op list \<Rightarrow> request list \<Rightarrow> string \<Rightarrow> rat \<Rightarrow> vault_op list \<Rightarrow> bool" where
  "given_by_login env ops sent tok expires later \<longleftrightarrow>
     (\<exists>before s s1 r. ops = before @ Resolve s s1 r # later \<and> Dispose \<notin> set later
        \<and> login_token env s1 (length (va_sent (vault_run env before))) = Some (tok, expires)
        \<and> login_sent env sent (length (va_sent (vault_run env before))))"

lemma login_sent_more: "login_sent env sent n \<Longrightarrow> login_sent env (sent @ xs) n"
  by (auto simp: login_sent_def nth_append)

lemma given_later:
  "given_by_login env ops sent tok e later \<Longrightarrow> op \<noteq> Dispose
   \<Longrightarrow> given_by_login env (ops @ [op]) (sent @ xs) tok e (later @ [op])"
  unfolding given_by_login_def using login_sent_more by fastforce

text \<open>The messages a failure may have, but for the body that is not JSON.\<close>

definition config_messages :: "vault_env \<Rightarrow> credential_ref \<Rightarrow> string list" where
  "config_messages env ref =
    (let m = method_str (vc_method (ve_config env)) in
     [''vault unreachable: '' @ vc_address (ve_config env) @ '' via '' @ m, ''vault auth failed: '' @ m,
      ''vault permission denied: cannot read '' @ cr_path ref,
      ''vault path '' @ cr_path ref @ '' missing field '' @ cr_field ref]
     @ (case vc_approle (ve_config env) of Some (r, s) \<Rightarrow> [''vault auth failed: '' @ m @ ''; check '' @ r @ ''/'' @ s] | None \<Rightarrow> []))"

lemma config_message:
  "vault_message (unreachable_error env c) \<in> set (config_messages env ref)"
  "vault_message (auth_error env None None) \<in> set (config_messages env ref)"
  "vault_message (auth_error env (Some r) None) \<in> set (config_messages env ref)"
  "vc_approle (ve_config env) = Some (r, s) \<Longrightarrow> vault_message (auth_error env (Some r) (Some s)) \<in> set (config_messages env ref)"
  "vault_message (VaultPermission (cr_path ref)) \<in> set (config_messages env ref)"
  "vault_message (SecretMissing (cr_path ref) (cr_field ref)) \<in> set (config_messages env ref)"
  by (simp_all add: config_messages_def unreachable_error_def auth_error_def Let_def)

lemma do_fetch_error:
  "do_fetch env rq v = (v1, Inl e) \<Longrightarrow> (\<exists>c. e = unreachable_error env c) \<or> (\<exists>name m. e = Raw name m)"
  by (auto simp: do_fetch_def split: answer.splits if_splits)

lemma login_sends:
  assumes "login env t v = (v1, r)"
  shows "va_sent v1 = va_sent v \<or> (\<exists>role_id secret_id. va_sent v1 = va_sent v @ [login_request env role_id secret_id])"
  using assms
  by (auto simp: login_def login_approle_def do_fetch_def unreachable_error_def Let_def
      split: auth_method.splits option.splits prod.splits if_splits answer.splits) blast+

lemma login_fails:
  assumes "login env t v = (v1, Inl e)"
  shows "va_cache v1 = va_cache v" "e = not_json \<or> vault_message e \<in> set (config_messages env ref)"
  using assms config_message [where env = env]
  by (auto simp: login_def login_approle_def do_fetch_def Let_def
      split: auth_method.splits option.splits prod.splits if_splits answer.splits vault_error.splits sum.splits
      simp del: vault_message.simps)

lemma login_request_simps [simp]:
  "to_server env (login_request env i s)" "map_of (rq_headers (login_request env i s)) ''X-Vault-Token'' = None"
  by (simp_all add: to_server_def login_request_def)

lemma do_fetch_simps [simp]:
  "va_cache (fst (do_fetch env rq v)) = va_cache v" "va_sent (fst (do_fetch env rq v)) = va_sent v @ [rq]"
  by (simp_all add: do_fetch_def)

lemma resolve_state:
  "fst (resolve env t t1 ref v) =
    (case get_token env t t1 v of (v1, Inl e) \<Rightarrow> v1 | (v1, Inr tok) \<Rightarrow> fst (do_fetch env (read_request env tok ref) v1))"
  by (auto simp: resolve_def split: prod.splits sum.splits vault_error.splits)

lemma login_sends_request:
  assumes "login env t v = (v1, Inr tok)"
  shows "login_sent env (va_sent v1) (length (va_sent v))"
proof (cases "vc_method (ve_config env) = AppRole")
  case True
  obtain role_id secret_id v2 x where "do_fetch env (login_request env role_id secret_id) v = (v2, x)"
    "va_sent v1 = va_sent v2"
    using assms True
    by (auto simp: login_def login_approle_def Let_def
        split: option.splits prod.splits if_splits sum.splits vault_error.splits)
  with do_fetch_simps(2) [of env "login_request env role_id secret_id" v]
  have "va_sent v1 = va_sent v @ [login_request env role_id secret_id]" by simp
  then show ?thesis unfolding login_sent_def by auto
qed (simp add: login_sent_def)

lemma get_token_cases:
  assumes "get_token env t t1 v = (v1, r)"
  obtains (cached) expires tok where "va_cache v = Some (tok, expires)" "of_int t < expires" "v1 = v" "r = Inr tok"
    | (login) "login env t1 v = (v1, r)"
proof (cases "\<exists>tok expires. va_cache v = Some (tok, expires) \<and> of_int t < expires")
  case True
  then obtain tok expires where c: "va_cache v = Some (tok, expires)" "of_int t < expires" by blast
  then have "get_token env t t1 v = (v, Inr tok)" by (simp add: get_token_def)
  then have "v1 = v" "r = Inr tok" using assms by simp_all
  with c show ?thesis by (rule cached)
next
  case False
  then have "get_token env t t1 v = login env t1 v"
    by (simp add: get_token_def split: option.split prod.split)
  then show ?thesis using assms login by simp
qed

lemma get_token_sends:
  assumes "get_token env t t1 v = (v1, r)"
  shows "va_sent v1 = va_sent v \<or> (\<exists>role_id secret_id. va_sent v1 = va_sent v @ [login_request env role_id secret_id])"
  using assms by (cases rule: get_token_cases) (auto dest: login_sends)

lemma step_sends: "\<exists>xs. va_sent (vault_step env op v) = va_sent v @ xs"
proof (cases op)
  case (Resolve t t1 ref)
  obtain v1 r where g: "get_token env t t1 v = (v1, r)" by fastforce
  with get_token_sends [OF g] show ?thesis by (cases r) (auto simp: Resolve resolve_state)
next
  case Ping
  then show ?thesis
    by (auto simp: ping_def do_fetch_def split: prod.splits sum.splits vault_error.splits answer.splits)
qed (simp add: dispose_def)

text \<open>What a login in the last operation gives, and a cached token.\<close>

lemma given_now:
  assumes "login env t1 (vault_run env ops) = (v1, Inr tok)"
  shows "\<exists>expires. va_cache v1 = Some (tok, expires)
    \<and> given_by_login env (ops @ [Resolve t t1 ref]) (va_sent v1 @ xs) tok expires []"
  using login_gives [OF assms] login_sent_more [OF login_sends_request [OF assms]]
  unfolding given_by_login_def by fastforce

lemma cache_given:
  assumes "va_cache (vault_run env ops) = Some (tok, expires)"
  shows "\<exists>later. given_by_login env ops (va_sent (vault_run env ops)) tok expires later"
  using assms
proof (induction ops rule: rev_induct)
  case (snoc op ops)
  let ?v = "vault_run env ops"
  obtain xs where xs: "va_sent (vault_step env op ?v) = va_sent ?v @ xs" using step_sends by blast
  have kept: ?case if "va_cache ?v = Some (tok, expires)" "op \<noteq> Dispose"
    unfolding fold_append o_def fold_simps xs using snoc.IH [OF that(1)] given_later [OF _ that(2)] by blast
  show ?case
  proof (cases op)
    case (Resolve t t1 ref)
    obtain v1 r where g: "get_token env t t1 ?v = (v1, r)" by fastforce
    then have c1: "va_cache v1 = Some (tok, expires)"
      using snoc.prems Resolve by (cases r) (simp_all add: resolve_state)
    obtain rest where rest: "va_sent (vault_step env op ?v) = va_sent v1 @ rest"
      using g Resolve by (cases r) (simp_all add: resolve_state)
    from g show ?thesis
    proof (cases rule: get_token_cases)
      case cached
      with c1 kept Resolve show ?thesis by simp
    next
      case login
      show ?thesis
      proof (cases r)
        case (Inl e)
        then show ?thesis using login_fails(1) [of env t1 ?v v1 e] login c1 kept Resolve by simp
      next
        case (Inr tok')
        then show ?thesis using given_now [of env t1 ops v1 tok' t ref rest] login c1 rest Resolve by auto
      qed
    qed
  next
    case Ping
    have "va_cache (fst (ping env ?v)) = va_cache ?v"
      by (auto simp: ping_def do_fetch_def split: prod.splits sum.splits vault_error.splits answer.splits)
    then show ?thesis using snoc.prems kept Ping by simp
  next
    case Dispose
    then show ?thesis using snoc.prems by (simp add: dispose_def)
  qed
qed (simp add: new_vault_def)

text \<open>
  C36: After any resolves, pings and disposals, one call after another, a read goes to the configured
  address. Its token was given by the login of one of these calls, after which the resolver was not
  disposed: for AppRole by the server's answer to the login request of that call, for the token method by
  the environment. Either that is the login of this very call, or the call begins before the time of that
  login plus the share of its lease (24 hours for the token method).
\<close>

lemma reads_carry_live_tokens:
  assumes "v = vault_run env ops" "resolve env t t1 ref v = (v', out)"
    and "va_sent v' = va_sent v @ reqs" "rq \<in> set reqs" "map_of (rq_headers rq) ''X-Vault-Token'' = Some tok"
  shows "to_server env rq \<and> (\<exists>expires later.
    given_by_login env (ops @ [Resolve t t1 ref]) (va_sent v') tok expires later \<and> (later = [] \<or> of_int t < expires))"
proof -
  obtain v1 r where g: "get_token env t t1 v = (v1, r)" by fastforce
  obtain rs where rs: "va_sent v1 = va_sent v @ rs" "\<forall>x \<in> set rs. map_of (rq_headers x) ''X-Vault-Token'' = None"
    using get_token_sends [OF g] by force
  show ?thesis
  proof (cases r)
    case (Inl e)
    then have "v' = v1" using assms(2) g by (simp add: resolve_def)
    then show ?thesis using assms(3-5) rs by auto
  next
    case (Inr tok')
    have sent: "va_sent v' = va_sent v1 @ [read_request env tok' ref]"
      using resolve_state [of env t t1 ref v] assms(2) g Inr by simp
    then have "reqs = rs @ [read_request env tok' ref]" using assms(3) rs(1) by simp
    then have rq: "rq = read_request env tok' ref" using assms(4,5) rs(2) by auto
    then have tok: "tok' = tok" "to_server env rq" using assms(5) by (auto simp: read_request_def to_server_def)
    from g have "\<exists>expires later. given_by_login env (ops @ [Resolve t t1 ref]) (va_sent v') tok expires later
        \<and> (later = [] \<or> of_int t < expires)"
    proof (cases rule: get_token_cases)
      case (cached expires tk)
      then obtain later where "given_by_login env ops (va_sent v) tok expires later"
        using cache_given [of env ops tok expires] assms(1) Inr tok by auto
      from given_later [OF this, of "Resolve t t1 ref" reqs] cached(2) show ?thesis
        using assms(3) by auto
    next
      case login
      then show ?thesis using given_now [of env t1 ops v1 tok t ref "[read_request env tok' ref]"] Inr tok sent assms(1) by auto
    qed
    with tok show ?thesis by simp
  qed
qed

section \<open>Results\<close>

lemma read_secret_exact:
  "case read_secret env ref st body of
      Inr s \<Rightarrow> \<exists>b kvs version. body = Some b \<and> ok_status st
        \<and> bo_data b = Some (Some kvs, version) \<and> map_of kvs (cr_field ref) = Some (rs_value s) \<and> rs_ref s = ref
        \<and> rs_hash s = compute_ref_hash env (cr_path ref) (cr_field ref) (case version of Some k \<Rightarrow> k | None \<Rightarrow> 0)
    | Inl e \<Rightarrow> e = not_json \<or> vault_message e \<in> set (config_messages env ref)"
  using config_message [where env = env]
  by (auto simp: read_secret_def split: if_splits option.splits prod.splits simp del: vault_message.simps)

text \<open>
  C37: A resolved secret is the field of the body of an answer between 200 and 299 to a read of its path,
  unchanged, with the hash of path, field and version; and the message of every failure names the address,
  the login method, the names of the environment variables, the path and the field, and never a token, an
  id or a value, except for the error of a body that is not JSON.
\<close>

lemma resolve_exact:
  assumes "resolve env t t1 ref v = (v', out)"
  shows "case out of
      Inr s \<Rightarrow> \<exists>n st b kvs version tok. ve_server env n = Answered st (Some b) \<and> ok_status st
        \<and> last (va_sent v') = read_request env tok ref \<and> length (va_sent v') = Suc n
        \<and> bo_data b = Some (Some kvs, version) \<and> map_of kvs (cr_field ref) = Some (rs_value s) \<and> rs_ref s = ref
        \<and> rs_hash s = compute_ref_hash env (cr_path ref) (cr_field ref) (case version of Some k \<Rightarrow> k | None \<Rightarrow> 0)
    | Inl e \<Rightarrow> e = not_json \<or> vault_message e \<in> set (config_messages env ref)"
proof -
  obtain v1 r where g: "get_token env t t1 v = (v1, r)" by fastforce
  show ?thesis
  proof (cases r)
    case (Inl e)
    then have "login env t1 v = (v1, Inl e)" using g by (auto simp: get_token_def split: option.splits if_splits)
    from login_fails(2) [OF this, of ref] show ?thesis using assms g Inl by (auto simp: resolve_def)
  next
    case (Inr tok)
    let ?rq = "read_request env tok ref" and ?n = "length (va_sent v1)"
    have out: "va_sent v' = va_sent v1 @ [?rq]" "out = (case snd (do_fetch env ?rq v1) of
        Inl (Raw name m) \<Rightarrow> Inl (unreachable_error env (Some m)) | Inl e \<Rightarrow> Inl e | Inr (st, body) \<Rightarrow> read_secret env ref st body)"
      using assms g Inr by (auto simp: resolve_def do_fetch_def split: answer.splits vault_error.splits if_splits)
    show ?thesis
    proof (cases "ve_server env ?n")
      case (Answered st body)
      then have "out = read_secret env ref st body" using out(2) by (simp add: do_fetch_def)
      then show ?thesis using read_secret_exact [where env = env and ref = ref and st = st and body = body] Answered out(1) by (fastforce split: sum.splits)
    qed (use out(2) config_message(1) [of env _ ref] in \<open>auto simp: do_fetch_def unreachable_error_def simp del: vault_message.simps\<close>)
  qed
qed

section \<open>Where the resolver falls short of its comments\<close>

text \<open>A token the server refuses stays in the cache, and the next call sends it again without a login.\<close>

lemma refused_token_kept:
  assumes "va_cache v = Some (tok, expires)" "of_int t < expires" "ve_server env (length (va_sent v)) = Answered 403 body"
  shows "snd (resolve env t t1 ref v) = Inl (VaultPermission (cr_path ref))
    \<and> va_cache (fst (resolve env t t1 ref v)) = Some (tok, expires)"
  using assms by (simp add: resolve_def get_token_def do_fetch_def read_secret_def)

text \<open>A health check answered with 400 or 403 is reported as an unreachable server.\<close>

lemma ping_denied:
  "ve_server env (length (va_sent v)) = Answered st body \<Longrightarrow> st = 400 \<or> st = 403
   \<Longrightarrow> snd (ping env v) = Inl (unreachable_error env None)"
  by (auto simp: ping_def do_fetch_def)

text \<open>The message for a missing \<open>VAULT_TOKEN\<close> does not name it.\<close>

lemma missing_token_unnamed: "vault_message (auth_error env (Some ''VAULT_TOKEN'') None) = vault_message (auth_error env None None)"
  by (simp add: auth_error_def)

section \<open>A resolver on concrete data\<close>

definition demo_vault :: vault_env where
  "demo_vault = \<lparr>ve_config = \<lparr>vc_address = ''http://v'', vc_method = AppRole, vc_approle = Some (''R'', ''S'')\<rparr>,
     ve_vars = (\<lambda>x. Some x),
     ve_server = (\<lambda>n. Answered 200 (Some \<lparr>bo_auth = Some (Some ''tok'', Some 10), bo_data = Some (Some [(''f'', ''pw'')], Some 2)\<rparr>)),
     ve_ratio = 9 / 10, ve_sha256 = (\<lambda>s. s)\<rparr>"

definition demo_ref :: credential_ref where
  "demo_ref = \<lparr>cr_path = ''p'', cr_field = ''f''\<rparr>"

lemma demo_first_resolve:
  "resolve demo_vault 0 0 demo_ref new_vault =
    (\<lparr>va_cache = Some (''tok'', 9000), va_sent = [login_request demo_vault ''R'' ''S'', read_request demo_vault ''tok'' demo_ref]\<rparr>,
     Inr \<lparr>rs_value = ''pw'', rs_hash = compute_ref_hash demo_vault ''p'' ''f'' 2, rs_ref = demo_ref\<rparr>)"
  by (simp add: resolve_def get_token_def new_vault_def login_def login_approle_def do_fetch_def demo_vault_def demo_ref_def
      ok_status_def read_secret_def Let_def)

lemma demo_second_resolve:
  "va_sent (fst (resolve demo_vault 8000 8000 demo_ref (fst (resolve demo_vault 0 0 demo_ref new_vault))))
     = va_sent (fst (resolve demo_vault 0 0 demo_ref new_vault)) @ [read_request demo_vault ''tok'' demo_ref]"
  by (simp add: demo_first_resolve resolve_state get_token_def)

lemma reads_carry_live_tokens_witness:
  "\<exists>expires later. given_by_login demo_vault [Resolve 0 0 demo_ref, Resolve 8000 8000 demo_ref]
       [login_request demo_vault ''R'' ''S'', read_request demo_vault ''tok'' demo_ref, read_request demo_vault ''tok'' demo_ref]
       ''tok'' expires later
    \<and> (later = [] \<or> 8000 < expires)"
proof -
  let ?v = "fst (resolve demo_vault 0 0 demo_ref new_vault)"
  have v: "?v = vault_run demo_vault [Resolve 0 0 demo_ref]" by simp
  show ?thesis
    using reads_carry_live_tokens [OF v prod.collapse [symmetric] demo_second_resolve, of "read_request demo_vault ''tok'' demo_ref" "''tok''"]
    unfolding demo_second_resolve by (simp add: read_request_def demo_first_resolve)
qed

lemma resolve_exact_witness:
  "\<exists>n st b kvs version. ve_server demo_vault n = Answered st (Some b) \<and> ok_status st \<and> bo_data b = Some (Some kvs, version)
     \<and> map_of kvs ''f'' = Some ''pw''"
  using resolve_exact [OF demo_first_resolve] by (simp add: demo_ref_def) blast

end
