(* ===== verification/Pool.thy ===== *)
theory Pool
  imports Redact
begin

text \<open>
  The connection pool (\<open>connection/pool.ts\<close>): cached connections with an idle time, a cap with eviction of
  the least recently used, and one connection attempt per platform at a time. Every call is a task that
  runs from one \<open>await\<close> to the next; an event starts a task or resumes one whose awaited operation has
  settled, in any order.
\<close>

section \<open>State\<close>

text \<open>A connection with its platform: connecting, connected, refused, or told to disconnect.\<close>

datatype life = Dialing | Open | Broken | Closed

datatype sweep_kind = CloseAll | ReapIdle

text \<open>Where a task waits. \<open>Closing\<close> and \<open>ClosingAudit\<close> are the eviction of a stale entry by \<open>getConnection\<close>,
  \<open>MakeClosing\<close> up to \<open>Settled\<close> the creation, \<open>Waiting\<close> the wait for a creation another task has begun.\<close>

datatype wait_phase =
    Idle
  | Closing string nat | ClosingAudit string
  | MakeClosing string nat | MakeAudit string | Connecting string nat | FailAudit string error | OpenAudit string nat
  | Settled string | Waiting string nat | Done
  | SweepClosing sweep_kind string nat "string list" | SweepAudit "string list"

record pool_env =
  pe_max :: nat
  pe_idle :: int
  pe_audit :: bool
  pe_factory :: "nat \<Rightarrow> string \<Rightarrow> error option"

record pool =
  po_entries :: "(string, nat \<times> int) jsmap"
  po_inflight :: "(string, nat) jsmap"
  po_conns :: "nat \<Rightarrow> (string \<times> life) option"
  po_next :: nat
  po_phase :: "nat \<Rightarrow> wait_phase"
  po_for :: "nat \<Rightarrow> string"
  po_made :: "nat \<Rightarrow> nat res option"
  po_out :: "nat \<Rightarrow> nat res option"
  po_log :: "(string \<times> string) list"

definition DEFAULT_IDLE_TIMEOUT_MS :: int where
  "DEFAULT_IDLE_TIMEOUT_MS = 5 * 60 * 1000"

definition DEFAULT_MAX_CONNECTIONS :: nat where
  "DEFAULT_MAX_CONNECTIONS = 50"

definition new_pool :: pool where
  "new_pool = \<lparr>po_entries = [], po_inflight = [], po_conns = (\<lambda>c. None), po_next = 0, po_phase = (\<lambda>k. Idle), po_for = (\<lambda>k. []),
     po_made = (\<lambda>k. None), po_out = (\<lambda>k. None), po_log = []\<rparr>"

definition pool_size :: "pool \<Rightarrow> nat" where
  "pool_size s = length (po_entries s)"

definition is_stale :: "pool_env \<Rightarrow> int \<Rightarrow> int \<Rightarrow> bool" where
  "is_stale env t used \<longleftrightarrow> t - used > pe_idle env"

section \<open>Segments\<close>

definition at :: "nat \<Rightarrow> wait_phase \<Rightarrow> pool \<Rightarrow> pool" where
  "at k p s = s\<lparr>po_phase := (po_phase s)(k := p)\<rparr>"

definition log_pool :: "pool_env \<Rightarrow> string \<Rightarrow> string \<Rightarrow> pool \<Rightarrow> pool" where
  "log_pool env e i s = (if pe_audit env then s\<lparr>po_log := po_log s @ [(e, i)]\<rparr> else s)"

text \<open>The first half of \<open>evict\<close>: the entry goes and its connection is told to disconnect.\<close>

definition drop_entry :: "string \<Rightarrow> nat \<Rightarrow> pool \<Rightarrow> pool" where
  "drop_entry i c s = s\<lparr>po_entries := jm_del i (po_entries s), po_conns := (po_conns s)(c := Some (i, Closed))\<rparr>"

text \<open>The loop of \<open>evictLRU\<close>: the first entry with the smallest stamp.\<close>

fun oldest :: "(string, nat \<times> int) jsmap \<Rightarrow> (string \<times> nat \<times> int) option" where
  "oldest [] = None"
| "oldest ((i, c, u) # es) =
     (case oldest es of
        None \<Rightarrow> Some (i, c, u)
      | Some (j, d, v) \<Rightarrow> if v < u then Some (j, d, v) else Some (i, c, u))"

text \<open>The creation settles: its promise has a result, and the task that began it has yet to clear the
  in-flight entry.\<close>

definition settle_creation :: "nat \<Rightarrow> string \<Rightarrow> nat res \<Rightarrow> pool \<Rightarrow> pool" where
  "settle_creation k i r s = at k (Settled i) (s\<lparr>po_made := (po_made s)(k := Some r)\<rparr>)"

definition dial :: "pool_env \<Rightarrow> nat \<Rightarrow> string \<Rightarrow> pool \<Rightarrow> pool" where
  "dial env k i s =
    (case pe_factory env k i of
       Some e \<Rightarrow> settle_creation k i (Inl e) s
     | None \<Rightarrow> at k (Connecting i (po_next s))
         (s\<lparr>po_conns := (po_conns s)(po_next s := Some (i, Dialing)), po_next := Suc (po_next s)\<rparr>))"

definition create_and_connect :: "pool_env \<Rightarrow> nat \<Rightarrow> string \<Rightarrow> pool \<Rightarrow> pool" where
  "create_and_connect env k i s =
    (if pool_size s \<ge> pe_max env
     then (case oldest (po_entries s) of
             Some (j, c, _) \<Rightarrow> at k (MakeClosing i c) (drop_entry j c s)
           | None \<Rightarrow> dial env k i s)
     else dial env k i s)"

text \<open>The second half of \<open>getConnection\<close>: join a creation in flight or begin one.\<close>

definition join_or_create :: "pool_env \<Rightarrow> nat \<Rightarrow> string \<Rightarrow> pool \<Rightarrow> pool" where
  "join_or_create env k i s =
    (case jm_get (po_inflight s) i of
       Some j \<Rightarrow> at k (Waiting i j) s
     | None \<Rightarrow> create_and_connect env k i (s\<lparr>po_inflight := jm_set i k (po_inflight s)\<rparr>))"

definition pool_finish :: "nat \<Rightarrow> nat res option \<Rightarrow> pool \<Rightarrow> pool" where
  "pool_finish k r s = at k Done (s\<lparr>po_out := (po_out s)(k := r)\<rparr>)"

definition pool_get :: "pool_env \<Rightarrow> nat \<Rightarrow> string \<Rightarrow> int \<Rightarrow> pool \<Rightarrow> pool" where
  "pool_get env k i t s =
    (let s = s\<lparr>po_for := (po_for s)(k := i)\<rparr> in
     case jm_get (po_entries s) i of
       Some (c, u) \<Rightarrow>
         if is_stale env t u then at k (Closing i c) (drop_entry i c s)
         else pool_finish k (Some (Inr c)) (s\<lparr>po_entries := jm_set i (c, t) (po_entries s)\<rparr>)
     | None \<Rightarrow> join_or_create env k i s)"

definition release_conn :: "string \<Rightarrow> int \<Rightarrow> pool \<Rightarrow> pool" where
  "release_conn i t s =
    (case jm_get (po_entries s) i of
       Some (c, u) \<Rightarrow> s\<lparr>po_entries := jm_set i (c, t) (po_entries s)\<rparr>
     | None \<Rightarrow> s)"

text \<open>The loops of \<open>closeAll\<close> and \<open>reapIdle\<close> up to the next disconnect.\<close>

fun sweep_on :: "pool_env \<Rightarrow> nat \<Rightarrow> sweep_kind \<Rightarrow> int \<Rightarrow> string list \<Rightarrow> pool \<Rightarrow> pool" where
  "sweep_on env k kind t [] s = pool_finish k None s"
| "sweep_on env k kind t (i # ids) s =
     (case jm_get (po_entries s) i of
        None \<Rightarrow> sweep_on env k kind t ids s
      | Some (c, u) \<Rightarrow>
          if kind = ReapIdle \<and> \<not> is_stale env t u then sweep_on env k kind t ids s
          else at k (SweepClosing kind i c ids) (drop_entry i c s))"

definition start_sweep :: "pool_env \<Rightarrow> nat \<Rightarrow> sweep_kind \<Rightarrow> int \<Rightarrow> pool \<Rightarrow> pool" where
  "start_sweep env k kind t s = sweep_on env k kind t (map fst (po_entries s)) s"

text \<open>A task resumes at time \<open>t\<close>; what it awaited failed with \<open>r\<close>, or did not. Failed disconnects and failed
  audits of a closing are swallowed, a failed audit of an opening is not.\<close>

definition resume :: "pool_env \<Rightarrow> nat \<Rightarrow> int \<Rightarrow> error option \<Rightarrow> pool \<Rightarrow> pool" where
  "resume env k t r s =
    (case po_phase s k of
       Closing i c \<Rightarrow>
         if pe_audit env then at k (ClosingAudit i) (log_pool env ''connection_closed'' i s) else join_or_create env k i s
     | ClosingAudit i \<Rightarrow> join_or_create env k i s
     | MakeClosing i c \<Rightarrow>
         if pe_audit env
         then at k (MakeAudit i) (log_pool env ''connection_closed'' (case po_conns s c of Some (j, _) \<Rightarrow> j | None \<Rightarrow> []) s)
         else dial env k i s
     | MakeAudit i \<Rightarrow> dial env k i s
     | Connecting i c \<Rightarrow>
         (case r of
            None \<Rightarrow>
              (let s1 = s\<lparr>po_conns := (po_conns s)(c := Some (i, Open)), po_entries := jm_set i (c, t) (po_entries s)\<rparr> in
               if pe_audit env then at k (OpenAudit i c) (log_pool env ''connection_opened'' i s1) else settle_creation k i (Inr c) s1)
          | Some e \<Rightarrow>
              (let s1 = s\<lparr>po_conns := (po_conns s)(c := Some (i, Broken))\<rparr> in
               if pe_audit env then at k (FailAudit i e) (log_pool env ''connection_failed'' i s1) else settle_creation k i (Inl e) s1))
     | FailAudit i e \<Rightarrow> settle_creation k i (Inl e) s
     | OpenAudit i c \<Rightarrow> settle_creation k i (case r of None \<Rightarrow> Inr c | Some e \<Rightarrow> Inl e) s
     | Settled i \<Rightarrow> pool_finish k (po_made s k) (s\<lparr>po_inflight := jm_del i (po_inflight s)\<rparr>)
     | Waiting i j \<Rightarrow> (case po_made s j of None \<Rightarrow> s | Some x \<Rightarrow> pool_finish k (Some x) s)
     | SweepClosing kind i c ids \<Rightarrow>
         if kind = ReapIdle \<and> pe_audit env then at k (SweepAudit ids) (log_pool env ''connection_closed'' i s)
         else sweep_on env k kind t ids s
     | SweepAudit ids \<Rightarrow> sweep_on env k ReapIdle t ids s
     | _ \<Rightarrow> s)"

datatype pool_event = Get nat string int | Sweep nat sweep_kind int | Resume nat int "error option" | Release string int

fun pool_step :: "pool_env \<Rightarrow> pool_event \<Rightarrow> pool \<Rightarrow> pool" where
  "pool_step env (Get k i t) s = (if po_phase s k = Idle then pool_get env k i t s else s)"
| "pool_step env (Sweep k kind t) s = (if po_phase s k = Idle then start_sweep env k kind t s else s)"
| "pool_step env (Resume k t r) s = resume env k t r s"
| "pool_step env (Release i t) s = release_conn i t s"

section \<open>The invariant\<close>

fun creating :: "wait_phase \<Rightarrow> string option" where
  "creating (MakeClosing i c) = Some i"
| "creating (MakeAudit i) = Some i"
| "creating (Connecting i c) = Some i"
| "creating (FailAudit i e) = Some i"
| "creating (OpenAudit i c) = Some i"
| "creating (Settled i) = Some i"
| "creating p = None"

fun asks_for :: "wait_phase \<Rightarrow> string option" where
  "asks_for (Closing i c) = Some i"
| "asks_for (ClosingAudit i) = Some i"
| "asks_for (Waiting i j) = Some i"
| "asks_for p = creating p"

fun dials :: "wait_phase \<Rightarrow> (string \<times> nat) option" where
  "dials (Connecting i c) = Some (i, c)"
| "dials p = None"

text \<open>A connection of the platform that has been connected.\<close>

definition was_open :: "pool \<Rightarrow> string \<Rightarrow> nat \<Rightarrow> bool" where
  "was_open s i c \<longleftrightarrow> po_conns s c = Some (i, Open) \<or> po_conns s c = Some (i, Closed)"

text \<open>An entry holds an open connection of its platform.\<close>

definition entries_ok :: "pool \<Rightarrow> bool" where
  "entries_ok s \<longleftrightarrow> jm_wf (po_entries s) \<and> (\<forall>i c u. jm_get (po_entries s) i = Some (c, u) \<longrightarrow> po_conns s c = Some (i, Open))
    \<and> (\<forall>c \<ge> po_next s. po_conns s c = None)"

text \<open>A connection being made is that of exactly one task.\<close>

definition dialing_ok :: "pool \<Rightarrow> bool" where
  "dialing_ok s \<longleftrightarrow> (\<forall>i c. po_conns s c = Some (i, Dialing) \<longleftrightarrow> (\<exists>k. dials (po_phase s k) = Some (i, c)))
    \<and> (\<forall>k l i j c. dials (po_phase s k) = Some (i, c) \<longrightarrow> dials (po_phase s l) = Some (j, c) \<longrightarrow> k = l)"

text \<open>The in-flight map names the task that creates, and no other creates for the platform.\<close>

definition inflight_ok :: "pool \<Rightarrow> bool" where
  "inflight_ok s \<longleftrightarrow> (\<forall>k i. creating (po_phase s k) = Some i \<longleftrightarrow> jm_get (po_inflight s) i = Some k)"

text \<open>What a phase of a task says of its results and of its platform.\<close>

definition phase_ok :: "pool \<Rightarrow> nat \<Rightarrow> wait_phase \<Rightarrow> bool" where
  "phase_ok s k p \<longleftrightarrow>
    (case asks_for p of Some i \<Rightarrow> po_for s k = i | None \<Rightarrow> True)
    \<and> (case p of
         OpenAudit i c \<Rightarrow> was_open s i c
       | Waiting i j \<Rightarrow> po_for s j = i \<and> (po_made s j \<noteq> None \<or> creating (po_phase s j) \<noteq> None)
       | Settled i \<Rightarrow> po_made s k \<noteq> None
       | Idle \<Rightarrow> po_made s k = None \<and> po_out s k = None
       | _ \<Rightarrow> True)"

definition results_ok :: "pool \<Rightarrow> bool" where
  "results_ok s \<longleftrightarrow> (\<forall>k. phase_ok s k (po_phase s k))
    \<and> (\<forall>k c. po_made s k = Some (Inr c) \<longrightarrow> was_open s (po_for s k) c)
    \<and> (\<forall>k c. po_out s k = Some (Inr c) \<longrightarrow> was_open s (po_for s k) c)"

definition pool_ok :: "pool \<Rightarrow> bool" where
  "pool_ok s \<longleftrightarrow> entries_ok s \<and> dialing_ok s \<and> inflight_ok s \<and> results_ok s"

lemma new_pool_ok: "pool_ok new_pool"
  by (simp add: pool_ok_def entries_ok_def dialing_ok_def inflight_ok_def results_ok_def phase_ok_def new_pool_def)

lemma at_simps [simp]:
  "po_entries (at k p s) = po_entries s" "po_inflight (at k p s) = po_inflight s" "po_conns (at k p s) = po_conns s"
  "po_next (at k p s) = po_next s" "po_phase (at k p s) = (po_phase s)(k := p)" "po_for (at k p s) = po_for s"
  "po_made (at k p s) = po_made s" "po_out (at k p s) = po_out s"
  by (simp_all add: at_def)

lemma log_simps [simp]:
  "po_entries (log_pool env e i s) = po_entries s" "po_inflight (log_pool env e i s) = po_inflight s"
  "po_conns (log_pool env e i s) = po_conns s" "po_next (log_pool env e i s) = po_next s"
  "po_phase (log_pool env e i s) = po_phase s" "po_for (log_pool env e i s) = po_for s"
  "po_made (log_pool env e i s) = po_made s" "po_out (log_pool env e i s) = po_out s"
  by (simp_all add: log_pool_def)

lemma phase_ok_cong:
  assumes "po_for s' = po_for s" "po_made s' = po_made s" "po_out s' = po_out s" "\<And>i c. was_open s' i c = was_open s i c"
    "\<And>l. creating (po_phase s' l) = creating (po_phase s l)"
  shows "phase_ok s' k p = phase_ok s k p"
  by (cases p) (simp_all add: phase_ok_def assms)

lemma log_ok [simp]: "pool_ok (log_pool env e i s) = pool_ok s"
  using phase_ok_cong [of "log_pool env e i s" s]
  by (simp add: pool_ok_def entries_ok_def dialing_ok_def inflight_ok_def results_ok_def was_open_def)

lemma dials_update:
  "dials p = None \<Longrightarrow> dials (f k) = None \<Longrightarrow> dials ((f(k := p)) l) = Some x \<longleftrightarrow> dials (f l) = Some x"
  by auto

lemma dialing_cong: "po_conns s' = po_conns s \<Longrightarrow> po_phase s' = po_phase s \<Longrightarrow> dialing_ok s' = dialing_ok s"
  by (simp only: dialing_ok_def)

lemma dialing_at: "dialing_ok s \<Longrightarrow> dials p = None \<Longrightarrow> dials (po_phase s k) = None \<Longrightarrow> dialing_ok (at k p s)"
  unfolding dialing_ok_def at_simps using dials_update [where f = "po_phase s" and k = k and p = p] by blast

lemma drop_simps [simp]:
  "po_inflight (drop_entry i c s) = po_inflight s" "po_phase (drop_entry i c s) = po_phase s" "po_for (drop_entry i c s) = po_for s"
  "po_made (drop_entry i c s) = po_made s" "po_out (drop_entry i c s) = po_out s"
  by (simp_all add: drop_entry_def)

lemma pool_finish_simps [simp]:
  "po_entries (pool_finish k r s) = po_entries s" "po_inflight (pool_finish k r s) = po_inflight s" "po_conns (pool_finish k r s) = po_conns s"
  "po_next (pool_finish k r s) = po_next s" "po_phase (pool_finish k r s) = (po_phase s)(k := Done)" "po_for (pool_finish k r s) = po_for s"
  "po_made (pool_finish k r s) = po_made s" "po_out (pool_finish k r s) = (po_out s)(k := r)"
  by (simp_all add: pool_finish_def)

text \<open>A task moves on within the same kind of phase.\<close>

lemma ok_at:
  assumes "pool_ok s" "creating p = creating (po_phase s k)" "dials p = None" "dials (po_phase s k) = None" "phase_ok s k p"
  shows "pool_ok (at k p s)"
proof -
  have "dialing_ok (at k p s)" using assms(1,3,4) dialing_at by (simp add: pool_ok_def)
  moreover have "inflight_ok (at k p s)" using assms(1,2) by (simp add: pool_ok_def inflight_ok_def)
  moreover have "results_ok (at k p s)"
  proof -
    have "phase_ok (at k p s) l q = phase_ok s l q" for l q
      by (rule phase_ok_cong) (simp_all add: was_open_def assms(2))
    then show ?thesis using assms(1,5) by (simp add: pool_ok_def results_ok_def was_open_def)
  qed
  ultimately show ?thesis using assms(1) by (simp add: pool_ok_def entries_ok_def)
qed

lemma was_open_drop:
  assumes "entries_ok s" "jm_get (po_entries s) i = Some (c, u)"
  shows "was_open (drop_entry i c s) j d \<longleftrightarrow> was_open s j d"
proof -
  have "po_conns s c = Some (i, Open)" using assms by (auto simp: entries_ok_def)
  then show ?thesis by (auto simp: was_open_def drop_entry_def)
qed

lemma ok_drop:
  assumes "pool_ok s" "jm_get (po_entries s) i = Some (c, u)"
  shows "pool_ok (drop_entry i c s)"
proof -
  have ok: "entries_ok s" using assms(1) by (simp add: pool_ok_def)
  have c: "po_conns s c = Some (i, Open)" using assms(2) ok by (auto simp: entries_ok_def)
  then have next': "c < po_next s" using ok by (metis entries_ok_def not_less option.distinct(1))
  have "entries_ok (drop_entry i c s)"
    unfolding entries_ok_def
  proof (intro conjI allI impI)
    fix j d v assume "jm_get (po_entries (drop_entry i c s)) j = Some (d, v)"
    then have j: "j \<noteq> i" "jm_get (po_entries s) j = Some (d, v)" by (auto simp: drop_entry_def store_simps split: if_splits)
    then have "po_conns s d = Some (j, Open)" using ok unfolding entries_ok_def by blast
    then show "po_conns (drop_entry i c s) d = Some (j, Open)" using c j(1) by (auto simp: drop_entry_def)
  qed (use ok next' in \<open>auto simp: entries_ok_def drop_entry_def distinct_delete\<close>)
  moreover have "dialing_ok (drop_entry i c s)"
  proof -
    have d: "po_conns s d = Some (j, Dialing) \<longleftrightarrow> (\<exists>k. dials (po_phase s k) = Some (j, d))" for j d
      using assms(1) by (simp add: pool_ok_def dialing_ok_def)
    have "po_conns (drop_entry i c s) d = Some (j, Dialing) \<longleftrightarrow> po_conns s d = Some (j, Dialing)" for j d
      using c by (simp add: drop_entry_def)
    then show ?thesis using assms(1) d by (simp add: pool_ok_def dialing_ok_def)
  qed
  moreover have "results_ok (drop_entry i c s)"
  proof -
    have "phase_ok (drop_entry i c s) l q = phase_ok s l q" for l q
      by (rule phase_ok_cong) (simp_all add: was_open_drop [OF ok assms(2)])
    then show ?thesis using assms(1) was_open_drop [OF ok assms(2)]
      by (simp add: pool_ok_def results_ok_def)
  qed
  ultimately show ?thesis using assms(1) by (simp add: pool_ok_def inflight_ok_def drop_entry_def)
qed

lemma ok_touch:
  assumes "pool_ok s" "jm_get (po_entries s) i = Some (c, u)"
  shows "pool_ok (s\<lparr>po_entries := jm_set i (c, t) (po_entries s)\<rparr>)"
proof -
  let ?s = "s\<lparr>po_entries := jm_set i (c, t) (po_entries s)\<rparr>"
  have ok: "entries_ok s" using assms(1) by (simp add: pool_ok_def)
  have "entries_ok ?s"
    unfolding entries_ok_def
  proof (intro conjI allI impI)
    fix j d v assume "jm_get (po_entries ?s) j = Some (d, v)"
    then obtain w where "jm_get (po_entries s) j = Some (d, w)" using assms(2) by (auto simp: store_simps split: if_splits)
    then show "po_conns ?s d = Some (j, Open)" using ok unfolding entries_ok_def by auto
  qed (use ok in \<open>auto simp: entries_ok_def distinct_update\<close>)
  moreover have "phase_ok ?s l q = phase_ok s l q" for l q
    by (rule phase_ok_cong) (simp_all add: was_open_def)
  ultimately show ?thesis
    using assms(1) by (simp add: pool_ok_def dialing_ok_def inflight_ok_def results_ok_def was_open_def)
qed

lemma ok_finish:
  assumes "pool_ok s" "creating (po_phase s k) = None"
    and "\<And>c. r = Some (Inr c) \<Longrightarrow> was_open s (po_for s k) c"
  shows "pool_ok (pool_finish k r s)"
proof -
  let ?s = "s\<lparr>po_out := (po_out s)(k := r)\<rparr>"
  have d: "dials (po_phase s k) = None" using assms(2) by (cases "po_phase s k") auto
  let ?t = "at k Done s"
  have t: "pool_ok ?t" by (rule ok_at) (use assms d in \<open>simp_all add: phase_ok_def\<close>)
  have ph: "phase_ok (pool_finish k r s) l (po_phase ?t l)" for l
  proof -
    have "phase_ok ?t l (po_phase ?t l)" using t by (simp add: pool_ok_def results_ok_def)
    then show ?thesis by (cases "po_phase ?t l") (auto simp: phase_ok_def was_open_def split: if_splits)
  qed
  have "entries_ok (pool_finish k r s) = entries_ok ?t" "dialing_ok (pool_finish k r s) = dialing_ok ?t" "inflight_ok (pool_finish k r s) = inflight_ok ?t"
    by (simp_all add: entries_ok_def dialing_ok_def inflight_ok_def)
  moreover have "results_ok (pool_finish k r s)"
    unfolding results_ok_def
  proof (intro conjI allI impI)
    fix l c
    have w: "was_open (pool_finish k r s) j d = was_open s j d" for j d by (simp add: was_open_def)
    show "phase_ok (pool_finish k r s) l (po_phase (pool_finish k r s) l)" using ph by simp
    show "was_open (pool_finish k r s) (po_for (pool_finish k r s) l) c" if "po_made (pool_finish k r s) l = Some (Inr c)"
      using that assms(1) w by (simp add: pool_ok_def results_ok_def)
    show "was_open (pool_finish k r s) (po_for (pool_finish k r s) l) c" if "po_out (pool_finish k r s) l = Some (Inr c)"
      using that assms(1,3) w by (cases "l = k") (simp_all add: pool_ok_def results_ok_def)
  qed
  ultimately show ?thesis using t by (simp add: pool_ok_def)
qed

text \<open>A creation begins: the task enters the in-flight map.\<close>

lemma ok_begin:
  assumes "pool_ok s" "jm_get (po_inflight s) i = None" "creating (po_phase s k) = None" "po_for s k = i"
  shows "pool_ok (at k (MakeAudit i) (s\<lparr>po_inflight := jm_set i k (po_inflight s)\<rparr>))"
proof -
  let ?s = "at k (MakeAudit i) (s\<lparr>po_inflight := jm_set i k (po_inflight s)\<rparr>)"
  have d: "dials (po_phase s k) = None" using assms(3) by (cases "po_phase s k") auto
  have inf: "creating (po_phase s l) = Some j \<longleftrightarrow> jm_get (po_inflight s) j = Some l" for l j
    using assms(1) by (simp add: pool_ok_def inflight_ok_def)
  have "dialing_ok ?s"
  proof -
    have "dialing_ok (at k (MakeAudit i) s)" by (rule dialing_at) (use assms(1) d in \<open>simp_all add: pool_ok_def\<close>)
    then show ?thesis using dialing_cong [of ?s "at k (MakeAudit i) s"] by simp
  qed
  moreover have "inflight_ok ?s"
    unfolding inflight_ok_def
  proof (intro allI)
    fix l j
    have "jm_get (po_inflight s) j \<noteq> Some k" using inf [of k j] assms(3) by simp
    moreover have "creating (po_phase s l) \<noteq> Some i" using inf [of l i] assms(2) by simp
    ultimately show "creating (po_phase ?s l) = Some j \<longleftrightarrow> jm_get (po_inflight ?s) j = Some l"
      using inf [of l j] by (cases "l = k"; cases "j = i") (simp_all add: store_simps)
  qed
  moreover have "results_ok ?s"
  proof -
    have "phase_ok ?s l q" if "phase_ok s l q" for l q
      using that by (cases q) (auto simp: phase_ok_def was_open_def)
    then show ?thesis using assms(1,4) by (auto simp: pool_ok_def results_ok_def was_open_def phase_ok_def [of _ _ "MakeAudit i"])
  qed
  ultimately show ?thesis using assms(1) by (simp add: pool_ok_def entries_ok_def)
qed

lemma ok_settle:
  assumes "pool_ok s" "creating (po_phase s k) = Some i" "dials (po_phase s k) = None"
    and "\<And>c. r = Inr c \<Longrightarrow> was_open s (po_for s k) c"
  shows "pool_ok (settle_creation k i r s)"
proof -
  let ?s = "s\<lparr>po_made := (po_made s)(k := Some r)\<rparr>"
  have ph: "phase_ok s l (po_phase s l)" for l using assms(1) by (simp add: pool_ok_def results_ok_def)
  have "po_phase s k \<noteq> Idle" using assms(2) by auto
  then have "phase_ok ?s l (po_phase s l)" for l
    using ph [of l] by (cases "po_phase s l") (auto simp: phase_ok_def was_open_def)
  then have "pool_ok ?s"
    using assms(1,4) by (auto simp: pool_ok_def entries_ok_def dialing_ok_def inflight_ok_def results_ok_def was_open_def)
  moreover have "po_for s k = i" using ph [of k] assms(2) by (cases "po_phase s k") (auto simp: phase_ok_def)
  ultimately show ?thesis
    unfolding settle_creation_def using assms(2,3) by (intro ok_at) (simp_all add: phase_ok_def)
qed

text \<open>A connection is allocated, and its outcome.\<close>

lemma ok_dialing:
  assumes "pool_ok s" "creating (po_phase s k) = Some i" "dials (po_phase s k) = None"
  shows "pool_ok (at k (Connecting i (po_next s))
    (s\<lparr>po_conns := (po_conns s)(po_next s := Some (i, Dialing)), po_next := Suc (po_next s)\<rparr>))"
proof -
  let ?c = "po_next s"
  let ?s = "at k (Connecting i ?c) (s\<lparr>po_conns := (po_conns s)(?c := Some (i, Dialing)), po_next := Suc ?c\<rparr>)"
  have e: "entries_ok s" using assms(1) by (simp add: pool_ok_def)
  have none: "po_conns s ?c = None" using e by (simp add: entries_ok_def)
  have dial: "po_conns s c = Some (j, Dialing) \<longleftrightarrow> (\<exists>l. dials (po_phase s l) = Some (j, c))"
      "dials (po_phase s l) = Some (j, c) \<Longrightarrow> dials (po_phase s m) = Some (j', c) \<Longrightarrow> l = m" for c j j' l m
    using assms(1) unfolding pool_ok_def dialing_ok_def by blast+
  have fresh: "dials (po_phase s l) \<noteq> Some (j, ?c)" for l j using dial(1) [of ?c j] none by auto
  have "entries_ok ?s"
    unfolding entries_ok_def
  proof (intro conjI allI impI)
    fix j d v assume "jm_get (po_entries ?s) j = Some (d, v)"
    then have "po_conns s d = Some (j, Open)" using e by (auto simp: entries_ok_def)
    then show "po_conns ?s d = Some (j, Open)" using none by auto
  qed (use e in \<open>auto simp: entries_ok_def\<close>)
  moreover have "dialing_ok ?s"
  proof -
    have d: "dials (po_phase ?s l) = Some (j, d) \<longleftrightarrow> (if l = k then j = i \<and> d = ?c else dials (po_phase s l) = Some (j, d))" for l j d
      by auto
    show ?thesis
      unfolding dialing_ok_def d using dial fresh assms(3) by (auto split: if_splits) (metis option.distinct(1))+
  qed
  moreover have "inflight_ok ?s"
  proof -
    have "creating (po_phase ?s l) = creating (po_phase s l)" for l using assms(2) by simp
    then show ?thesis using assms(1) unfolding pool_ok_def inflight_ok_def by simp
  qed
  moreover have "results_ok ?s"
  proof -
    have open': "was_open s j d \<Longrightarrow> was_open ?s j d" for j d using none by (auto simp: was_open_def)
    have ph: "phase_ok s l (po_phase s l)" for l using assms(1) by (simp add: pool_ok_def results_ok_def)
    have k: "po_for s k = i" using ph [of k] assms(2) by (cases "po_phase s k") (auto simp: phase_ok_def)
    have "phase_ok ?s l (po_phase ?s l)" for l
      using ph [of l] open' k by (cases "po_phase s l") (auto simp: phase_ok_def)
    then show ?thesis using assms(1) open' by (auto simp: pool_ok_def results_ok_def)
  qed
  ultimately show ?thesis by (simp add: pool_ok_def)
qed

lemma phase_of_platform: "pool_ok s \<Longrightarrow> asks_for (po_phase s k) = Some i \<Longrightarrow> po_for s k = i"
proof -
  assume "pool_ok s" "asks_for (po_phase s k) = Some i"
  then have "phase_ok s k (po_phase s k)" "asks_for (po_phase s k) = Some i" by (simp_all add: pool_ok_def results_ok_def)
  then show ?thesis by (simp add: phase_ok_def)
qed

text \<open>The task whose connection settles: what was \<open>Connecting\<close> has an outcome.\<close>

lemma ok_outcome:
  assumes "pool_ok s" "po_phase s k = Connecting i c" "l = Open \<or> l = Broken" "p = OpenAudit i c \<and> l = Open \<or> p = FailAudit i e"
  shows "pool_ok (at k p (s\<lparr>po_conns := (po_conns s)(c := Some (i, l)),
    po_entries := if l = Open then jm_set i (c, t) (po_entries s) else po_entries s\<rparr>))"
proof -
  let ?s = "at k p (s\<lparr>po_conns := (po_conns s)(c := Some (i, l)),
    po_entries := if l = Open then jm_set i (c, t) (po_entries s) else po_entries s\<rparr>)"
  have e: "entries_ok s" using assms(1) by (simp add: pool_ok_def)
  have dial: "po_conns s d = Some (j, Dialing) \<longleftrightarrow> (\<exists>m. dials (po_phase s m) = Some (j, d))"
      "dials (po_phase s m) = Some (j, d) \<Longrightarrow> dials (po_phase s m') = Some (j', d) \<Longrightarrow> m = m'" for d j j' m m'
    using assms(1) unfolding pool_ok_def dialing_ok_def by blast+
  have k: "dials (po_phase s k) = Some (i, c)" using assms(2) by simp
  then have c: "po_conns s c = Some (i, Dialing)" using dial(1) by blast
  have p: "dials p = None" "creating p = Some i" using assms(4) by auto
  have old: "c \<noteq> d" if "jm_get (po_entries s) j = Some (d, v)" for j d v
    using that e c unfolding entries_ok_def by fastforce
  have "c < po_next s" using e c by (metis entries_ok_def not_less option.distinct(1))
  then have "entries_ok ?s"
    unfolding entries_ok_def
  proof (intro conjI allI impI)
    fix j d v assume get: "jm_get (po_entries ?s) j = Some (d, v)"
    show "po_conns ?s d = Some (j, Open)"
    proof (cases "l = Open \<and> j = i")
      case True
      then show ?thesis using get by (simp add: store_simps)
    next
      case False
      then have "jm_get (po_entries s) j = Some (d, v)" using get by (auto simp: store_simps split: if_splits)
      moreover from this have "c \<noteq> d" by (rule old)
      ultimately show ?thesis using e by (simp add: entries_ok_def)
    qed
  qed (use e in \<open>auto simp: entries_ok_def distinct_update\<close>)
  moreover have "dialing_ok ?s"
  proof -
    have ph: "dials (po_phase ?s m) = Some x \<longleftrightarrow> m \<noteq> k \<and> dials (po_phase s m) = Some x" for m x
      using p(1) by simp
    have cn: "po_conns ?s d = Some (j, Dialing) \<longleftrightarrow> d \<noteq> c \<and> po_conns s d = Some (j, Dialing)" for d j
      using assms(3) by auto
    have "d \<noteq> c \<and> po_conns s d = Some (j, Dialing) \<longleftrightarrow> (\<exists>m. m \<noteq> k \<and> dials (po_phase s m) = Some (j, d))" for d j
    proof (cases "d = c")
      case True
      then show ?thesis using dial(2) [OF _ k] by blast
    next
      case False
      then have "dials (po_phase s k) \<noteq> Some (j, d)" using k by simp
      then show ?thesis using dial(1) [of d j] False by metis
    qed
    then show ?thesis unfolding dialing_ok_def ph cn using dial(2) by blast
  qed
  moreover have "inflight_ok ?s"
  proof -
    have "creating (po_phase ?s m) = creating (po_phase s m)" for m using assms(2) p(2) by simp
    then show ?thesis using assms(1) unfolding pool_ok_def inflight_ok_def by simp
  qed
  moreover have "results_ok ?s"
  proof -
    have open': "was_open s j d \<Longrightarrow> was_open ?s j d" for j d using c by (auto simp: was_open_def)
    have ph: "phase_ok s m (po_phase s m)" for m using assms(1) by (simp add: pool_ok_def results_ok_def)
    have "po_for s k = i" using phase_of_platform [OF assms(1), of k i] assms(2) by simp
    then have "phase_ok ?s m (po_phase ?s m)" for m
      using ph [of m] open' assms(4) p(2) by (cases "m = k"; cases "po_phase s m") (auto simp: phase_ok_def was_open_def)
    then show ?thesis using assms(1) open' by (auto simp: pool_ok_def results_ok_def)
  qed
  ultimately show ?thesis by (simp add: pool_ok_def)
qed

section \<open>Every step keeps it\<close>

lemma at_at [simp]: "at k p (at k q s) = at k p s"
  by (simp add: at_def)

lemma after_at [simp]:
  "settle_creation k i r (at k q s) = settle_creation k i r s" "dial env k i (at k q s) = dial env k i s"
  "create_and_connect env k i (at k q s) = create_and_connect env k i s" "pool_finish k x (at k q s) = pool_finish k x s"
  by (simp_all add: pool_finish_def settle_creation_def dial_def create_and_connect_def drop_entry_def pool_size_def at_def split: option.split)

lemma oldest_entry: "oldest es = Some (i, c, u) \<Longrightarrow> (i, c, u) \<in> set es"
  by (induction es arbitrary: i c u rule: oldest.induct) (auto split: option.splits if_splits)

lemma ok_dial:
  assumes "pool_ok s" "creating (po_phase s k) = Some i" "dials (po_phase s k) = None"
  shows "pool_ok (dial env k i s)"
proof (cases "pe_factory env k i")
  case (Some e)
  have "pool_ok (settle_creation k i (Inl e) s)" by (rule ok_settle [OF assms]) simp
  then show ?thesis using Some by (simp add: dial_def)
qed (use ok_dialing [OF assms] in \<open>simp add: dial_def\<close>)

lemma ok_create:
  assumes "pool_ok s" "creating (po_phase s k) = Some i" "dials (po_phase s k) = None"
  shows "pool_ok (create_and_connect env k i s)"
proof (cases "pool_size s \<ge> pe_max env \<and> oldest (po_entries s) \<noteq> None")
  case True
  then obtain j c u where o: "oldest (po_entries s) = Some (j, c, u)" by auto
  have "jm_wf (po_entries s)" using assms(1) by (simp add: pool_ok_def entries_ok_def)
  then have "jm_get (po_entries s) j = Some (c, u)" using oldest_entry [OF o] by simp
  from ok_drop [OF assms(1) this] have d: "pool_ok (drop_entry j c s)" .
  have "asks_for (po_phase s k) = Some i" using assms(2) by (cases "po_phase s k") auto
  then have "po_for s k = i" by (rule phase_of_platform [OF assms(1)])
  then have "pool_ok (at k (MakeClosing i c) (drop_entry j c s))"
    using assms(2,3) by (intro ok_at [OF d]) (simp_all add: phase_ok_def)
  then show ?thesis using True o by (simp add: create_and_connect_def)
next
  case False
  then have "create_and_connect env k i s = dial env k i s"
    by (cases "oldest (po_entries s)") (auto simp: create_and_connect_def)
  then show ?thesis using ok_dial [OF assms] by simp
qed

lemma dialing_task:
  assumes "dialing_ok s" "po_conns s c = Some (i, Dialing)"
  shows "\<exists>k. dials (po_phase s k) = Some (i, c)"
  using assms(1) [unfolded dialing_ok_def, THEN conjunct1, THEN spec, THEN spec, of c i] assms(2) by (rule iffD1)

lemma dials_creating: "dials p = Some (i, c) \<Longrightarrow> creating p = Some i"
  by (cases p) auto

lemma creating_dials: "creating p = None \<Longrightarrow> dials p = None"
  by (cases p) auto

lemma ok_join:
  assumes "pool_ok s" "creating (po_phase s k) = None" "po_for s k = i"
  shows "pool_ok (join_or_create env k i s)"
proof (cases "jm_get (po_inflight s) i")
  case None
  have "pool_ok (create_and_connect env k i (at k (MakeAudit i) (s\<lparr>po_inflight := jm_set i k (po_inflight s)\<rparr>)))"
    by (rule ok_create) (use ok_begin [OF assms(1) None assms(2,3)] in simp_all)
  then show ?thesis using None by (simp add: join_or_create_def)
next
  case (Some j)
  then have j: "creating (po_phase s j) = Some i" using assms(1) by (simp add: pool_ok_def inflight_ok_def)
  then have "asks_for (po_phase s j) = Some i" by (cases "po_phase s j") auto
  then have "po_for s j = i" by (rule phase_of_platform [OF assms(1)])
  then have "pool_ok (at k (Waiting i j) s)"
    using assms j creating_dials by (intro ok_at) (simp_all add: phase_ok_def)
  then show ?thesis using Some by (simp add: join_or_create_def)
qed

lemma ok_sweep:
  "pool_ok s \<Longrightarrow> creating (po_phase s k) = None \<Longrightarrow> pool_ok (sweep_on env k kind t ids s)"
proof (induction ids)
  case Nil
  then show ?case by (auto intro!: ok_finish)
next
  case (Cons i ids)
  show ?case
  proof (cases "jm_get (po_entries s) i")
    case (Some e)
    obtain c u where e: "e = (c, u)" by fastforce
    have "pool_ok (at k (SweepClosing kind i c ids) (drop_entry i c s))"
      using Cons.prems creating_dials ok_drop [OF Cons.prems(1) Some [unfolded e]]
      by (intro ok_at) (simp_all add: phase_ok_def)
    then show ?thesis using Some e Cons by auto
  qed (use Cons in simp)
qed

lemma ok_ask:
  assumes "pool_ok s" "po_phase s k = Idle"
  shows "pool_ok (s\<lparr>po_for := (po_for s)(k := i)\<rparr>)"
proof -
  let ?s = "s\<lparr>po_for := (po_for s)(k := i)\<rparr>"
  have ph: "phase_ok s l (po_phase s l)" for l using assms(1) by (simp add: pool_ok_def results_ok_def)
  have k: "po_made s k = None" "po_out s k = None" using ph [of k] assms(2) by (simp_all add: phase_ok_def)
  have "phase_ok ?s l (po_phase s l)" for l
    using ph [of l] assms(2) k by (cases "po_phase s l") (auto simp: phase_ok_def was_open_def)
  moreover have "was_open ?s j c = was_open s j c" for j c by (simp add: was_open_def)
  ultimately have "results_ok ?s" using assms(1) k by (auto simp: pool_ok_def results_ok_def)
  moreover have "dialing_ok ?s" using assms(1) dialing_cong [of ?s s] by (simp add: pool_ok_def)
  ultimately show ?thesis using assms(1) by (simp add: pool_ok_def entries_ok_def inflight_ok_def)
qed

lemma ok_get:
  assumes "pool_ok s" "po_phase s k = Idle"
  shows "pool_ok (pool_get env k i t s)"
proof -
  let ?s = "s\<lparr>po_for := (po_for s)(k := i)\<rparr>"
  have ok: "pool_ok ?s" by (rule ok_ask [OF assms])
  show ?thesis
  proof (cases "jm_get (po_entries ?s) i")
    case None
    then show ?thesis using ok_join [OF ok, of k i env] assms(2) by (simp add: pool_get_def Let_def)
  next
    case (Some e)
    obtain c u where e: "e = (c, u)" by fastforce
    have "po_conns ?s c = Some (i, Open)" using ok Some e by (simp add: pool_ok_def entries_ok_def)
    then have "pool_ok (pool_finish k (Some (Inr c)) (?s\<lparr>po_entries := jm_set i (c, t) (po_entries ?s)\<rparr>))"
      using ok_touch [OF ok Some [unfolded e], of t] assms(2) by (intro ok_finish) (auto simp: was_open_def)
    moreover have "pool_ok (at k (Closing i c) (drop_entry i c ?s))"
      using ok_drop [OF ok Some [unfolded e]] assms(2) by (intro ok_at) (simp_all add: phase_ok_def)
    ultimately show ?thesis using Some e by (simp add: pool_get_def Let_def)
  qed
qed

text \<open>The task that created clears the in-flight map, which still names it.\<close>

lemma ok_clear:
  assumes "pool_ok s" "po_phase s k = Settled i"
  shows "pool_ok (pool_finish k (po_made s k) (s\<lparr>po_inflight := jm_del i (po_inflight s)\<rparr>))"
proof -
  let ?s = "at k Done (s\<lparr>po_inflight := jm_del i (po_inflight s)\<rparr>)"
  have inf: "creating (po_phase s l) = Some j \<longleftrightarrow> jm_get (po_inflight s) j = Some l" for l j
    using assms(1) by (simp add: pool_ok_def inflight_ok_def)
  have ph: "phase_ok s l (po_phase s l)" for l using assms(1) by (simp add: pool_ok_def results_ok_def)
  have made: "po_made s k \<noteq> None" using ph [of k] assms(2) by (simp add: phase_ok_def)
  have "inflight_ok ?s"
    unfolding inflight_ok_def
  proof (intro allI)
    fix l j
    have "jm_get (po_inflight s) i = Some k" using inf [of k i] assms(2) by simp
    moreover have "jm_get (po_inflight s) j = Some k \<Longrightarrow> j = i" using inf [of k j] assms(2) by simp
    moreover have "creating (po_phase ?s l) = Some j \<longleftrightarrow> l \<noteq> k \<and> jm_get (po_inflight s) j = Some l" using inf by simp
    moreover have "jm_get (po_inflight ?s) j = Some l \<longleftrightarrow> j \<noteq> i \<and> jm_get (po_inflight s) j = Some l" by (simp add: store_simps)
    ultimately show "creating (po_phase ?s l) = Some j \<longleftrightarrow> jm_get (po_inflight ?s) j = Some l" by (metis option.inject)
  qed
  moreover have "dialing_ok ?s"
  proof -
    have "dialing_ok (at k Done s)" by (rule dialing_at) (use assms in \<open>simp_all add: pool_ok_def\<close>)
    then show ?thesis using dialing_cong [of ?s "at k Done s"] by simp
  qed
  moreover have "results_ok ?s"
  proof -
    have "phase_ok ?s l (po_phase ?s l)" for l
      using ph [of l] made by (cases "l = k"; cases "po_phase s l") (auto simp: phase_ok_def was_open_def)
    then show ?thesis using assms(1) by (simp add: pool_ok_def results_ok_def was_open_def)
  qed
  ultimately have ok: "pool_ok ?s" using assms(1) by (simp add: pool_ok_def entries_ok_def)
  have "was_open ?s (po_for ?s k) c" if "po_made s k = Some (Inr c)" for c
    using that assms(1) by (simp add: pool_ok_def results_ok_def was_open_def)
  from ok_finish [OF ok _ this] show ?thesis by simp
qed

lemma at_log: "at k p (log_pool env e i s) = log_pool env e i (at k p s)"
  by (cases s) (simp add: at_def log_pool_def)

lemma ok_logged: "pool_ok (at k p s) \<Longrightarrow> pool_ok (at k p (log_pool env e i s))"
  by (simp add: at_log)

lemma ok_connected:
  assumes "pool_ok s" "po_phase s k = Connecting i c"
  shows "pool_ok (resume env k t r s)"
proof (cases r)
  case None
  let ?s = "s\<lparr>po_conns := (po_conns s)(c := Some (i, Open)), po_entries := jm_set i (c, t) (po_entries s)\<rparr>"
  have ok: "pool_ok (at k (OpenAudit i c) ?s)" using ok_outcome [OF assms, of Open "OpenAudit i c" undefined t] by simp
  then have "pool_ok (at k (OpenAudit i c) (log_pool env ''connection_opened'' i ?s))"
    by (rule ok_logged)
  moreover have "pool_ok (settle_creation k i (Inr c) (at k (OpenAudit i c) ?s))"
    by (rule ok_settle [OF ok])
      (use phase_of_platform [OF assms(1), of k i] assms(2) in \<open>simp_all add: was_open_def\<close>)
  ultimately show ?thesis using None assms(2) by (simp add: resume_def Let_def)
next
  case (Some e)
  let ?s = "s\<lparr>po_conns := (po_conns s)(c := Some (i, Broken))\<rparr>"
  have ok: "pool_ok (at k (FailAudit i e) ?s)" using ok_outcome [OF assms, of Broken "FailAudit i e" e t] by simp
  then have "pool_ok (at k (FailAudit i e) (log_pool env ''connection_failed'' i ?s))"
    by (rule ok_logged)
  moreover have "pool_ok (settle_creation k i (Inl e) (at k (FailAudit i e) ?s))"
    by (rule ok_settle [OF ok]) simp_all
  ultimately show ?thesis using Some assms(2) by (simp add: resume_def Let_def)
qed

lemma ok_resume: "pool_ok s \<Longrightarrow> pool_ok (resume env k t r s)"
proof -
  assume ok: "pool_ok s"
  have ph: "phase_ok s l (po_phase s l)" for l using ok by (simp add: pool_ok_def results_ok_def)
  show ?thesis
  proof (cases "po_phase s k")
    case (Closing i c)
    then have "po_for s k = i" using phase_of_platform [OF ok, of k i] by simp
    then have "pool_ok (at k (ClosingAudit i) s)" "pool_ok (join_or_create env k i s)"
      using Closing ok by (auto intro!: ok_at ok_join simp: phase_ok_def)
    then show ?thesis using Closing ok_logged by (simp add: resume_def)
  next
    case (ClosingAudit i)
    then show ?thesis using phase_of_platform [OF ok, of k i] ok by (auto intro!: ok_join simp: resume_def)
  next
    case (MakeClosing i c)
    then have "pool_ok (at k (MakeAudit i) s)" "pool_ok (dial env k i s)"
      using phase_of_platform [OF ok, of k i] ok by (auto intro!: ok_at ok_dial simp: phase_ok_def)
    then show ?thesis using MakeClosing ok_logged by (simp add: resume_def)
  next
    case (MakeAudit i)
    then show ?thesis using ok by (auto intro!: ok_dial simp: resume_def)
  next
    case (Connecting i c)
    then show ?thesis by (rule ok_connected [OF ok])
  next
    case (FailAudit i e)
    then show ?thesis using ok by (auto intro!: ok_settle simp: resume_def)
  next
    case (OpenAudit i c)
    then have "po_for s k = i" "was_open s i c"
      using phase_of_platform [OF ok, of k i] ph [of k] by (auto simp: phase_ok_def)
    then show ?thesis using OpenAudit ok by (auto intro!: ok_settle simp: resume_def split: option.split)
  next
    case (Settled i)
    then show ?thesis using ok_clear [OF ok Settled] by (simp add: resume_def)
  next
    case (Waiting i j)
    then have "po_for s k = i" "po_for s j = i"
      using phase_of_platform [OF ok, of k i] ph [of k] by (auto simp: phase_ok_def)
    moreover have "po_made s j = Some (Inr c) \<Longrightarrow> was_open s (po_for s j) c" for c
      using ok by (simp add: pool_ok_def results_ok_def)
    ultimately show ?thesis using Waiting ok by (auto intro!: ok_finish simp: resume_def split: option.split)
  next
    case (SweepClosing kind i c ids)
    then have "pool_ok (at k (SweepAudit ids) s)" "pool_ok (sweep_on env k kind t ids s)"
      using ok by (auto intro!: ok_at ok_sweep simp: phase_ok_def)
    then show ?thesis using SweepClosing ok_logged by (simp add: resume_def)
  next
    case (SweepAudit ids)
    then show ?thesis using ok by (auto intro!: ok_sweep simp: resume_def)
  qed (use ok in \<open>simp_all add: resume_def\<close>)
qed

lemma ok_step: "pool_ok s \<Longrightarrow> pool_ok (pool_step env ev s)"
proof (cases ev)
  case (Get k i t)
  then show "pool_ok s \<Longrightarrow> pool_ok (pool_step env ev s)" using ok_get by simp
next
  case (Sweep k kind t)
  then show "pool_ok s \<Longrightarrow> pool_ok (pool_step env ev s)" using ok_sweep by (simp add: start_sweep_def)
next
  case (Release i t)
  then show "pool_ok s \<Longrightarrow> pool_ok (pool_step env ev s)" using ok_touch by (auto simp: release_conn_def split: option.split)
qed (simp add: ok_resume)

interpretation pool: invariant_machine "pool_step env" "\<lambda>ev. True" pool_ok for env
  by unfold_locales (rule ok_step)

lemma reachable_pool_ok: "pool_ok (fold (pool_step env) evs new_pool)"
  by (rule pool.run_keeps) (simp_all add: new_pool_ok list_all_iff)

text \<open>
  C38: Whatever calls, sweeps and releases are made and in whatever order their awaited operations settle_creation:
  an entry of the pool is an open connection of its platform, no platform is ever being connected to
  twice at the same time, and a call is answered with a connection of its platform that was connected.
\<close>

lemma pool_safe:
  assumes "s = fold (pool_step env) evs new_pool"
  shows "(jm_get (po_entries s) i = Some (c, u) \<longrightarrow> po_conns s c = Some (i, Open))
    \<and> (po_conns s c = Some (i, Dialing) \<and> po_conns s d = Some (i, Dialing) \<longrightarrow> c = d)
    \<and> (po_out s k = Some (Inr c) \<longrightarrow> po_conns s c = Some (po_for s k, Open) \<or> po_conns s c = Some (po_for s k, Closed))"
proof -
  have ok: "entries_ok s" "dialing_ok s" "inflight_ok s" "results_ok s"
    using reachable_pool_ok [of env evs] assms by (simp_all add: pool_ok_def)
  have "c = d" if both: "po_conns s c = Some (i, Dialing)" "po_conns s d = Some (i, Dialing)"
  proof -
    obtain k l where kl: "dials (po_phase s k) = Some (i, c)" "dials (po_phase s l) = Some (i, d)"
      using dialing_task [OF ok(2) both(1)] dialing_task [OF ok(2) both(2)] by auto
    have "creating (po_phase s k) = Some i" "creating (po_phase s l) = Some i"
      by (rule dials_creating [OF kl(1)], rule dials_creating [OF kl(2)])
    then have "jm_get (po_inflight s) i = Some k" "jm_get (po_inflight s) i = Some l"
      using ok(3) unfolding inflight_ok_def by blast+
    then have "k = l" by simp
    then show ?thesis using kl by simp
  qed
  moreover have "po_conns s c = Some (i, Open)" if "jm_get (po_entries s) i = Some (c, u)"
    using that ok(1) unfolding entries_ok_def by blast
  moreover have "was_open s (po_for s k) c" if "po_out s k = Some (Inr c)"
    using that ok(4) unfolding results_ok_def by blast
  ultimately show ?thesis unfolding was_open_def by blast
qed

section \<open>The cap\<close>

text \<open>A task that will add an entry and has passed the test of the cap.\<close>

fun adding :: "wait_phase \<Rightarrow> bool" where
  "adding (MakeClosing i c) = True"
| "adding (MakeAudit i) = True"
| "adding (Connecting i c) = True"
| "adding p = False"

definition adders :: "nat list \<Rightarrow> pool \<Rightarrow> nat" where
  "adders ks s = (\<Sum>k\<in>set ks. if adding (po_phase s k) then 1 else 0)"

definition load :: "nat list \<Rightarrow> pool \<Rightarrow> nat" where
  "load ks s = pool_size s + adders ks s"

text \<open>The calls and sweeps among \<open>ks\<close> that have begun and not ended.\<close>

fun running :: "wait_phase \<Rightarrow> bool" where
  "running Idle = False"
| "running Done = False"
| "running p = True"

definition pending :: "nat list \<Rightarrow> pool \<Rightarrow> nat" where
  "pending ks s = length (filter (\<lambda>k. running (po_phase s k)) (remdups ks))"

lemma adders_le: "adders ks s \<le> pending ks s"
proof -
  have "adding p \<Longrightarrow> running p" for p by (cases p) simp_all
  then have "adders ks s \<le> (\<Sum>k\<in>set ks. if running (po_phase s k) then 1 else 0)"
    unfolding adders_def by (intro sum_mono) auto
  also have "\<dots> = card {k \<in> set ks. running (po_phase s k)}" by (simp add: sum.If_cases Int_def)
  also have "\<dots> = pending ks s"
    using distinct_card [of "filter (\<lambda>k. running (po_phase s k)) (remdups ks)"] by (simp add: pending_def)
  finally show ?thesis .
qed

lemma adders_cong: "po_phase s' = po_phase s \<Longrightarrow> adders ks s' = adders ks s"
  by (simp add: adders_def)

lemma adders_update:
  assumes "k \<in> set ks" "po_phase s' = (po_phase s)(k := p)"
  shows "adders ks s' + (if adding (po_phase s k) then 1 else 0) = adders ks s + (if adding p then 1 else 0)"
proof -
  have "adders ks s' = (if adding p then 1 else 0) + (\<Sum>l\<in>set ks - {k}. if adding (po_phase s l) then 1 else 0)"
    using assms by (simp add: adders_def sum.remove [of "set ks" k])
  moreover have "adders ks s = (if adding (po_phase s k) then 1 else 0) + (\<Sum>l\<in>set ks - {k}. if adding (po_phase s l) then 1 else 0)"
    using assms(1) by (simp add: adders_def sum.remove [of "set ks" k])
  ultimately show ?thesis by simp
qed

lemma size_drop: "jm_wf (po_entries s) \<Longrightarrow> jm_get (po_entries s) i = Some (c, u) \<Longrightarrow> Suc (pool_size (drop_entry i c s)) = pool_size s"
proof -
  assume wf: "jm_wf (po_entries s)" and get: "jm_get (po_entries s) i = Some (c, u)"
  have "length (jm_del i es) + (if i \<in> fst ` set es then 1 else 0) = length es" if "jm_wf es" for es :: "(string, nat \<times> int) jsmap"
    using that
  proof (induction es)
    case (Cons e es)
    have "i \<notin> fst ` set es \<Longrightarrow> jm_del i es = es" by (simp add: delete_id)
    then show ?case using Cons by (cases "fst e = i"; cases "i \<in> fst ` set es") (simp_all del: delete_simps add: delete_simps(2) [of i e es])
  qed simp
  from this [OF wf] have "length (jm_del i (po_entries s)) + 1 = length (po_entries s)"
    using map_of_SomeD [OF get] by (force split: if_splits)
  then show ?thesis by (simp add: pool_size_def drop_entry_def)
qed

lemma size_set: "pool_size (s\<lparr>po_entries := jm_set i e (po_entries s)\<rparr>) \<le> Suc (pool_size s)"
    "jm_get (po_entries s) i = Some d \<Longrightarrow> pool_size (s\<lparr>po_entries := jm_set i e (po_entries s)\<rparr>) = pool_size s"
proof -
  have len: "length (jm_set i e es) = (if i \<in> fst ` set es then length es else Suc (length es))" for es :: "(string, nat \<times> int) jsmap"
    by (induction es) auto
  show "pool_size (s\<lparr>po_entries := jm_set i e (po_entries s)\<rparr>) \<le> Suc (pool_size s)" by (simp add: pool_size_def len)
  show "jm_get (po_entries s) i = Some d \<Longrightarrow> pool_size (s\<lparr>po_entries := jm_set i e (po_entries s)\<rparr>) = pool_size s"
    by (force simp: pool_size_def len dest: map_of_SomeD)
qed

lemma size_simps [simp]:
  "pool_size (at k p s) = pool_size s" "pool_size (pool_finish k r s) = pool_size s" "pool_size (settle_creation k i x s) = pool_size s"
  "pool_size (log_pool env e i s) = pool_size s" "pool_size (dial env k i s) = pool_size s"
  "pool_size (s\<lparr>po_inflight := m\<rparr>) = pool_size s" "pool_size (s\<lparr>po_for := f\<rparr>) = pool_size s" "pool_size (s\<lparr>po_conns := cs\<rparr>) = pool_size s"
  by (simp_all add: pool_size_def settle_creation_def dial_def split: option.split)

text \<open>One task changes its phase, and nothing is added.\<close>

lemma load_at:
  assumes "k \<in> set ks" "po_phase s' = (po_phase s)(k := p)"
    and "pool_size s' + (if adding p then 1 else 0) \<le> pool_size s + (if adding (po_phase s k) then 1 else 0)"
  shows "load ks s' \<le> load ks s"
  using adders_update [OF assms(1,2)] assms(3) by (simp add: load_def split: if_splits)

definition cap :: "pool_env \<Rightarrow> nat \<Rightarrow> nat" where
  "cap env n = pe_max env - 1 + n"

lemma load_dial:
  assumes "k \<in> set ks" "adding (po_phase s k) \<or> pool_size s < pe_max env" "load ks s \<le> cap env n"
    and "pending ks (dial env k i s) \<le> n"
  shows "load ks (dial env k i s) \<le> cap env n"
proof (cases "adding (po_phase s k) \<or> pe_factory env k i \<noteq> None")
  case True
  have "load ks (dial env k i s) \<le> load ks s"
  proof (cases "pe_factory env k i")
    case None
    show ?thesis
      by (rule load_at [OF assms(1), of _ _ "Connecting i (po_next s)"]) (use None True in \<open>simp_all add: dial_def pool_size_def\<close>)
  next
    case (Some e)
    show ?thesis
      by (rule load_at [OF assms(1), of _ _ "Settled i"]) (use Some in \<open>simp_all add: dial_def settle_creation_def pool_size_def\<close>)
  qed
  then show ?thesis using assms(3) by simp
next
  case False
  then show ?thesis using assms(2,4) adders_le [of ks "dial env k i s"] by (simp add: load_def cap_def)
qed

lemma oldest_some: "es \<noteq> [] \<Longrightarrow> oldest es \<noteq> None"
  by (cases es rule: oldest.cases) (auto split: option.split)

lemma load_create:
  assumes "k \<in> set ks" "\<not> adding (po_phase s k)" "load ks s \<le> cap env n" "pe_max env \<ge> 1" "entries_ok s"
    and "pending ks (create_and_connect env k i s) \<le> n"
  shows "load ks (create_and_connect env k i s) \<le> cap env n"
proof (cases "pool_size s \<ge> pe_max env")
  case True
  then have "po_entries s \<noteq> []" using assms(4) by (auto simp: pool_size_def)
  then obtain j c u where o: "oldest (po_entries s) = Some (j, c, u)" using oldest_some by fastforce
  have wf: "jm_wf (po_entries s)" using assms(5) by (simp add: entries_ok_def)
  then have "Suc (pool_size (drop_entry j c s)) = pool_size s" using size_drop oldest_entry [OF o] by simp
  then have "load ks (at k (MakeClosing i c) (drop_entry j c s)) \<le> load ks s"
    using assms(2) by (intro load_at [OF assms(1), of _ _ "MakeClosing i c"]) simp_all
  then show ?thesis using True o assms(3) by (simp add: create_and_connect_def)
next
  case False
  then show ?thesis using load_dial [OF assms(1) _ assms(3)] assms(6) by (simp add: create_and_connect_def)
qed

lemma load_join:
  assumes "k \<in> set ks" "\<not> adding (po_phase s k)" "load ks s \<le> cap env n" "pe_max env \<ge> 1" "entries_ok s"
    and "pending ks (join_or_create env k i s) \<le> n"
  shows "load ks (join_or_create env k i s) \<le> cap env n"
proof -
  let ?s = "s\<lparr>po_inflight := jm_set i k (po_inflight s)\<rparr>"
  have "load ks (at k (Waiting i j) s) \<le> load ks s" for j
    by (rule load_at [OF assms(1), of _ _ "Waiting i j"]) (use assms(2) in simp_all)
  moreover have "load ks (create_and_connect env k i ?s) \<le> cap env n" if "jm_get (po_inflight s) i = None"
    by (rule load_create) (use assms that in \<open>simp_all add: load_def adders_cong [of ?s s] entries_ok_def join_or_create_def\<close>)
  ultimately show ?thesis
    using assms(3) by (cases "jm_get (po_inflight s) i") (auto simp: join_or_create_def intro: le_trans)
qed

lemma load_sweep:
  "k \<in> set ks \<Longrightarrow> \<not> adding (po_phase s k) \<Longrightarrow> entries_ok s \<Longrightarrow> load ks (sweep_on env k kind t ids s) \<le> load ks s"
proof (induction ids)
  case Nil
  then show ?case by (auto intro: load_at [of k ks _ s Done])
next
  case (Cons i ids)
  have "load ks (at k (SweepClosing kind i c ids) (drop_entry i c s)) \<le> load ks s" if "jm_get (po_entries s) i = Some (c, u)" for c u
    using Cons.prems size_drop [OF _ that]
    by (intro load_at [OF Cons.prems(1), of _ _ "SweepClosing kind i c ids"]) (simp_all add: entries_ok_def)
  then show ?case using Cons by (auto split: option.split)
qed

text \<open>The tasks an event names.\<close>

fun task_of :: "pool_event \<Rightarrow> nat list" where
  "task_of (Get k i t) = [k]"
| "task_of (Sweep k kind t) = [k]"
| "task_of (Resume k t r) = [k]"
| "task_of (Release i t) = []"

definition tasks_in :: "pool_event list \<Rightarrow> nat list" where
  "tasks_in evs = concat (map task_of evs)"

lemma load_get:
  assumes "k \<in> set ks" "po_phase s k = Idle" "load ks s \<le> cap env n" "pe_max env \<ge> 1" "entries_ok s"
    and "pending ks (pool_get env k i t s) \<le> n"
  shows "load ks (pool_get env k i t s) \<le> cap env n"
proof -
  let ?s = "s\<lparr>po_for := (po_for s)(k := i)\<rparr>"
  have same: "load ks ?s = load ks s" "entries_ok ?s" using assms(5) by (simp_all add: load_def adders_cong [of ?s s] entries_ok_def)
  show ?thesis
  proof (cases "jm_get (po_entries ?s) i")
    case None
    then show ?thesis
      using load_join [of k ks ?s env n i] assms same by (simp add: pool_get_def Let_def)
  next
    case (Some e)
    obtain c u where e: "e = (c, u)" by fastforce
    have "load ks (at k (Closing i c) (drop_entry i c ?s)) \<le> load ks ?s"
      using assms(1) size_drop [of ?s i c u] Some e same(2)
      by (intro load_at [OF assms(1), of _ _ "Closing i c"]) (simp_all add: entries_ok_def)
    moreover have "load ks (pool_finish k (Some (Inr c)) (?s\<lparr>po_entries := jm_set i (c, t) (po_entries ?s)\<rparr>)) \<le> load ks ?s"
      using size_set(2) [OF Some, of "(c, t)"] by (intro load_at [OF assms(1), of _ _ Done]) simp_all
    ultimately show ?thesis using Some e same assms(3) by (auto simp: pool_get_def Let_def)
  qed
qed

lemma load_resume:
  assumes "k \<in> set ks" "load ks s \<le> cap env n" "pe_max env \<ge> 1" "entries_ok s"
    and "pending ks (resume env k t r s) \<le> n"
  shows "load ks (resume env k t r s) \<le> cap env n"
proof -
  have le: "load ks s' \<le> load ks s \<Longrightarrow> load ks s' \<le> cap env n" for s' using assms(2) by simp
  show ?thesis
  proof (cases "po_phase s k")
    case (Closing i c)
    have "load ks (at k (ClosingAudit i) (log_pool env ''connection_closed'' i s)) \<le> load ks s"
      by (rule load_at [OF assms(1), of _ _ "ClosingAudit i"]) (use Closing in simp_all)
    then show ?thesis using Closing load_join [OF assms(1) _ assms(2-4)] assms(5) le by (cases "pe_audit env") (simp_all add: resume_def)
  next
    case (ClosingAudit i)
    then show ?thesis using load_join [OF assms(1) _ assms(2-4)] assms(5) by (simp add: resume_def)
  next
    case (MakeClosing i c)
    have "load ks (at k (MakeAudit i) (log_pool env e j s)) \<le> load ks s" for e j
      by (rule load_at [OF assms(1), of _ _ "MakeAudit i"]) (use MakeClosing in simp_all)
    then show ?thesis using MakeClosing load_dial [OF assms(1) _ assms(2)] assms(5) le by (cases "pe_audit env") (simp_all add: resume_def)
  next
    case (MakeAudit i)
    then show ?thesis using load_dial [OF assms(1) _ assms(2)] assms(5) by (simp add: resume_def)
  next
    case (Connecting i c)
    have "adding (po_phase s k)" using Connecting by simp
    moreover have "pool_size (s\<lparr>po_conns := (po_conns s)(c := Some (i, Open)), po_entries := jm_set i (c, t) (po_entries s)\<rparr>)
        \<le> Suc (pool_size s)"
      using size_set(1) [of i "(c, t)" "s\<lparr>po_conns := (po_conns s)(c := Some (i, Open))\<rparr>"] by simp
    ultimately have "load ks (resume env k t r s) \<le> load ks s"
      using Connecting
      by (intro load_at [OF assms(1), where p = "po_phase (resume env k t r s) k"]; cases r; cases "pe_audit env")
        (simp_all add: resume_def Let_def settle_creation_def pool_size_def)
    then show ?thesis by (rule le)
  next
    case (FailAudit i e)
    then have "load ks (resume env k t r s) \<le> load ks s"
      by (intro load_at [OF assms(1), of _ _ "Settled i"]) (simp_all add: resume_def settle_creation_def pool_size_def)
    then show ?thesis by (rule le)
  next
    case (OpenAudit i c)
    then have "load ks (resume env k t r s) \<le> load ks s"
      by (intro load_at [OF assms(1), of _ _ "Settled i"]) (simp_all add: resume_def settle_creation_def pool_size_def)
    then show ?thesis by (rule le)
  next
    case (Settled i)
    then have "load ks (resume env k t r s) \<le> load ks s"
      by (intro load_at [OF assms(1), of _ _ Done]) (simp_all add: resume_def)
    then show ?thesis by (rule le)
  next
    case (Waiting i j)
    then have "load ks (resume env k t r s) \<le> load ks s"
      by (cases "po_made s j") (auto simp: resume_def intro!: load_at [OF assms(1), of _ _ Done])
    then show ?thesis by (rule le)
  next
    case (SweepClosing kind i c ids)
    have "load ks (at k (SweepAudit ids) (log_pool env ''connection_closed'' i s)) \<le> load ks s"
      by (rule load_at [OF assms(1), of _ _ "SweepAudit ids"]) (use SweepClosing in simp_all)
    then show ?thesis using SweepClosing load_sweep [OF assms(1) _ assms(4)] le by (simp add: resume_def)
  next
    case (SweepAudit ids)
    then show ?thesis using load_sweep [OF assms(1) _ assms(4)] le by (simp add: resume_def)
  qed (use assms(2) in \<open>simp_all add: resume_def\<close>)
qed

lemma load_step:
  assumes "pe_max env \<ge> 1" "set (task_of ev) \<subseteq> set ks" "pool_ok s" "load ks s \<le> cap env n"
    and "pending ks (pool_step env ev s) \<le> n"
  shows "load ks (pool_step env ev s) \<le> cap env n"
proof -
  have e: "entries_ok s" using assms(3) by (simp add: pool_ok_def)
  show ?thesis
  proof (cases ev)
    case (Get k i t)
    then show ?thesis using load_get [OF _ _ assms(4,1) e] assms(2,4,5) by (cases "po_phase s k = Idle") simp_all
  next
    case (Sweep k kind t)
    then show ?thesis
      using load_sweep [of k ks s env kind t "map fst (po_entries s)"] assms(2,4) e
      by (cases "po_phase s k = Idle") (simp_all add: start_sweep_def)
  next
    case (Resume k t r)
    then show ?thesis using load_resume [OF _ assms(4,1) e] assms(2,5) by simp
  next
    case (Release i t)
    have "load ks (s\<lparr>po_entries := jm_set i (c, t) (po_entries s)\<rparr>) = load ks s" if "jm_get (po_entries s) i = Some (c, u)" for c u
      using size_set(2) [OF that, of "(c, t)"] by (simp add: load_def adders_cong [of "s\<lparr>po_entries := jm_set i (c, t) (po_entries s)\<rparr>" s])
    then show ?thesis using Release assms(4) by (auto simp: release_conn_def split: option.split)
  qed
qed

text \<open>
  C39: A pool whose cap is at least one never holds more than its cap and \<open>n - 1\<close> entries, if at no moment
  more than \<open>n\<close> calls and sweeps are under way, however many are made in all, by whom, for which platforms,
  and in whatever order they interleave. With one call at a time it stays within the cap.
\<close>

lemma pool_bounded:
  assumes "pe_max env \<ge> 1" "n \<ge> 1"
    and "list_all (\<lambda>m. pending (tasks_in evs) (fold (pool_step env) (take m evs) new_pool) \<le> n) [0..<Suc (length evs)]"
  shows "pool_size (fold (pool_step env) evs new_pool) \<le> pe_max env + (n - 1)"
proof -
  have "load (tasks_in evs) (fold (pool_step env) (take m evs) new_pool) \<le> cap env n" if "m \<le> length evs" for m
    using that
  proof (induction m)
    case 0
    then show ?case by (simp add: load_def pool_size_def adders_def new_pool_def)
  next
    case (Suc m)
    let ?s = "fold (pool_step env) (take m evs) new_pool"
    have step: "fold (pool_step env) (take (Suc m) evs) new_pool = pool_step env (evs ! m) ?s"
      using Suc.prems by (simp add: take_Suc_conv_app_nth)
    have "set (task_of (evs ! m)) \<subseteq> set (tasks_in evs)"
      using Suc.prems nth_mem [of m evs] by (auto simp: tasks_in_def simp del: nth_mem)
    moreover have "pending (tasks_in evs) (pool_step env (evs ! m) ?s) \<le> n"
      using assms(3) Suc.prems unfolding list_all_iff step [symmetric] by (auto simp del: upt_Suc)
    ultimately show ?case
      using load_step [OF assms(1) _ reachable_pool_ok] Suc by (simp add: step)
  qed
  from this [of "length evs"] show ?thesis using assms(1,2) by (simp add: load_def cap_def)
qed

section \<open>Every call returns\<close>

fun rank :: "wait_phase \<Rightarrow> nat" where
  "rank (Closing i c) = 8"
| "rank (ClosingAudit i) = 7"
| "rank (MakeClosing i c) = 6"
| "rank (MakeAudit i) = 5"
| "rank (Connecting i c) = 4"
| "rank (FailAudit i e) = 3"
| "rank (OpenAudit i c) = 3"
| "rank (Settled i) = 2"
| "rank (Waiting i j) = 1"
| "rank (SweepClosing kind i c ids) = 2 * length ids + 2"
| "rank (SweepAudit ids) = 2 * length ids + 1"
| "rank Idle = 0"
| "rank Done = 0"

definition moves :: "nat \<Rightarrow> pool \<Rightarrow> pool \<Rightarrow> bool" where
  "moves k s s' \<longleftrightarrow> (\<exists>p. po_phase s' = (po_phase s)(k := p) \<and> rank p < rank (po_phase s k))"

lemma moves_sweep: "2 * length ids < rank (po_phase s k) \<Longrightarrow> moves k s (sweep_on env k kind t ids s)"
proof (induction ids)
  case Nil
  then show ?case by (auto simp: moves_def intro!: exI [of _ Done])
next
  case (Cons i ids)
  have "moves k s (at k (SweepClosing kind i c ids) (drop_entry i c s))" for c
    using Cons.prems by (auto simp: moves_def intro!: exI [of _ "SweepClosing kind i c ids"])
  then show ?case using Cons by (auto split: option.split)
qed

lemma moves_dial: "rank (po_phase s k) > 4 \<Longrightarrow> moves k s (dial env k i s)"
  unfolding moves_def
  by (rule exI [of _ "case pe_factory env k i of None \<Rightarrow> Connecting i (po_next s) | Some e \<Rightarrow> Settled i"])
    (simp add: dial_def settle_creation_def split: option.split)

lemma moves_join:
  assumes "rank (po_phase s k) > 6"
  shows "moves k s (join_or_create env k i s)"
proof -
  let ?s = "s\<lparr>po_inflight := jm_set i k (po_inflight s)\<rparr>"
  have dial: "moves k s (dial env k i ?s)"
    using moves_dial [of ?s k env i] assms by (simp add: moves_def)
  have "moves k s (at k (MakeClosing i c) (drop_entry j c ?s))" for j c
    using assms by (auto simp: moves_def intro!: exI [of _ "MakeClosing i c"])
  moreover have "moves k s (at k (Waiting i j) s)" for j
    using assms by (auto simp: moves_def intro!: exI [of _ "Waiting i j"])
  ultimately show ?thesis
    using dial by (auto simp: join_or_create_def create_and_connect_def split: option.split)
qed

text \<open>Resuming a task moves it, unless it waits for a creation that has not settled.\<close>

lemma resume_moves:
  assumes "rank (po_phase s k) > 0" "\<And>i j. po_phase s k = Waiting i j \<Longrightarrow> po_made s j \<noteq> None"
  shows "moves k s (resume env k t r s)"
proof -
  have done': "moves k s (pool_finish k x s')" if "po_phase s' = po_phase s" for x s'
    using assms(1) that by (auto simp: moves_def intro!: exI [of _ Done])
  have set': "moves k s (settle_creation k i x s')" if "po_phase s' = po_phase s" "rank (po_phase s k) > 2" for i x s'
    using that by (auto simp: moves_def settle_creation_def intro!: exI [of _ "Settled i"])
  have at': "moves k s (at k p s')" if "po_phase s' = po_phase s" "rank p < rank (po_phase s k)" for p s'
    using that by (auto simp: moves_def)
  show ?thesis
  proof (cases "po_phase s k")
    case (Connecting i c)
    then show ?thesis
      by (cases r; cases "pe_audit env") (auto simp: resume_def Let_def intro!: at' set')
  next
    case (Waiting i j)
    then show ?thesis using assms(2) done' by (auto simp: resume_def)
  qed (use assms(1) in \<open>auto simp: resume_def intro!: at' set' done' moves_join moves_dial moves_sweep\<close>)
qed

definition work :: "nat \<Rightarrow> pool \<Rightarrow> nat" where
  "work n s = (\<Sum>k<n. rank (po_phase s k))"

lemma work_moves: "k < n \<Longrightarrow> moves k s s' \<Longrightarrow> work n s' < work n s"
proof -
  assume k: "k < n" and "moves k s s'"
  then obtain p where p: "po_phase s' = (po_phase s)(k := p)" "rank p < rank (po_phase s k)" by (auto simp: moves_def)
  have "work n s' = rank p + (\<Sum>l\<in>{..<n} - {k}. rank (po_phase s l))"
    using k p(1) by (simp add: work_def sum.remove [of "{..<n}" k])
  moreover have "work n s = rank (po_phase s k) + (\<Sum>l\<in>{..<n} - {k}. rank (po_phase s l))"
    using k by (simp add: work_def sum.remove [of "{..<n}" k])
  ultimately show ?thesis using p(2) by simp
qed

lemma some_ready:
  assumes "pool_ok s" "\<forall>l \<ge> n. po_phase s l = Idle" "k < n" "rank (po_phase s k) > 0"
  shows "\<exists>l<n. rank (po_phase s l) > 0 \<and> (\<forall>i j. po_phase s l = Waiting i j \<longrightarrow> po_made s j \<noteq> None)"
proof (cases "\<exists>i j. po_phase s k = Waiting i j \<and> po_made s j = None")
  case True
  then obtain i j where w: "po_phase s k = Waiting i j" "po_made s j = None" by blast
  have "phase_ok s k (po_phase s k)" using assms(1) by (simp add: pool_ok_def results_ok_def)
  then have c: "creating (po_phase s j) \<noteq> None" using w by (simp add: phase_ok_def)
  then have "j < n" using assms(2) by (metis creating.simps(7) not_less)
  moreover have "rank (po_phase s j) > 0" "\<not> (\<exists>i' j'. po_phase s j = Waiting i' j')" using c by (cases "po_phase s j"; simp)+
  ultimately show ?thesis by blast
next
  case False
  then show ?thesis using assms(3,4) by (intro exI [of _ k]) auto
qed

text \<open>
  C40: No call can be blocked for good: from every state the first \<open>n\<close> tasks can reach, resuming them
  in a suitable order, whatever the operations they await come to and when, brings all of them to their end in at most as many steps as
  the work they have left.
\<close>

lemma pool_completes:
  assumes "s = fold (pool_step env) evs new_pool" "\<forall>k \<ge> n. po_phase s k = Idle"
  shows "\<exists>ks. length ks \<le> work n s
    \<and> (\<forall>k<n. rank (po_phase (fold (\<lambda>k s. pool_step env (Resume k (t s) (r s)) s) ks s) k) = 0)"
proof -
  have "pool_ok s" using assms(1) reachable_pool_ok by simp
  then show ?thesis
    using assms(2)
  proof (induction "work n s" arbitrary: s rule: less_induct)
    case less
    show ?case
    proof (cases "\<exists>k<n. rank (po_phase s k) > 0")
      case True
      then obtain k where k: "k < n" "rank (po_phase s k) > 0" "\<And>i j. po_phase s k = Waiting i j \<Longrightarrow> po_made s j \<noteq> None"
        using some_ready [OF less.prems] by blast
      let ?s = "pool_step env (Resume k (t s) (r s)) s"
      have m: "moves k s ?s" using resume_moves [OF k(2,3)] by simp
      then have "\<forall>l \<ge> n. po_phase ?s l = Idle" using less.prems(2) k(1) by (auto simp: moves_def)
      from less.hyps [OF work_moves [OF k(1) m] ok_step [OF less.prems(1)] this] obtain ks where
        "length ks \<le> work n ?s" "\<forall>l<n. rank (po_phase (fold (\<lambda>k s. pool_step env (Resume k (t s) (r s)) s) ks ?s) l) = 0" by blast
      then show ?thesis using work_moves [OF k(1) m] by (intro exI [of _ "k # ks"]) simp
    qed (auto intro: exI [of _ "[]"])
  qed
qed

section \<open>Where the pool falls short of its comments\<close>

definition demo_pool :: pool_env where
  "demo_pool = \<lparr>pe_max = 1, pe_idle = 10, pe_audit = False, pe_factory = (\<lambda>k i. None)\<rparr>"

lemmas pool_eval = demo_pool_def new_pool_def pool_get_def join_or_create_def create_and_connect_def dial_def settle_creation_def
  at_def pool_finish_def resume_def pool_size_def is_stale_def drop_entry_def Let_def log_pool_def

text \<open>Two callers with different platforms pass the test of the cap together: it holds two entries of one.\<close>

lemma cap_overshoot:
  "pool_size (fold (pool_step demo_pool) [Get 0 ''a'' 0, Get 1 ''b'' 0, Resume 0 1 None, Resume 1 1 None] new_pool) = 2"
  by (simp add: pool_eval)

text \<open>A call that is evicting a stale entry does not see that another call has connected meanwhile: it
  connects again, and the first connection is left open outside the pool, where nothing will close it.\<close>

lemma connection_leaks:
  "let s = fold (pool_step (demo_pool\<lparr>pe_max := 5\<rparr>)) [Get 0 ''a'' 0, Resume 0 1 None, Resume 0 1 None, Get 1 ''a'' 20, Get 2 ''a'' 20,
      Resume 2 21 None, Resume 2 21 None, Resume 1 22 None, Resume 1 23 None] new_pool
   in po_out s 2 = Some (Inr 1) \<and> po_conns s 1 = Some (''a'', Open) \<and> po_entries s = [(''a'', 2, 23)]"
  by (simp add: pool_eval)

text \<open>A connection that was made but could not be audited is refused to the caller and kept in the pool.\<close>

lemma unaudited_connection_kept:
  "let s = fold (pool_step (demo_pool\<lparr>pe_audit := True\<rparr>)) [Get 0 ''a'' 0, Resume 0 1 None, Resume 0 2 (Some (Error ''audit'')),
      Resume 0 2 None] new_pool
   in po_out s 0 = Some (Inl (Error ''audit'')) \<and> po_entries s = [(''a'', 0, 1)]"
  by (simp add: pool_eval)

section \<open>Audited commands\<close>

text \<open>The wrapper of \<open>exec\<close>: what the caller gets is what the connection gave, and one entry is appended,
  with the redacted command; a failure of the append is swallowed. \<open>code\<close> and \<open>duration\<close> read a result.\<close>

definition exec_payload :: "('a \<Rightarrow> int) \<Rightarrow> ('a \<Rightarrow> int) \<Rightarrow> string \<Rightarrow> 'a res \<Rightarrow> event" where
  "exec_payload code duration command r =
    (''command'', JStr (redact_command command))
    # (case r of
         Inr x \<Rightarrow> [(''exit_code'', JInt (code x)), (''duration_ms'', JInt (duration x))]
       | Inl e \<Rightarrow> [(''exit_code'', JInt (- 1)), (''error'', JStr (error_message e))])"

definition audited_exec ::
  "('a \<Rightarrow> int) \<Rightarrow> ('a \<Rightarrow> int) \<Rightarrow> string \<Rightarrow> string \<Rightarrow> 'a res \<Rightarrow> 'a res \<times> (string \<times> event \<times> string) list" where
  "audited_exec code duration platform command r =
    (r, [(''command_executed'', exec_payload code duration command r, platform)])"

section \<open>Witnesses\<close>

lemma pool_safe_witness:
  "po_conns (fold (pool_step demo_pool) [Get 0 ''a'' 0, Resume 0 1 None] new_pool) 0 = Some (''a'', Open)"
proof -
  have "jm_get (po_entries (fold (pool_step demo_pool) [Get 0 ''a'' 0, Resume 0 1 None] new_pool)) ''a'' = Some (0, 1)"
    by (simp add: pool_eval)
  then show ?thesis using pool_safe [OF refl] by blast
qed

text \<open>Two calls at a time, three in all, and a cap of one.\<close>

lemma pool_bounded_witness:
  "pool_size (fold (pool_step demo_pool) [Get 0 ''a'' 0, Resume 0 1 None, Resume 0 2 None, Get 1 ''b'' 3, Get 2 ''c'' 3,
     Resume 1 4 None, Resume 2 4 None, Resume 1 5 None, Resume 2 5 None] new_pool) \<le> 2"
  using pool_bounded [of demo_pool 2 "[Get 0 ''a'' 0, Resume 0 1 None, Resume 0 2 None, Get 1 ''b'' 3, Get 2 ''c'' 3,
     Resume 1 4 None, Resume 2 4 None, Resume 1 5 None, Resume 2 5 None]"]
  by (simp add: pool_eval pending_def tasks_in_def upt_conv_Cons)

lemma pool_completes_witness:
  "\<exists>ks. rank (po_phase (fold (\<lambda>k s. pool_step demo_pool (Resume k 5 None) s) ks
      (fold (pool_step demo_pool) [Get 0 ''a'' 0, Get 1 ''a'' 0] new_pool)) 1) = 0"
proof -
  let ?s = "fold (pool_step demo_pool) [Get 0 ''a'' 0, Get 1 ''a'' 0] new_pool"
  have "\<forall>k \<ge> 2. po_phase ?s k = Idle" by (simp add: pool_eval)
  from pool_completes [OF refl this, of "\<lambda>s. 5" "\<lambda>s. None"] obtain ks where
    "\<forall>k<2. rank (po_phase (fold (\<lambda>k s. pool_step demo_pool (Resume k 5 None) s) ks ?s) k) = 0" by blast
  then show ?thesis by (intro exI [of _ ks]) simp
qed

end
