(* ===== verification/Params.thy ===== *)
theory Params
  imports Json
begin

text \<open>
  \<open>src/deploy/validate-parameters.ts\<close>: the schema-driven check of the parameters of a deployment, and
  the schema type of \<open>src/deploy/types.ts\<close>. A regular expression is the predicate it decides.
\<close>

section \<open>Schemas\<close>

datatype param_type = PString | PNumber | PBoolean | PArray | PObject

datatype param_format = FIdentifier | FShellSafeArg | FUrl | FPath | FAbsolutePath

datatype param_schema = Schema
  (ps_type: param_type)
  (ps_required: bool)
  (ps_default: "jsval option")
  (ps_enum: "jsval list option")
  (ps_range: "(int \<times> int) option")
  (ps_regex: "(string \<Rightarrow> bool) option")
  (ps_format: "param_format option")
  (ps_items: "param_schema option")
  (ps_additional: "param_schema option")
  (ps_properties: "(string \<times> param_schema) list option")

definition is_word :: "char \<Rightarrow> bool" where
  "is_word c \<longleftrightarrow> is_alnum c \<or> c = CHR ''_''"

definition ident_ok :: "string \<Rightarrow> bool" where
  "ident_ok s \<longleftrightarrow> 1 \<le> length s \<and> length s \<le> 128
     \<and> list_all (\<lambda>c. is_alnum c \<or> c \<in> set ''_.-'') s"

definition shell_safe_ok :: "string \<Rightarrow> bool" where
  "shell_safe_ok s \<longleftrightarrow> 1 \<le> length s \<and> length s \<le> 512
     \<and> list_all (\<lambda>c. is_alnum c \<or> c \<in> set ''_./@:+=,-'') s"

definition url_ok :: "string \<Rightarrow> bool" where
  "url_ok s \<longleftrightarrow>
     (\<exists>p \<in> {''http://'', ''https://''}. starts_with p s
        \<and> 1 \<le> length s - length p \<and> length s - length p \<le> 2048
        \<and> list_all (\<lambda>c. \<not> is_space c) (drop (length p) s))"

definition path_chars :: "string \<Rightarrow> bool" where
  "path_chars s \<longleftrightarrow> list_all (\<lambda>c. is_word c \<or> c \<in> set ''./-'') s"

definition abs_path_ok :: "string \<Rightarrow> bool" where
  "abs_path_ok s \<longleftrightarrow> starts_with ''/'' s \<and> length s \<le> 1025 \<and> path_chars (tl s)"

definition path_ok :: "string \<Rightarrow> bool" where
  "path_ok s \<longleftrightarrow> 1 \<le> length s \<and> length s \<le> 1024 \<and> path_chars s"

fun format_ok :: "param_format \<Rightarrow> string \<Rightarrow> bool" where
  "format_ok FIdentifier s = ident_ok s"
| "format_ok FShellSafeArg s = shell_safe_ok s"
| "format_ok FUrl s = url_ok s"
| "format_ok FAbsolutePath s = abs_path_ok s"
| "format_ok FPath s = path_ok s"

fun format_message :: "param_format \<Rightarrow> string" where
  "format_message FIdentifier = ''must match identifier pattern''"
| "format_message FShellSafeArg = ''contains shell-unsafe characters''"
| "format_message FUrl = ''must be an http(s) URL''"
| "format_message FAbsolutePath = ''must be an absolute path''"
| "format_message FPath = ''must be a relative or absolute path''"

definition invalid :: "string \<Rightarrow> string \<Rightarrow> error" where
  "invalid name why = DeployError InvalidParams (''param '' @ [CHR 0x27] @ name @ [CHR 0x27] @ '' '' @ why) False None"

definition check_format :: "string \<Rightarrow> string \<Rightarrow> param_format \<Rightarrow> unit res" where
  "check_format name v f = (if format_ok f v then Inr () else Inl (invalid name (format_message f)))"

section \<open>Checking one parameter\<close>

definition enum_text :: "jsval list \<Rightarrow> string" where
  "enum_text vs = join '','' (map (\<lambda>v. case v of JStr s \<Rightarrow> s | JNum (Fin n) \<Rightarrow> int_str n | _ \<Rightarrow> []) vs)"

definition check_string :: "string \<Rightarrow> jsval \<Rightarrow> param_schema \<Rightarrow> jsval res" where
  "check_string name raw sch =
    (case raw of
       JStr s \<Rightarrow>
         if (case ps_enum sch of Some vs \<Rightarrow> raw \<notin> set vs | None \<Rightarrow> False)
         then Inl (invalid name (''must be one of ['' @ enum_text (the (ps_enum sch)) @ '']''))
         else if (case ps_regex sch of Some r \<Rightarrow> \<not> r s | None \<Rightarrow> False)
         then Inl (invalid name ''does not match required regex'')
         else (case ps_format sch of
                 None \<Rightarrow> Inr raw
               | Some f \<Rightarrow> rbind (check_format name s f) (\<lambda>_. Inr raw))
     | _ \<Rightarrow> Inl (invalid name ''must be a string''))"

definition check_number :: "string \<Rightarrow> jsval \<Rightarrow> param_schema \<Rightarrow> jsval res" where
  "check_number name raw sch =
    (case raw of
       JNum (Fin n) \<Rightarrow>
         if (case ps_range sch of Some (lo, hi) \<Rightarrow> n < lo \<or> n > hi | None \<Rightarrow> False)
         then Inl (invalid name (''must be in ['' @ int_str (fst (the (ps_range sch))) @ '','' @
                int_str (snd (the (ps_range sch))) @ '']''))
         else if (case ps_enum sch of Some vs \<Rightarrow> raw \<notin> set vs | None \<Rightarrow> False)
         then Inl (invalid name (''must be one of ['' @ enum_text (the (ps_enum sch)) @ '']''))
         else Inr raw
     | _ \<Rightarrow> Inl (invalid name ''must be a finite number''))"

definition index_name :: "string \<Rightarrow> nat \<Rightarrow> string" where
  "index_name name i = name @ ''['' @ nat_str i @ '']''"

definition param_path :: "string \<Rightarrow> string \<Rightarrow> string" where
  "param_path name k = name @ ''.'' @ k"

text \<open>The item, property and value loops discard what the nested check returns.\<close>

function check_one :: "string \<Rightarrow> jsval \<Rightarrow> param_schema \<Rightarrow> jsval res"
  and check_items :: "string \<Rightarrow> nat \<Rightarrow> jsval list \<Rightarrow> param_schema \<Rightarrow> unit res"
  and check_values :: "string \<Rightarrow> (string \<times> jsval) list \<Rightarrow> param_schema \<Rightarrow> unit res"
  and check_props :: "string \<Rightarrow> jsval \<Rightarrow> (string \<times> param_schema) list \<Rightarrow> unit res" where
  "check_one name raw (Schema ty req dflt enm rng rgx fmt items addl props) =
    (if raw = JUndef \<or> raw = JNull
     then (if req \<and> dflt = None
           then Inl (DeployError InvalidParams (''required param '' @ [CHR 0x27] @ name @ [CHR 0x27] @ '' is missing'') False None)
           else Inr (case dflt of None \<Rightarrow> JUndef | Some d \<Rightarrow> d))
     else (case ty of
         PString \<Rightarrow> check_string name raw (Schema ty req dflt enm rng rgx fmt items addl props)
       | PNumber \<Rightarrow> check_number name raw (Schema ty req dflt enm rng rgx fmt items addl props)
       | PBoolean \<Rightarrow> (case raw of JBool b \<Rightarrow> Inr raw | _ \<Rightarrow> Inl (invalid name ''must be a boolean''))
       | PArray \<Rightarrow>
           (case raw of
              JArr vs \<Rightarrow> (case items of
                  None \<Rightarrow> Inr raw | Some it \<Rightarrow> rbind (check_items name 0 vs it) (\<lambda>_. Inr raw))
            | _ \<Rightarrow> Inl (invalid name ''must be an array''))
       | PObject \<Rightarrow>
           (case raw of
              JObj kvs \<Rightarrow>
                rbind (case addl of None \<Rightarrow> Inr () | Some a \<Rightarrow> check_values name kvs a) (\<lambda>_.
                rbind (case props of None \<Rightarrow> Inr () | Some ps \<Rightarrow> check_props name raw ps) (\<lambda>_. Inr raw))
            | _ \<Rightarrow> Inl (invalid name ''must be an object''))))"
| "check_items name i [] it = Inr ()"
| "check_items name i (v # vs) it =
    rbind (case it of Schema ty req dflt enm rng rgx fmt items addl props \<Rightarrow>
        (case (ty, props) of
           (PString, _) \<Rightarrow>
             (case v of
                JStr s \<Rightarrow> (case rgx of
                    Some r \<Rightarrow> if r s then Inr () else Inl (invalid (index_name name i) ''does not match required regex'')
                  | None \<Rightarrow> Inr ())
              | _ \<Rightarrow> Inl (invalid (index_name name i) ''must be a string''))
         | (PObject, Some ps) \<Rightarrow>
             (case v of
                JObj kvs \<Rightarrow> check_props (index_name name i) v ps
              | _ \<Rightarrow> Inl (invalid (index_name name i) ''must be an object''))
         | _ \<Rightarrow> rbind (check_one (index_name name i) v it) (\<lambda>_. Inr ())))
      (\<lambda>_. check_items name (i + 1) vs it)"
| "check_values name [] a = Inr ()"
| "check_values name (kv # kvs) a =
    rbind (check_one (param_path name (fst kv)) (snd kv) a) (\<lambda>_. check_values name kvs a)"
| "check_props name obj [] = Inr ()"
| "check_props name obj (p # ps) =
    rbind (check_one (param_path name (fst p)) (field obj (fst p)) (snd p)) (\<lambda>_. check_props name obj ps)"
  by pat_completeness auto

termination
  by (relation "measures [
      (\<lambda>x. case x of Inl (Inl (_, _, s)) \<Rightarrow> size s | Inl (Inr (_, _, _, s)) \<Rightarrow> size s
                   | Inr (Inl (_, _, s)) \<Rightarrow> size s | Inr (Inr (_, _, ps)) \<Rightarrow> size_list (size_prod (\<lambda>_. 0) size) ps),
      (\<lambda>x. case x of Inl (Inl (_, _, s)) \<Rightarrow> 0 | Inl (Inr (_, _, vs, s)) \<Rightarrow> Suc (length vs)
                   | Inr (Inl (_, kvs, s)) \<Rightarrow> Suc (length kvs) | Inr (Inr (_, _, ps)) \<Rightarrow> Suc (length ps))]")
     auto

text \<open>The declared parameters in the order of the schema; undeclared ones are dropped.\<close>

fun validate_parameters :: "jsval \<Rightarrow> (string \<times> param_schema) list \<Rightarrow> (string, jsval) jsmap res" where
  "validate_parameters params [] = Inr []"
| "validate_parameters params ((name, sch) # schs) =
    rbind (check_one name (field params name) sch) (\<lambda>v.
    rbind (validate_parameters params schs) (\<lambda>out.
    Inr (if v = JUndef then out else (name, v) # out)))"

section \<open>What a schema accepts\<close>

text \<open>The declarative reading of a schema: which values it describes, and what a value that is missing
  stands for.\<close>

abbreviation missing :: "jsval \<Rightarrow> bool" where
  "missing v \<equiv> v = JUndef \<or> v = JNull"

definition string_fits :: "param_schema \<Rightarrow> string \<Rightarrow> bool" where
  "string_fits sch s \<longleftrightarrow>
     (\<forall>vs. ps_enum sch = Some vs \<longrightarrow> JStr s \<in> set vs) \<and> (\<forall>r. ps_regex sch = Some r \<longrightarrow> r s)
     \<and> (\<forall>f. ps_format sch = Some f \<longrightarrow> format_ok f s)"

definition number_fits :: "param_schema \<Rightarrow> int \<Rightarrow> bool" where
  "number_fits sch n \<longleftrightarrow>
     (\<forall>lo hi. ps_range sch = Some (lo, hi) \<longrightarrow> lo \<le> n \<and> n \<le> hi)
     \<and> (\<forall>vs. ps_enum sch = Some vs \<longrightarrow> JInt n \<in> set vs)"

lemma size_props: "p \<in> set ps \<Longrightarrow> size (snd p) < Suc (size_list (size_prod (\<lambda>_. 0) size) ps)"
  by (induction ps) auto

function accepts :: "param_schema \<Rightarrow> jsval \<Rightarrow> bool" and item_accepts :: "param_schema \<Rightarrow> jsval \<Rightarrow> bool" where
  "accepts (Schema ty req dflt enm rng rgx fmt items addl props) v =
    (if missing v then \<not> (req \<and> dflt = None)
     else (case ty of
         PString \<Rightarrow> (\<exists>s. v = JStr s \<and> string_fits (Schema ty req dflt enm rng rgx fmt items addl props) s)
       | PNumber \<Rightarrow> (\<exists>n. v = JInt n \<and> number_fits (Schema ty req dflt enm rng rgx fmt items addl props) n)
       | PBoolean \<Rightarrow> (\<exists>b. v = JBool b)
       | PArray \<Rightarrow>
           (case v of JArr vs \<Rightarrow> (case items of None \<Rightarrow> True | Some it \<Rightarrow> (\<forall>x \<in> set vs. item_accepts it x))
            | _ \<Rightarrow> False)
       | PObject \<Rightarrow>
           (case v of JObj kvs \<Rightarrow>
                (case addl of None \<Rightarrow> True | Some a \<Rightarrow> (\<forall>kv \<in> set kvs. accepts a (snd kv)))
                \<and> (case props of None \<Rightarrow> True | Some ps \<Rightarrow> (\<forall>p \<in> set ps. accepts (snd p) (field v (fst p))))
            | _ \<Rightarrow> False)))"
| "item_accepts (Schema ty req dflt enm rng rgx fmt items addl props) v =
    (case (ty, props) of
       (PString, _) \<Rightarrow> (\<exists>s. v = JStr s \<and> (\<forall>r. rgx = Some r \<longrightarrow> r s))
     | (PObject, Some ps) \<Rightarrow> is_obj v \<and> (\<forall>p \<in> set ps. accepts (snd p) (field v (fst p)))
     | _ \<Rightarrow> accepts (Schema ty req dflt enm rng rgx fmt items addl props) v)"
  by pat_completeness auto

termination
proof (relation "measures [case_sum (\<lambda>(s, _). size s) (\<lambda>(s, _). size s), case_sum (\<lambda>_. 0) (\<lambda>_. 1)]", goal_cases)
  case 1 show ?case by simp
qed (auto dest: size_props simp: less_Suc_eq_le intro: le_imp_less_Suc less_le_trans)

lemma check_string_iff:
  "check_string name raw sch = Inr v \<longleftrightarrow> v = raw \<and> (\<exists>s. raw = JStr s \<and> string_fits sch s)"
  by (auto simp: check_string_def string_fits_def check_format_def res_simps
      split: jsval.splits option.splits if_splits)

lemma check_number_iff:
  "check_number name raw sch = Inr v \<longleftrightarrow> v = raw \<and> (\<exists>n. raw = JInt n \<and> number_fits sch n)"
  by (auto simp: check_number_def number_fits_def not_less split: jsval.splits jsnum.splits option.splits if_splits)

definition value_or_default :: "param_schema \<Rightarrow> jsval \<Rightarrow> jsval" where
  "value_or_default sch v =
    (if missing v then (case ps_default sch of None \<Rightarrow> JUndef | Some d \<Rightarrow> d) else v)"

lemma rbind_unit_iff: "(\<exists>u. rbind r f = Inr (u::unit)) \<longleftrightarrow> (\<exists>x. r = Inr x \<and> f x = Inr ())"
  by (auto simp: res_simps)

lemma check_iff:
  "check_one name raw sch = Inr w \<longleftrightarrow> accepts sch raw \<and> w = value_or_default sch raw"
  "check_items name i vs it = Inr () \<longleftrightarrow> (\<forall>v \<in> set vs. item_accepts it v)"
  "check_values name kvs a = Inr () \<longleftrightarrow> (\<forall>kv \<in> set kvs. accepts a (snd kv))"
  "check_props name obj ps = Inr () \<longleftrightarrow> (\<forall>p \<in> set ps. accepts (snd p) (field obj (fst p)))"
proof (induction name raw sch and name i vs it and name kvs a and name obj ps arbitrary: w and and and
    rule: check_one_check_items_check_values_check_props.induct)
  case (1 name raw ty req dflt enm rng rgx fmt items addl props)
  show ?case
  proof (cases "missing raw")
    case True
    then show ?thesis by (auto simp: value_or_default_def)
  next
    case False
    then show ?thesis
      using 1
      by (cases ty)
         (auto simp: value_or_default_def check_string_iff check_number_iff res_simps
           split: jsval.splits option.splits)
  qed
next
  case (3 name i v vs it)
  obtain ty req dflt enm rng rgx fmt items addl props where
    it: "it = Schema ty req dflt enm rng rgx fmt items addl props" by (cases it)
  show ?case
    using 3 unfolding it
    by (cases ty; cases props; cases v)
       (auto simp: res_simps split: option.splits)
qed (auto simp: res_simps)

section \<open>Validated parameters\<close>

lemma validate_dom:
  "validate_parameters params schs = Inr out \<Longrightarrow> subseq (map fst out) (map fst schs)"
proof (induction schs arbitrary: out)
  case (Cons p schs)
  obtain name sch where p: "p = (name, sch)" by fastforce
  from Cons.prems obtain v rest where v: "validate_parameters params schs = Inr rest"
    "out = (if v = JUndef then rest else (name, v) # rest)"
    by (auto simp: p res_simps)
  from Cons.IH [OF v(1)] show ?case by (auto simp: v(2) p intro: list_emb_Cons)
qed simp

lemma validate_get:
  "validate_parameters params schs = Inr out \<Longrightarrow> distinct (map fst schs) \<Longrightarrow> (name, sch) \<in> set schs
   \<Longrightarrow> jm_get out name = (let v = value_or_default sch (field params name) in if v = JUndef then None else Some v)"
proof (induction schs arbitrary: out)
  case (Cons p schs)
  obtain n s where p: "p = (n, s)" by fastforce
  from Cons.prems(1) obtain v rest where v: "v = value_or_default s (field params n)"
    "validate_parameters params schs = Inr rest" "out = (if v = JUndef then rest else (n, v) # rest)"
    by (auto simp: p res_simps check_iff)
  show ?case
  proof (cases "name = n")
    case True
    have "n \<notin> fst ` set schs" using Cons.prems(2) by (simp add: p)
    then have "n \<notin> set (map fst rest)"
      using list_emb_set [OF validate_dom [OF v(2)], of n] by auto
    then have "jm_get rest n = None" by (simp add: map_of_eq_None_iff)
    moreover have "s = sch" using Cons.prems(2,3) True by (auto simp: p image_iff)
    ultimately show ?thesis using v True by (simp add: Let_def)
  next
    case False
    then have "(name, sch) \<in> set schs" using Cons.prems(3) by (auto simp: p)
    with Cons.IH [OF v(2)] Cons.prems(2) False show ?thesis by (simp add: p v(3) Let_def)
  qed
qed simp

lemma validate_ok_iff:
  "(\<exists>out. validate_parameters params schs = Inr out) \<longleftrightarrow> (\<forall>(name, sch) \<in> set schs. accepts sch (field params name))"
proof (induction schs)
  case (Cons p schs)
  obtain n s where p: "p = (n, s)" by fastforce
  show ?case
    using Cons.IH by (auto simp: p res_simps check_iff)
qed simp

text \<open>
  C23: parameters validate exactly when every declared parameter is accepted by its schema; the result
  then holds, in the order of the schema and nothing else, each declared parameter with the value
  given, or its default when it was not given.
\<close>

theorem validate_parameters_typed:
  assumes "distinct (map fst schs)"
  shows "(\<exists>out. validate_parameters params schs = Inr out) = (\<forall>(name, sch) \<in> set schs. accepts sch (field params name))
    \<and> (\<forall>out. validate_parameters params schs = Inr out \<longrightarrow>
         subseq (map fst out) (map fst schs)
         \<and> (\<forall>(name, sch) \<in> set schs. jm_get out name =
              (let v = value_or_default sch (field params name) in if v = JUndef then None else Some v)))"
  using validate_ok_iff [of params schs] validate_dom [of params schs] validate_get [OF _ assms, of params]
  by blast

definition demo_schema :: param_schema where
  "demo_schema = Schema PNumber False (Some (JInt 180)) None (Some (10, 600)) None None None None None"

theorem validate_parameters_typed_witness:
  "\<exists>out. validate_parameters (JObj [(''extra'', JInt 3)]) [(''n'', demo_schema)] = Inr out
    \<and> jm_get out ''n'' = Some (JInt 180)"
proof -
  let ?p = "JObj [(''extra'', JInt 3)]"
  have "distinct (map fst [(''n'', demo_schema)])" by simp
  note th = validate_parameters_typed [OF this, of ?p]
  have "\<forall>(name, sch) \<in> set [(''n'', demo_schema)]. accepts sch (field ?p name)"
    by (simp add: demo_schema_def)
  from th [THEN conjunct1, THEN iffD2, OF this]
  obtain out where out: "validate_parameters ?p [(''n'', demo_schema)] = Inr out" ..
  note th [THEN conjunct2, THEN spec, THEN mp, OF out, THEN conjunct2]
  then have "jm_get out ''n'' = Some (JInt 180)"
    by (simp add: value_or_default_def demo_schema_def)
  with out show ?thesis by blast
qed

text \<open>A required string that validated is given, and has its format.\<close>

lemma required_string:
  assumes "validate_parameters params schs = Inr out" "distinct (map fst schs)" "(name, sch) \<in> set schs"
    and "ps_type sch = PString" "ps_required sch" "ps_default sch = None"
  shows "\<exists>s. jm_get out name = Some (JStr s) \<and> string_fits sch s"
proof -
  have "accepts sch (field params name)"
    using validate_ok_iff [of params schs] assms(1,3) by blast
  then obtain s where "field params name = JStr s" "string_fits sch s"
    using assms(4-6) by (cases sch) (auto split: if_splits)
  then show ?thesis
    using validate_get [OF assms(1-3)] by (simp add: value_or_default_def)
qed

text \<open>The defaults of the properties of an object are never applied: an object validates to itself.\<close>

lemma nested_defaults_dropped:
  "check_one name (JObj kvs) sch = Inr w \<Longrightarrow> w = JObj kvs"
  by (simp add: check_iff value_or_default_def)

end
