(* ===== verification/Deploy.thy ===== *)
theory Deploy
  imports Params Remote
begin

text \<open>
  What the deployment backends of \<open>src/deploy\<close> share: the records of \<open>types.ts\<close>, the signed records of
  \<open>sign-record.ts\<close> and \<open>persist-record.ts\<close>, \<open>state-paths.ts\<close>, the stateful targets of
  \<open>stateful-target.ts\<close>, the registry and its wiring, and the image pull with its retries. Also the
  world a backend acts on: the commands it ran, the records it wrote and the clock, which moves with
  every command and every sleep.
\<close>

section \<open>The world of a backend\<close>

type_synonym record_files = "(string, jsval option disk_file) jsmap"

text \<open>
  \<open>'q\<close> is what a backend sends: a command, or a request. \<open>dw_shares\<close> is what the emhttp client of a host
  remembers.
\<close>

record 'q dep_world =
  dw_host :: "'q list"
  dw_files :: record_files
  dw_now :: int
  dw_shares :: "(string, string list) jsmap"

type_synonym ('q, 'r) peer = "'q list \<Rightarrow> 'q \<Rightarrow> 'r res"
type_synonym ('q, 'a) deploy = "('q dep_world, 'a) prog"

text \<open>\<open>de_conn\<close> resolves a connection or fails; \<open>de_took\<close> is how long the next exchange takes, given how
  many there were before; \<open>de_sha\<close> is the SHA-256 digest in hexadecimal.\<close>

record ('q, 'r) dep_env =
  de_rt :: runtime
  de_conn :: "string \<Rightarrow> ('q, 'r) peer res"
  de_took :: "nat \<Rightarrow> nat"
  de_manifest :: "jsval option disk_file"
  de_disk :: bool
  de_id :: string
  de_sha :: "string \<Rightarrow> string"
  de_require_backup :: bool
  de_overrides :: "(string, int) jsmap"

text \<open>The backends that run commands over a connection.\<close>

type_synonym shell_env = "(string, exec_result) dep_env"
type_synonym 'a shell = "(string, 'a) deploy"

definition dexec :: "('q, 'r) dep_env \<Rightarrow> ('q, 'r) peer \<Rightarrow> 'q \<Rightarrow> ('q, 'r) deploy" where
  "dexec env c cmd w =
    (w\<lparr>dw_host := dw_host w @ [cmd], dw_now := dw_now w + int (de_took env (length (dw_host w)))\<rparr>,
     c (dw_host w) cmd)"

definition rlift :: "'a res \<Rightarrow> ('s, 'a) prog" where
  "rlift r s = (s, r)"

definition get_connection :: "('q, 'r) dep_env \<Rightarrow> string \<Rightarrow> ('q, ('q, 'r) peer) deploy" where
  "get_connection env i = rlift (de_conn env i)"

definition sleep_ms :: "int \<Rightarrow> 'q dep_world \<Rightarrow> 'q dep_world" where
  "sleep_ms ms w = w\<lparr>dw_now := dw_now w + ms\<rparr>"

definition output_text :: "nat \<Rightarrow> exec_result \<Rightarrow> string" where
  "output_text n r = take n (if x_stderr r = [] then x_stdout r else x_stderr r)"

definition deploy_error :: "deploy_code \<Rightarrow> string \<Rightarrow> error" where
  "deploy_error c m = DeployError c m False None"

lemma rthen_dexec_lift:
  "rthen (dexec env c cmd) (\<lambda>r. rlift (test r)) w =
     (fst (dexec env c cmd w), rbind (c (dw_host w) cmd) test)"
  by (simp add: rthen_def dexec_def rlift_def split: sum.split)

lemma rthen_dexec:
  "rthen (dexec env c q) f w =
    (case c (dw_host w) q of
       Inl e \<Rightarrow> (fst (dexec env c q w), Inl e)
     | Inr x \<Rightarrow> f x (fst (dexec env c q w)))"
  by (simp add: rthen_def dexec_def split: sum.split)

lemma rthen_rlift: "rthen (rlift (Inr x)) f = f x"
  by (simp add: rthen_def rlift_def fun_eq_iff)

lemma rcatch_returns: "\<exists>v x. rcatch m f w = (v, Inr x)"
  by (simp add: rcatch_def split: prod.split sum.split)

lemma fst_rthen_rthrow: "fst (rthen m (\<lambda>x. rthrow (f x)) w) = fst (m w)"
  by (simp add: rthen_def rthrow_def split: prod.split sum.split)

text \<open>
  The polling loops: ask until the answer passes the test or the deadline is over, with two seconds of
  sleep in between. A test may throw. False is the timeout.
\<close>

function poll_until ::
  "('q, 'r) dep_env \<Rightarrow> ('q, 'r) peer \<Rightarrow> 'q \<Rightarrow> ('r \<Rightarrow> bool res) \<Rightarrow> int \<Rightarrow> ('q, bool) deploy" where
  "poll_until env c cmd test deadline w =
    (if dw_now w < deadline
     then (case rthen (dexec env c cmd) (\<lambda>r. rlift (test r)) w of
             (w1, Inl e) \<Rightarrow> (w1, Inl e)
           | (w1, Inr passed) \<Rightarrow>
               if passed then (w1, Inr True)
               else poll_until env c cmd test deadline (sleep_ms 2000 w1))
     else (w, Inr False))"
  by pat_completeness auto

termination
  by (relation "measure (\<lambda>(env, c, cmd, test, deadline, w). nat (deadline - dw_now w))")
     (auto simp: rthen_dexec_lift dexec_def sleep_ms_def)

declare poll_until.simps [simp del]

section \<open>Records\<close>

record build_context =
  bc_request :: string
  bc_env :: string
  bc_repo :: string
  bc_commit :: string
  bc_params :: jsval

record build_artifact =
  ba_type :: string
  ba_location :: string
  ba_checksum :: string
  ba_size :: int
  ba_meta :: jsval

record health_probe =
  hp_time :: string
  hp_ok :: bool
  hp_latency :: int
  hp_detail :: "string option"

record health_status =
  hs_healthy :: bool
  hs_checks :: "health_probe list"
  hs_reason :: "string option"

record rollback_result =
  rr_success :: bool
  rr_restored :: "string option"
  rr_errors :: "string list"

definition rollback_failed :: "string list \<Rightarrow> rollback_result" where
  "rollback_failed es = \<lparr>rr_success = False, rr_restored = None, rr_errors = es\<rparr>"

definition health_result :: "runtime \<Rightarrow> int \<Rightarrow> int \<Rightarrow> bool \<times> string option \<Rightarrow> health_status" where
  "health_result rt t0 t v =
    \<lparr>hs_healthy = fst v,
     hs_checks = [\<lparr>hp_time = rt_iso rt t, hp_ok = fst v, hp_latency = t - t0, hp_detail = snd v\<rparr>],
     hs_reason = (if fst v then None else snd v)\<rparr>"

definition js_opt :: "string option \<Rightarrow> jsval" where
  "js_opt s = (case s of None \<Rightarrow> JNull | Some t \<Rightarrow> JStr t)"

text \<open>\<open>stateful\<close> is absent for the backends that do not set it.\<close>

definition record_payload ::
  "string \<Rightarrow> string \<Rightarrow> string \<Rightarrow> string \<Rightarrow> string \<Rightarrow> bool option \<Rightarrow> (string \<times> jsval) list \<Rightarrow> string \<Rightarrow> jsval" where
  "record_payload i backend target envn loc stateful details t =
    JObj ([(''id'', JStr i), (''backendName'', JStr backend), (''target'', JStr target),
        (''envName'', JStr envn), (''artifactLocation'', JStr loc)]
      @ opt_field ''stateful'' (map_option JBool stateful)
      @ [(''details'', JObj details), (''deployedAt'', JStr t)])"

definition details_of :: "jsval \<Rightarrow> jsval" where
  "details_of rec = field (field rec ''payload'') ''details''"

definition str_of_field :: "jsval \<Rightarrow> string \<Rightarrow> string" where
  "str_of_field v k = (case field v k of JStr s \<Rightarrow> s | _ \<Rightarrow> ''undefined'')"

definition sign_deployment_record :: "runtime \<Rightarrow> jsval \<Rightarrow> jsval res" where
  "sign_deployment_record rt payload =
     rbind (sign_payload rt hmac_env payload) (\<lambda>s.
     Inr (JObj [(''payload'', field s ''payload''), (''hmac'', field s ''hmac'')]))"

definition verify_deployment_record :: "runtime \<Rightarrow> jsval \<Rightarrow> bool" where
  "verify_deployment_record rt rec =
     verify_payload rt hmac_env (JObj [(''payload'', field rec ''payload''), (''hmac'', field rec ''hmac'')])"

lemma sign_record_verifies: "sign_deployment_record rt p = Inr r \<Longrightarrow> verify_deployment_record rt r"
  by (auto simp: sign_deployment_record_def verify_deployment_record_def res_simps sign_payload_Inr
      verify_payload_mac signed_def)

definition persist_signed_record :: "runtime \<Rightarrow> bool \<Rightarrow> string \<Rightarrow> jsval \<Rightarrow> record_files \<Rightarrow> record_files \<times> unit res" where
  "persist_signed_record rt disk_ok path payload fs =
    (case sign_payload rt hmac_env payload of
       Inl e \<Rightarrow> (fs, Inl e)
     | Inr s \<Rightarrow> if disk_ok then (jm_set path (Content (Some s)) fs, Inr ()) else (fs, Inl (IoError ''EIO'')))"

definition read_signed_record :: "runtime \<Rightarrow> string \<Rightarrow> record_files \<Rightarrow> jsval option res" where
  "read_signed_record rt path fs =
    (case jm_get fs path of
       None \<Rightarrow> Inr None
     | Some Absent \<Rightarrow> Inr None
     | Some (Unreadable e) \<Rightarrow> Inl (IoError e)
     | Some (Content None) \<Rightarrow> Inl (Error ''JSON'')
     | Some (Content (Some s)) \<Rightarrow>
         if \<not> verify_payload rt hmac_env s
         then Inl (Error (''signed record at '' @ path @ '' failed HMAC verification''))
         else Inr (Some (field s ''payload'')))"

lemma persist_read:
  "persist_signed_record rt ok path p fs = (fs', Inr ()) \<Longrightarrow> read_signed_record rt path fs' = Inr (Some p)"
  by (auto simp: persist_signed_record_def read_signed_record_def store_simps env.sign_verifies
      env.sign_keeps_payload split: sum.splits if_splits)

text \<open>Writing the record for a later rollback.\<close>

definition persist_step :: "('q, 'r) dep_env \<Rightarrow> string res \<Rightarrow> jsval \<Rightarrow> ('q, unit) deploy" where
  "persist_step env path payload w =
    (case path of
       Inl e \<Rightarrow> (w, Inl e)
     | Inr p \<Rightarrow> (case persist_signed_record (de_rt env) (de_disk env) p payload (dw_files w) of
           (fs, r) \<Rightarrow> (w\<lparr>dw_files := fs\<rparr>, r)))"

definition safe_key :: "string \<Rightarrow> bool" where
  "safe_key s \<longleftrightarrow> s \<noteq> [] \<and> list_all (\<lambda>c. is_alnum c \<or> c = CHR ''_'' \<or> c = CHR ''-'') s"

text \<open>Paths inside the data directory; a key is never a number here but its text.\<close>

definition proxmox_record_path :: "string \<Rightarrow> string res" where
  "proxmox_record_path key =
    (if safe_key key then Inr (''proxmox/'' @ key @ ''.json'') else Inl (Error (''invalid proxmox record key: '' @ key)))"

definition unraid_record_path :: "string \<Rightarrow> string res" where
  "unraid_record_path name =
    (if safe_key name then Inr (''unraid/'' @ name @ ''.json'') else Inl (Error (''invalid unraid record key: '' @ name)))"

section \<open>Reading validated parameters\<close>

definition digits_upto :: "nat \<Rightarrow> string \<Rightarrow> bool" where
  "digits_upto n s \<longleftrightarrow> 1 \<le> length s \<and> length s \<le> n \<and> list_all is_digit s"

abbreviation text_param :: "bool \<Rightarrow> param_format option \<Rightarrow> param_schema" where
  "text_param req f \<equiv> Schema PString req None None None None f None None None"

definition str_param :: "(string, jsval) jsmap \<Rightarrow> string \<Rightarrow> string option" where
  "str_param ps k = (case jm_get ps k of Some (JStr s) \<Rightarrow> Some s | _ \<Rightarrow> None)"

definition req_param :: "(string, jsval) jsmap \<Rightarrow> string \<Rightarrow> string" where
  "req_param ps k = (case str_param ps k of Some s \<Rightarrow> s | None \<Rightarrow> ''undefined'')"

definition strs_param :: "(string, jsval) jsmap \<Rightarrow> string \<Rightarrow> string list" where
  "strs_param ps k =
    (case jm_get ps k of Some v \<Rightarrow> map (\<lambda>x. case x of JStr s \<Rightarrow> s | _ \<Rightarrow> []) (elems v) | None \<Rightarrow> [])"

section \<open>Stateful targets and the backup gate\<close>

definition STATEFUL_ROLES :: "string set" where
  "STATEFUL_ROLES = {''database'', ''cache''}"

record stateful_spec =
  sp_role :: "string option"
  sp_volumes :: "string list"
  sp_mounts :: "string option list"

definition is_stateful_target :: "stateful_spec \<Rightarrow> bool" where
  "is_stateful_target sp \<longleftrightarrow>
     (case sp_role sp of Some r \<Rightarrow> r \<noteq> [] \<and> r \<in> STATEFUL_ROLES | None \<Rightarrow> False)
     \<or> sp_volumes sp \<noteq> []
     \<or> (\<exists>m \<in> set (sp_mounts sp). case m of Some p \<Rightarrow> trim p \<noteq> [] | None \<Rightarrow> False)"

text \<open>The check in front of a stateful deployment: the same \<open>verifyBackup\<close> the approval gate uses.\<close>

definition backup_gate :: "('q, 'r) dep_env \<Rightarrow> int \<Rightarrow> bool \<Rightarrow> string \<Rightarrow> string \<Rightarrow> unit res" where
  "backup_gate env t stateful platform target =
    (if stateful \<and> de_require_backup env
     then rbind (verify_backup (de_rt env) t (de_manifest env)
            \<lparr>vi_platform = platform, vi_target = target, vi_overrides = de_overrides env\<rparr>) (\<lambda>_. Inr ())
     else Inr ())"

section \<open>Pulling an image\<close>

record pull_exec =
  px_success :: bool
  px_digest :: "string option"
  px_size :: "int option"
  px_transient :: bool
  px_error :: "string option"

record pull_result =
  pl_digest :: string
  pl_size :: int
  pl_at :: string

definition BACKOFF_MS :: "int list" where
  "BACKOFF_MS = [2000, 4000, 8000]"

text \<open>The loop over the attempts left; \<open>sleep\<close> and \<open>clock\<close> act on the state of the driver.\<close>

fun pull_attempts ::
  "(int \<Rightarrow> 's \<Rightarrow> 's) \<Rightarrow> ('s \<Rightarrow> string) \<Rightarrow> ('s, pull_exec) prog \<Rightarrow> int list \<Rightarrow> string \<Rightarrow> ('s, pull_result) prog" where
  "pull_attempts sleep stamp drv [] last_error s =
     (s, Inl (DeployError ImagePullFailed (''image pull failed after 3 attempts: '' @ last_error) True None))"
| "pull_attempts sleep stamp drv (ms # rest) last_error s =
     (case drv s of
        (s1, Inl e) \<Rightarrow> (s1, Inl e)
      | (s1, Inr r) \<Rightarrow>
          (case (px_success r, px_digest r, px_size r) of
             (True, Some d, Some n) \<Rightarrow> (s1, Inr \<lparr>pl_digest = d, pl_size = n, pl_at = stamp s1\<rparr>)
           | _ \<Rightarrow>
               let err = (case px_error r of Some e \<Rightarrow> e | None \<Rightarrow> ''pull failed'') in
               if \<not> px_transient r
               then (s1, Inl (DeployError ImagePullFailed (''image pull failed (non-retriable): '' @ err) False None))
               else pull_attempts sleep stamp drv rest err (if rest = [] then s1 else sleep ms s1)))"

definition pull_image ::
  "(int \<Rightarrow> 's \<Rightarrow> 's) \<Rightarrow> ('s \<Rightarrow> string) \<Rightarrow> ('s, pull_exec) prog \<Rightarrow> ('s, pull_result) prog" where
  "pull_image sleep stamp drv = pull_attempts sleep stamp drv BACKOFF_MS ''unknown error''"

section \<open>The registry and its wiring\<close>

text \<open>A backend is its name here; a constructor may throw.\<close>

definition REGISTRATION_ORDER :: "string list" where
  "REGISTRATION_ORDER = [''proxmox'', ''unraid'', ''docker-swarm'', ''k3s'']"

definition register_backend :: "string \<Rightarrow> 'b \<Rightarrow> (string, 'b) jsmap \<Rightarrow> (string, 'b) jsmap res" where
  "register_backend name b reg =
    (if jm_get reg name \<noteq> None then Inl (Error (''backend '' @ [CHR 0x27] @ name @ [CHR 0x27] @ '' is already registered''))
     else Inr (jm_set name b reg))"

record register_result =
  rg_registered :: "string list"
  rg_rejected :: "(string \<times> string) list"

fun register_each ::
  "string list \<Rightarrow> (string \<Rightarrow> 'b res) \<Rightarrow> string list \<Rightarrow> (string, 'b) jsmap \<Rightarrow> (string, 'b) jsmap \<times> register_result" where
  "register_each allow mk [] reg = (reg, \<lparr>rg_registered = [], rg_rejected = []\<rparr>)"
| "register_each allow mk (name # names) reg =
     (case (if name \<notin> set allow then Inl (Error ''not in extensions.privileged_backends allowlist'')
            else rbind (mk name) (\<lambda>b. register_backend name b reg)) of
        Inl e \<Rightarrow> (case register_each allow mk names reg of
            (reg1, r) \<Rightarrow> (reg1, r\<lparr>rg_rejected := (name, error_message e) # rg_rejected r\<rparr>))
      | Inr reg1 \<Rightarrow> (case register_each allow mk names reg1 of
            (reg2, r) \<Rightarrow> (reg2, r\<lparr>rg_registered := name # rg_registered r\<rparr>)))"

definition register_homelab_backends ::
  "string list \<Rightarrow> (string \<Rightarrow> 'b res) \<Rightarrow> (string, 'b) jsmap \<Rightarrow> (string, 'b) jsmap \<times> register_result" where
  "register_homelab_backends allow mk reg = register_each allow mk REGISTRATION_ORDER reg"

section \<open>Facts the backends share\<close>

lemma dexec_frame [simp]:
  "dw_files (fst (dexec env c cmd w)) = dw_files w"
  "dw_host (fst (dexec env c cmd w)) = dw_host w @ [cmd]"
  "snd (dexec env c cmd w) = c (dw_host w) cmd"
  by (simp_all add: dexec_def)

lemma dexec_time: "dw_now w \<le> dw_now (fst (dexec env c cmd w))"
  by (simp add: dexec_def)

text \<open>A polling loop asks again and again, and nothing else; not more often than every two seconds
  until the deadline.\<close>

lemma poll_until_commands:
  "\<exists>n. dw_host (fst (poll_until env c cmd test deadline w)) = dw_host w @ replicate n cmd
     \<and> dw_files (fst (poll_until env c cmd test deadline w)) = dw_files w
     \<and> 2000 * int n \<le> max 0 (deadline - dw_now w + 1999)"
proof (induction env c cmd test deadline w rule: poll_until.induct)
  case (1 env c cmd test deadline w)
  let ?w1 = "fst (dexec env c cmd w)" and ?r = "rbind (c (dw_host w) cmd) test"
  show ?case
  proof (cases "dw_now w < deadline")
    case False
    then show ?thesis by (intro exI [of _ 0]) (simp add: poll_until.simps)
  next
    case early: True
    show ?thesis
    proof (cases "?r = Inr False")
      case True
      let ?w = "sleep_ms 2000 ?w1"
      have p: "poll_until env c cmd test deadline w = poll_until env c cmd test deadline ?w"
        using early True by (subst poll_until.simps) (simp add: rthen_dexec_lift)
      obtain n where n: "dw_host (fst (poll_until env c cmd test deadline ?w)) = dw_host ?w @ replicate n cmd"
        "dw_files (fst (poll_until env c cmd test deadline ?w)) = dw_files ?w"
        "2000 * int n \<le> max 0 (deadline - dw_now ?w + 1999)"
        using 1 [OF early, of ?w1 ?r False] True by (auto simp: rthen_dexec_lift)
      show ?thesis
        unfolding p using n early dexec_time [of w env c cmd]
        by (intro exI [of _ "Suc n"]) (auto simp: sleep_ms_def)
    next
      case False
      then have "fst (poll_until env c cmd test deadline w) = ?w1"
        using early by (subst poll_until.simps) (auto simp: rthen_dexec_lift split: sum.splits)
      then show ?thesis using early by (intro exI [of _ 1]) simp
    qed
  qed
qed

lemma poll_until_true:
  "poll_until env c cmd test deadline w = (w', Inr True) \<Longrightarrow>
   \<exists>n r. dw_host w' = dw_host w @ replicate (Suc n) cmd \<and> dw_files w' = dw_files w
     \<and> c (dw_host w @ replicate n cmd) cmd = Inr r \<and> test r = Inr True"
proof (induction env c cmd test deadline w rule: poll_until.induct)
  case (1 env c cmd test deadline w)
  let ?w1 = "fst (dexec env c cmd w)" and ?r = "rbind (c (dw_host w) cmd) test"
  have early: "dw_now w < deadline" using 1(2) by (subst (asm) poll_until.simps) (auto split: if_splits)
  show ?case
  proof (cases "?r = Inr False")
    case True
    then have "poll_until env c cmd test deadline (sleep_ms 2000 ?w1) = (w', Inr True)"
      using 1(2) early by (subst (asm) poll_until.simps) (simp add: rthen_dexec_lift)
    with 1(1) [OF early, of ?w1 ?r False] True
    obtain n r where "dw_host w' = dw_host w @ replicate (Suc (Suc n)) cmd" "dw_files w' = dw_files w"
      "c (dw_host w @ replicate (Suc n) cmd) cmd = Inr r" "test r = Inr True"
      by (auto simp: rthen_dexec_lift sleep_ms_def)
    then show ?thesis by blast
  next
    case False
    then have "?r = Inr True" "w' = ?w1"
      using 1(2) early by (subst (asm) poll_until.simps, auto simp: rthen_dexec_lift split: sum.splits)+
    then show ?thesis by (intro exI [of _ 0]) (auto simp: res_simps)
  qed
qed

lemma poll_now:
  assumes "dw_now w < deadline" "c (dw_host w) q = Inr a" "test a = Inr True"
  shows "poll_until env c q test deadline w = (fst (dexec env c q w), Inr True)"
  using assms by (subst poll_until.simps) (simp add: rthen_dexec_lift)

text \<open>The wiring tries every backend once, in order: each is registered or rejected, and nothing that is
  not on the allow-list is registered.\<close>

lemma register_each_sound:
  "register_each allow mk names reg = (reg', r) \<Longrightarrow> distinct names \<Longrightarrow>
     subseq (rg_registered r) names \<and> subseq (map fst (rg_rejected r)) names
     \<and> set (rg_registered r) \<union> fst ` set (rg_rejected r) = set names
     \<and> set (rg_registered r) \<inter> fst ` set (rg_rejected r) = {}
     \<and> set (rg_registered r) \<subseteq> set allow
     \<and> (\<forall>k. jm_get reg' k \<noteq> jm_get reg k \<longrightarrow> k \<in> set (rg_registered r))"
proof (induction names arbitrary: reg r)
  case (Cons name names)
  let ?attempt = "if name \<notin> set allow then Inl (Error ''not in extensions.privileged_backends allowlist'')
            else rbind (mk name) (\<lambda>b. register_backend name b reg)"
  show ?case
  proof (cases ?attempt)
    case (Inl e)
    obtain r1 where r1: "register_each allow mk names reg = (reg', r1)"
      "r = r1\<lparr>rg_rejected := (name, error_message e) # rg_rejected r1\<rparr>"
      using Cons.prems(1) Inl by (auto split: prod.splits)
    from Cons.IH [OF r1(1)] Cons.prems(2) show ?thesis
      by (auto simp: r1(2) intro: list_emb_Cons dest: list_emb_set)
  next
    case (Inr reg1)
    obtain r1 where r1: "register_each allow mk names reg1 = (reg', r1)"
      "r = r1\<lparr>rg_registered := name # rg_registered r1\<rparr>"
      using Cons.prems(1) Inr by (auto split: prod.splits)
    have "\<exists>b. reg1 = jm_set name b reg" "name \<in> set allow"
      using Inr by (auto simp: register_backend_def res_simps split: if_splits)
    with Cons.IH [OF r1(1)] Cons.prems(2) show ?thesis
      by (auto simp: r1(2) store_simps intro: list_emb_Cons dest: list_emb_set)
  qed
qed auto

text \<open>A pull asks the platform at most three times, and what it reports is what the platform reported.\<close>

lemma pull_attempts_sound:
  "pull_attempts sleep stamp drv bs err s = (s', Inr p) \<Longrightarrow>
   \<exists>s0 s1 r. drv s0 = (s1, Inr r) \<and> px_success r \<and> px_digest r = Some (pl_digest p) \<and> px_size r = Some (pl_size p)"
  by (induction bs arbitrary: err s)
     (auto simp: Let_def split: prod.splits sum.splits if_splits bool.splits option.splits, blast+)

section \<open>What a backend may send\<close>

text \<open>The contract of a program that only ever sends what \<open>P\<close> allows.\<close>

definition sends :: "('q \<Rightarrow> bool) \<Rightarrow> ('q, 'a) deploy \<Rightarrow> bool" where
  "sends P m \<longleftrightarrow> (\<forall>w. \<exists>cs. dw_host (fst (m w)) = dw_host w @ cs \<and> list_all P cs)"

named_theorems deploy_intros "closure of the contract under the combinators"

lemma sendsD: "sends P m \<Longrightarrow> m w = (w', r) \<Longrightarrow> \<exists>cs. dw_host w' = dw_host w @ cs \<and> list_all P cs"
  unfolding sends_def by (metis fst_conv)

lemma sends_mono: "sends P m \<Longrightarrow> (\<And>q. P q \<Longrightarrow> Q q) \<Longrightarrow> sends Q m"
  unfolding sends_def by (metis list.pred_mono_strong)

lemma sends_silent: "(\<And>w. dw_host (fst (m w)) = dw_host w) \<Longrightarrow> sends P m"
  by (simp add: sends_def)

lemma sends_rret [deploy_intros]: "sends P (rret x)"
  by (rule sends_silent) (simp add: rret_def)

lemma sends_rthrow [deploy_intros]: "sends P (rthrow e)"
  by (rule sends_silent) (simp add: rthrow_def)

lemma sends_rlift [deploy_intros]: "sends P (rlift r)"
  by (rule sends_silent) (simp add: rlift_def)

lemma sends_dexec [deploy_intros]: "P q \<Longrightarrow> sends P (dexec env c q)"
  by (simp add: sends_def)

lemma sends_poll [deploy_intros]: "P q \<Longrightarrow> sends P (poll_until env c q test deadline)"
  unfolding sends_def using poll_until_commands [of env c q test deadline]
  by (metis (no_types, lifting) in_set_replicate list_all_iff)

lemma sends_get_connection [deploy_intros]: "sends P (get_connection env i)"
  by (simp add: get_connection_def sends_rlift)

lemma sends_rthen [deploy_intros]:
  assumes "sends P m" "\<And>x. sends P (f x)"
  shows "sends P (rthen m f)"
  unfolding sends_def
proof
  fix w
  obtain w1 r where m: "m w = (w1, r)" by fastforce
  obtain cs where cs: "dw_host w1 = dw_host w @ cs" "list_all P cs" using sendsD [OF assms(1) m] by blast
  show "\<exists>cs. dw_host (fst (rthen m f w)) = dw_host w @ cs \<and> list_all P cs"
  proof (cases r)
    case (Inr x)
    obtain ds where "dw_host (fst (f x w1)) = dw_host w1 @ ds" "list_all P ds"
      using assms(2) [of x] unfolding sends_def by blast
    with cs Inr m show ?thesis by (simp add: rthen_def)
  qed (use cs m in \<open>simp add: rthen_def\<close>)
qed

lemma sends_rthen_lift: "(\<And>x. r = Inr x \<Longrightarrow> sends P (f x)) \<Longrightarrow> sends P (rthen (rlift r) f)"
  by (cases r) (simp_all add: sends_def rthen_def rlift_def)

lemma sends_at: "(\<And>w. sends P (f w)) \<Longrightarrow> sends P (\<lambda>w. f w w)"
  by (simp add: sends_def)

lemma sends_rcatch [deploy_intros]: "sends P m \<Longrightarrow> sends P (rcatch m f)"
proof -
  have "fst (rcatch m f h) = fst (m h)" for h by (simp add: rcatch_def split: prod.split sum.split)
  then show "sends P m \<Longrightarrow> sends P (rcatch m f)" by (simp add: sends_def)
qed

lemma sends_if [deploy_intros]: "(b \<Longrightarrow> sends P m) \<Longrightarrow> (\<not> b \<Longrightarrow> sends P n) \<Longrightarrow> sends P (if b then m else n)"
  by simp

text \<open>Letters, digits and the punctuation that no shell gives a meaning to.\<close>

definition inert_char :: "char \<Rightarrow> bool" where
  "inert_char c \<longleftrightarrow> is_alnum c \<or> c \<in> set '' _./@:+=,-''"

abbreviation inert :: "string \<Rightarrow> bool" where
  "inert \<equiv> list_all inert_char"

lemma inert_chars:
  "is_alnum c \<Longrightarrow> inert_char c" "is_digit c \<Longrightarrow> inert_char c"
  "c \<in> set ''_.-'' \<Longrightarrow> inert_char c" "c \<in> set ''_./@:+=,-'' \<Longrightarrow> inert_char c" "c \<in> set ''./-'' \<Longrightarrow> inert_char c"
  by (auto simp: inert_char_def is_alnum_def)

lemma inert_formats:
  "ident_ok s \<Longrightarrow> inert s" "shell_safe_ok s \<Longrightarrow> inert s" "path_ok s \<Longrightarrow> inert s"
proof -
  have "inert s" if "list_all (\<lambda>c. is_alnum c \<or> c \<in> set p) s" "\<And>c. c \<in> set p \<Longrightarrow> inert_char c" for p
    using that(1) by (rule list.pred_mono_strong) (elim disjE; intro that(2) inert_chars(1); assumption)
  note lift = this
  show "inert s" if "ident_ok s"
    using that unfolding ident_ok_def by (elim conjE) (rule lift, assumption, rule inert_chars(3))
  show "inert s" if "shell_safe_ok s"
    using that unfolding shell_safe_ok_def by (elim conjE) (rule lift, assumption, rule inert_chars(4))
  show "inert s" if "path_ok s"
  proof (rule lift [of "''_./-''"])
    show "list_all (\<lambda>c. is_alnum c \<or> c \<in> set ''_./-'') s"
      using that unfolding path_ok_def path_chars_def is_word_def
      by (elim conjE list.pred_mono_strong) auto
  qed (auto simp: inert_char_def)
qed

lemma inert_digits: "list_all is_digit s \<Longrightarrow> inert s"
  by (erule list.pred_mono_strong) (rule inert_chars(2))

section \<open>The backup check as a contract\<close>

text \<open>
  A backend whose every run either sends harmless things only, or has passed the backup check for the
  stateful target at that moment.
\<close>

locale backup_gated =
  fixes deploy :: "('q, 'r) dep_env \<Rightarrow> build_artifact \<Rightarrow> string \<Rightarrow> jsval \<Rightarrow> ('q, jsval) deploy"
    and stateful_as :: "jsval \<Rightarrow> (string \<times> string) option"
    and harmless :: "'q \<Rightarrow> bool"
  assumes gated: "deploy env art envn raw w = (w', r) \<Longrightarrow> stateful_as raw = Some (p, tg) \<Longrightarrow>
    (\<exists>cs. dw_host w' = dw_host w @ cs \<and> list_all harmless cs)
    \<or> (\<exists>t \<ge> dw_now w. backup_gate env t True p tg = Inr ())"
begin

lemma harm_needs_backup:
  assumes run: "deploy env art envn raw w = (w', r)" and st: "stateful_as raw = Some (p, tg)"
    and req: "de_require_backup env"
    and q: "q \<in> set (drop (length (dw_host w)) (dw_host w'))" "\<not> harmless q"
  shows "\<exists>t es e. dw_now w \<le> t \<and> read_manifest_file (de_rt env) t (de_manifest env) = Inr es \<and> e \<in> set es
    \<and> field e ''platform'' = JStr p
    \<and> (\<forall>x \<in> set es. field x ''hmac'' = JStr '''' \<or> verify_entry_hmac (de_rt env) x)
    \<and> \<not> too_old (date_parse (de_rt env) (field e ''taken_at'')) t
          (max_age_of \<lparr>vi_platform = p, vi_target = tg, vi_overrides = de_overrides env\<rparr> e)"
proof -
  have "\<not> (\<exists>cs. dw_host w' = dw_host w @ cs \<and> list_all harmless cs)"
    using q by (auto simp: list_all_iff)
  then obtain t where t: "dw_now w \<le> t" "backup_gate env t True p tg = Inr ()"
    using gated [OF run st] by blast
  then obtain e where "verify_backup (de_rt env) t (de_manifest env)
      \<lparr>vi_platform = p, vi_target = tg, vi_overrides = de_overrides env\<rparr> = Inr e"
    using req by (auto simp: backup_gate_def res_simps)
  then obtain es where es: "read_manifest_file (de_rt env) t (de_manifest env) = Inr es" "list_all (entry_ok (de_rt env)) es"
    "freshest (de_rt env) (filter (of_platform p) es) = Some e"
    "\<not> too_old (date_parse (de_rt env) (field e ''taken_at'')) t
        (max_age_of \<lparr>vi_platform = p, vi_target = tg, vi_overrides = de_overrides env\<rparr> e)"
    by (auto simp: verify_backup_Inr)
  moreover have "\<forall>x \<in> set es. field x ''hmac'' = JStr '''' \<or> verify_entry_hmac (de_rt env) x"
    using es(2) by (auto simp: list_all_iff entry_ok_def)
  ultimately show ?thesis using t(1) freshest_mem [OF es(3)] by auto
qed

end

section \<open>A world for the witnesses\<close>

definition demo_dworld :: "'q dep_world" where
  "demo_dworld = \<lparr>dw_host = [], dw_files = [], dw_now = 61000, dw_shares = []\<rparr>"

definition demo_denv :: "('q, 'r) peer \<Rightarrow> jsval option disk_file \<Rightarrow> ('q, 'r) dep_env" where
  "demo_denv c m = \<lparr>de_rt = demo_rt2, de_conn = (\<lambda>_. Inr c), de_took = (\<lambda>_. 0), de_manifest = m,
     de_disk = True, de_id = ''d1'', de_sha = (\<lambda>_. ''00''), de_require_backup = True, de_overrides = []\<rparr>"

definition demo_artifact :: build_artifact where
  "demo_artifact = \<lparr>ba_type = ''commit'', ba_location = ''abc'', ba_checksum = ''00'', ba_size = 0, ba_meta = JObj []\<rparr>"

lemma demo_backup:
  obtains s where "\<And>tg. verify_backup demo_rt2 61000 (Content (Some (manifest_json [s])))
     \<lparr>vi_platform = ''docker'', vi_target = tg, vi_overrides = []\<rparr> = Inr s"
proof -
  obtain s where s: "sign_manifest_entry demo_rt2 (JObj demo_entry) = Inr s"
    "append_manifest_entry demo_rt2 1000 True s Absent = (Content (Some (manifest_json [s])), Inr ())"
    by (rule demo_append)
  have v: "verify_entry_hmac demo_rt2 s" "is_obj s" "\<And>k. k \<noteq> ''hmac'' \<Longrightarrow> field s k = field (JObj demo_entry) k"
    using sign_manifest_entry_verifies [OF s(1)] by (auto simp: demo_entry_def)
  then have "verify_backup demo_rt2 61000 (Content (Some (manifest_json [s])))
     \<lparr>vi_platform = ''docker'', vi_target = tg, vi_overrides = []\<rparr> = Inr s" for tg
    by (cases s) (auto simp: verify_backup_Inr entry_ok_def nullish_def demo_entry_def
      date_parse_def too_old_def max_age_of_def)
  with that show thesis by blast
qed

end
