(* ===== verification/Swarm.thy ===== *)
theory Swarm
  imports Deploy
begin

text \<open>
  \<open>src/deploy/backends/docker-swarm.ts\<close>: deployments to a Docker Swarm manager over a connection. A
  stateful service is deployed only after the backup check.
\<close>

section \<open>Parameters\<close>

text \<open>\<open>^[a-z0-9][a-z0-9_-]{0,62}$\<close>\<close>

definition stack_name_ok :: "string \<Rightarrow> bool" where
  "stack_name_ok s \<longleftrightarrow> s \<noteq> [] \<and> length s \<le> 63 \<and> (is_lower (hd s) \<or> is_digit (hd s))
     \<and> list_all (\<lambda>c. is_lower c \<or> is_digit c \<or> c = CHR ''_'' \<or> c = CHR ''-'') (tl s)"

definition SWARM_SCHEMA :: "(string \<times> param_schema) list" where
  "SWARM_SCHEMA = [
     (''manager_id'', text_param True (Some FIdentifier)),
     (''stack_name'', Schema PString True None None None (Some stack_name_ok) None None None None),
     (''compose_file_path'', text_param True (Some FPath)),
     (''image_uri'', text_param True (Some FShellSafeArg)),
     (''service_name'', text_param True (Some FIdentifier)),
     (''health_url'', text_param False (Some FUrl)),
     (''health_timeout_seconds'', Schema PNumber False (Some (JInt 180)) None (Some (10, 600)) None None None None None),
     (''role'', text_param False None),
     (''named_volumes'', Schema PArray False (Some (JArr [])) None None None None
        (Some (text_param False None)) None None),
     (''backup_platform'', text_param False None)]"

section \<open>Commands\<close>

definition service_of :: "string \<Rightarrow> string \<Rightarrow> string" where
  "service_of stack svc = stack @ ''_'' @ svc"

definition inspect_cmd :: "string \<Rightarrow> string \<Rightarrow> string" where
  "inspect_cmd stack svc = ''docker service inspect '' @ service_of stack svc"

definition stack_deploy_cmd :: "string \<Rightarrow> string \<Rightarrow> string" where
  "stack_deploy_cmd compose stack =
     ''docker stack deploy --compose-file '' @ compose @ '' --with-registry-auth '' @ stack"

definition service_rollback_cmd :: "string \<Rightarrow> string \<Rightarrow> string" where
  "service_rollback_cmd stack svc = ''docker service rollback '' @ service_of stack svc"

definition update_state_cmd :: "string \<Rightarrow> string \<Rightarrow> string" where
  "update_state_cmd stack svc = ''docker service inspect '' @ service_of stack svc @ '' --format ''
     @ [CHR 0x27] @ ''{{.UpdateStatus.State}}'' @ [CHR 0x27]"

definition service_ps_cmd :: "string \<Rightarrow> string \<Rightarrow> string" where
  "service_ps_cmd stack svc = ''docker service ps '' @ service_of stack svc @ '' --format json --no-trunc''"

section \<open>Build, deploy, roll back\<close>

definition swarm_build :: "shell_env \<Rightarrow> build_context \<Rightarrow> build_artifact shell" where
  "swarm_build env ctx =
     rthen (rlift (validate_parameters (bc_params ctx) SWARM_SCHEMA)) (\<lambda>ps.
     rret \<lparr>ba_type = ''commit'', ba_location = bc_commit ctx,
           ba_checksum = de_sha env (bc_commit ctx @ '':'' @ bc_request ctx), ba_size = 0,
           ba_meta = JObj [(''kind'', JStr ''docker-stack-ref''),
                           (''stack_name'', JStr (req_param ps ''stack_name''))]\<rparr>)"

text \<open>The guard against paths that leave the repository.\<close>

definition escapes_repo :: "string \<Rightarrow> bool" where
  "escapes_repo p \<longleftrightarrow>
     (let n = posix_normalize p in starts_with ''../'' n \<or> contains ''/../'' n \<or> n = ''..'')"

definition attempt_service_rollback :: "shell_env \<Rightarrow> conn \<Rightarrow> string \<Rightarrow> string \<Rightarrow> rollback_result shell" where
  "attempt_service_rollback env c stack svc =
     rthen (dexec env c (service_rollback_cmd stack svc)) (\<lambda>r.
       if x_exit r \<noteq> 0 then rret (rollback_failed [output_text 200 r])
       else (\<lambda>w. rthen (poll_until env c (update_state_cmd stack svc)
                   (\<lambda>r. Inr (x_exit r = 0 \<and> to_lower (trim (x_stdout r)) = ''completed'')) (dw_now w + 90000))
                 (\<lambda>done_in_time.
                    if done_in_time
                    then rret \<lparr>rr_success = True,
                           rr_restored = Some (''docker-swarm://'' @ stack @ ''/'' @ svc @ ''@previous''), rr_errors = []\<rparr>
                    else rret (rollback_failed [''rollback did not complete within 90s''])) w))"

text \<open>The previous specification of the service: \<open>null\<close> when there is none or it does not parse.\<close>

definition previous_spec :: "runtime \<Rightarrow> exec_result \<Rightarrow> jsval" where
  "previous_spec rt r =
    (if x_exit r \<noteq> 0 then JNull else case rt_json rt (x_stdout r) of None \<Rightarrow> JNull | Some v \<Rightarrow> v)"

definition swarm_stateful :: "(string, jsval) jsmap \<Rightarrow> bool" where
  "swarm_stateful ps =
     is_stateful_target \<lparr>sp_role = str_param ps ''role'', sp_volumes = strs_param ps ''named_volumes'', sp_mounts = []\<rparr>"

definition swarm_backup_platform :: "(string, jsval) jsmap \<Rightarrow> string" where
  "swarm_backup_platform ps = (case str_param ps ''backup_platform'' of Some p \<Rightarrow> p | None \<Rightarrow> ''docker'')"

definition swarm_record ::
  "shell_env \<Rightarrow> build_artifact \<Rightarrow> string \<Rightarrow> (string, jsval) jsmap \<Rightarrow> jsval \<Rightarrow> jsval shell" where
  "swarm_record env art envn ps prev w =
    (let t = rt_iso (de_rt env) (dw_now w) in
     rlift (sign_deployment_record (de_rt env)
       (record_payload (de_id env) ''docker-swarm'' ''homelab-docker-swarm'' envn (ba_location art)
         (Some (swarm_stateful ps))
         ([(''manager_id'', JStr (req_param ps ''manager_id'')), (''stack_name'', JStr (req_param ps ''stack_name'')),
           (''service_name'', JStr (req_param ps ''service_name'')), (''image_uri'', JStr (req_param ps ''image_uri'')),
           (''previous_service_spec'', prev), (''deployed_at'', JStr t)]
          @ (if swarm_stateful ps
             then [(''named_volumes'', JArr (map JStr (strs_param ps ''named_volumes''))),
                   (''backup_platform'', JStr (swarm_backup_platform ps))] else []))
         t)) w)"

definition swarm_apply ::
  "shell_env \<Rightarrow> conn \<Rightarrow> build_artifact \<Rightarrow> string \<Rightarrow> (string, jsval) jsmap \<Rightarrow> jsval shell" where
  "swarm_apply env c art envn ps =
    (let stack = req_param ps ''stack_name''; svc = req_param ps ''service_name'' in
     rthen (dexec env c (inspect_cmd stack svc)) (\<lambda>insp.
     let prev = previous_spec (de_rt env) insp in
     rthen (dexec env c (stack_deploy_cmd (req_param ps ''compose_file_path'') stack)) (\<lambda>d.
       if x_exit d \<noteq> 0
       then (if prev = JNull then rthrow (deploy_error DeployFailed (output_text 500 d))
             else rthen (attempt_service_rollback env c stack svc) (\<lambda>rb.
                    rthrow (DeployError DeployFailed (output_text 500 d) False (Some (rr_success rb, rr_errors rb)))))
       else swarm_record env art envn ps prev)))"

definition swarm_deploy :: "shell_env \<Rightarrow> build_artifact \<Rightarrow> string \<Rightarrow> jsval \<Rightarrow> jsval shell" where
  "swarm_deploy env art envn raw =
     rthen (rlift (validate_parameters raw SWARM_SCHEMA)) (\<lambda>ps.
     if escapes_repo (req_param ps ''compose_file_path'')
     then rthrow (deploy_error InvalidParams (''compose_file_path '' @ [CHR 0x27] @ req_param ps ''compose_file_path''
            @ [CHR 0x27] @ '' resolves outside the repo root''))
     else (\<lambda>w. rthen (rlift (backup_gate env (dw_now w) (swarm_stateful ps) (swarm_backup_platform ps)
                         (service_of (req_param ps ''stack_name'') (req_param ps ''service_name'')))) (\<lambda>_.
               rthen (get_connection env (req_param ps ''manager_id'')) (\<lambda>c.
               swarm_apply env c art envn ps)) w))"

definition swarm_rollback :: "shell_env \<Rightarrow> jsval \<Rightarrow> rollback_result shell" where
  "swarm_rollback env rec =
    (let d = details_of rec in
     if missing (field d ''previous_service_spec'')
     then rret (rollback_failed [''no previous service spec to roll back to''])
     else rthen (get_connection env (str_of_field d ''manager_id'')) (\<lambda>c.
          rthen (attempt_service_rollback env c (str_of_field d ''stack_name'') (str_of_field d ''service_name'')) (\<lambda>r.
          rret (if rr_success r
                then r\<lparr>rr_restored := Some (''docker-swarm://'' @ str_of_field d ''manager_id'' @ ''/''
                         @ str_of_field d ''stack_name'' @ ''/'' @ str_of_field d ''service_name'' @ ''@previous'')\<rparr>
                else r))))"

section \<open>Health\<close>

definition parse_json_lines :: "runtime \<Rightarrow> string \<Rightarrow> jsval list" where
  "parse_json_lines rt out =
     concat (map (\<lambda>l. case (trim l, rt_json rt (trim l)) of ([], _) \<Rightarrow> [] | (_, Some v) \<Rightarrow> [v] | (_, None) \<Rightarrow> [])
       (split_on nl out))"

definition parse_replica_count :: "runtime \<Rightarrow> string \<Rightarrow> int" where
  "parse_replica_count rt out =
    (case rt_json rt out of
       None \<Rightarrow> 0
     | Some v \<Rightarrow>
         let first = (case v of JArr (x # _) \<Rightarrow> x | _ \<Rightarrow> field v ''0'') in
         (case field (field (field (field first ''Spec'') ''Mode'') ''Replicated'') ''Replicas'' of
            JNum (Fin n) \<Rightarrow> n | _ \<Rightarrow> 0))"

definition in_state :: "string \<Rightarrow> jsval \<Rightarrow> bool" where
  "in_state p t \<longleftrightarrow> (case field t ''CurrentState'' of JStr s \<Rightarrow> starts_with p (to_lower s) | _ \<Rightarrow> False)"

text \<open>The verdict on the tasks; a task that is \<open>null\<close> makes the code throw. Docker reports an error as a
  text.\<close>

definition swarm_verdict :: "runtime \<Rightarrow> exec_result \<Rightarrow> exec_result \<Rightarrow> (bool \<times> string option) res" where
  "swarm_verdict rt ps insp =
    (if x_exit ps = 0 \<and> x_exit insp = 0
     then let tasks = parse_json_lines rt (x_stdout ps);
              running = length (filter (in_state ''running'') tasks);
              replicas = parse_replica_count rt (x_stdout insp)
          in if JNull \<in> set tasks then Inl (TypeError (''Cannot read properties of null (reading '' @ [CHR 0x27] @ ''CurrentState'' @ [CHR 0x27] @ '')''))
             else (case List.find (in_state ''failed'') tasks of
                 Some t \<Rightarrow> Inr (False, Some (case field t ''Error'' of JStr s \<Rightarrow> s | _ \<Rightarrow> ''task failed''))
               | None \<Rightarrow>
                   if int running = replicas \<and> 0 < replicas then Inr (True, None)
                   else Inr (False, Some (nat_str running @ ''/'' @ int_str replicas @ '' tasks running'')))
     else Inr (False, Some ''service inspect failed''))"

definition swarm_health :: "shell_env \<Rightarrow> jsval \<Rightarrow> health_status shell" where
  "swarm_health env rec =
    (let d = details_of rec; stack = str_of_field d ''stack_name''; svc = str_of_field d ''service_name'' in
     rthen (get_connection env (str_of_field d ''manager_id'')) (\<lambda>c w0.
     rthen (rcatch (rthen (dexec env c (service_ps_cmd stack svc)) (\<lambda>ps.
                    rthen (dexec env c (inspect_cmd stack svc)) (\<lambda>insp.
                    rlift (swarm_verdict (de_rt env) ps insp))))
                   (\<lambda>e. (False, Some (error_message e))))
       (\<lambda>v w. (w, Inr (health_result (de_rt env) (dw_now w0) (dw_now w) v))) w0))"

section \<open>What a deployment sends\<close>

lemma swarm_params:
  assumes "validate_parameters raw SWARM_SCHEMA = Inr ps"
  shows "ident_ok (req_param ps ''manager_id'')" "stack_name_ok (req_param ps ''stack_name'')"
    "path_ok (req_param ps ''compose_file_path'')" "ident_ok (req_param ps ''service_name'')"
proof -
  have d: "distinct (map fst SWARM_SCHEMA)" by (simp add: SWARM_SCHEMA_def)
  note req = required_string [OF assms d]
  show "ident_ok (req_param ps ''manager_id'')"
    using req [of "''manager_id''" "text_param True (Some FIdentifier)"]
    by (auto simp: SWARM_SCHEMA_def string_fits_def req_param_def str_param_def)
  show "path_ok (req_param ps ''compose_file_path'')"
    using req [of "''compose_file_path''" "text_param True (Some FPath)"]
    by (auto simp: SWARM_SCHEMA_def string_fits_def req_param_def str_param_def)
  show "ident_ok (req_param ps ''service_name'')"
    using req [of "''service_name''" "text_param True (Some FIdentifier)"]
    by (auto simp: SWARM_SCHEMA_def string_fits_def req_param_def str_param_def)
  show "stack_name_ok (req_param ps ''stack_name'')"
    using req [of "''stack_name''" "Schema PString True None None None (Some stack_name_ok) None None None None"]
    by (auto simp: SWARM_SCHEMA_def string_fits_def req_param_def str_param_def)
qed

lemma stack_name_inert: "stack_name_ok s \<Longrightarrow> inert s"
proof -
  assume s: "stack_name_ok s"
  have "inert_char c" if "is_lower c \<or> is_digit c \<or> c = CHR ''_'' \<or> c = CHR ''-''" for c
    using that by (auto simp: inert_char_def is_alnum_def)
  note ok = this
  from s obtain c t where c: "s = c # t" by (cases s) (auto simp: stack_name_ok_def)
  then have h: "inert_char c"
    and t: "list_all (\<lambda>c. is_lower c \<or> is_digit c \<or> c = CHR ''_'' \<or> c = CHR ''-'') t"
    using s by (auto simp: stack_name_ok_def intro: ok)
  show "inert s"
    unfolding c using h t by (auto elim: list.pred_mono_strong intro: ok)
qed

lemma template_inert:
  "inert ''docker service inspect ''" "inert ''docker service rollback ''"
  "inert ''docker stack deploy --compose-file ''" "inert '' --with-registry-auth ''" "inert_char (CHR ''_'')"
  by code_simp+

lemma swarm_commands_inert:
  assumes "validate_parameters raw SWARM_SCHEMA = Inr ps"
  shows "inert (inspect_cmd (req_param ps ''stack_name'') (req_param ps ''service_name''))"
    "inert (stack_deploy_cmd (req_param ps ''compose_file_path'') (req_param ps ''stack_name''))"
    "inert (service_rollback_cmd (req_param ps ''stack_name'') (req_param ps ''service_name''))"
  using swarm_params [OF assms] template_inert
  by (simp_all add: inspect_cmd_def stack_deploy_cmd_def service_rollback_cmd_def service_of_def
      inert_formats stack_name_inert)

lemma rollback_trace:
  "\<exists>n. dw_host (fst (attempt_service_rollback env c stack svc w))
        = dw_host w @ service_rollback_cmd stack svc # replicate n (update_state_cmd stack svc)
     \<and> n \<le> 46"
proof -
  let ?w1 = "fst (dexec env c (service_rollback_cmd stack svc) w)"
  let ?t = "\<lambda>r. Inr (x_exit r = 0 \<and> to_lower (trim (x_stdout r)) = ''completed'')"
  let ?p = "poll_until env c (update_state_cmd stack svc) ?t (dw_now ?w1 + 90000) ?w1"
  obtain n where n: "dw_host (fst ?p) = dw_host ?w1 @ replicate n (update_state_cmd stack svc)"
    "2000 * int n \<le> max 0 (dw_now ?w1 + 90000 - dw_now ?w1 + 1999)"
    using poll_until_commands [of env c "update_state_cmd stack svc" ?t "dw_now ?w1 + 90000" ?w1] by blast
  have "fst (attempt_service_rollback env c stack svc w) = ?w1
      \<or> fst (attempt_service_rollback env c stack svc w) = fst ?p"
    by (auto simp: attempt_service_rollback_def rthen_def rret_def split: prod.splits sum.splits)
  then show ?thesis
  proof
    assume "fst (attempt_service_rollback env c stack svc w) = ?w1"
    then show ?thesis by (intro exI [of _ 0]) simp
  next
    assume "fst (attempt_service_rollback env c stack svc w) = fst ?p"
    then show ?thesis using n by (intro exI [of _ n]) simp
  qed
qed

text \<open>The commands of a deployment that got past the checks, and what it takes to succeed.\<close>

definition swarm_trace :: "(string, jsval) jsmap \<Rightarrow> string list \<Rightarrow> bool" where
  "swarm_trace ps cs \<longleftrightarrow>
    (let stack = req_param ps ''stack_name''; svc = req_param ps ''service_name'';
         start = [inspect_cmd stack svc, stack_deploy_cmd (req_param ps ''compose_file_path'') stack]
     in cs = take 1 start \<or> cs = start
      \<or> (\<exists>n \<le> 46. cs = start @ service_rollback_cmd stack svc # replicate n (update_state_cmd stack svc)))"

lemma swarm_record_quiet: "fst (swarm_record env art envn ps prev w) = w"
  by (simp add: swarm_record_def rlift_def Let_def)

lemma swarm_apply_trace:
  "\<exists>cs. dw_host (fst (swarm_apply env c art envn ps w)) = dw_host w @ cs \<and> swarm_trace ps cs"
proof -
  let ?stack = "req_param ps ''stack_name''" and ?svc = "req_param ps ''service_name''"
  let ?q1 = "inspect_cmd ?stack ?svc" and ?q2 = "stack_deploy_cmd (req_param ps ''compose_file_path'') ?stack"
  let ?w1 = "fst (dexec env c ?q1 w)"
  let ?w2 = "fst (dexec env c ?q2 ?w1)"
  have cases: "fst (swarm_apply env c art envn ps w) = ?w1 \<or> fst (swarm_apply env c art envn ps w) = ?w2
     \<or> fst (swarm_apply env c art envn ps w) = fst (attempt_service_rollback env c ?stack ?svc ?w2)"
    by (auto simp: swarm_apply_def Let_def rthen_dexec fst_rthen_rthrow rthrow_def swarm_record_quiet
         split: sum.splits)
  obtain n where n: "dw_host (fst (attempt_service_rollback env c ?stack ?svc ?w2))
      = dw_host ?w2 @ service_rollback_cmd ?stack ?svc # replicate n (update_state_cmd ?stack ?svc)" "n \<le> 46"
    using rollback_trace by blast
  from cases show ?thesis
  proof (elim disjE)
    assume "fst (swarm_apply env c art envn ps w) = ?w1"
    then show ?thesis by (intro exI [of _ "[?q1]"]) (simp add: swarm_trace_def)
  next
    assume "fst (swarm_apply env c art envn ps w) = ?w2"
    then show ?thesis by (intro exI [of _ "[?q1, ?q2]"]) (simp add: swarm_trace_def)
  next
    assume "fst (swarm_apply env c art envn ps w) = fst (attempt_service_rollback env c ?stack ?svc ?w2)"
    then show ?thesis
      using n by (intro exI [of _ "?q1 # ?q2 # service_rollback_cmd ?stack ?svc # replicate n (update_state_cmd ?stack ?svc)"])
        (auto simp: swarm_trace_def Let_def)
  qed
qed

lemma swarm_deploy_run:
  assumes "swarm_deploy env art envn raw w = (w', r)"
  obtains "w' = w" "\<exists>e. r = Inl e"
  | ps c where "validate_parameters raw SWARM_SCHEMA = Inr ps" "\<not> escapes_repo (req_param ps ''compose_file_path'')"
      "backup_gate env (dw_now w) (swarm_stateful ps) (swarm_backup_platform ps)
         (service_of (req_param ps ''stack_name'') (req_param ps ''service_name'')) = Inr ()"
      "de_conn env (req_param ps ''manager_id'') = Inr c" "swarm_apply env c art envn ps w = (w', r)"
  using assms
  by (auto simp: swarm_deploy_def rthen_def rlift_def rthrow_def get_connection_def
      split: sum.splits if_splits prod.splits)

text \<open>
  A deployment to Swarm either stops before the first command, or runs the inspection, the stack
  deployment and at most one rollback with its polls, in this order and nothing else; apart from the
  fixed format string of the polls, the commands consist of characters that mean nothing to a shell, whatever
  the parameters are. In particular no volume is removed.
\<close>

theorem swarm_deploy_commands:
  assumes "swarm_deploy env art envn raw w = (w', r)"
  shows "(w' = w \<and> (\<exists>e. r = Inl e))
    \<or> (\<exists>ps cs. validate_parameters raw SWARM_SCHEMA = Inr ps \<and> dw_host w' = dw_host w @ cs
        \<and> swarm_trace ps cs
        \<and> (\<forall>q \<in> set cs. inert q \<or> q = update_state_cmd (req_param ps ''stack_name'') (req_param ps ''service_name'')))"
  using assms
proof (cases rule: swarm_deploy_run)
  case (2 ps c)
  obtain cs where cs: "dw_host w' = dw_host w @ cs" "swarm_trace ps cs"
    using swarm_apply_trace [of env c art envn ps w] 2(5) by auto
  have "\<forall>q \<in> set cs. inert q \<or> q = update_state_cmd (req_param ps ''stack_name'') (req_param ps ''service_name'')"
    using cs(2) swarm_commands_inert [OF 2(1)] by (auto simp: swarm_trace_def Let_def)
  with cs 2(1) show ?thesis by blast
qed blast

definition swarm_stateful_as :: "jsval \<Rightarrow> (string \<times> string) option" where
  "swarm_stateful_as raw =
    (case validate_parameters raw SWARM_SCHEMA of
       Inl e \<Rightarrow> None
     | Inr ps \<Rightarrow>
         if swarm_stateful ps
         then Some (swarm_backup_platform ps, service_of (req_param ps ''stack_name'') (req_param ps ''service_name''))
         else None)"

interpretation swarm: backup_gated swarm_deploy swarm_stateful_as "\<lambda>_. False"
proof
  fix env :: shell_env and art envn raw w w' r p tg
  assume run: "swarm_deploy env art envn raw w = (w', r)" and st: "swarm_stateful_as raw = Some (p, tg)"
  from run show "(\<exists>cs. dw_host w' = dw_host w @ cs \<and> list_all (\<lambda>_. False) cs)
      \<or> (\<exists>t \<ge> dw_now w. backup_gate env t True p tg = Inr ())"
  proof (cases rule: swarm_deploy_run)
    case (2 ps c)
    with st have "backup_gate env (dw_now w) True p tg = Inr ()"
      by (auto simp: swarm_stateful_as_def split: if_splits)
    then show ?thesis by blast
  qed auto
qed


text \<open>
  A deployment that returns ran exactly the inspection and the stack deployment, the latter exited
  with 0, and the record it returns verifies and names manager, stack and service; undoing that record
  does nothing when there was no service before, and otherwise rolls back this very service on this
  manager.
\<close>

theorem swarm_deploy_then_rollback:
  assumes "swarm_deploy env art envn raw w = (w', Inr rec)"
  shows "\<exists>ps c d prev stack svc. validate_parameters raw SWARM_SCHEMA = Inr ps
    \<and> stack = req_param ps ''stack_name'' \<and> svc = req_param ps ''service_name''
    \<and> de_conn env (req_param ps ''manager_id'') = Inr c
    \<and> dw_host w' = dw_host w @ [inspect_cmd stack svc, stack_deploy_cmd (req_param ps ''compose_file_path'') stack]
    \<and> c (dw_host w @ [inspect_cmd stack svc]) (stack_deploy_cmd (req_param ps ''compose_file_path'') stack) = Inr d
    \<and> x_exit d = 0 \<and> verify_deployment_record (de_rt env) rec
    \<and> field (details_of rec) ''previous_service_spec'' = prev
    \<and> (\<forall>v. missing prev \<longrightarrow> swarm_rollback env rec v = (v, Inr (rollback_failed [''no previous service spec to roll back to''])))
    \<and> (\<forall>v. \<not> missing prev \<longrightarrow> (\<exists>n \<le> 46. dw_host (fst (swarm_rollback env rec v))
            = dw_host v @ service_rollback_cmd stack svc # replicate n (update_state_cmd stack svc)))"
proof -
  obtain ps c where ps: "validate_parameters raw SWARM_SCHEMA = Inr ps"
    "de_conn env (req_param ps ''manager_id'') = Inr c" "swarm_apply env c art envn ps w = (w', Inr rec)"
    using assms by (cases rule: swarm_deploy_run) auto
  let ?stack = "req_param ps ''stack_name''" and ?svc = "req_param ps ''service_name''"
  let ?q1 = "inspect_cmd ?stack ?svc" and ?q2 = "stack_deploy_cmd (req_param ps ''compose_file_path'') ?stack"
  let ?w1 = "fst (dexec env c ?q1 w)"
  obtain i d where d: "c (dw_host w) ?q1 = Inr i" "c (dw_host w @ [?q1]) ?q2 = Inr d" "x_exit d = 0"
    and rec: "swarm_record env art envn ps (previous_spec (de_rt env) i) (fst (dexec env c ?q2 ?w1)) = (w', Inr rec)"
    using ps(3)
    by (auto simp: swarm_apply_def Let_def rthen_dexec rthen_Inr rthrow_def split: sum.splits if_splits)
  then have w': "dw_host w' = dw_host w @ [?q1, ?q2]"
    using swarm_record_quiet [of env art envn ps "previous_spec (de_rt env) i" "fst (dexec env c ?q2 ?w1)"] by simp
  obtain pl where pl: "sign_deployment_record (de_rt env) pl = Inr rec"
    and f: "field (field pl ''details'') ''previous_service_spec'' = previous_spec (de_rt env) i"
      "str_of_field (field pl ''details'') ''stack_name'' = ?stack"
      "str_of_field (field pl ''details'') ''service_name'' = ?svc"
      "str_of_field (field pl ''details'') ''manager_id'' = req_param ps ''manager_id''"
    using rec by (auto simp: swarm_record_def rlift_def Let_def record_payload_def opt_field_def str_of_field_def)
  have det: "details_of rec = field pl ''details''"
    using pl by (auto simp: sign_deployment_record_def details_of_def res_simps sign_payload_Inr signed_def)
  have "\<exists>n \<le> 46. dw_host (fst (swarm_rollback env rec v))
      = dw_host v @ service_rollback_cmd ?stack ?svc # replicate n (update_state_cmd ?stack ?svc)"
    if "\<not> missing (previous_spec (de_rt env) i)" for v
  proof -
    have "fst (swarm_rollback env rec v) = fst (attempt_service_rollback env c ?stack ?svc v)"
      using that ps(2)
      by (simp add: swarm_rollback_def Let_def det f get_connection_def rlift_def rthen_def rret_def
            split: prod.splits sum.splits)
    then show ?thesis using rollback_trace by metis
  qed
  moreover have "swarm_rollback env rec v = (v, Inr (rollback_failed [''no previous service spec to roll back to'']))"
    if "missing (previous_spec (de_rt env) i)" for v
    using that by (simp add: swarm_rollback_def Let_def det f rret_def)
  ultimately show ?thesis
    using ps(1,2) d w' sign_record_verifies [OF pl] f(1) det by metis
qed

section \<open>Witnesses\<close>

definition demo_swarm_params :: jsval where
  "demo_swarm_params = JObj [(''manager_id'', JStr ''m1''), (''stack_name'', JStr ''web''),
     (''compose_file_path'', JStr ''c.yml''), (''image_uri'', JStr ''img''), (''service_name'', JStr ''api''),
     (''role'', JStr ''database'')]"

definition demo_swarm_valid :: "(string, jsval) jsmap" where
  "demo_swarm_valid = [(''manager_id'', JStr ''m1''), (''stack_name'', JStr ''web''),
     (''compose_file_path'', JStr ''c.yml''), (''image_uri'', JStr ''img''), (''service_name'', JStr ''api''),
     (''health_timeout_seconds'', JInt 180), (''role'', JStr ''database''), (''named_volumes'', JArr [])]"

lemma demo_swarm_validates: "validate_parameters demo_swarm_params SWARM_SCHEMA = Inr demo_swarm_valid"
  by code_simp

definition demo_quiet :: "(string, exec_result) peer" where
  "demo_quiet h q = Inr \<lparr>x_stdout = [], x_stderr = [], x_exit = 0\<rparr>"

lemma demo_swarm_stateful:
  "swarm_stateful demo_swarm_valid" "swarm_backup_platform demo_swarm_valid = ''docker''"
  "\<not> escapes_repo (req_param demo_swarm_valid ''compose_file_path'')"
  by code_simp+

lemma demo_swarm_record:
  "\<exists>rec. swarm_record (demo_denv c m) art envn demo_swarm_valid JNull v = (v, Inr rec)"
  by (simp add: swarm_record_def rlift_def Let_def sign_deployment_record_def res_simps sign_payload_def
      canonical_json_eq record_payload_def demo_denv_def opt_field_def demo_swarm_valid_def req_param_def
      str_param_def strs_param_def swarm_backup_platform_def demo_swarm_stateful)

lemma demo_swarm_deploys:
  obtains m w' rec where "swarm_deploy (demo_denv demo_quiet m) art [] demo_swarm_params demo_dworld = (w', Inr rec)"
    "dw_host w' \<noteq> dw_host (demo_dworld :: string dep_world)"
proof -
  obtain s where s: "\<And>tg. verify_backup demo_rt2 61000 (Content (Some (manifest_json [s])))
     \<lparr>vi_platform = ''docker'', vi_target = tg, vi_overrides = []\<rparr> = Inr s"
    using demo_backup by blast
  let ?m = "Content (Some (manifest_json [s]))"
  have g: "backup_gate (demo_denv demo_quiet ?m) 61000 True ''docker'' tg = Inr ()" for tg
    by (simp add: backup_gate_def demo_denv_def s)
  have run: "swarm_deploy (demo_denv demo_quiet ?m) art [] demo_swarm_params demo_dworld
     = swarm_apply (demo_denv demo_quiet ?m) demo_quiet art [] demo_swarm_valid (demo_dworld :: string dep_world)"
    using g by (simp add: swarm_deploy_def demo_swarm_validates rthen_rlift demo_swarm_stateful
        get_connection_def demo_dworld_def del: One_nat_def) (simp add: demo_denv_def rthen_rlift)
  have "previous_spec (de_rt (demo_denv demo_quiet ?m)) \<lparr>x_stdout = [], x_stderr = [], x_exit = 0\<rparr> = JNull"
    by (simp add: previous_spec_def demo_denv_def demo_rt2_def demo_rt_def)
  then obtain v where v: "swarm_apply (demo_denv demo_quiet ?m) demo_quiet art [] demo_swarm_valid (demo_dworld :: string dep_world)
      = swarm_record (demo_denv demo_quiet ?m) art [] demo_swarm_valid JNull v" "dw_host v \<noteq> []"
    by (simp add: swarm_apply_def Let_def rthen_dexec demo_quiet_def)
  obtain rec where "swarm_record (demo_denv demo_quiet ?m) art [] demo_swarm_valid JNull v = (v, Inr rec)"
    using demo_swarm_record by blast
  with run v that show thesis by (auto simp: demo_dworld_def)
qed

theorem swarm_deploy_commands_witness:
  "\<exists>m w' rec cs. swarm_deploy (demo_denv demo_quiet m) demo_artifact [] demo_swarm_params demo_dworld = (w', Inr rec)
     \<and> dw_host w' = cs \<and> swarm_trace demo_swarm_valid cs"
proof -
  obtain m w' rec where d: "swarm_deploy (demo_denv demo_quiet m) demo_artifact [] demo_swarm_params demo_dworld = (w', Inr rec)"
    by (rule demo_swarm_deploys)
  from swarm_deploy_commands [OF d] have "\<exists>cs. dw_host w' = cs \<and> swarm_trace demo_swarm_valid cs"
    by (auto simp: demo_swarm_validates demo_dworld_def)
  with d show ?thesis by blast
qed


theorem swarm_deploy_then_rollback_witness:
  "\<exists>m w' rec. swarm_deploy (demo_denv demo_quiet m) demo_artifact [] demo_swarm_params demo_dworld = (w', Inr rec)
     \<and> verify_deployment_record demo_rt2 rec"
proof -
  obtain m w' rec where d: "swarm_deploy (demo_denv demo_quiet m) demo_artifact [] demo_swarm_params demo_dworld = (w', Inr rec)"
    by (rule demo_swarm_deploys)
  have "verify_deployment_record demo_rt2 rec"
    using swarm_deploy_then_rollback [OF d] by (auto simp: demo_denv_def)
  with d show ?thesis by blast
qed

section \<open>The health verdict\<close>

lemma swarm_verdict_healthy:
  "swarm_verdict rt ps insp = Inr (True, d) \<longleftrightarrow>
     d = None \<and> x_exit ps = 0 \<and> x_exit insp = 0
     \<and> (let tasks = parse_json_lines rt (x_stdout ps); n = parse_replica_count rt (x_stdout insp) in
        JNull \<notin> set tasks \<and> (\<forall>t \<in> set tasks. \<not> in_state ''failed'' t)
        \<and> 0 < n \<and> int (length (filter (in_state ''running'') tasks)) = n)"
proof (cases "List.find (in_state ''failed'') (parse_json_lines rt (x_stdout ps))")
  case None
  then have "\<forall>t \<in> set (parse_json_lines rt (x_stdout ps)). \<not> in_state ''failed'' t"
    by (auto simp: find_None_iff)
  with None show ?thesis by (auto simp: swarm_verdict_def Let_def)
next
  case (Some t)
  then have "\<not> (\<forall>t \<in> set (parse_json_lines rt (x_stdout ps)). \<not> in_state ''failed'' t)"
    unfolding find_Some_iff using nth_mem by blast
  then show ?thesis unfolding swarm_verdict_def Let_def Some by simp
qed

lemma swarm_verdict_unhealthy: "swarm_verdict rt ps insp = Inr (False, d) \<Longrightarrow> d \<noteq> None"
  by (auto simp: swarm_verdict_def Let_def split: if_splits option.splits)

text \<open>
  A health check reports healthy exactly when both commands succeed, no task of the answer has
  failed and as many tasks run as the service has replicas, of which there is at least one; otherwise it
  gives a reason. It runs its two reading commands and nothing else.
\<close>

theorem swarm_healthy_iff:
  assumes "swarm_health env rec w = (w', Inr h)"
    and "de_conn env (str_of_field (details_of rec) ''manager_id'') = Inr c"
  shows "hs_healthy h = (\<exists>ps insp.
      c (dw_host w) (service_ps_cmd (str_of_field (details_of rec) ''stack_name'') (str_of_field (details_of rec) ''service_name'')) = Inr ps
    \<and> c (dw_host w @ [service_ps_cmd (str_of_field (details_of rec) ''stack_name'') (str_of_field (details_of rec) ''service_name'')])
        (inspect_cmd (str_of_field (details_of rec) ''stack_name'') (str_of_field (details_of rec) ''service_name'')) = Inr insp
    \<and> x_exit ps = 0 \<and> x_exit insp = 0
    \<and> (let tasks = parse_json_lines (de_rt env) (x_stdout ps); n = parse_replica_count (de_rt env) (x_stdout insp) in
        JNull \<notin> set tasks \<and> (\<forall>t \<in> set tasks. \<not> in_state ''failed'' t)
        \<and> 0 < n \<and> int (length (filter (in_state ''running'') tasks)) = n))
    \<and> (hs_reason h = None) = hs_healthy h
    \<and> (\<exists>cs. dw_host w' = dw_host w @ cs \<and> prefix cs
         [service_ps_cmd (str_of_field (details_of rec) ''stack_name'') (str_of_field (details_of rec) ''service_name''),
          inspect_cmd (str_of_field (details_of rec) ''stack_name'') (str_of_field (details_of rec) ''service_name'')])"
proof -
  let ?q1 = "service_ps_cmd (str_of_field (details_of rec) ''stack_name'') (str_of_field (details_of rec) ''service_name'')"
  let ?q2 = "inspect_cmd (str_of_field (details_of rec) ''stack_name'') (str_of_field (details_of rec) ''service_name'')"
  let ?w1 = "fst (dexec env c ?q1 w)"
  let ?w2 = "fst (dexec env c ?q2 ?w1)"
  let ?answer = "rbind (c (dw_host w) ?q1) (\<lambda>ps. rbind (c (dw_host w @ [?q1]) ?q2) (swarm_verdict (de_rt env) ps))"
  have inner: "\<exists>v. (v = ?w1 \<or> v = ?w2) \<and> rthen (dexec env c ?q1) (\<lambda>ps. rthen (dexec env c ?q2) (\<lambda>insp.
      rlift (swarm_verdict (de_rt env) ps insp))) w = (v, ?answer)"
    by (cases "c (dw_host w) ?q1"; cases "c (dw_host w @ [?q1]) ?q2") (simp_all add: rthen_dexec rlift_def)
  then obtain v where v: "v = ?w1 \<or> v = ?w2" and inn: "rthen (dexec env c ?q1) (\<lambda>ps. rthen (dexec env c ?q2) (\<lambda>insp.
      rlift (swarm_verdict (de_rt env) ps insp))) w = (v, ?answer)" by blast
  obtain t0 t u where u: "u = (case ?answer of Inl e \<Rightarrow> (False, Some (error_message e)) | Inr x \<Rightarrow> x)"
    and h: "w' = v" "h = health_result (de_rt env) t0 t u"
    using assms
    by (cases ?answer) (auto simp: swarm_health_def Let_def get_connection_def rthen_rlift rthen_def [of "rcatch _ _"]
        rcatch_def inn)
  have trace: "\<exists>cs. dw_host w' = dw_host w @ cs \<and> prefix cs [?q1, ?q2]"
    using v h(1) by (auto intro: exI [of _ "[?q1]"] exI [of _ "[?q1, ?q2]"])
  have "hs_healthy h \<longleftrightarrow> fst u" "(hs_reason h = None) \<longleftrightarrow> fst u"
    using swarm_verdict_unhealthy by (auto simp: h health_result_def u res_simps split: sum.splits)
  moreover have "fst u \<longleftrightarrow> (\<exists>ps insp d. c (dw_host w) ?q1 = Inr ps \<and> c (dw_host w @ [?q1]) ?q2 = Inr insp
      \<and> swarm_verdict (de_rt env) ps insp = Inr (True, d))"
    by (auto simp: u res_simps split: sum.splits)
  ultimately show ?thesis
    using trace by (simp add: swarm_verdict_healthy)
qed
text \<open>With a connection, the health check always answers.\<close>

lemma swarm_health_returns:
  assumes "de_conn env (str_of_field (details_of rec) ''manager_id'') = Inr c"
  shows "\<exists>w' h. swarm_health env rec w = (w', Inr h)"
proof -
  have "\<exists>v y. rthen (rcatch m f) (\<lambda>x w. (w, Inr (g x w))) w = (v, Inr y)"
    for m :: "'a shell" and f and g :: "'a \<Rightarrow> string dep_world \<Rightarrow> 'b"
    using rcatch_returns [of m f w] by (auto simp: rthen_def)
  then show ?thesis using assms by (simp add: swarm_health_def Let_def get_connection_def rthen_rlift)
qed

definition demo_health_peer :: "(string, exec_result) peer" where
  "demo_health_peer h q =
     Inr \<lparr>x_stdout = (if h = [] then ''p'' else ''i''), x_stderr = [], x_exit = 0\<rparr>"

definition demo_health_env :: shell_env where
  "demo_health_env = (demo_denv demo_health_peer Absent)\<lparr>de_rt := demo_rt2\<lparr>rt_json := (\<lambda>s.
     if s = ''p'' then Some (JObj [(''CurrentState'', JStr ''Running 2 hours ago'')])
     else Some (JArr [JObj [(''Spec'', JObj [(''Mode'', JObj [(''Replicated'', JObj [(''Replicas'', JInt 1)])])])]]))\<rparr>\<rparr>"

theorem swarm_healthy_iff_witness:
  "\<exists>w' h. swarm_health demo_health_env (JObj []) demo_dworld = (w', Inr h) \<and> hs_healthy h"
proof -
  have c: "de_conn demo_health_env i = Inr demo_health_peer" for i
    by (simp add: demo_health_env_def demo_denv_def)
  obtain w' h where d: "swarm_health demo_health_env (JObj []) demo_dworld = (w', Inr h)"
    using swarm_health_returns c by blast
  have "parse_json_lines (de_rt demo_health_env) ''p'' = [JObj [(''CurrentState'', JStr ''Running 2 hours ago'')]]"
    "parse_replica_count (de_rt demo_health_env) ''i'' = 1"
    by code_simp+
  moreover have "in_state ''running'' (JObj [(''CurrentState'', JStr ''Running 2 hours ago'')])"
    "\<not> in_state ''failed'' (JObj [(''CurrentState'', JStr ''Running 2 hours ago'')])"
    by code_simp+
  ultimately have "hs_healthy h"
    using swarm_healthy_iff [OF d c] by (simp add: demo_health_peer_def demo_dworld_def Let_def)
  with d show ?thesis by blast
qed

end
