(* ===== verification/Unraid.thy ===== *)
theory Unraid
  imports Deploy
begin

text \<open>
  \<open>src/deploy/backends/unraid.ts\<close> and \<open>unraid-emhttp-client.ts\<close>: containers on an Unraid host, through
  the requests of its emhttp service. The world records the requests sent.
\<close>

section \<open>The emhttp client\<close>

datatype em_req =
    EmShares | EmPull string | EmPullStatus string | EmInspect string
  | EmStop string | EmRemove string | EmAdd jsval | EmStart string

text \<open>\<open>em_json\<close> is \<open>None\<close> when the body does not parse.\<close>

record em_answer =
  em_ok :: bool
  em_status :: int
  em_text :: string
  em_json :: "jsval option"

type_synonym em_env = "(em_req, em_answer) dep_env"
type_synonym em_peer = "(em_req, em_answer) peer"
type_synonym 'a emhttp = "(em_req, 'a) deploy"

definition em_failed :: "string \<Rightarrow> em_answer \<Rightarrow> error" where
  "em_failed what a = deploy_error DeployFailed (''emhttp /'' @ what @ '' returned '' @ int_str (em_status a))"

definition em_body :: "em_answer \<Rightarrow> jsval res" where
  "em_body a = (case em_json a of None \<Rightarrow> Inl (Error ''JSON'') | Some v \<Rightarrow> Inr v)"

text \<open>The paths of the shares; the service lists them as texts.\<close>

definition share_path :: "jsval \<Rightarrow> string list res" where
  "share_path s = rbind (prop_of s ''path'') (\<lambda>p. Inr (case p of JStr t \<Rightarrow> if t = [] then [] else [t] | _ \<Rightarrow> []))"

definition parse_shares :: "jsval \<Rightarrow> string list res" where
  "parse_shares body =
    (case body of
       JArr vs \<Rightarrow> Inr (concat (map (\<lambda>v. case v of JStr s \<Rightarrow> [s] | _ \<Rightarrow> []) vs))
     | _ \<Rightarrow> rbind (prop_of body ''shares'') (\<lambda>ss.
            if nullish ss then Inr []
            else case ss of
                JArr vs \<Rightarrow> rbind (collect (map share_path vs)) (\<lambda>ps. Inr (concat ps))
              | _ \<Rightarrow> Inl (TypeError ''shares.map is not a function'')))"

definition remember_shares :: "string \<Rightarrow> string list \<Rightarrow> (em_req, string list) deploy" where
  "remember_shares host ss w = (w\<lparr>dw_shares := jm_set host ss (dw_shares w)\<rparr>, Inr ss)"

definition get_shares :: "em_env \<Rightarrow> em_peer \<Rightarrow> string \<Rightarrow> string list emhttp" where
  "get_shares env c host w =
    (case jm_get (dw_shares w) host of
       Some ss \<Rightarrow> (w, Inr ss)
     | None \<Rightarrow>
         rthen (dexec env c EmShares) (\<lambda>a.
           if \<not> em_ok a then rthrow (em_failed ''Shares'' a)
           else rthen (rlift (rbind (em_body a) parse_shares)) (remember_shares host)) w)"

definition em_accepts :: "em_env \<Rightarrow> em_peer \<Rightarrow> string \<Rightarrow> bool emhttp" where
  "em_accepts env c img = rthen (dexec env c (EmPull img)) (\<lambda>a. rret (em_ok a))"

definition pull_status :: "em_env \<Rightarrow> em_peer \<Rightarrow> string \<Rightarrow> jsval emhttp" where
  "pull_status env c img =
     rthen (dexec env c (EmPullStatus img)) (\<lambda>a.
       if \<not> em_ok a
       then rthrow (DeployError ImagePullFailed (''emhttp /Docker/PullStatus returned '' @ int_str (em_status a))
              (500 \<le> em_status a) None)
       else rlift (em_body a))"

text \<open>\<open>null\<close> when the container does not exist.\<close>

definition inspect_answer :: "em_answer \<Rightarrow> jsval res" where
  "inspect_answer a =
    (if em_status a = 404 then Inr JNull
     else if \<not> em_ok a then Inl (em_failed ''Docker/InspectContainer'' a)
     else em_body a)"

definition inspect_container :: "em_env \<Rightarrow> em_peer \<Rightarrow> string \<Rightarrow> jsval emhttp" where
  "inspect_container env c name = rthen (dexec env c (EmInspect name)) (\<lambda>a. rlift (inspect_answer a))"

definition stop_container :: "em_env \<Rightarrow> em_peer \<Rightarrow> string \<Rightarrow> unit emhttp" where
  "stop_container env c name =
     rthen (dexec env c (EmStop name)) (\<lambda>a.
       if \<not> em_ok a \<and> em_status a \<noteq> 404 then rthrow (em_failed ''Docker/StopContainer'' a) else rret ())"

definition remove_container :: "em_env \<Rightarrow> em_peer \<Rightarrow> string \<Rightarrow> unit emhttp" where
  "remove_container env c name =
     rthen (dexec env c (EmRemove name)) (\<lambda>a.
       if \<not> em_ok a \<and> em_status a \<noteq> 404 then rthrow (em_failed ''Docker/RemoveContainer'' a) else rret ())"

definition add_container :: "em_env \<Rightarrow> em_peer \<Rightarrow> jsval \<Rightarrow> unit emhttp" where
  "add_container env c payload =
     rthen (dexec env c (EmAdd payload)) (\<lambda>a.
       if \<not> em_ok a
       then rthrow (deploy_error DeployFailed (''emhttp /Docker/AddContainer returned '' @ int_str (em_status a)
              @ '': '' @ take 500 (em_text a)))
       else rret ())"

definition start_container :: "em_env \<Rightarrow> em_peer \<Rightarrow> string \<Rightarrow> unit emhttp" where
  "start_container env c name =
     rthen (dexec env c (EmStart name)) (\<lambda>a.
       if \<not> em_ok a then rthrow (em_failed ''Docker/StartContainer'' a) else rret ())"

section \<open>Parameters\<close>

text \<open>\<open>^\d{1,5}:\d{1,5}(\/(tcp|udp))?$\<close>\<close>

definition port_ok :: "string \<Rightarrow> bool" where
  "port_ok s \<longleftrightarrow>
     (let n = length s - 4; b = (if drop n s \<in> {''/tcp'', ''/udp''} then take n s else s) in
      case split_on (CHR '':'') b of [x, y] \<Rightarrow> digits_upto 5 x \<and> digits_upto 5 y | _ \<Rightarrow> False)"

definition UNRAID_SCHEMA :: "(string \<times> param_schema) list" where
  "UNRAID_SCHEMA = [
     (''host_id'', text_param True (Some FIdentifier)),
     (''container_name'', text_param True (Some FIdentifier)),
     (''image_uri'', text_param True (Some FShellSafeArg)),
     (''registry_url'', text_param False (Some FUrl)),
     (''network_mode'', Schema PString False (Some (JStr ''bridge''))
        (Some [JStr ''bridge'', JStr ''host'', JStr ''none'']) None None None None None None),
     (''port_mappings'', Schema PArray False (Some (JArr [])) None None None None
        (Some (Schema PString False None None None (Some port_ok) None None None None)) None None),
     (''storage_mounts'', Schema PArray False (Some (JArr [])) None None None None
        (Some (Schema PObject False None None None None None None None (Some [
           (''host_path'', text_param True (Some FAbsolutePath)),
           (''container_path'', text_param True (Some FAbsolutePath)),
           (''readonly'', Schema PBoolean False (Some (JBool False)) None None None None None None None)]))) None None),
     (''env'', Schema PObject False (Some (JObj [])) None None None None None (Some (text_param False None)) None),
     (''health_url'', text_param False (Some FUrl)),
     (''health_timeout_seconds'', Schema PNumber False (Some (JInt 120)) None (Some (10, 600)) None None None None None),
     (''role'', text_param False None),
     (''backup_platform'', text_param False None)]"

definition mounts_of :: "(string, jsval) jsmap \<Rightarrow> jsval list" where
  "mounts_of ps = (case jm_get ps ''storage_mounts'' of Some v \<Rightarrow> elems v | None \<Rightarrow> [])"

definition host_path :: "jsval \<Rightarrow> string" where
  "host_path m = str_of_field m ''host_path''"

section \<open>Build\<close>

text \<open>One attempt of a pull: whatever throws counts as a transient failure.\<close>

definition pull_driver :: "em_env \<Rightarrow> em_peer \<Rightarrow> string \<Rightarrow> pull_exec emhttp" where
  "pull_driver env c img =
    (let failed = (\<lambda>transient e. \<lparr>px_success = False, px_digest = None, px_size = None,
                      px_transient = transient, px_error = Some e\<rparr>) in
     rcatch
       (rthen (em_accepts env c img) (\<lambda>accepted.
          if \<not> accepted then rret (failed True ''pull request rejected'')
          else rthen (pull_status env c img) (\<lambda>st.
            rlift (rbind (prop_of st ''status'') (\<lambda>s. Inr
              (if s = JStr ''complete''
               then \<lparr>px_success = True,
                     px_digest = (case field st ''digest'' of JStr d \<Rightarrow> Some d | _ \<Rightarrow> None),
                     px_size = (case field st ''sizeBytes'' of JNum (Fin n) \<Rightarrow> Some n | _ \<Rightarrow> None),
                     px_transient = False, px_error = None\<rparr>
               else if s = JStr ''failed''
               then failed False (case field st ''error'' of JStr e \<Rightarrow> e | _ \<Rightarrow> ''pull failed'')
               else failed True ''pull in-progress''))))))
       (\<lambda>e. failed True (error_message e)))"

definition unraid_build :: "em_env \<Rightarrow> build_context \<Rightarrow> build_artifact emhttp" where
  "unraid_build env ctx =
     rthen (rlift (validate_parameters (bc_params ctx) UNRAID_SCHEMA)) (\<lambda>ps.
     let img = req_param ps ''image_uri''; name = req_param ps ''container_name'' in
     rthen (get_connection env (req_param ps ''host_id'')) (\<lambda>c.
     rthen (pull_image sleep_ms (\<lambda>w. rt_iso (de_rt env) (dw_now w)) (pull_driver env c img)) (\<lambda>pl.
     rthen (inspect_container env c name) (\<lambda>insp.
     let prev = (if insp \<noteq> JNull \<and> field insp ''config'' \<noteq> JUndef then field insp ''config'' else JNull) in
     rret \<lparr>ba_type = ''docker-image'', ba_location = ''docker://'' @ img @ ''@'' @ pl_digest pl,
           ba_checksum = pl_digest pl, ba_size = pl_size pl,
           ba_meta = JObj [(''host_id'', JStr (req_param ps ''host_id'')), (''container_name'', JStr name),
             (''image_uri'', JStr img), (''digest'', JStr (pl_digest pl)),
             (''previous_container_config'', prev)]\<rparr>))))"

section \<open>Deploy and roll back\<close>

text \<open>\<open>inspect !== null && inspect.state.running === true\<close>\<close>

definition is_running :: "em_answer \<Rightarrow> bool res" where
  "is_running a =
     rbind (inspect_answer a) (\<lambda>v.
     if v = JNull then Inr False
     else rbind (prop_of v ''state'') (\<lambda>s. rbind (prop_of s ''running'') (\<lambda>r. Inr (r = JBool True))))"

definition poll_for_running :: "em_env \<Rightarrow> em_peer \<Rightarrow> string \<Rightarrow> unit emhttp" where
  "poll_for_running env c name w =
     rthen (poll_until env c (EmInspect name) is_running (dw_now w + 60000)) (\<lambda>up.
       if up then rret ()
       else rthrow (deploy_error DeployFailed (''container '' @ name @ '' did not reach running within 60000ms''))) w"

definition add_and_start :: "em_env \<Rightarrow> em_peer \<Rightarrow> string \<Rightarrow> jsval \<Rightarrow> unit emhttp" where
  "add_and_start env c name payload =
     rthen (add_container env c payload) (\<lambda>_.
     rthen (start_container env c name) (\<lambda>_. poll_for_running env c name))"

definition replace_container :: "em_env \<Rightarrow> em_peer \<Rightarrow> string \<Rightarrow> jsval \<Rightarrow> unit emhttp" where
  "replace_container env c name config =
     rthen (stop_container env c name) (\<lambda>_.
     rthen (remove_container env c name) (\<lambda>_. add_and_start env c name config))"

definition rollback_container :: "em_env \<Rightarrow> em_peer \<Rightarrow> string \<Rightarrow> jsval \<Rightarrow> rollback_result emhttp" where
  "rollback_container env c name prev =
     rcatch
       (rthen (replace_container env c name prev) (\<lambda>_.
        rret \<lparr>rr_success = True,
              rr_restored = Some (''docker://'' @ (case field prev ''image'' of JStr s \<Rightarrow> s | _ \<Rightarrow> ''unknown'')),
              rr_errors = []\<rparr>))
       (\<lambda>e. rollback_failed [error_message e])"

definition under_share :: "string list \<Rightarrow> string \<Rightarrow> bool" where
  "under_share shares p \<longleftrightarrow> (\<exists>s \<in> set shares. p = s \<or> starts_with (s @ ''/'') p)"

definition check_mounts :: "em_env \<Rightarrow> em_peer \<Rightarrow> string \<Rightarrow> jsval list \<Rightarrow> unit emhttp" where
  "check_mounts env c host mounts =
    (if mounts = [] then rret ()
     else rthen (get_shares env c host) (\<lambda>shares.
       case List.find (\<lambda>m. \<not> under_share shares (host_path m)) mounts of
         None \<Rightarrow> rret ()
       | Some m \<Rightarrow> rthrow (deploy_error InvalidParams (''storage_mounts[].host_path '' @ [CHR 0x27] @ host_path m
           @ [CHR 0x27] @ '' is not under any Unraid share''))))"

definition unraid_stateful :: "(string, jsval) jsmap \<Rightarrow> bool" where
  "unraid_stateful ps =
     is_stateful_target \<lparr>sp_role = str_param ps ''role'', sp_volumes = [],
       sp_mounts = map (\<lambda>m. case field m ''host_path'' of JStr s \<Rightarrow> Some s | _ \<Rightarrow> None) (mounts_of ps)\<rparr>"

definition unraid_backup_platform :: "(string, jsval) jsmap \<Rightarrow> string" where
  "unraid_backup_platform ps = (case str_param ps ''backup_platform'' of Some p \<Rightarrow> p | None \<Rightarrow> ''unraid'')"

definition container_payload :: "(string, jsval) jsmap \<Rightarrow> build_artifact \<Rightarrow> jsval" where
  "container_payload ps art =
     JObj [(''name'', JStr (req_param ps ''container_name'')),
       (''image'', JStr (str_of_field (ba_meta art) ''image_uri'' @ ''@'' @ str_of_field (ba_meta art) ''digest'')),
       (''network_mode'', JStr (req_param ps ''network_mode'')),
       (''ports'', JArr (map JStr (strs_param ps ''port_mappings''))),
       (''volumes'', JArr (mounts_of ps)),
       (''env'', (case jm_get ps ''env'' of Some v \<Rightarrow> v | None \<Rightarrow> JObj []))]"

definition previous_config :: "build_artifact \<Rightarrow> jsval" where
  "previous_config art = coalesce (field (ba_meta art) ''previous_container_config'') JNull"

definition unraid_record :: "em_env \<Rightarrow> build_artifact \<Rightarrow> string \<Rightarrow> (string, jsval) jsmap \<Rightarrow> jsval emhttp" where
  "unraid_record env art envn ps w =
    (let t = rt_iso (de_rt env) (dw_now w); name = req_param ps ''container_name'' in
     rthen (persist_step env (unraid_record_path name)
              (JObj [(''container_name'', JStr name), (''config'', previous_config art)])) (\<lambda>_.
     rlift (sign_deployment_record (de_rt env)
       (record_payload (de_id env) ''unraid'' ''homelab-unraid'' envn (ba_location art) (Some (unraid_stateful ps))
         ([(''host_id'', JStr (req_param ps ''host_id'')), (''container_name'', JStr name),
           (''image_uri'', JStr (str_of_field (ba_meta art) ''image_uri'')),
           (''digest'', JStr (str_of_field (ba_meta art) ''digest'')),
           (''previous_container_config'', previous_config art), (''started_at'', JStr t)]
          @ (if unraid_stateful ps then [(''backup_platform'', JStr (unraid_backup_platform ps))] else [])) t))) w)"

text \<open>The \<open>try\<close> around the start of the new container.\<close>

definition start_or_restore :: "em_env \<Rightarrow> em_peer \<Rightarrow> string \<Rightarrow> jsval \<Rightarrow> jsval \<Rightarrow> unit emhttp" where
  "start_or_restore env c name payload prev w =
    (case add_and_start env c name payload w of
       (w1, Inr u) \<Rightarrow> (w1, Inr u)
     | (w1, Inl e) \<Rightarrow>
         if prev \<noteq> JNull
         then rthen (rollback_container env c name prev) (\<lambda>rb.
                rthrow (DeployError DeployFailed (error_message e) False (Some (rr_success rb, rr_errors rb)))) w1
         else (w1, Inl e))"

definition unraid_apply ::
  "em_env \<Rightarrow> em_peer \<Rightarrow> build_artifact \<Rightarrow> string \<Rightarrow> (string, jsval) jsmap \<Rightarrow> jsval emhttp" where
  "unraid_apply env c art envn ps =
    (let name = req_param ps ''container_name''; prev = previous_config art in
     rthen (inspect_container env c name) (\<lambda>existing.
     rthen (if existing \<noteq> JNull then stop_container env c name else rret ()) (\<lambda>_.
     rthen (start_or_restore env c name (container_payload ps art) prev) (\<lambda>_.
     unraid_record env art envn ps))))"

definition unraid_deploy :: "em_env \<Rightarrow> build_artifact \<Rightarrow> string \<Rightarrow> jsval \<Rightarrow> jsval emhttp" where
  "unraid_deploy env art envn raw =
     rthen (rlift (validate_parameters raw UNRAID_SCHEMA)) (\<lambda>ps.
     rthen (get_connection env (req_param ps ''host_id'')) (\<lambda>c.
     rthen (check_mounts env c (req_param ps ''host_id'') (mounts_of ps)) (\<lambda>_.
     (\<lambda>w. rthen (rlift (backup_gate env (dw_now w) (unraid_stateful ps) (unraid_backup_platform ps)
                   (req_param ps ''container_name''))) (\<lambda>_.
            unraid_apply env c art envn ps) w))))"

definition unraid_rollback :: "em_env \<Rightarrow> jsval \<Rightarrow> rollback_result emhttp" where
  "unraid_rollback env rec =
    (let d = details_of rec; prev = field d ''previous_container_config'' in
     if missing prev then rret (rollback_failed [''no previous container to roll back to''])
     else rthen (get_connection env (str_of_field d ''host_id'')) (\<lambda>c.
          rollback_container env c (str_of_field d ''container_name'') prev))"

section \<open>Health\<close>

definition container_verdict :: "string \<Rightarrow> jsval \<Rightarrow> (bool \<times> string option) res" where
  "container_verdict name v =
    (if v = JNull then Inr (False, Some (''container '' @ name @ '' not found''))
     else rbind (prop_of v ''state'') (\<lambda>s. rbind (prop_of s ''health'') (\<lambda>h.
       case field h ''status'' of
         JStr t \<Rightarrow> Inr (if t = ''healthy'' then (True, None) else (False, Some (''state.health.status='' @ t)))
       | _ \<Rightarrow> Inr (False, Some ''state.health.status=unknown''))))"

definition unraid_health :: "em_env \<Rightarrow> jsval \<Rightarrow> health_status emhttp" where
  "unraid_health env rec =
    (let d = details_of rec; name = str_of_field d ''container_name'' in
     rthen (get_connection env (str_of_field d ''host_id'')) (\<lambda>c w0.
     rthen (rcatch (rthen (inspect_container env c name) (\<lambda>v. rlift (container_verdict name v)))
                   (\<lambda>e. (False, Some (error_message e))))
       (\<lambda>v w. (w, Inr (health_result (de_rt env) (dw_now w0) (dw_now w) v))) w0))"

section \<open>What the steps send\<close>

lemma remember_host [simp]:
  "dw_host (fst (remember_shares host ss w)) = dw_host w" "dw_now (fst (remember_shares host ss w)) = dw_now w"
  "dw_files (fst (remember_shares host ss w)) = dw_files w" "snd (remember_shares host ss w) = Inr ss"
  by (simp_all add: remember_shares_def)

lemma sends_get_shares: "sends (\<lambda>q. q = EmShares) (get_shares env c host)"
  unfolding sends_def
proof
  fix w
  show "\<exists>cs. dw_host (fst (get_shares env c host w)) = dw_host w @ cs \<and> list_all (\<lambda>q. q = EmShares) cs"
  proof (cases "jm_get (dw_shares w) host")
    case None
    have "sends (\<lambda>q. q = EmShares) (rthen (dexec env c EmShares) (\<lambda>a.
           if \<not> em_ok a then rthrow (em_failed ''Shares'' a)
           else rthen (rlift (rbind (em_body a) parse_shares)) (remember_shares host)))"
      by (intro deploy_intros sends_silent) simp_all
    then show ?thesis using None by (simp add: get_shares_def sends_def)
  qed (simp add: get_shares_def)
qed

lemma sends_check_mounts: "sends (\<lambda>q. q = EmShares) (check_mounts env c host mounts)"
  unfolding check_mounts_def
  by (intro deploy_intros sends_get_shares) (auto split: option.split intro: deploy_intros)

lemma check_mounts_frame:
  "dw_now w \<le> dw_now (fst (check_mounts env c host mounts w))"
  "dw_files (fst (check_mounts env c host mounts w)) = dw_files w"
  by (auto simp: check_mounts_def get_shares_def rthen_def dexec_def rlift_def rret_def rthrow_def remember_shares_def
      split: option.split prod.split sum.split)

text \<open>The mounts that passed the check lie under a share the host listed.\<close>

lemma check_mounts_ok:
  assumes "check_mounts env c host mounts w = (w', Inr u)" "m \<in> set mounts"
  shows "\<exists>shares. snd (get_shares env c host w) = Inr shares \<and> under_share shares (host_path m)"
  using assms
  by (auto simp: check_mounts_def rthen_def rthrow_def find_None_iff find_Some_iff
      split: prod.splits sum.splits option.splits if_splits)

lemma container_steps:
  "stop_container env c name w = (w', Inr u) \<Longrightarrow> w' = fst (dexec env c (EmStop name) w)"
  "remove_container env c name w = (w', Inr u) \<Longrightarrow> w' = fst (dexec env c (EmRemove name) w)"
  "add_container env c p w = (w', Inr u) \<Longrightarrow> w' = fst (dexec env c (EmAdd p) w)"
  "start_container env c name w = (w', Inr u) \<Longrightarrow> w' = fst (dexec env c (EmStart name) w)"
  "inspect_container env c name w = (w', Inr v) \<Longrightarrow> w' = fst (dexec env c (EmInspect name) w)"
  by (auto simp: stop_container_def remove_container_def add_container_def start_container_def
      inspect_container_def rthen_dexec rlift_def rret_def rthrow_def split: sum.splits if_splits)

lemma poll_for_running_ok:
  assumes "poll_for_running env c name w = (w', Inr u)"
  shows "\<exists>n a. dw_host w' = dw_host w @ replicate (Suc n) (EmInspect name) \<and> dw_files w' = dw_files w
    \<and> c (dw_host w @ replicate n (EmInspect name)) (EmInspect name) = Inr a \<and> is_running a = Inr True"
proof -
  have "poll_until env c (EmInspect name) is_running (dw_now w + 60000) w = (w', Inr True)"
    using assms
    by (auto simp: poll_for_running_def rthen_def rret_def rthrow_def split: prod.splits sum.splits if_splits)
  then show ?thesis by (rule poll_until_true)
qed

lemma add_and_start_ok:
  assumes "add_and_start env c name p w = (w', Inr u)"
  shows "\<exists>n a. dw_host w' = dw_host w @ [EmAdd p, EmStart name] @ replicate (Suc n) (EmInspect name)
    \<and> dw_files w' = dw_files w
    \<and> c (dw_host w @ [EmAdd p, EmStart name] @ replicate n (EmInspect name)) (EmInspect name) = Inr a
    \<and> is_running a = Inr True"
proof -
  obtain w1 w2 where "add_container env c p w = (w1, Inr ())" "start_container env c name w1 = (w2, Inr ())"
    "poll_for_running env c name w2 = (w', Inr u)"
    using assms by (auto simp: add_and_start_def rthen_Inr)
  with poll_for_running_ok [OF this(3)] show ?thesis by (auto dest!: container_steps)
qed

lemma replace_container_ok:
  assumes "replace_container env c name p w = (w', Inr u)"
  shows "\<exists>n a. dw_host w' = dw_host w @ [EmStop name, EmRemove name, EmAdd p, EmStart name] @ replicate (Suc n) (EmInspect name)
    \<and> dw_files w' = dw_files w
    \<and> c (dw_host w @ [EmStop name, EmRemove name, EmAdd p, EmStart name] @ replicate n (EmInspect name)) (EmInspect name) = Inr a
    \<and> is_running a = Inr True"
proof -
  obtain w1 w2 where "stop_container env c name w = (w1, Inr ())" "remove_container env c name w1 = (w2, Inr ())"
    "add_and_start env c name p w2 = (w', Inr u)"
    using assms by (auto simp: replace_container_def rthen_Inr)
  with add_and_start_ok [OF this(3)] show ?thesis by (auto dest!: container_steps)
qed

text \<open>Requests about one container only: its own, or the creation from one of the bodies \<open>ps\<close>.\<close>

definition about :: "string \<Rightarrow> jsval set \<Rightarrow> em_req \<Rightarrow> bool" where
  "about name ps q \<longleftrightarrow>
     q \<in> {EmShares, EmInspect name, EmStop name, EmRemove name, EmStart name} \<or> q \<in> EmAdd ` ps"

lemma sends_steps:
  "sends (about name ps) (stop_container env c name)" "sends (about name ps) (remove_container env c name)"
  "p \<in> ps \<Longrightarrow> sends (about name ps) (add_container env c p)" "sends (about name ps) (start_container env c name)"
  "sends (about name ps) (inspect_container env c name)" "sends (about name ps) (poll_for_running env c name)"
  unfolding stop_container_def remove_container_def add_container_def start_container_def
    inspect_container_def poll_for_running_def [abs_def]
  by (intro deploy_intros; simp add: about_def)+ (rule sends_at, intro deploy_intros, simp add: about_def)

lemma sends_add_and_start: "p \<in> ps \<Longrightarrow> sends (about name ps) (add_and_start env c name p)"
  unfolding add_and_start_def by (intro deploy_intros sends_steps)

lemma sends_rollback_container: "p \<in> ps \<Longrightarrow> sends (about name ps) (rollback_container env c name p)"
  unfolding rollback_container_def replace_container_def by (intro deploy_intros sends_steps sends_add_and_start)

lemma sends_start_or_restore:
  assumes "p \<in> ps" "prev \<in> ps"
  shows "sends (about name ps) (start_or_restore env c name p prev)"
  unfolding sends_def
proof
  fix w
  obtain w1 r where s: "add_and_start env c name p w = (w1, r)" by fastforce
  obtain cs where cs: "dw_host w1 = dw_host w @ cs" "list_all (about name ps) cs"
    using sendsD [OF sends_add_and_start [OF assms(1)] s] by blast
  let ?restore = "\<lambda>e. rthen (rollback_container env c name prev) (\<lambda>rb.
      rthrow (DeployError DeployFailed (error_message e) False (Some (rr_success rb, rr_errors rb)))) :: unit emhttp"
  have "sends (about name ps) (?restore e)" for e
    by (intro deploy_intros sends_rollback_container assms(2))
  then have ds: "\<exists>ds. dw_host (fst (?restore e w1)) = dw_host w1 @ ds \<and> list_all (about name ps) ds" for e
    unfolding sends_def by blast
  show "\<exists>cs. dw_host (fst (start_or_restore env c name p prev w)) = dw_host w @ cs \<and> list_all (about name ps) cs"
  proof (cases r)
    case (Inl e)
    obtain ds where d: "dw_host (fst (?restore e w1)) = dw_host w1 @ ds" "list_all (about name ps) ds"
      using ds [of e] by blast
    show ?thesis
    proof (cases "prev = JNull")
      case True
      then show ?thesis using s cs Inl by (simp add: start_or_restore_def)
    next
      case False
      then show ?thesis
        using s cs d Inl by (intro exI [of _ "cs @ ds"]) (simp add: start_or_restore_def)
    qed
  qed (use s cs in \<open>auto simp: start_or_restore_def\<close>)
qed

lemma unraid_record_host: "dw_host (fst (unraid_record env art envn ps w)) = dw_host w"
  by (auto simp: unraid_record_def Let_def rthen_def persist_step_def rlift_def split: prod.splits sum.splits)

lemma sends_unraid_apply:
  "sends (about (req_param ps ''container_name'') {container_payload ps art, previous_config art})
     (unraid_apply env c art envn ps)"
  unfolding unraid_apply_def Let_def
  by (intro deploy_intros sends_steps sends_start_or_restore sends_silent unraid_record_host) simp_all

lemma unraid_deploy_run:
  assumes "unraid_deploy env art envn raw w = (w', r)"
  obtains "\<exists>cs. dw_host w' = dw_host w @ cs \<and> list_all (\<lambda>q. q = EmShares) cs" "\<exists>e. r = Inl e" "dw_files w' = dw_files w"
  | ps c w1 where "validate_parameters raw UNRAID_SCHEMA = Inr ps"
      "de_conn env (req_param ps ''host_id'') = Inr c"
      "check_mounts env c (req_param ps ''host_id'') (mounts_of ps) w = (w1, Inr ())"
      "backup_gate env (dw_now w1) (unraid_stateful ps) (unraid_backup_platform ps) (req_param ps ''container_name'') = Inr ()"
      "unraid_apply env c art envn ps w1 = (w', r)"
proof (cases "validate_parameters raw UNRAID_SCHEMA")
  case (Inl e)
  then show thesis using that(1) assms by (auto simp: unraid_deploy_def rthen_def rlift_def)
next
  case v: (Inr ps)
  show thesis
  proof (cases "de_conn env (req_param ps ''host_id'')")
    case (Inl e)
    then show thesis
      using that(1) assms v by (auto simp: unraid_deploy_def rthen_def rlift_def get_connection_def)
  next
    case c: (Inr c)
    obtain w1 r1 where m: "check_mounts env c (req_param ps ''host_id'') (mounts_of ps) w = (w1, r1)" by fastforce
    let ?g = "backup_gate env (dw_now w1) (unraid_stateful ps) (unraid_backup_platform ps) (req_param ps ''container_name'')"
    have run: "unraid_deploy env art envn raw w = (case r1 of Inl e \<Rightarrow> (w1, Inl e)
        | Inr _ \<Rightarrow> (case ?g of Inl e \<Rightarrow> (w1, Inl e) | Inr _ \<Rightarrow> unraid_apply env c art envn ps w1))"
      by (simp add: unraid_deploy_def v rthen_rlift get_connection_def c rthen_def [of "check_mounts _ _ _ _"] m
          split: sum.split) (simp add: rthen_def rlift_def split: sum.split)
    have s: "\<exists>cs. dw_host w1 = dw_host w @ cs \<and> list_all (\<lambda>q. q = EmShares) cs" "dw_files w1 = dw_files w"
      using sendsD [OF sends_check_mounts m] check_mounts_frame(2) [of env c _ _ w] m by (blast, metis fst_conv)
    show thesis
    proof (cases "\<exists>e. r1 = Inl e \<or> ?g = Inl e")
      case True
      then have "w' = w1" "\<exists>e. r = Inl e" using run assms by (auto split: sum.splits)
      with s show thesis using that(1) by blast
    next
      case False
      then have "r1 = Inr ()" by (cases r1) auto
      moreover from False have "?g = Inr ()" by (cases ?g) auto
      ultimately show thesis using that(2) [OF v c] run assms m by simp
    qed
  qed
qed

lemma unraid_apply_done:
  assumes "unraid_apply env c art envn ps w = (w', Inr rec)"
  shows "\<exists>stop n a pl. let name = req_param ps ''container_name'';
      start = [EmInspect name] @ stop @ [EmAdd (container_payload ps art), EmStart name] in
      (stop = [] \<or> stop = [EmStop name])
    \<and> dw_host w' = dw_host w @ start @ replicate (Suc n) (EmInspect name)
    \<and> c (dw_host w @ start @ replicate n (EmInspect name)) (EmInspect name) = Inr a \<and> is_running a = Inr True
    \<and> sign_deployment_record (de_rt env) pl = Inr rec
    \<and> field (field pl ''details'') ''previous_container_config'' = previous_config art
    \<and> str_of_field (field pl ''details'') ''container_name'' = name
    \<and> str_of_field (field pl ''details'') ''host_id'' = req_param ps ''host_id''
    \<and> (\<exists>path. unraid_record_path name = Inr path
         \<and> read_signed_record (de_rt env) path (dw_files w')
             = Inr (Some (JObj [(''container_name'', JStr name), (''config'', previous_config art)])))"
proof -
  let ?name = "req_param ps ''container_name''"
  obtain w1 ex w2 w3 where s: "inspect_container env c ?name w = (w1, Inr ex)"
    "(if ex \<noteq> JNull then stop_container env c ?name else rret ()) w1 = (w2, Inr ())"
    "start_or_restore env c ?name (container_payload ps art) (previous_config art) w2 = (w3, Inr ())"
    "unraid_record env art envn ps w3 = (w', Inr rec)"
    using assms by (auto simp: unraid_apply_def Let_def rthen_Inr)
  have h1: "dw_host w1 = dw_host w @ [EmInspect ?name]" using container_steps(5) [OF s(1)] by simp
  obtain stop where stop: "stop = [] \<or> stop = [EmStop ?name]" "dw_host w2 = dw_host w @ [EmInspect ?name] @ stop"
  proof (cases "ex = JNull")
    case True
    then have "w2 = w1" using s(2) by (simp add: rret_def)
    then show thesis using that [of "[]"] h1 by simp
  next
    case False
    then have "dw_host w2 = dw_host w1 @ [EmStop ?name]" using s(2) container_steps(1) [of env c ?name w1 w2] by simp
    then show thesis using that [of "[EmStop ?name]"] h1 by simp
  qed
  have "add_and_start env c ?name (container_payload ps art) w2 = (w3, Inr ())"
    using s(3) by (auto simp: start_or_restore_def rthen_def rthrow_def split: prod.splits sum.splits if_splits)
  from add_and_start_ok [OF this] obtain n a where run:
    "dw_host w3 = dw_host w2 @ [EmAdd (container_payload ps art), EmStart ?name] @ replicate (Suc n) (EmInspect ?name)"
    "c (dw_host w2 @ [EmAdd (container_payload ps art), EmStart ?name] @ replicate n (EmInspect ?name)) (EmInspect ?name) = Inr a"
    "is_running a = Inr True"
    by blast
  obtain path fs where p: "unraid_record_path ?name = Inr path"
    "persist_signed_record (de_rt env) (de_disk env) path
       (JObj [(''container_name'', JStr ?name), (''config'', previous_config art)]) (dw_files w3) = (fs, Inr ())"
    "dw_files w' = fs" "dw_host w' = dw_host w3"
    using s(4) by (auto simp: unraid_record_def Let_def rthen_def persist_step_def rlift_def split: prod.splits sum.splits)
  obtain pl where "sign_deployment_record (de_rt env) pl = Inr rec"
    "field (field pl ''details'') ''previous_container_config'' = previous_config art"
    "str_of_field (field pl ''details'') ''container_name'' = ?name"
    "str_of_field (field pl ''details'') ''host_id'' = req_param ps ''host_id''"
    using s(4)
    by (auto simp: unraid_record_def Let_def rthen_def rlift_def record_payload_def opt_field_def str_of_field_def
        split: prod.splits sum.splits)
  with stop run p(1,3,4) persist_read [OF p(2)] show ?thesis
    by (intro exI [of _ stop] exI [of _ n] exI [of _ a] exI [of _ pl]) (simp add: Let_def)
qed

section \<open>What a deployment does to the host\<close>

definition unraid_stateful_as :: "jsval \<Rightarrow> (string \<times> string) option" where
  "unraid_stateful_as raw =
    (case validate_parameters raw UNRAID_SCHEMA of
       Inl e \<Rightarrow> None
     | Inr ps \<Rightarrow>
         if unraid_stateful ps then Some (unraid_backup_platform ps, req_param ps ''container_name'') else None)"

interpretation unraid: backup_gated unraid_deploy unraid_stateful_as "\<lambda>q. q = EmShares"
proof
  fix env :: em_env and art envn raw w w' r p tg
  assume run: "unraid_deploy env art envn raw w = (w', r)" and st: "unraid_stateful_as raw = Some (p, tg)"
  from run show "(\<exists>cs. dw_host w' = dw_host w @ cs \<and> list_all (\<lambda>q. q = EmShares) cs)
      \<or> (\<exists>t \<ge> dw_now w. backup_gate env t True p tg = Inr ())"
  proof (cases rule: unraid_deploy_run)
    case (2 ps c w1)
    have "dw_now w \<le> dw_now w1"
      using check_mounts_frame(1) [of w env c "req_param ps ''host_id''" "mounts_of ps"] 2(3) by simp
    moreover have "backup_gate env (dw_now w1) True p tg = Inr ()"
      using 2(1,4) st by (auto simp: unraid_stateful_as_def split: if_splits)
    ultimately show ?thesis by blast
  qed blast
qed

text \<open>
  When the backup requirement is on, a deployment of a stateful container sends anything but the
  listing of the shares only if the manifest then holds an entry for the platform, not older than
  its limit, and no entry with a signature that does not verify.
\<close>

theorem unraid_stateful_needs_backup:
  assumes "unraid_deploy env art envn raw w = (w', r)"
    and "q \<in> set (drop (length (dw_host w)) (dw_host w'))" "q \<noteq> EmShares"
    and "validate_parameters raw UNRAID_SCHEMA = Inr ps" "unraid_stateful ps" "de_require_backup env"
  shows "\<exists>t es e. dw_now w \<le> t \<and> read_manifest_file (de_rt env) t (de_manifest env) = Inr es \<and> e \<in> set es
    \<and> field e ''platform'' = JStr (unraid_backup_platform ps)
    \<and> (\<forall>x \<in> set es. field x ''hmac'' = JStr '''' \<or> verify_entry_hmac (de_rt env) x)
    \<and> \<not> too_old (date_parse (de_rt env) (field e ''taken_at'')) t
          (max_age_of \<lparr>vi_platform = unraid_backup_platform ps, vi_target = req_param ps ''container_name'',
             vi_overrides = de_overrides env\<rparr> e)"
  by (rule unraid.harm_needs_backup [OF assms(1) _ assms(6) assms(2,3)])
     (simp add: unraid_stateful_as_def assms(4,5))

text \<open>
  A deployment, whether it succeeds or not, sends requests about its own container only; the
  bodies it creates a container from are the one built from its parameters and the previous configuration it
  may restore; and before the first of them every mount was found under a share the host listed.
\<close>

theorem unraid_deploy_confined:
  assumes "unraid_deploy env art envn raw w = (w', r)"
  shows "\<exists>cs. dw_host w' = dw_host w @ cs
    \<and> (list_all (\<lambda>q. q = EmShares) cs \<and> (\<exists>e. r = Inl e)
      \<or> (\<exists>ps c. validate_parameters raw UNRAID_SCHEMA = Inr ps \<and> de_conn env (req_param ps ''host_id'') = Inr c
          \<and> list_all (about (req_param ps ''container_name'') {container_payload ps art, previous_config art}) cs
          \<and> (\<forall>m \<in> set (mounts_of ps). \<exists>shares. snd (get_shares env c (req_param ps ''host_id'') w) = Inr shares
                \<and> under_share shares (host_path m))))"
  using assms
proof (cases rule: unraid_deploy_run)
  case 1
  then obtain cs where "dw_host w' = dw_host w @ cs" "list_all (\<lambda>q. q = EmShares) cs" by blast
  with 1(2) show ?thesis by (intro exI [of _ cs]) simp
next
  case (2 ps c w1)
  let ?P = "about (req_param ps ''container_name'') {container_payload ps art, previous_config art}"
  obtain cs where cs: "dw_host w1 = dw_host w @ cs" "list_all (\<lambda>q. q = EmShares) cs"
    using sendsD [OF sends_check_mounts 2(3)] by blast
  obtain ds where ds: "dw_host w' = dw_host w1 @ ds" "list_all ?P ds"
    using sendsD [OF sends_unraid_apply 2(5)] by blast
  have "list_all ?P cs" using cs(2) by (rule list.pred_mono_strong) (simp add: about_def)
  moreover have "\<forall>m \<in> set (mounts_of ps). \<exists>shares. snd (get_shares env c (req_param ps ''host_id'') w) = Inr shares
                \<and> under_share shares (host_path m)"
    using check_mounts_ok [OF 2(3)] by blast
  ultimately show ?thesis using cs(1) ds 2(1,2) by (intro exI [of _ "cs @ ds"]) auto
qed

text \<open>
  A deployment that returns stopped the old container before it created the new one, saw the new
  one running in its last request, left a rollback record on disk that reads back with the previous
  configuration, and returns a record that verifies; undoing that record without a previous configuration
  changes nothing, and a rollback that reports success replaced the container by the previous one and saw
  it running.
\<close>

theorem unraid_deploy_then_rollback:
  assumes "unraid_deploy env art envn raw w = (w', Inr rec)"
  shows "\<exists>ps c pre stop n a path name. validate_parameters raw UNRAID_SCHEMA = Inr ps
    \<and> de_conn env (req_param ps ''host_id'') = Inr c \<and> name = req_param ps ''container_name''
    \<and> list_all (\<lambda>q. q = EmShares) pre \<and> (stop = [] \<or> stop = [EmStop name])
    \<and> dw_host w' = dw_host w @ pre @ [EmInspect name] @ stop @ [EmAdd (container_payload ps art), EmStart name]
         @ replicate (Suc n) (EmInspect name)
    \<and> c (dw_host w @ pre @ [EmInspect name] @ stop @ [EmAdd (container_payload ps art), EmStart name]
         @ replicate n (EmInspect name)) (EmInspect name) = Inr a
    \<and> is_running a = Inr True
    \<and> unraid_record_path name = Inr path
    \<and> read_signed_record (de_rt env) path (dw_files w')
         = Inr (Some (JObj [(''container_name'', JStr name), (''config'', previous_config art)]))
    \<and> verify_deployment_record (de_rt env) rec
    \<and> (\<forall>v. missing (previous_config art) \<longrightarrow>
          unraid_rollback env rec v = (v, Inr (rollback_failed [''no previous container to roll back to''])))
    \<and> (\<forall>v v' rb. unraid_rollback env rec v = (v', Inr rb) \<and> rr_success rb \<longrightarrow>
          (\<exists>k. dw_host v' = dw_host v @ [EmStop name, EmRemove name, EmAdd (previous_config art), EmStart name]
              @ replicate (Suc k) (EmInspect name)))"
  using assms
proof (cases rule: unraid_deploy_run)
  case (2 ps c w1)
  let ?name = "req_param ps ''container_name''"
  obtain pre where pre: "dw_host w1 = dw_host w @ pre" "list_all (\<lambda>q. q = EmShares) pre"
    using sendsD [OF sends_check_mounts 2(3)] by blast
  obtain stop n a pl path where run: "stop = [] \<or> stop = [EmStop ?name]"
    "dw_host w' = dw_host w @ pre @ [EmInspect ?name] @ stop @ [EmAdd (container_payload ps art), EmStart ?name]
         @ replicate (Suc n) (EmInspect ?name)"
    "c (dw_host w @ pre @ [EmInspect ?name] @ stop @ [EmAdd (container_payload ps art), EmStart ?name]
         @ replicate n (EmInspect ?name)) (EmInspect ?name) = Inr a" "is_running a = Inr True"
    and pl: "sign_deployment_record (de_rt env) pl = Inr rec"
      "field (field pl ''details'') ''previous_container_config'' = previous_config art"
      "str_of_field (field pl ''details'') ''container_name'' = ?name"
      "str_of_field (field pl ''details'') ''host_id'' = req_param ps ''host_id''"
    and path: "unraid_record_path ?name = Inr path"
      "read_signed_record (de_rt env) path (dw_files w')
         = Inr (Some (JObj [(''container_name'', JStr ?name), (''config'', previous_config art)]))"
    using unraid_apply_done [OF 2(5)] unfolding Let_def append_assoc pre by (elim exE conjE) (rule that; assumption)
  have det: "details_of rec = field pl ''details''"
    using pl(1) by (auto simp: sign_deployment_record_def details_of_def res_simps sign_payload_Inr signed_def)
  have undo: "unraid_rollback env rec v =
     (if missing (previous_config art) then (v, Inr (rollback_failed [''no previous container to roll back to'']))
      else rollback_container env c ?name (previous_config art) v)" for v
    by (simp add: unraid_rollback_def Let_def det pl rret_def get_connection_def 2(2) rthen_rlift)
  have u1: "\<forall>v. missing (previous_config art) \<longrightarrow>
      unraid_rollback env rec v = (v, Inr (rollback_failed [''no previous container to roll back to'']))"
    using undo by simp
  have u2: "\<forall>v v' rb. unraid_rollback env rec v = (v', Inr rb) \<and> rr_success rb \<longrightarrow>
      (\<exists>k. dw_host v' = dw_host v @ [EmStop ?name, EmRemove ?name, EmAdd (previous_config art), EmStart ?name]
              @ replicate (Suc k) (EmInspect ?name))"
  proof (intro allI impI, elim conjE)
    fix v v' rb
    assume r: "unraid_rollback env rec v = (v', Inr rb)" "rr_success rb"
    have "rollback_container env c ?name (previous_config art) v = (v', Inr rb)"
      using r undo [of v] by (auto simp: rollback_failed_def split: if_splits)
    then have "replace_container env c ?name (previous_config art) v = (v', Inr ())"
      using r(2)
      by (auto simp: rollback_container_def rcatch_def rthen_def rret_def rollback_failed_def
          split: prod.splits sum.splits)
    from replace_container_ok [OF this] show "\<exists>k. dw_host v' = dw_host v
        @ [EmStop ?name, EmRemove ?name, EmAdd (previous_config art), EmStart ?name] @ replicate (Suc k) (EmInspect ?name)"
      by blast
  qed
  show ?thesis
    by (rule exI [of _ ps], rule exI [of _ c], rule exI [of _ pre], rule exI [of _ stop], rule exI [of _ n],
        rule exI [of _ a], rule exI [of _ path], rule exI [of _ ?name])
       (intro conjI 2(1,2) refl pre(2) run path sign_record_verifies [OF pl(1)] u1 u2)
qed blast

section \<open>Where the checks do not meet\<close>

text \<open>The identifier format admits a dot, the name of the record file does not: such a container is
  started, but its deployment never returns.\<close>

lemma dotted_name_never_returns:
  assumes "\<not> safe_key (req_param ps ''container_name'')"
  shows "unraid_apply env c art envn ps w \<noteq> (w', Inr rec)"
proof
  assume "unraid_apply env c art envn ps w = (w', Inr rec)"
  from unraid_apply_done [OF this] show False
    using assms by (auto simp: Let_def unraid_record_path_def)
qed

lemma dotted_name_valid: "ident_ok ''db.v2'' \<and> \<not> safe_key ''db.v2''"
  by code_simp

text \<open>The share check compares prefixes of a path that may hold dot segments.\<close>

lemma mount_escapes_share:
  "under_share [''/mnt/user/media''] ''/mnt/user/media/../../../etc''
   \<and> abs_path_ok ''/mnt/user/media/../../../etc''
   \<and> posix_normalize ''/mnt/user/media/../../../etc'' = ''/etc''"
  by code_simp

section \<open>Witnesses\<close>

definition demo_unraid_params :: jsval where
  "demo_unraid_params = JObj [(''host_id'', JStr ''t1''), (''container_name'', JStr ''db''),
     (''image_uri'', JStr ''pg''), (''role'', JStr ''database''), (''backup_platform'', JStr ''docker'')]"

definition demo_unraid_valid :: "(string, jsval) jsmap" where
  "demo_unraid_valid = [(''host_id'', JStr ''t1''), (''container_name'', JStr ''db''),
     (''image_uri'', JStr ''pg''), (''network_mode'', JStr ''bridge''), (''port_mappings'', JArr []),
     (''storage_mounts'', JArr []), (''env'', JObj []), (''health_timeout_seconds'', JInt 120),
     (''role'', JStr ''database''), (''backup_platform'', JStr ''docker'')]"

lemma demo_unraid_validates: "validate_parameters demo_unraid_params UNRAID_SCHEMA = Inr demo_unraid_valid"
  by code_simp

lemma demo_unraid_facts:
  "unraid_stateful demo_unraid_valid" "unraid_backup_platform demo_unraid_valid = ''docker''"
  "req_param demo_unraid_valid ''container_name'' = ''db''" "mounts_of demo_unraid_valid = []"
  "unraid_record_path ''db'' = Inr ''unraid/db.json''"
  by code_simp+

definition demo_em :: em_peer where
  "demo_em h q = Inr \<lparr>em_ok = True, em_status = 200, em_text = [],
     em_json = Some (JObj [(''state'', JObj [(''running'', JBool True)])])\<rparr>"

lemma demo_em_running [simp]:
  "demo_em h q = Inr a \<Longrightarrow> is_running a = Inr True" "inspect_answer (projr (demo_em h q)) \<noteq> Inr JNull"
  by (auto simp: demo_em_def is_running_def inspect_answer_def em_body_def prop_of_def)

lemma demo_unraid_starts:
  "\<exists>v. add_and_start env demo_em name p w = (v, Inr ())"
proof -
  have e: "demo_em h q = Inr (projr (demo_em h q))" for h q by (simp add: demo_em_def)
  have ok: "em_ok (projr (demo_em h q))" for h q by (simp add: demo_em_def)
  have "\<exists>v. poll_for_running env demo_em name u = (v, Inr ())" for u
    using poll_now [of u "dw_now u + 60000" demo_em "EmInspect name" "projr (demo_em (dw_host u) (EmInspect name))" is_running env]
    by (simp add: poll_for_running_def e [symmetric] rthen_def rret_def)
  then show ?thesis
    by (simp add: add_and_start_def add_container_def start_container_def rthen_def [of "rthen _ _"] rthen_dexec
        demo_em_def rret_def)
qed

lemma demo_unraid_record:
  "\<exists>v' rec. unraid_record (demo_denv demo_em m) demo_artifact [] demo_unraid_valid v = (v', Inr rec) \<and> dw_host v' = dw_host v"
proof -
  have j: "previous_config demo_artifact = JNull"
    by (simp add: previous_config_def demo_artifact_def coalesce_def nullish_def)
  have "str_of_field (ba_meta demo_artifact) k = ''undefined''" for k
    by (simp add: demo_artifact_def str_of_field_def)
  then show ?thesis
    by (simp add: unraid_record_def Let_def demo_unraid_facts j rthen_def persist_step_def persist_signed_record_def
        sign_payload_def canonical_json_eq demo_denv_def rlift_def sign_deployment_record_def record_payload_def
        opt_field_def)
qed

lemma demo_unraid_deploys:
  obtains m w' rec where "unraid_deploy (demo_denv demo_em m) demo_artifact [] demo_unraid_params demo_dworld = (w', Inr rec)"
    "EmInspect ''db'' \<in> set (drop (length (dw_host (demo_dworld :: em_req dep_world))) (dw_host w'))"
proof -
  obtain s where s: "\<And>tg. verify_backup demo_rt2 61000 (Content (Some (manifest_json [s])))
     \<lparr>vi_platform = ''docker'', vi_target = tg, vi_overrides = []\<rparr> = Inr s"
    using demo_backup by blast
  let ?m = "Content (Some (manifest_json [s]))"
  let ?env = "demo_denv demo_em ?m"
  have g: "backup_gate ?env 61000 True ''docker'' tg = Inr ()" for tg
    by (simp add: backup_gate_def demo_denv_def s)
  have c: "de_conn ?env i = Inr demo_em" for i by (simp add: demo_denv_def)
  have run: "unraid_deploy ?env demo_artifact [] demo_unraid_params demo_dworld
     = unraid_apply ?env demo_em demo_artifact [] demo_unraid_valid (demo_dworld :: em_req dep_world)"
    using g by (simp add: unraid_deploy_def demo_unraid_validates rthen_rlift demo_unraid_facts get_connection_def c
        check_mounts_def rthen_def [of "rret _"] rret_def) (simp add: demo_dworld_def rthen_rlift)
  have i: "\<exists>v x. inspect_container ?env demo_em ''db'' demo_dworld = (v, Inr x)" "\<exists>v. stop_container ?env demo_em ''db'' u = (v, Inr ())" for u
    by (simp_all add: inspect_container_def stop_container_def rthen_dexec demo_em_def rlift_def rret_def
        inspect_answer_def em_body_def)
  obtain v x where "inspect_container ?env demo_em ''db'' demo_dworld = (v, Inr x)" using i(1) by blast
  obtain v2 where "(if x \<noteq> JNull then stop_container ?env demo_em ''db'' else rret ()) v = (v2, Inr ())"
    using i(2) [of v] by (cases "x = JNull") (auto simp: rret_def)
  moreover obtain v3 where "add_and_start ?env demo_em ''db'' (container_payload demo_unraid_valid demo_artifact) v2 = (v3, Inr ())"
    using demo_unraid_starts by blast
  ultimately obtain w' rec where r: "unraid_apply ?env demo_em demo_artifact [] demo_unraid_valid
      (demo_dworld :: em_req dep_world) = (w', Inr rec)"
    using \<open>inspect_container ?env demo_em ''db'' demo_dworld = (v, Inr x)\<close> demo_unraid_record [of ?m v3]
    by (auto simp: unraid_apply_def Let_def demo_unraid_facts rthen_def start_or_restore_def)
  from unraid_apply_done [OF r] have "EmInspect ''db'' \<in> set (dw_host w')"
    by (auto simp: Let_def demo_unraid_facts demo_dworld_def)
  then have "EmInspect ''db'' \<in> set (drop (length (dw_host (demo_dworld :: em_req dep_world))) (dw_host w'))"
    by (simp add: demo_dworld_def)
  with r run that show thesis by simp
qed

theorem unraid_stateful_needs_backup_witness:
  "\<exists>m w' rec t es e. unraid_deploy (demo_denv demo_em m) demo_artifact [] demo_unraid_params demo_dworld = (w', Inr rec)
     \<and> read_manifest_file demo_rt2 t m = Inr es \<and> e \<in> set es \<and> field e ''platform'' = JStr ''docker''"
proof -
  obtain m w' rec where d: "unraid_deploy (demo_denv demo_em m) demo_artifact [] demo_unraid_params demo_dworld = (w', Inr rec)"
    "EmInspect ''db'' \<in> set (drop (length (dw_host (demo_dworld :: em_req dep_world))) (dw_host w'))"
    by (rule demo_unraid_deploys)
  have "\<exists>t es e. read_manifest_file demo_rt2 t m = Inr es \<and> e \<in> set es \<and> field e ''platform'' = JStr ''docker''"
    using unraid_stateful_needs_backup [OF d _ demo_unraid_validates demo_unraid_facts(1)]
    by (auto simp: demo_unraid_facts demo_denv_def)
  with d(1) show ?thesis by blast
qed

theorem unraid_deploy_confined_witness:
  "\<exists>m w' rec. unraid_deploy (demo_denv demo_em m) demo_artifact [] demo_unraid_params demo_dworld = (w', Inr rec)
     \<and> list_all (about ''db'' {container_payload demo_unraid_valid demo_artifact, previous_config demo_artifact}) (dw_host w')"
proof -
  obtain m w' rec where d: "unraid_deploy (demo_denv demo_em m) demo_artifact [] demo_unraid_params demo_dworld = (w', Inr rec)"
    by (rule demo_unraid_deploys)
  have "list_all (about ''db'' {container_payload demo_unraid_valid demo_artifact, previous_config demo_artifact}) (dw_host w')"
    using unraid_deploy_confined [OF d] by (auto simp: demo_unraid_validates demo_unraid_facts demo_dworld_def)
  with d show ?thesis by blast
qed

theorem unraid_deploy_then_rollback_witness:
  "\<exists>m w' rec. unraid_deploy (demo_denv demo_em m) demo_artifact [] demo_unraid_params demo_dworld = (w', Inr rec)
     \<and> verify_deployment_record demo_rt2 rec
     \<and> read_signed_record demo_rt2 ''unraid/db.json'' (dw_files w')
         = Inr (Some (JObj [(''container_name'', JStr ''db''), (''config'', previous_config demo_artifact)]))"
proof -
  obtain m w' rec where d: "unraid_deploy (demo_denv demo_em m) demo_artifact [] demo_unraid_params demo_dworld = (w', Inr rec)"
    by (rule demo_unraid_deploys)
  have "verify_deployment_record demo_rt2 rec
     \<and> read_signed_record demo_rt2 ''unraid/db.json'' (dw_files w')
         = Inr (Some (JObj [(''container_name'', JStr ''db''), (''config'', previous_config demo_artifact)]))"
    using unraid_deploy_then_rollback [OF d] by (auto simp: demo_unraid_validates demo_unraid_facts demo_denv_def)
  with d show ?thesis by blast
qed

end
