(* ===== verification/Proxmox.thy ===== *)
theory Proxmox
  imports Deploy
begin

text \<open>
  \<open>src/deploy/backends/proxmox.ts\<close> and \<open>proxmox-cli.ts\<close>: containers and virtual machines of a Proxmox
  node, through the \<open>pct\<close> and \<open>qm\<close> commands over a connection.
\<close>

section \<open>The command line\<close>

text \<open>\<open>^[A-Za-z0-9_./@:+=,-]+$\<close> and \<open>^\d{1,3}(\.\d{1,3}){3}\/\d{1,2}$\<close>\<close>

definition cli_safe :: "string \<Rightarrow> bool" where
  "cli_safe s \<longleftrightarrow> s \<noteq> [] \<and> list_all (\<lambda>c. is_alnum c \<or> c \<in> set ''_./@:+=,-'') s"

definition cidr_text_ok :: "string \<Rightarrow> bool" where
  "cidr_text_ok s \<longleftrightarrow>
    (case split_on (CHR ''/'') s of
       [a, p] \<Rightarrow> digits_upto 2 p
         \<and> (let ds = split_on (CHR ''.'') a in length ds = 4 \<and> list_all (digits_upto 3) ds)
     | _ \<Rightarrow> False)"

definition ensure_safe :: "string \<Rightarrow> string \<Rightarrow> string res" where
  "ensure_safe name v =
    (if cli_safe v then Inr v
     else Inl (deploy_error InvalidParams (''proxmox-cli: arg '' @ [CHR 0x27] @ name @ [CHR 0x27]
            @ '' contains shell-unsafe characters'')))"

record create_opts =
  co_vmid :: int
  co_image :: string
  co_pool :: string
  co_hostname :: string
  co_cores :: int
  co_memory :: int
  co_cidr :: "string option"

definition words :: "string list \<Rightarrow> string" where
  "words ws = join '' '' ws"

definition pct_create_cmd :: "create_opts \<Rightarrow> string res" where
  "pct_create_cmd o' =
     rbind (ensure_safe ''image_uri'' (co_image o')) (\<lambda>img.
     rbind (ensure_safe ''storage_pool'' (co_pool o')) (\<lambda>pool.
     rbind (ensure_safe ''hostname'' (co_hostname o')) (\<lambda>hn.
     let parts = [''pct'', ''create'', int_str (co_vmid o'), img, ''--storage'', pool, ''--hostname'', hn,
                  ''--cores'', int_str (co_cores o'), ''--memory'', int_str (co_memory o')] in
     case co_cidr o' of
       None \<Rightarrow> Inr (words parts)
     | Some cidr \<Rightarrow>
         if cidr_text_ok cidr then Inr (words (parts @ [''--net0'', ''name=eth0,ip='' @ cidr]))
         else Inl (deploy_error InvalidParams (''proxmox-cli: ip_cidr '' @ [CHR 0x27] @ cidr @ [CHR 0x27]
                @ '' is not a CIDR'')))))"

definition qm_create_cmd :: "create_opts \<Rightarrow> string res" where
  "qm_create_cmd o' =
     rbind (ensure_safe ''hostname'' (co_hostname o')) (\<lambda>hn.
     rbind (ensure_safe ''storage_pool'' (co_pool o')) (\<lambda>pool.
     Inr (words [''qm'', ''create'', int_str (co_vmid o'), ''--name'', hn, ''--cores'', int_str (co_cores o'),
       ''--memory'', int_str (co_memory o'), ''--net0'', ''virtio,bridge=vmbr0'', ''--ide2'', pool @ '':cloudinit'',
       ''--boot'', ''order=scsi0''])))"

definition qm_import_cmd :: "create_opts \<Rightarrow> string res" where
  "qm_import_cmd o' =
     rbind (ensure_safe ''image_uri'' (co_image o')) (\<lambda>img.
     rbind (ensure_safe ''storage_pool'' (co_pool o')) (\<lambda>pool.
     Inr (words [''qm'', ''importdisk'', int_str (co_vmid o'), img, pool])))"

text \<open>Run a command whose text may be refused, and fail on another exit code than 0.\<close>

definition must_run :: "shell_env \<Rightarrow> conn \<Rightarrow> deploy_code \<Rightarrow> string res \<Rightarrow> exec_result shell" where
  "must_run env c code cmd =
     rthen (rlift cmd) (\<lambda>q. rthen (dexec env c q) (\<lambda>r.
       if x_exit r \<noteq> 0 then rthrow (deploy_error code (output_text 500 r)) else rret r))"

definition run_pct_create :: "shell_env \<Rightarrow> conn \<Rightarrow> create_opts \<Rightarrow> exec_result shell" where
  "run_pct_create env c o' = must_run env c BuildFailed (pct_create_cmd o')"

definition run_qm_create :: "shell_env \<Rightarrow> conn \<Rightarrow> create_opts \<Rightarrow> exec_result shell" where
  "run_qm_create env c o' =
     rthen (must_run env c BuildFailed (qm_create_cmd o')) (\<lambda>_. must_run env c BuildFailed (qm_import_cmd o'))"

text \<open>A workload is a container (\<open>lxc\<close>) or a virtual machine.\<close>

definition status_cmd :: "bool \<Rightarrow> string \<Rightarrow> string" where
  "status_cmd lxc vmid = (if lxc then ''pct status '' else ''qm status '') @ vmid"

definition status_running :: "exec_result \<Rightarrow> bool" where
  "status_running r \<longleftrightarrow> x_exit r = 0 \<and> contains ''running'' (to_lower (x_stdout r))"

record parsed_addr =
  pa_ip :: string
  pa_cidr :: int
  pa_iface :: string

text \<open>The loops of \<open>parseIpJson\<close>: the first usable address; \<open>null\<close> among the objects throws.\<close>

fun first_inet :: "jsval \<Rightarrow> jsval list \<Rightarrow> parsed_addr option res" where
  "first_inet e [] = Inr None"
| "first_inet e (i # is) =
     rbind (prop_of i ''family'') (\<lambda>f.
       case (f = JStr ''inet'', field i ''local'') of
         (True, JStr a) \<Rightarrow>
           if a \<noteq> ''127.0.0.1''
           then Inr (Some \<lparr>pa_ip = a, pa_cidr = (case field i ''prefixlen'' of JNum (Fin n) \<Rightarrow> n | _ \<Rightarrow> 24),
                  pa_iface = (case field e ''ifname'' of JStr n \<Rightarrow> n | _ \<Rightarrow> ''eth0'')\<rparr>)
           else first_inet e is
       | _ \<Rightarrow> first_inet e is)"

fun first_addr :: "jsval list \<Rightarrow> parsed_addr option res" where
  "first_addr [] = Inr None"
| "first_addr (e # es) =
     rbind (prop_of e ''addr_info'') (\<lambda>v.
       case v of
         JArr is \<Rightarrow> rbind (first_inet e is) (\<lambda>r. case r of None \<Rightarrow> first_addr es | Some a \<Rightarrow> Inr (Some a))
       | _ \<Rightarrow> first_addr es)"

definition parse_ip_json :: "runtime \<Rightarrow> string \<Rightarrow> parsed_addr option res" where
  "parse_ip_json rt out = (case rt_json rt out of Some (JArr es) \<Rightarrow> first_addr es | _ \<Rightarrow> Inr None)"

definition parse_vmid :: "jsval \<Rightarrow> int res" where
  "parse_vmid v =
    (case v of
       JNum (Fin n) \<Rightarrow> Inr n
     | JStr s \<Rightarrow>
         if s \<noteq> [] \<and> list_all is_digit s then Inr (int (str_nat s))
         else Inl (deploy_error InvalidParams (''vmid must be an integer; got '' @ s))
     | _ \<Rightarrow> Inl (deploy_error InvalidParams ''vmid must be an integer; got undefined''))"

section \<open>Parameters\<close>

abbreviation num_param :: "bool \<Rightarrow> jsval option \<Rightarrow> int \<times> int \<Rightarrow> param_schema" where
  "num_param req d r \<equiv> Schema PNumber req d None (Some r) None None None None None"

definition PROXMOX_SCHEMA :: "(string \<times> param_schema) list" where
  "PROXMOX_SCHEMA = [
     (''node_id'', text_param True (Some FIdentifier)),
     (''workload_kind'', Schema PString True None (Some [JStr ''lxc'', JStr ''vm'']) None None None None None None),
     (''vmid'', num_param True None (100, 999999)),
     (''image_uri'', text_param True (Some FShellSafeArg)),
     (''registry_url'', text_param False (Some FUrl)),
     (''storage_pool'', text_param True (Some FIdentifier)),
     (''hostname'', text_param True (Some FIdentifier)),
     (''ip_cidr'', Schema PString False None None None (Some cidr_text_ok) None None None None),
     (''cores'', num_param False (Some (JInt 1)) (1, 64)),
     (''memory_mb'', num_param False (Some (JInt 512)) (128, 524288)),
     (''health_url'', text_param False (Some FUrl)),
     (''health_timeout_seconds'', num_param False (Some (JInt 120)) (10, 600))]"

definition int_param :: "(string, jsval) jsmap \<Rightarrow> string \<Rightarrow> int \<Rightarrow> int" where
  "int_param ps k d = (case jm_get ps k of Some (JNum (Fin n)) \<Rightarrow> n | _ \<Rightarrow> d)"

definition vmid_param :: "(string, jsval) jsmap \<Rightarrow> int res" where
  "vmid_param ps =
     rbind (parse_vmid (case jm_get ps ''vmid'' of None \<Rightarrow> JUndef | Some v \<Rightarrow> v)) (\<lambda>n.
     if n < 100
     then Inl (deploy_error InvalidParams (''vmid '' @ int_str n @ '' is in Proxmox'' @ [CHR 0x27] @ ''s reserved range (< 100)''))
     else Inr n)"

definition is_lxc :: "(string, jsval) jsmap \<Rightarrow> bool" where
  "is_lxc ps \<longleftrightarrow> req_param ps ''workload_kind'' = ''lxc''"

section \<open>Build\<close>

definition create_opts_of :: "(string, jsval) jsmap \<Rightarrow> int \<Rightarrow> create_opts" where
  "create_opts_of ps vmid =
    \<lparr>co_vmid = vmid, co_image = req_param ps ''image_uri'', co_pool = req_param ps ''storage_pool'',
     co_hostname = req_param ps ''hostname'', co_cores = int_param ps ''cores'' 1,
     co_memory = int_param ps ''memory_mb'' 512, co_cidr = str_param ps ''ip_cidr''\<rparr>"

text \<open>The record of the previous deployment; every failure to read it counts as none.\<close>

definition previous_vmid :: "shell_env \<Rightarrow> int \<Rightarrow> record_files \<Rightarrow> jsval" where
  "previous_vmid env vmid fs =
    (case rbind (proxmox_record_path (int_str vmid)) (\<lambda>p. read_signed_record (de_rt env) p fs) of
       Inr (Some prev) \<Rightarrow> (case prop_of prev ''vmid'' of Inr v \<Rightarrow> v | Inl _ \<Rightarrow> JNull)
     | _ \<Rightarrow> JNull)"

definition proxmox_build :: "shell_env \<Rightarrow> build_context \<Rightarrow> build_artifact shell" where
  "proxmox_build env ctx =
     rthen (rlift (validate_parameters (bc_params ctx) PROXMOX_SCHEMA)) (\<lambda>ps.
     rthen (rlift (vmid_param ps)) (\<lambda>vmid.
     rthen (get_connection env (req_param ps ''node_id'')) (\<lambda>c.
     rthen (if is_lxc ps then run_pct_create env c (create_opts_of ps vmid)
            else run_qm_create env c (create_opts_of ps vmid)) (\<lambda>_ w.
     let node = req_param ps ''node_id''; kind = req_param ps ''workload_kind''; img = req_param ps ''image_uri'' in
     rret \<lparr>ba_type = ''proxmox-instance'',
           ba_location = ''proxmox://'' @ node @ ''/'' @ kind @ ''/'' @ int_str vmid,
           ba_checksum = de_sha env (node @ '':'' @ kind @ '':'' @ int_str vmid @ '':'' @ img @ '':'' @ bc_commit ctx),
           ba_size = 0,
           ba_meta = JObj ([(''node_id'', JStr node), (''vmid'', JInt vmid), (''workload_kind'', JStr kind),
               (''hostname'', JStr (req_param ps ''hostname'')), (''image_uri'', JStr img)]
             @ opt_field ''registry_url'' (map_option JStr (str_param ps ''registry_url''))
             @ [(''previous_vmid'', previous_vmid env vmid (dw_files w))])\<rparr> w))))"

section \<open>Deploy\<close>

definition await_running :: "shell_env \<Rightarrow> conn \<Rightarrow> bool \<Rightarrow> string \<Rightarrow> unit shell" where
  "await_running env c lxc vmid w =
     rthen (poll_until env c (status_cmd lxc vmid) (\<lambda>r. Inr (status_running r)) (dw_now w + 60000)) (\<lambda>up.
       if up then rret ()
       else rthrow (deploy_error DeployFailed (''vmid '' @ vmid @ '' did not reach '' @ [CHR 0x27] @ ''running''
              @ [CHR 0x27] @ '' within 60000ms''))) w"

text \<open>The addresses of one interface of a guest: \<open>Inl\<close> is an exception, which the caller turns into
  \<open>null\<close>; a text is iterated without a hit.\<close>

fun guest_addr :: "jsval list \<Rightarrow> string option res" where
  "guest_addr [] = Inr None"
| "guest_addr (a # as) =
     rbind (prop_of a ''ip-address-type'') (\<lambda>t.
       case (t = JStr ''ipv4'', field a ''ip-address'') of
         (True, JStr ip) \<Rightarrow> if ip \<noteq> ''127.0.0.1'' then Inr (Some ip) else guest_addr as
       | _ \<Rightarrow> guest_addr as)"

fun guest_ifaces :: "jsval list \<Rightarrow> string option res" where
  "guest_ifaces [] = Inr None"
| "guest_ifaces (i # is) =
     rbind (prop_of i ''ip-addresses'') (\<lambda>v.
       case coalesce v (JArr []) of
         JArr as \<Rightarrow> rbind (guest_addr as) (\<lambda>r. case r of None \<Rightarrow> guest_ifaces is | Some ip \<Rightarrow> Inr (Some ip))
       | JStr s \<Rightarrow> guest_ifaces is
       | _ \<Rightarrow> Inl (TypeError ''addrs is not iterable''))"

definition guest_ip :: "runtime \<Rightarrow> string \<Rightarrow> string option" where
  "guest_ip rt out =
    (case rt_json rt out of
       Some (JArr is) \<Rightarrow> (case guest_ifaces is of Inr r \<Rightarrow> r | Inl _ \<Rightarrow> None)
     | _ \<Rightarrow> None)"

definition ip_cmd :: "bool \<Rightarrow> string \<Rightarrow> string" where
  "ip_cmd lxc vmid =
    (if lxc then ''pct exec '' @ vmid @ '' -- ip -j addr show eth0''
     else ''qm guest cmd '' @ vmid @ '' network-get-interfaces'')"

definition resolve_assigned_ip :: "shell_env \<Rightarrow> conn \<Rightarrow> bool \<Rightarrow> string \<Rightarrow> string option shell" where
  "resolve_assigned_ip env c lxc vmid =
     rthen (dexec env c (ip_cmd lxc vmid)) (\<lambda>r.
       if x_exit r \<noteq> 0 then rret None
       else if lxc then rlift (rbind (parse_ip_json (de_rt env) (x_stdout r)) (\<lambda>a. Inr (map_option pa_ip a)))
       else rret (guest_ip (de_rt env) (x_stdout r)))"

definition start_cmd :: "bool \<Rightarrow> string \<Rightarrow> string" where
  "start_cmd lxc vmid = (if lxc then ''pct start '' else ''qm start '') @ vmid"

definition stop_cmd :: "bool \<Rightarrow> string \<Rightarrow> string" where
  "stop_cmd lxc vmid = (if lxc then ''pct stop '' else ''qm stop '') @ vmid"

definition proxmox_record ::
  "shell_env \<Rightarrow> build_artifact \<Rightarrow> string \<Rightarrow> (string, jsval) jsmap \<Rightarrow> int \<Rightarrow> string option \<Rightarrow> jsval shell" where
  "proxmox_record env art envn ps vmid ip w =
    (let t = rt_iso (de_rt env) (dw_now w);
         hn = JStr (req_param ps ''hostname''); img = JStr (req_param ps ''image_uri'');
         kind = JStr (req_param ps ''workload_kind'') in
     rthen (persist_step env (proxmox_record_path (int_str vmid))
              (JObj [(''vmid'', JInt vmid), (''workload_kind'', kind), (''hostname'', hn), (''image_uri'', img)])) (\<lambda>_.
     rlift (sign_deployment_record (de_rt env)
       (record_payload (de_id env) ''proxmox'' ''homelab-proxmox'' envn (ba_location art) None
         [(''node_id'', JStr (req_param ps ''node_id'')), (''vmid'', JInt vmid), (''workload_kind'', kind),
          (''ip'', js_opt ip), (''hostname'', hn), (''image_uri'', img),
          (''previous_vmid'', coalesce (field (ba_meta art) ''previous_vmid'') JNull), (''started_at'', JStr t)] t))) w)"

definition proxmox_deploy :: "shell_env \<Rightarrow> build_artifact \<Rightarrow> string \<Rightarrow> jsval \<Rightarrow> jsval shell" where
  "proxmox_deploy env art envn raw =
     rthen (rlift (validate_parameters raw PROXMOX_SCHEMA)) (\<lambda>ps.
     rthen (rlift (vmid_param ps)) (\<lambda>vmid.
     rthen (get_connection env (req_param ps ''node_id'')) (\<lambda>c.
     rthen (must_run env c DeployFailed (Inr (start_cmd (is_lxc ps) (int_str vmid)))) (\<lambda>_.
     rthen (await_running env c (is_lxc ps) (int_str vmid)) (\<lambda>_.
     rthen (resolve_assigned_ip env c (is_lxc ps) (int_str vmid)) (\<lambda>ip.
     proxmox_record env art envn ps vmid ip))))))"

section \<open>Health and rollback\<close>

text \<open>The text of a value inside a template.\<close>

definition vm_text :: "jsval \<Rightarrow> string" where
  "vm_text v = (case v of JNum (Fin n) \<Rightarrow> int_str n | JStr s \<Rightarrow> s | JNull \<Rightarrow> ''null'' | _ \<Rightarrow> ''undefined'')"

definition ping_cmd :: "bool \<Rightarrow> string \<Rightarrow> string" where
  "ping_cmd lxc vmid =
    (if lxc then ''pct exec '' @ vmid @ '' -- /bin/true'' else ''qm guest cmd '' @ vmid @ '' ping'')"

definition proxmox_health :: "shell_env \<Rightarrow> jsval \<Rightarrow> health_status shell" where
  "proxmox_health env rec =
    (let d = details_of rec in
     rthen (get_connection env (str_of_field d ''node_id'')) (\<lambda>c w0.
     rthen (rcatch (rthen (dexec env c (ping_cmd (field d ''workload_kind'' = JStr ''lxc'') (vm_text (field d ''vmid'')))) (\<lambda>r.
                    rret (if x_exit r = 0 then (True, None) else (False, Some (output_text 200 r)))))
                   (\<lambda>e. (False, Some (error_message e))))
       (\<lambda>v w. (w, Inr (health_result (de_rt env) (dw_now w0) (dw_now w) v))) w0))"

definition proxmox_rollback :: "shell_env \<Rightarrow> jsval \<Rightarrow> rollback_result shell" where
  "proxmox_rollback env rec =
    (let d = details_of rec; lxc = (field d ''workload_kind'' = JStr ''lxc'');
         prev = vm_text (field d ''previous_vmid'') in
     if missing (field d ''previous_vmid'') then rret (rollback_failed [''no previous record to roll back to''])
     else rthen (get_connection env (str_of_field d ''node_id'')) (\<lambda>c.
          rthen (dexec env c (stop_cmd lxc (vm_text (field d ''vmid'')))) (\<lambda>s.
          let errs = (if x_exit s \<noteq> 0 then [''stop failed: '' @ output_text 200 s] else []) in
          rthen (dexec env c (start_cmd lxc prev)) (\<lambda>r.
            if x_exit r \<noteq> 0 then rret (rollback_failed (errs @ [''start failed: '' @ output_text 200 r]))
            else rcatch
              (rthen (await_running env c lxc prev) (\<lambda>_.
               rret \<lparr>rr_success = (errs = []),
                     rr_restored = Some (''proxmox://'' @ str_of_field d ''node_id'' @ ''/''
                       @ str_of_field d ''workload_kind'' @ ''/'' @ prev),
                     rr_errors = errs\<rparr>))
              (\<lambda>e. rollback_failed (errs @ [error_message e]))))))"

section \<open>No parameter reaches a shell as anything but a word\<close>

text \<open>A word of a command line: no space and no character a shell gives a meaning to.\<close>

definition shell_word :: "string \<Rightarrow> bool" where
  "shell_word s \<longleftrightarrow> s \<noteq> [] \<and> list_all (\<lambda>c. inert_char c \<and> c \<noteq> CHR '' '') s"

text \<open>The command lines the backend may send to build or start a workload, by their words: the values that
  come from parameters are the variables, each one word.\<close>

definition vm_argvs :: "string \<Rightarrow> string \<Rightarrow> string \<Rightarrow> string \<Rightarrow> string \<Rightarrow> string \<Rightarrow> string \<Rightarrow> string list set" where
  "vm_argvs vmid img pool hn cores mem cidr =
    {[''pct'', ''create'', vmid, img, ''--storage'', pool, ''--hostname'', hn, ''--cores'', cores, ''--memory'', mem],
     [''pct'', ''create'', vmid, img, ''--storage'', pool, ''--hostname'', hn, ''--cores'', cores, ''--memory'', mem,
        ''--net0'', ''name=eth0,ip='' @ cidr],
     [''qm'', ''create'', vmid, ''--name'', hn, ''--cores'', cores, ''--memory'', mem, ''--net0'', ''virtio,bridge=vmbr0'',
        ''--ide2'', pool @ '':cloudinit'', ''--boot'', ''order=scsi0''],
     [''qm'', ''importdisk'', vmid, img, pool],
     [''pct'', ''start'', vmid], [''qm'', ''start'', vmid], [''pct'', ''status'', vmid], [''qm'', ''status'', vmid],
     [''pct'', ''exec'', vmid, ''--'', ''ip'', ''-j'', ''addr'', ''show'', ''eth0''],
     [''qm'', ''guest'', ''cmd'', vmid, ''network-get-interfaces'']}"

definition vm_command :: "string \<Rightarrow> bool" where
  "vm_command q \<longleftrightarrow> (\<exists>vmid img pool hn cores mem cidr ws. list_all shell_word [vmid, img, pool, hn, cores, mem, cidr]
     \<and> ws \<in> vm_argvs vmid img pool hn cores mem cidr \<and> q = words ws)"

abbreviation word_char :: "char \<Rightarrow> bool" where
  "word_char c \<equiv> inert_char c \<and> c \<noteq> CHR '' ''"

lemma word_chars: "is_digit c \<Longrightarrow> word_char c" "is_alnum c \<Longrightarrow> word_char c" "c \<in> set ''_./@:+=,-'' \<Longrightarrow> word_char c"
proof -
  have "\<not> is_digit (CHR '' '')" "\<not> is_alnum (CHR '' '')" "CHR '' '' \<notin> set ''_./@:+=,-''" by code_simp+
  then show "is_digit c \<Longrightarrow> word_char c" "is_alnum c \<Longrightarrow> word_char c" "c \<in> set ''_./@:+=,-'' \<Longrightarrow> word_char c"
    using inert_chars(1,2,4) by metis+
qed

lemma word_digits: "list_all is_digit ds \<Longrightarrow> list_all word_char ds"
  by (erule list.pred_mono_strong) (rule word_chars(1))

lemma shell_word_int_str: "shell_word (int_str n)"
proof -
  have nat: "nat_str k \<noteq> [] \<and> list_all word_char (nat_str k)" for k
    using nat_str_digits [of k] word_digits [of "nat_str k"] by (simp add: list_all_iff)
  have "inert_char (CHR ''-'')" by code_simp
  then show ?thesis using nat [of "nat n"] nat [of "nat (- n)"] by (simp add: int_str_def shell_word_def)
qed

lemma shell_word_cli_safe: "cli_safe s \<Longrightarrow> shell_word s"
  unfolding cli_safe_def shell_word_def
  by (elim conjE, intro conjI, assumption) (erule list.pred_mono_strong, elim disjE; rule word_chars(2,3); assumption)

lemma split_on_word: "list_all (list_all P) (split_on d s) \<Longrightarrow> P d \<Longrightarrow> list_all P s"
  by (induction s) (auto split: if_splits list.splits)

lemma shell_word_digits_upto: "digits_upto n s \<Longrightarrow> list_all word_char s"
  by (simp add: digits_upto_def word_digits)

lemma shell_word_cidr_text: "cidr_text_ok s \<Longrightarrow> shell_word s"
proof -
  assume c: "cidr_text_ok s"
  then obtain a p where s: "split_on (CHR ''/'') s = [a, p]" "digits_upto 2 p"
    "list_all (digits_upto 3) (split_on (CHR ''.'') a)"
    by (auto simp: cidr_text_ok_def Let_def split: list.splits)
  have ch: "inert_char (CHR ''/'')" "inert_char (CHR ''.'')" by code_simp+
  have "list_all word_char a"
    by (rule split_on_word [of _ "CHR ''.''"])
       (use s(3) ch(2) in \<open>auto elim: list.pred_mono_strong intro: shell_word_digits_upto\<close>)
  with s(1,2) ch(1) have "list_all word_char s"
    by (intro split_on_word [of _ "CHR ''/''" s]) (simp_all add: shell_word_digits_upto)
  moreover have "s \<noteq> []" using s(1) by auto
  ultimately show "shell_word s" by (simp add: shell_word_def)
qed

lemma ensure_safe_word: "ensure_safe n v = Inr x \<Longrightarrow> shell_word x"
  by (auto simp: ensure_safe_def shell_word_cli_safe split: if_splits)

lemma vm_commandI:
  "ws \<in> vm_argvs (int_str v) img pool hn (int_str c) (int_str m) cidr \<Longrightarrow> shell_word img \<Longrightarrow> shell_word pool \<Longrightarrow>
   shell_word hn \<Longrightarrow> shell_word cidr \<Longrightarrow> vm_command (words ws)"
  unfolding vm_command_def by (intro exI conjI) (auto simp: shell_word_int_str)

lemma create_cmds_known:
  "pct_create_cmd o' = Inr q \<Longrightarrow> vm_command q" "qm_create_cmd o' = Inr q \<Longrightarrow> vm_command q"
  "qm_import_cmd o' = Inr q \<Longrightarrow> vm_command q"
proof -
  note command = vm_commandI [of _ "co_vmid o'" _ _ _ "co_cores o'" "co_memory o'"]
  assume r: "pct_create_cmd o' = Inr q"
  let ?parts = "\<lambda>img pool hn. [''pct'', ''create'', int_str (co_vmid o'), img, ''--storage'', pool, ''--hostname'', hn,
                  ''--cores'', int_str (co_cores o'), ''--memory'', int_str (co_memory o')]"
  obtain img pool hn where w: "shell_word img" "shell_word pool" "shell_word hn" and
    q: "(case co_cidr o' of None \<Rightarrow> Inr (words (?parts img pool hn))
       | Some cidr \<Rightarrow> if cidr_text_ok cidr then Inr (words (?parts img pool hn @ [''--net0'', ''name=eth0,ip='' @ cidr]))
         else Inl (deploy_error InvalidParams (''proxmox-cli: ip_cidr '' @ [CHR 0x27] @ cidr @ [CHR 0x27]
                @ '' is not a CIDR''))) = Inr q"
    using r unfolding pct_create_cmd_def Let_def rbind_Inr_iff
    by (elim exE conjE) (rule that; (assumption | erule ensure_safe_word))
  show "vm_command q"
  proof (cases "co_cidr o'")
    case None
    have "vm_command (words (?parts img pool hn))"
      by (rule command [OF _ w w(1)]) (simp add: vm_argvs_def)
    then show ?thesis using None q by simp
  next
    case (Some cidr)
    with q have c: "shell_word cidr" "q = words (?parts img pool hn @ [''--net0'', ''name=eth0,ip='' @ cidr])"
      by (auto intro: shell_word_cidr_text split: if_splits)
    show ?thesis unfolding c(2) by (rule command [OF _ w c(1)]) (simp add: vm_argvs_def)
  qed
next
  note command = vm_commandI [of _ "co_vmid o'" _ _ _ "co_cores o'" "co_memory o'"]
  assume r: "qm_create_cmd o' = Inr q"
  obtain pool hn where w: "shell_word pool" "shell_word hn" and
    q: "q = words [''qm'', ''create'', int_str (co_vmid o'), ''--name'', hn, ''--cores'', int_str (co_cores o'),
       ''--memory'', int_str (co_memory o'), ''--net0'', ''virtio,bridge=vmbr0'', ''--ide2'', pool @ '':cloudinit'',
       ''--boot'', ''order=scsi0'']"
    using r unfolding qm_create_cmd_def rbind_Inr_iff sum.inject
    by (elim exE conjE) (rule that; (assumption | erule ensure_safe_word | erule sym))
  show "vm_command q" unfolding q by (rule command [OF _ w(1) w w(1)]) (simp add: vm_argvs_def)
next
  note command = vm_commandI [of _ "co_vmid o'" _ _ _ "co_cores o'" "co_memory o'"]
  assume r: "qm_import_cmd o' = Inr q"
  obtain img pool where w: "shell_word img" "shell_word pool" and
    q: "q = words [''qm'', ''importdisk'', int_str (co_vmid o'), img, pool]"
    using r unfolding qm_import_cmd_def rbind_Inr_iff sum.inject
    by (elim exE conjE) (rule that; (assumption | erule ensure_safe_word | erule sym))
  show "vm_command q" unfolding q by (rule command [OF _ w w(1) w(1)]) (simp add: vm_argvs_def)
qed

lemma sends_must_run: "(\<And>q. cmd = Inr q \<Longrightarrow> P q) \<Longrightarrow> sends P (must_run env c code cmd)"
  unfolding must_run_def by (rule sends_rthen_lift, intro deploy_intros) simp

lemma vm_cmds_known:
  "vm_command (start_cmd lxc (int_str v))" "vm_command (status_cmd lxc (int_str v))" "vm_command (ip_cmd lxc (int_str v))"
proof -
  let ?one = "''1''"
  have one: "shell_word ?one" by code_simp
  note command = vm_commandI [of _ v ?one ?one ?one 1 1 ?one, OF _ one one one one]
  have "start_cmd lxc (int_str v) = words [if lxc then ''pct'' else ''qm'', ''start'', int_str v]"
    by (simp add: start_cmd_def words_def)
  then show "vm_command (start_cmd lxc (int_str v))" by (cases lxc) (simp_all add: command vm_argvs_def)
  have "status_cmd lxc (int_str v) = words [if lxc then ''pct'' else ''qm'', ''status'', int_str v]"
    by (simp add: status_cmd_def words_def)
  then show "vm_command (status_cmd lxc (int_str v))" by (cases lxc) (simp_all add: command vm_argvs_def)
  have "ip_cmd lxc (int_str v) = words (if lxc then [''pct'', ''exec'', int_str v, ''--'', ''ip'', ''-j'', ''addr'', ''show'', ''eth0'']
      else [''qm'', ''guest'', ''cmd'', int_str v, ''network-get-interfaces''])"
    by (simp add: ip_cmd_def words_def)
  then show "vm_command (ip_cmd lxc (int_str v))" by (cases lxc) (simp_all add: command vm_argvs_def)
qed

lemma proxmox_record_host: "dw_host (fst (proxmox_record env art envn ps vmid ip w)) = dw_host w"
  by (auto simp: proxmox_record_def Let_def rthen_def persist_step_def rlift_def split: prod.splits sum.splits)

lemma sends_await: "P (status_cmd lxc v) \<Longrightarrow> sends P (await_running env c lxc v)"
  unfolding await_running_def [abs_def] by (rule sends_at, intro deploy_intros)

lemma sends_resolve: "P (ip_cmd lxc v) \<Longrightarrow> sends P (resolve_assigned_ip env c lxc v)"
  unfolding resolve_assigned_ip_def by (intro deploy_intros)

lemma sends_build: "sends vm_command (proxmox_build env ctx)"
  unfolding proxmox_build_def run_pct_create_def run_qm_create_def
  by (rule sends_rthen_lift, rule sends_rthen_lift, intro deploy_intros sends_must_run sends_silent)
     (auto simp: rret_def Let_def intro: create_cmds_known)

lemma sends_deploy: "sends vm_command (proxmox_deploy env art envn raw)"
  unfolding proxmox_deploy_def
  by (rule sends_rthen_lift, rule sends_rthen_lift,
      intro deploy_intros sends_must_run sends_await sends_resolve sends_silent proxmox_record_host)
     (auto intro: vm_cmds_known)

text \<open>
  C25: whatever the parameters, every command a build or a deployment sends is one of the ten fixed command
  lines, in which each value that comes from the parameters is a single word: not empty, without a space and
  without a character that has a meaning to the shell. So no parameter can add a command or a further
  argument; a value that begins with a dash is still one word, and is not excluded.
\<close>

theorem proxmox_commands_inert:
  "(\<exists>cs. dw_host (fst (proxmox_build env ctx w)) = dw_host w @ cs \<and> list_all vm_command cs)
   \<and> (\<exists>cs. dw_host (fst (proxmox_deploy env art envn raw w)) = dw_host w @ cs \<and> list_all vm_command cs)"
  using sends_build [of env ctx] sends_deploy [of env art envn raw] unfolding sends_def by blast

section \<open>The records on disk\<close>

lemma int_str_inj: "int_str m = int_str n \<Longrightarrow> m = n"
proof -
  have no_minus: "nat_str k \<noteq> CHR ''-'' # s" for k s
  proof
    assume "nat_str k = CHR ''-'' # s"
    then have "is_digit (CHR ''-'')" using nat_str_digits [of k] by simp
    moreover have "\<not> is_digit (CHR ''-'')" by code_simp
    ultimately show False by blast
  qed
  have inj: "nat_str k = nat_str l \<Longrightarrow> k = l" for k l by (metis str_nat_nat_str)
  assume eq: "int_str m = int_str n"
  show "m = n"
  proof (cases "m < 0"; cases "n < 0")
    assume "m < 0" "n < 0"
    then have "nat (- m) = nat (- n)" using eq by (intro inj) (simp add: int_str_def)
    then show ?thesis using \<open>m < 0\<close> \<open>n < 0\<close> by linarith
  next
    assume "\<not> m < 0" "\<not> n < 0"
    then have "nat m = nat n" using eq by (intro inj) (simp add: int_str_def)
    then show ?thesis using \<open>\<not> m < 0\<close> \<open>\<not> n < 0\<close> by linarith
  next
    assume "m < 0" "\<not> n < 0"
    then show ?thesis using eq no_minus [of "nat n", symmetric] by (simp add: int_str_def)
  next
    assume "\<not> m < 0" "n < 0"
    then show ?thesis using eq no_minus [of "nat m"] by (simp add: int_str_def)
  qed
qed

text \<open>Programs that keep a property of the files.\<close>

definition preserves :: "(record_files \<Rightarrow> bool) \<Rightarrow> ('q, 'a) deploy \<Rightarrow> bool" where
  "preserves I m \<longleftrightarrow> (\<forall>w. I (dw_files w) \<longrightarrow> I (dw_files (fst (m w))))"

lemma preserves_frame: "(\<And>w. dw_files (fst (m w)) = dw_files w) \<Longrightarrow> preserves I m"
  by (simp add: preserves_def)

lemma preserves_basic:
  "preserves I (rret x)" "preserves I (rthrow e)" "preserves I (rlift r)" "preserves I (dexec env c q)"
  "preserves I (get_connection env i)" "preserves I (poll_until env c q test deadline)"
  using poll_until_commands [of env c q test deadline]
  by (auto intro!: preserves_frame simp: rret_def rthrow_def rlift_def get_connection_def)

lemma preserves_rthen:
  assumes "preserves I m" "\<And>x. preserves I (f x)"
  shows "preserves I (rthen m f)"
  unfolding preserves_def
proof (intro allI impI)
  fix w :: "'a dep_world"
  assume w: "I (dw_files w)"
  obtain w1 r where m: "m w = (w1, r)" by fastforce
  then have "I (dw_files w1)" using assms(1) w unfolding preserves_def by (metis fst_conv)
  with assms(2) show "I (dw_files (fst (rthen m f w)))"
    by (cases r) (simp_all add: rthen_def m preserves_def)
qed

lemma preserves_if: "preserves I m \<Longrightarrow> preserves I n \<Longrightarrow> preserves I (if b then m else n)"
  by simp

lemma preserves_at: "(\<And>w. preserves I (f w)) \<Longrightarrow> preserves I (\<lambda>w. f w w)"
  by (simp add: preserves_def)

lemma preserves_steps:
  "preserves I (must_run env c code cmd)" "preserves I (await_running env c lxc v)"
  "preserves I (resolve_assigned_ip env c lxc v)"
proof -
  show "preserves I (must_run env c code cmd)" "preserves I (resolve_assigned_ip env c lxc v)"
    unfolding must_run_def resolve_assigned_ip_def by (intro preserves_rthen preserves_basic preserves_if)+
  show "preserves I (await_running env c lxc v)"
    unfolding await_running_def [abs_def]
    by (rule preserves_at) (intro preserves_rthen preserves_basic preserves_if)
qed

text \<open>Every record is filed under the identifier it holds.\<close>

definition records_own :: "runtime \<Rightarrow> record_files \<Rightarrow> bool" where
  "records_own rt fs \<longleftrightarrow> (\<forall>n p rec. proxmox_record_path (int_str n) = Inr p \<longrightarrow>
     read_signed_record rt p fs = Inr (Some rec) \<longrightarrow> field rec ''vmid'' = JInt n)"

lemma proxmox_path_inj:
  "proxmox_record_path (int_str m) = Inr p \<Longrightarrow> proxmox_record_path (int_str n) = Inr p \<Longrightarrow> m = n"
  by (auto simp: proxmox_record_path_def intro: int_str_inj split: if_splits)

lemma read_other: "p \<noteq> q \<Longrightarrow> read_signed_record rt p (jm_set q v fs) = read_signed_record rt p fs"
  by (simp add: read_signed_record_def store_simps)

lemma record_keeps_own:
  assumes "records_own (de_rt env) (dw_files w)"
  shows "records_own (de_rt env) (dw_files (fst (proxmox_record env art envn ps vmid ip w)))"
proof -
  let ?pl = "JObj [(''vmid'', JInt vmid), (''workload_kind'', JStr (req_param ps ''workload_kind'')),
      (''hostname'', JStr (req_param ps ''hostname'')), (''image_uri'', JStr (req_param ps ''image_uri''))]"
  let ?persist = "\<lambda>p. persist_signed_record (de_rt env) (de_disk env) p ?pl (dw_files w)"
  have "dw_files (fst (proxmox_record env art envn ps vmid ip w)) = dw_files w
      \<or> (\<exists>p fs. proxmox_record_path (int_str vmid) = Inr p \<and> ?persist p = (fs, Inr ())
          \<and> dw_files (fst (proxmox_record env art envn ps vmid ip w)) = fs)"
    by (auto simp: proxmox_record_def Let_def rthen_def persist_step_def rlift_def persist_signed_record_def
        split: prod.splits sum.splits if_splits)
  then show ?thesis
  proof (elim disjE exE conjE)
    fix p fs
    assume p: "proxmox_record_path (int_str vmid) = Inr p" "?persist p = (fs, Inr ())"
      and fs: "dw_files (fst (proxmox_record env art envn ps vmid ip w)) = fs"
    obtain s where s: "fs = jm_set p (Content (Some s)) (dw_files w)"
      using p(2) by (auto simp: persist_signed_record_def split: sum.splits if_splits)
    show ?thesis
      unfolding records_own_def fs
    proof (intro allI impI)
      fix n q rec
      assume q: "proxmox_record_path (int_str n) = Inr q" "read_signed_record (de_rt env) q fs = Inr (Some rec)"
      show "field rec ''vmid'' = JInt n"
      proof (cases "q = p")
        case True
        then have "n = vmid" "rec = ?pl" using q p proxmox_path_inj persist_read [OF p(2)] by auto
        then show ?thesis by simp
      next
        case False
        then show ?thesis using q assms read_other [OF False] s by (auto simp: records_own_def)
      qed
    qed
  qed (use assms in simp)
qed

lemma deploy_keeps_own: "preserves (records_own (de_rt env)) (proxmox_deploy env art envn raw)"
  unfolding proxmox_deploy_def
  by (intro preserves_rthen preserves_basic preserves_steps)
     (simp add: preserves_def record_keeps_own)

lemma previous_own:
  assumes "records_own (de_rt env) fs"
  shows "previous_vmid env n fs \<in> {JNull, JInt n}"
proof (cases "rbind (proxmox_record_path (int_str n)) (\<lambda>p. read_signed_record (de_rt env) p fs)")
  case (Inr r)
  then obtain p where p: "proxmox_record_path (int_str n) = Inr p" "read_signed_record (de_rt env) p fs = Inr r"
    by (auto simp: res_simps)
  show ?thesis
  proof (cases r)
    case (Some rec)
    then have "field rec ''vmid'' = JInt n" using assms p unfolding records_own_def by blast
    then show ?thesis using Inr Some by (auto simp: previous_vmid_def prop_of_def)
  qed (use Inr in \<open>simp add: previous_vmid_def\<close>)
qed (simp add: previous_vmid_def)

text \<open>What a build and a deployment that return have done.\<close>

lemma proxmox_build_done:
  assumes "proxmox_build env ctx w = (w', Inr a)"
  obtains ps vmid where "validate_parameters (bc_params ctx) PROXMOX_SCHEMA = Inr ps" "vmid_param ps = Inr vmid"
    "dw_files w' = dw_files w" "field (ba_meta a) ''vmid'' = JInt vmid"
    "field (ba_meta a) ''previous_vmid'' = previous_vmid env vmid (dw_files w)"
proof -
  obtain ps vmid c u where s: "validate_parameters (bc_params ctx) PROXMOX_SCHEMA = Inr ps" "vmid_param ps = Inr vmid"
    "(if is_lxc ps then run_pct_create env c (create_opts_of ps vmid)
      else run_qm_create env c (create_opts_of ps vmid)) w = (w', Inr u)"
    and a: "field (ba_meta a) ''previous_vmid'' = previous_vmid env vmid (dw_files w')" "field (ba_meta a) ''vmid'' = JInt vmid"
    using assms by (auto simp: proxmox_build_def rthen_Inr rlift_def get_connection_def Let_def rret_def opt_field_def
        split: option.splits)
  have "preserves (\<lambda>fs. fs = dw_files w) (if is_lxc ps then run_pct_create env c (create_opts_of ps vmid)
      else run_qm_create env c (create_opts_of ps vmid))"
    unfolding run_pct_create_def run_qm_create_def by (intro preserves_if preserves_rthen preserves_steps)
  then have "dw_files w' = dw_files w" using s(3) unfolding preserves_def by (metis fst_conv)
  with s a that show thesis by simp
qed


lemma proxmox_deploy_done:
  assumes "proxmox_deploy env art envn raw w = (w', Inr rec)"
  shows "\<exists>ps vmid c n r pl. validate_parameters raw PROXMOX_SCHEMA = Inr ps \<and> vmid_param ps = Inr vmid
    \<and> de_conn env (req_param ps ''node_id'') = Inr c
    \<and> dw_host w' = dw_host w @ [start_cmd (is_lxc ps) (int_str vmid)]
         @ replicate (Suc n) (status_cmd (is_lxc ps) (int_str vmid)) @ [ip_cmd (is_lxc ps) (int_str vmid)]
    \<and> c (dw_host w @ [start_cmd (is_lxc ps) (int_str vmid)] @ replicate n (status_cmd (is_lxc ps) (int_str vmid)))
         (status_cmd (is_lxc ps) (int_str vmid)) = Inr r
    \<and> status_running r
    \<and> (\<exists>p. proxmox_record_path (int_str vmid) = Inr p \<and>
         (\<exists>stored. read_signed_record (de_rt env) p (dw_files w') = Inr (Some stored) \<and> field stored ''vmid'' = JInt vmid))
    \<and> sign_deployment_record (de_rt env) pl = Inr rec
    \<and> field (field pl ''details'') ''vmid'' = JInt vmid
    \<and> (field (field pl ''details'') ''workload_kind'' = JStr ''lxc'') = is_lxc ps
    \<and> field (field pl ''details'') ''previous_vmid'' = coalesce (field (ba_meta art) ''previous_vmid'') JNull
    \<and> str_of_field (field pl ''details'') ''node_id'' = req_param ps ''node_id''"
proof -
  obtain ps vmid c where v: "validate_parameters raw PROXMOX_SCHEMA = Inr ps" "vmid_param ps = Inr vmid"
    "de_conn env (req_param ps ''node_id'') = Inr c"
    using assms by (auto simp: proxmox_deploy_def rthen_Inr rlift_def get_connection_def)
  let ?v = "int_str vmid" and ?lxc = "is_lxc ps"
  obtain x w1 w2 w3 ip where s: "must_run env c DeployFailed (Inr (start_cmd ?lxc ?v)) w = (w1, Inr x)"
    "await_running env c ?lxc ?v w1 = (w2, Inr ())" "resolve_assigned_ip env c ?lxc ?v w2 = (w3, Inr ip)"
    "proxmox_record env art envn ps vmid ip w3 = (w', Inr rec)"
    using assms by (auto simp: proxmox_deploy_def rthen_Inr rlift_def get_connection_def v)
  have h1: "dw_host w1 = dw_host w @ [start_cmd ?lxc ?v]"
    using s(1) by (auto simp: must_run_def rthen_rlift rthen_dexec rthrow_def rret_def split: sum.splits if_splits)
  have "poll_until env c (status_cmd ?lxc ?v) (\<lambda>r. Inr (status_running r)) (dw_now w1 + 60000) w1 = (w2, Inr True)"
    using s(2) by (auto simp: await_running_def rthen_def rret_def rthrow_def split: prod.splits sum.splits if_splits)
  from poll_until_true [OF this] obtain n r where poll:
    "dw_host w2 = dw_host w1 @ replicate (Suc n) (status_cmd ?lxc ?v)"
    "c (dw_host w1 @ replicate n (status_cmd ?lxc ?v)) (status_cmd ?lxc ?v) = Inr r" "status_running r" by auto
  have h3: "dw_host w3 = dw_host w2 @ [ip_cmd ?lxc ?v]"
    using s(3) by (auto simp: resolve_assigned_ip_def rthen_dexec rlift_def rret_def split: sum.splits if_splits)
  let ?stored = "JObj [(''vmid'', JInt vmid), (''workload_kind'', JStr (req_param ps ''workload_kind'')),
      (''hostname'', JStr (req_param ps ''hostname'')), (''image_uri'', JStr (req_param ps ''image_uri''))]"
  obtain p fs where p: "proxmox_record_path ?v = Inr p" "field ?stored ''vmid'' = JInt vmid"
    "persist_signed_record (de_rt env) (de_disk env) p ?stored (dw_files w3) = (fs, Inr ())"
    "dw_files w' = fs" "dw_host w' = dw_host w3"
    using s(4)
    by (auto simp: proxmox_record_def Let_def rthen_def persist_step_def rlift_def split: prod.splits sum.splits)
  obtain pl where pl: "sign_deployment_record (de_rt env) pl = Inr rec" "field (field pl ''details'') ''vmid'' = JInt vmid"
    "(field (field pl ''details'') ''workload_kind'' = JStr ''lxc'') = ?lxc"
    "field (field pl ''details'') ''previous_vmid'' = coalesce (field (ba_meta art) ''previous_vmid'') JNull"
    "str_of_field (field pl ''details'') ''node_id'' = req_param ps ''node_id''"
    using s(4)
    by (auto simp: proxmox_record_def Let_def rthen_def rlift_def record_payload_def opt_field_def str_of_field_def is_lxc_def
        split: prod.splits sum.splits)
  have "dw_host w' = dw_host w @ [start_cmd ?lxc ?v] @ replicate (Suc n) (status_cmd ?lxc ?v) @ [ip_cmd ?lxc ?v]"
    using p(5) h3 poll(1) h1 by simp
  moreover have "\<exists>st. read_signed_record (de_rt env) p (dw_files w') = Inr (Some st) \<and> field st ''vmid'' = JInt vmid"
    using p(2,4) persist_read [OF p(3)] by blast
  moreover have "c (dw_host w @ [start_cmd ?lxc ?v] @ replicate n (status_cmd ?lxc ?v)) (status_cmd ?lxc ?v) = Inr r"
    using poll(2) h1 by simp
  ultimately show ?thesis using v pl poll(3) p(1) by blast
qed

text \<open>
  The rollback records on disk are always filed under the identifier they hold: a deployment, whatever
  its outcome, keeps this, so what a build finds as the previous instance is the instance itself, or
  nothing.
\<close>

theorem proxmox_previous_is_itself:
  assumes "records_own (de_rt env) (dw_files w)"
  shows "records_own (de_rt env) (dw_files (fst (proxmox_deploy env art envn raw w)))
    \<and> (\<forall>ctx w1 w2 a. proxmox_build env ctx w1 = (w2, Inr a) \<and> records_own (de_rt env) (dw_files w1) \<longrightarrow>
         field (ba_meta a) ''previous_vmid'' \<in> {JNull, field (ba_meta a) ''vmid''} \<and> dw_files w2 = dw_files w1)"
proof (intro conjI allI impI)
  show "records_own (de_rt env) (dw_files (fst (proxmox_deploy env art envn raw w)))"
    using deploy_keeps_own assms unfolding preserves_def by blast
next
  fix ctx w1 w2 a
  assume b: "proxmox_build env ctx w1 = (w2, Inr a) \<and> records_own (de_rt env) (dw_files w1)"
  then obtain ps vmid where "dw_files w2 = dw_files w1" "field (ba_meta a) ''vmid'' = JInt vmid"
    "field (ba_meta a) ''previous_vmid'' = previous_vmid env vmid (dw_files w1)"
    using proxmox_build_done by blast
  then show "dw_files w2 = dw_files w1" "field (ba_meta a) ''previous_vmid'' \<in> {JNull, field (ba_meta a) ''vmid''}"
    using previous_own [of env "dw_files w1" vmid] b by simp_all
qed

text \<open>
  A deployment that returns started the instance, saw it running, left a record on disk that
  reads back under its identifier, and returns a record that verifies. When the build had found a
  previous record, the rollback of that deployment stops and starts the very same instance; otherwise it
  changes nothing.
\<close>

theorem proxmox_rollback_same_instance:
  assumes "records_own (de_rt env) (dw_files w0)" "proxmox_build env ctx w0 = (w1, Inr art)"
    and "proxmox_deploy env art envn (bc_params ctx) w = (w', Inr rec)"
  shows "\<exists>ps vmid n. validate_parameters (bc_params ctx) PROXMOX_SCHEMA = Inr ps \<and> vmid_param ps = Inr vmid
    \<and> dw_host w' = dw_host w @ [start_cmd (is_lxc ps) (int_str vmid)]
         @ replicate (Suc n) (status_cmd (is_lxc ps) (int_str vmid)) @ [ip_cmd (is_lxc ps) (int_str vmid)]
    \<and> verify_deployment_record (de_rt env) rec
    \<and> (\<forall>v. \<exists>cs. dw_host (fst (proxmox_rollback env rec v)) = dw_host v @ cs
         \<and> list_all (\<lambda>q. q \<in> {stop_cmd (is_lxc ps) (int_str vmid), start_cmd (is_lxc ps) (int_str vmid),
              status_cmd (is_lxc ps) (int_str vmid)}) cs)"
proof -
  obtain ps vmid n pl where d: "validate_parameters (bc_params ctx) PROXMOX_SCHEMA = Inr ps" "vmid_param ps = Inr vmid"
    "dw_host w' = dw_host w @ [start_cmd (is_lxc ps) (int_str vmid)]
         @ replicate (Suc n) (status_cmd (is_lxc ps) (int_str vmid)) @ [ip_cmd (is_lxc ps) (int_str vmid)]"
    "sign_deployment_record (de_rt env) pl = Inr rec"
    "field (field pl ''details'') ''vmid'' = JInt vmid"
    "(field (field pl ''details'') ''workload_kind'' = JStr ''lxc'') = is_lxc ps"
    "field (field pl ''details'') ''previous_vmid'' = coalesce (field (ba_meta art) ''previous_vmid'') JNull"
    using proxmox_deploy_done [OF assms(3)] by (elim exE conjE) (rule that; assumption)
  have det: "details_of rec = field pl ''details''"
    using d(4) by (auto simp: sign_deployment_record_def details_of_def res_simps sign_payload_Inr signed_def)
  have "field (ba_meta art) ''previous_vmid'' = previous_vmid env vmid (dw_files w0)"
    using proxmox_build_done [OF assms(2)] d(1,2) by (metis sum.inject(2))
  with previous_own [OF assms(1), of vmid]
  have prev: "field (field pl ''details'') ''previous_vmid'' \<in> {JNull, JInt vmid}"
    using d(7) by (auto simp: coalesce_def nullish_def)
  let ?P = "\<lambda>q. q \<in> {stop_cmd (is_lxc ps) (int_str vmid), start_cmd (is_lxc ps) (int_str vmid),
              status_cmd (is_lxc ps) (int_str vmid)}"
  have "sends ?P (proxmox_rollback env rec)"
  proof (cases "field (field pl ''details'') ''previous_vmid'' = JNull")
    case True
    then show ?thesis by (simp add: proxmox_rollback_def Let_def det sends_rret)
  next
    case False
    then have p: "field (field pl ''details'') ''previous_vmid'' = JInt vmid" using prev by simp
    show ?thesis
      unfolding proxmox_rollback_def Let_def det p d(5,6) vm_text_def jsval.case jsnum.case
      by (intro deploy_intros sends_await) simp_all
  qed
  then show ?thesis
    using d(1-3) sign_record_verifies [OF d(4)] unfolding sends_def by blast
qed

section \<open>Witnesses\<close>

definition demo_vm_params :: jsval where
  "demo_vm_params = JObj [(''node_id'', JStr ''n1''), (''workload_kind'', JStr ''lxc''), (''vmid'', JInt 101),
     (''image_uri'', JStr ''img''), (''storage_pool'', JStr ''local''), (''hostname'', JStr ''web'')]"

definition demo_vm_valid :: "(string, jsval) jsmap" where
  "demo_vm_valid = [(''node_id'', JStr ''n1''), (''workload_kind'', JStr ''lxc''), (''vmid'', JInt 101),
     (''image_uri'', JStr ''img''), (''storage_pool'', JStr ''local''), (''hostname'', JStr ''web''),
     (''cores'', JInt 1), (''memory_mb'', JInt 512), (''health_timeout_seconds'', JInt 120)]"

lemma demo_vm_validates:
  "validate_parameters demo_vm_params PROXMOX_SCHEMA = Inr demo_vm_valid" "vmid_param demo_vm_valid = Inr 101"
  "is_lxc demo_vm_valid" "\<not> isl (pct_create_cmd (create_opts_of demo_vm_valid 101))"
  by code_simp+

definition demo_node :: "(string, exec_result) peer" where
  "demo_node h q = Inr \<lparr>x_stdout = ''status: running'', x_stderr = [], x_exit = 0\<rparr>"

definition demo_context :: build_context where
  "demo_context = \<lparr>bc_request = ''r'', bc_env = ''e'', bc_repo = ''/r'', bc_commit = ''abc'', bc_params = demo_vm_params\<rparr>"

lemma records_own_empty: "records_own rt []"
  by (simp add: records_own_def read_signed_record_def)

theorem proxmox_previous_is_itself_witness:
  "records_own demo_rt2 (dw_files (fst (proxmox_deploy (demo_denv demo_node Absent) demo_artifact [] demo_vm_params demo_dworld)))"
  using proxmox_previous_is_itself [of "demo_denv demo_node Absent" demo_dworld demo_artifact "[]" demo_vm_params]
  by (simp add: records_own_empty demo_denv_def demo_dworld_def)

lemma demo_node_steps:
  "\<exists>v. must_run env demo_node code (Inr q) w = (v, Inr \<lparr>x_stdout = ''status: running'', x_stderr = [], x_exit = 0\<rparr>)"
  "\<exists>v. await_running env demo_node lxc i w = (v, Inr ())"
  "rt_json (de_rt env) = (\<lambda>s. None) \<Longrightarrow> \<exists>v. resolve_assigned_ip env demo_node lxc i w = (v, Inr None)"
proof -
  show "\<exists>v. must_run env demo_node code (Inr q) w = (v, Inr \<lparr>x_stdout = ''status: running'', x_stderr = [], x_exit = 0\<rparr>)"
    by (simp add: must_run_def rthen_rlift rthen_dexec demo_node_def rret_def)
  have r: "status_running \<lparr>x_stdout = ''status: running'', x_stderr = [], x_exit = 0\<rparr>" by code_simp
  show "\<exists>v. await_running env demo_node lxc i w = (v, Inr ())"
    using poll_now [of w "dw_now w + 60000" demo_node "status_cmd lxc i" _ "\<lambda>r. Inr (status_running r)" env] r
    by (simp add: await_running_def demo_node_def rthen_def rret_def)
  show "\<exists>v. resolve_assigned_ip env demo_node lxc i w = (v, Inr None)" if "rt_json (de_rt env) = (\<lambda>s. None)"
    using that by (simp add: resolve_assigned_ip_def rthen_dexec demo_node_def rlift_def rret_def parse_ip_json_def guest_ip_def)
qed

lemma demo_builds: "\<exists>w1 art. proxmox_build (demo_denv demo_node Absent) demo_context demo_dworld = (w1, Inr art)"
proof -
  let ?env = "demo_denv demo_node Absent :: shell_env"
  obtain q where q: "pct_create_cmd (create_opts_of demo_vm_valid 101) = Inr q"
    using demo_vm_validates(4) by (cases "pct_create_cmd (create_opts_of demo_vm_valid 101)") auto
  obtain v x where "must_run ?env demo_node BuildFailed (Inr q) demo_dworld = (v, Inr x)"
    using demo_node_steps(1) by blast
  moreover have "de_conn ?env i = Inr demo_node" for i by (simp add: demo_denv_def)
  ultimately show ?thesis
    by (simp add: proxmox_build_def demo_context_def demo_vm_validates rthen_rlift get_connection_def
        run_pct_create_def q) (simp add: rthen_def rret_def Let_def)
qed

lemma demo_vm_deploys:
  assumes "field (ba_meta art) ''previous_vmid'' = JNull"
  shows "\<exists>w' rec. proxmox_deploy (demo_denv demo_node Absent) art [] demo_vm_params demo_dworld = (w', Inr rec)"
proof -
  let ?env = "demo_denv demo_node Absent :: shell_env"
  have j: "rt_json (de_rt ?env) = (\<lambda>s. None)" by (simp add: demo_denv_def demo_rt2_def demo_rt_def)
  have path: "proxmox_record_path (int_str 101) = Inr ''proxmox/101.json''" by code_simp
  have rec: "\<exists>w' rec. proxmox_record ?env art [] demo_vm_valid 101 None w = (w', Inr rec)" for w
    using assms
    by (simp add: proxmox_record_def Let_def rthen_def persist_step_def persist_signed_record_def path
        sign_payload_def canonical_json_eq demo_denv_def rlift_def sign_deployment_record_def record_payload_def
        opt_field_def js_opt_def coalesce_def nullish_def)
  obtain v1 x where 1: "must_run ?env demo_node DeployFailed (Inr (start_cmd True (int_str 101))) demo_dworld = (v1, Inr x)"
    using demo_node_steps(1) by blast
  obtain v2 where 2: "await_running ?env demo_node True (int_str 101) v1 = (v2, Inr ())"
    using demo_node_steps(2) by blast
  obtain v3 where 3: "resolve_assigned_ip ?env demo_node True (int_str 101) v2 = (v3, Inr None)"
    using demo_node_steps(3) [OF j] by blast
  have c: "de_conn ?env i = Inr demo_node" for i by (simp add: demo_denv_def)
  show ?thesis
    using rec [of v3]
    by (simp add: proxmox_deploy_def demo_vm_validates rthen_rlift get_connection_def c)
       (simp add: rthen_def 1 2 3)
qed

theorem proxmox_rollback_same_instance_witness:
  "\<exists>w1 art w' rec. proxmox_build (demo_denv demo_node Absent) demo_context demo_dworld = (w1, Inr art)
     \<and> proxmox_deploy (demo_denv demo_node Absent) art [] demo_vm_params demo_dworld = (w', Inr rec)
     \<and> verify_deployment_record demo_rt2 rec"
proof -
  obtain w1 art where b: "proxmox_build (demo_denv demo_node Absent) demo_context demo_dworld = (w1, Inr art)"
    using demo_builds by blast
  have "field (ba_meta art) ''previous_vmid'' = JNull"
    by (rule proxmox_build_done [OF b])
       (simp add: previous_vmid_def demo_dworld_def read_signed_record_def res_simps split: sum.split option.split)
  then obtain w' rec where d: "proxmox_deploy (demo_denv demo_node Absent) art [] demo_vm_params demo_dworld = (w', Inr rec)"
    using demo_vm_deploys by blast
  have "verify_deployment_record demo_rt2 rec"
    using proxmox_rollback_same_instance [OF _ b, of "[]" demo_dworld w' rec] d
    by (auto simp: records_own_empty demo_context_def demo_dworld_def demo_denv_def)
  with b d show ?thesis by blast
qed

end
