(* ===== verification/K3s.thy ===== *)
theory K3s
  imports Deploy
begin

text \<open>
  \<open>src/deploy/backends/k3s.ts\<close>, \<open>k3s-credential-client.ts\<close> and \<open>credential-proxy-types.ts\<close>: a backend
  that wraps the Kubernetes backend of another repository, which is a parameter here together with the
  credential proxy and the resolver of context names. The state \<open>'s\<close> is theirs.
\<close>

section \<open>The collaborators\<close>

record scoped_credential =
  sc_kubeconfig :: string
  sc_expires :: string
  sc_lifetime :: int

record 's k8s_backend =
  k8_build :: "build_context \<Rightarrow> ('s, build_artifact) prog"
  k8_deploy :: "build_artifact \<Rightarrow> string \<Rightarrow> jsval \<Rightarrow> ('s, jsval) prog"
  k8_health :: "jsval \<Rightarrow> ('s, health_status) prog"
  k8_rollback :: "jsval \<Rightarrow> ('s, rollback_result) prog"

text \<open>\<open>ke_proxy\<close> takes the kind, the operation and the scope.\<close>

record 's k3s_deps =
  ke_backend :: "'s k8s_backend"
  ke_proxy :: "string \<Rightarrow> string \<Rightarrow> string \<Rightarrow> ('s, scoped_credential) prog"
  ke_context :: "string \<Rightarrow> ('s, string) prog"

definition MAX_TOKEN_LIFETIME_SECONDS :: int where
  "MAX_TOKEN_LIFETIME_SECONDS = 900"

definition k3s_acquire :: "'s k3s_deps \<Rightarrow> string \<Rightarrow> string \<Rightarrow> ('s, scoped_credential) prog" where
  "k3s_acquire d op' scope =
     rthen (ke_proxy d ''k8s'' op' scope) (\<lambda>cred.
       if MAX_TOKEN_LIFETIME_SECONDS < sc_lifetime cred
       then rthrow (deploy_error CredentialInvalid (''proxy issued credential with lifetime '' @ int_str (sc_lifetime cred)
              @ ''s (max '' @ int_str MAX_TOKEN_LIFETIME_SECONDS @ ''s); refusing to use long-lived token''))
       else rret cred)"

definition scope_of :: "string \<Rightarrow> string \<Rightarrow> string" where
  "scope_of ctx ns = ''cluster:'' @ ctx @ ''/namespace:'' @ ns"

section \<open>The backend\<close>

definition K3S_SCHEMA :: "(string \<times> param_schema) list" where
  "K3S_SCHEMA = [
     (''cluster_id'', text_param True (Some FIdentifier)),
     (''namespace'', Schema PString False (Some (JStr ''default'')) None None None (Some FIdentifier) None None None),
     (''manifest_path'', text_param True (Some FPath)),
     (''deployment_name'', text_param True (Some FIdentifier)),
     (''ready_timeout_seconds'', Schema PNumber False (Some (JInt 180)) None (Some (10, 600)) None None None None None)]"

text \<open>\<open>{ ...o, k: x }\<close>\<close>

definition obj_with :: "jsval \<Rightarrow> string \<Rightarrow> jsval \<Rightarrow> jsval" where
  "obj_with v k x = (case v of JObj kvs \<Rightarrow> JObj (jm_set k x kvs) | _ \<Rightarrow> JObj [(k, x)])"

definition namespace_of :: "(string, jsval) jsmap \<Rightarrow> string" where
  "namespace_of ps = (case str_param ps ''namespace'' of Some ns \<Rightarrow> ns | None \<Rightarrow> ''default'')"

definition translated_params :: "(string, jsval) jsmap \<Rightarrow> string \<Rightarrow> scoped_credential \<Rightarrow> jsval" where
  "translated_params ps ctx cred =
     JObj (jm_set ''scopedKubeconfig'' (JStr (sc_kubeconfig cred))
       (jm_set ''namespace'' (JStr (namespace_of ps)) (jm_set ''context_name'' (JStr ctx) ps)))"

definition as_k3s :: "jsval \<Rightarrow> string \<Rightarrow> jsval" where
  "as_k3s inner cluster =
    (let p = field inner ''payload'' in
     JObj [(''payload'', obj_with (obj_with p ''backendName'' (JStr ''k3s'')) ''details''
             (obj_with (field p ''details'') ''cluster_id'' (JStr cluster))),
           (''hmac'', field inner ''hmac'')])"

definition k3s_build :: "'s k3s_deps \<Rightarrow> build_context \<Rightarrow> ('s, build_artifact) prog" where
  "k3s_build d ctx = k8_build (ke_backend d) ctx"

definition k3s_deploy :: "'s k3s_deps \<Rightarrow> build_artifact \<Rightarrow> string \<Rightarrow> jsval \<Rightarrow> ('s, jsval) prog" where
  "k3s_deploy d art envn raw =
     rthen (rlift (validate_parameters raw K3S_SCHEMA)) (\<lambda>ps.
     rthen (ke_context d (req_param ps ''cluster_id'')) (\<lambda>ctx.
     rthen (k3s_acquire d ''K8s:Apply'' (scope_of ctx (namespace_of ps))) (\<lambda>cred.
     rthen (k8_deploy (ke_backend d) art envn (translated_params ps ctx cred)) (\<lambda>inner.
     rret (as_k3s inner (req_param ps ''cluster_id''))))))"

definition record_namespace :: "jsval \<Rightarrow> string" where
  "record_namespace details = (case field details ''namespace'' of JStr ns \<Rightarrow> ns | _ \<Rightarrow> ''default'')"

definition acquire_for :: "'s k3s_deps \<Rightarrow> string \<Rightarrow> jsval \<Rightarrow> ('s, scoped_credential) prog" where
  "acquire_for d op' details =
     rthen (ke_context d (str_of_field details ''cluster_id'')) (\<lambda>ctx.
     k3s_acquire d op' (scope_of ctx (record_namespace details)))"

definition k3s_health :: "'s k3s_deps \<Rightarrow> jsval \<Rightarrow> ('s, health_status) prog" where
  "k3s_health d rec =
    (let details = details_of rec in
     if field details ''cluster_id'' \<noteq> JUndef
     then rthen (acquire_for d ''K8s:Read'' details) (\<lambda>_. k8_health (ke_backend d) rec)
     else k8_health (ke_backend d) rec)"

definition k3s_rollback :: "'s k3s_deps \<Rightarrow> jsval \<Rightarrow> ('s, rollback_result) prog" where
  "k3s_rollback d rec =
    (let details = details_of rec in
     if field details ''cluster_id'' = JUndef
     then rthrow (deploy_error RollbackFailed ''k3s rollback requires details.cluster_id to be set on the record'')
     else rthen (acquire_for d ''K8s:Patch'' details) (\<lambda>_. k8_rollback (ke_backend d) rec))"

section \<open>Credentials\<close>

lemma k3s_acquire_ok:
  "k3s_acquire d op' sc s = (s', Inr cred) \<longleftrightarrow> ke_proxy d ''k8s'' op' sc s = (s', Inr cred) \<and> sc_lifetime cred \<le> 900"
  by (auto simp: k3s_acquire_def rthen_def rret_def rthrow_def MAX_TOKEN_LIFETIME_SECONDS_def
      split: prod.splits sum.splits if_splits)

text \<open>
  The wrapped backend deploys only with parameters that validated and a credential issued in the same
  call for this cluster's context and this namespace, valid for fifteen minutes at most; what it is given
  are the validated parameters with context, namespace and credential added. When validation,
  resolution or the proxy fails, or the credential lives longer, the wrapped backend is not called.
\<close>

theorem k3s_deploys_with_short_credential:
  "(case validate_parameters raw K3S_SCHEMA of
      Inl e \<Rightarrow> k3s_deploy d art envn raw s = (s, Inl e)
    | Inr ps \<Rightarrow>
        (case ke_context d (req_param ps ''cluster_id'') s of
           (s1, Inl e) \<Rightarrow> k3s_deploy d art envn raw s = (s1, Inl e)
         | (s1, Inr ctx) \<Rightarrow>
             (case ke_proxy d ''k8s'' ''K8s:Apply'' (''cluster:'' @ ctx @ ''/namespace:'' @ namespace_of ps) s1 of
                (s2, Inl e) \<Rightarrow> k3s_deploy d art envn raw s = (s2, Inl e)
              | (s2, Inr cred) \<Rightarrow>
                  if 900 < sc_lifetime cred
                  then \<exists>m. k3s_deploy d art envn raw s = (s2, Inl (DeployError CredentialInvalid m False None))
                  else (case k8_deploy (ke_backend d) art envn (translated_params ps ctx cred) s2 of
                          (s3, Inl e) \<Rightarrow> k3s_deploy d art envn raw s = (s3, Inl e)
                        | (s3, Inr inner) \<Rightarrow>
                            k3s_deploy d art envn raw s = (s3, Inr (as_k3s inner (req_param ps ''cluster_id'')))
                            \<and> field (translated_params ps ctx cred) ''namespace'' = JStr (namespace_of ps)
                            \<and> field (translated_params ps ctx cred) ''scopedKubeconfig'' = JStr (sc_kubeconfig cred)))))"
  by (auto simp: k3s_deploy_def rthen_def rlift_def rret_def rthrow_def k3s_acquire_def scope_of_def
      MAX_TOKEN_LIFETIME_SECONDS_def deploy_error_def translated_params_def store_simps field_def
      split: prod.splits sum.splits)

section \<open>The record\<close>

lemma map_of_by_filter: "map_of xs k = (case filter (\<lambda>p. fst p = k) xs of [] \<Rightarrow> None | p # _ \<Rightarrow> Some (snd p))"
  by (induction xs) auto

lemma map_of_sort_key: "map_of (sort_key fst xs) k = map_of xs k"
  by (simp add: map_of_by_filter [of _ k] sort_key_stable)

text \<open>The canonical form keeps the members.\<close>

lemma field_canon: "field v k \<noteq> JUndef \<Longrightarrow> field (canon v) k = canon (field v k)"
  by (cases v) (auto simp: field_def map_of_sort_key canon_members_map map_of_map split: option.splits)

lemma field_obj_with: "field (obj_with v k x) j = (if j = k then x else field v j)"
  by (cases v) (auto simp: obj_with_def field_def store_simps)

text \<open>
  The record a k3s deployment returns keeps the signature of the wrapped backend while its
  backend name is replaced, so, unless the authentication code collides, it does not verify when the
  wrapped record did.
\<close>

theorem k3s_record_never_verifies:
  assumes "\<And>key a b. rt_hmac rt key a = rt_hmac rt key b \<Longrightarrow> a = b"
    and "verify_deployment_record rt inner"
    and "field (field inner ''payload'') ''backendName'' = JStr name" "name \<noteq> ''k3s''"
  shows "\<not> verify_deployment_record rt (as_k3s inner cluster)"
proof
  assume v: "verify_deployment_record rt (as_k3s inner cluster)"
  let ?p = "field inner ''payload''" and ?q = "field (as_k3s inner cluster) ''payload''"
  obtain kvs where p: "?p = JObj kvs" using assms(3) by (cases ?p) (auto simp: field_def)
  have h: "field (as_k3s inner cluster) ''hmac'' = field inner ''hmac''" by (simp add: as_k3s_def Let_def)
  obtain key x key' where k: "get_secret rt hmac_env = Inr key" "field inner ''hmac'' = JStr x" "is_json ?p" "is_json ?q"
    "from_hex x = rt_hmac rt key (render (canon ?p))" "from_hex x = rt_hmac rt key (render (canon ?q))"
    using v assms(2) h by (auto simp: verify_deployment_record_def verify_payload_mac)
  then have "render (canon ?p) = render (canon ?q)" using assms(1) by metis
  then have "canon ?p = canon ?q" using k(3,4) by (intro render_inj is_json_canon)
  moreover have q: "field ?q ''backendName'' = JStr ''k3s''"
    by (simp add: as_k3s_def Let_def p field_obj_with)
  ultimately show False
    using field_canon [of ?p "''backendName''"] field_canon [of ?q "''backendName''"] assms(3,4) by simp
qed

definition demo_inner_payload :: jsval where
  "demo_inner_payload = JObj [(''id'', JStr ''d''), (''backendName'', JStr ''k8s''), (''details'', JObj [])]"

theorem k3s_record_never_verifies_witness:
  "\<exists>inner. verify_deployment_record demo_rt2 inner \<and> \<not> verify_deployment_record demo_rt2 (as_k3s inner ''c1'')"
proof -
  obtain inner where i: "sign_deployment_record demo_rt2 demo_inner_payload = Inr inner"
    by (simp add: sign_deployment_record_def res_simps sign_payload_def canonical_json_eq demo_inner_payload_def)
  then have "field (field inner ''payload'') ''backendName'' = JStr ''k8s''"
    by (auto simp: sign_deployment_record_def res_simps sign_payload_Inr signed_def demo_inner_payload_def)
  from k3s_record_never_verifies [OF _ sign_record_verifies [OF i] this, of "''c1''"] sign_record_verifies [OF i]
  show ?thesis by auto
qed

end
