(* ===== verification/Spec2Isabelle.thy ===== *)
theory Spec2Isabelle
  imports AuditLog Migration Restore Prober Admin Drift Refresh Vault Pool Swarm Unraid Proxmox K3s
begin

text \<open>
  Verification of the homelab plugin of autonomous-dev
  (\<open>src/plugins/autonomous-dev-homelab/src\<close>): the TypeScript program that watches a home network, and
  backs up, restores, migrates and deploys to its platforms.

  \<^bold>\<open>The program.\<close> Every change to a platform asks the approval gate, whose strictness follows the
  destructiveness of the action: a backup check against the signed manifest, a delay kept on disk
  across restarts, a typed word, and an audit event. The gate serves the restore flow and the migration
  orchestrator. The backup engine fills the manifest, and a
  deployment of a stateful service asks the same manifest. A consent manager decides which addresses the
  prober may ask. Probes report observations, which a collector deduplicates, stores and submits as
  intake requests; clocks time how long a fault lives. Records on disk are signed over a canonical JSON
  text; the audit log chains its entries.

  \<^bold>\<open>Theories.\<close> Paths are relative to the directory above.
  \<^item> \<open>Prelude\<close>: errors, fallible results, JavaScript maps as association lists, strings, and the
    interfaces \<open>keyed_store\<close> (laws of a map), \<open>invariant_machine\<close> (an invariant along runs) and
    \<open>refined_machine\<close> (a machine that answers like its specification).
  \<^item> \<open>Json\<close>: values and \<open>audit/canonical-json.ts\<close>. \<open>Signed\<close>: \<open>safety/hmac.ts\<close> and the parameters
    for code outside the repository; the interface \<open>envelope\<close>.
  \<^item> \<open>Metrics\<close>: \<open>metrics/types.ts\<close>, \<open>metrics/emitters.ts\<close>. \<open>Clocks\<close>: \<open>metrics/clock-store.ts\<close>
    with its refinement to a map.
  \<^item> \<open>Safety\<close>: \<open>safety/destructiveness.ts\<close>, \<open>validator.ts\<close>, \<open>typed-confirm.ts\<close>,
    \<open>mutation-barrier.ts\<close>. \<open>Delay\<close>: \<open>safety/delay.ts\<close> and \<open>state-paths.ts\<close> as a machine of
    handlers. \<open>Gate\<close>: \<open>safety/gate.ts\<close> as a composition of the others.
  \<^item> \<open>Backup\<close>: the manifest and its check (\<open>backup/types.ts\<close>, \<open>manifest-hmac.ts\<close>,
    \<open>manifest-io.ts\<close>, \<open>freshness-rules.ts\<close>, \<open>orchestrator.ts\<close>). \<open>Remote\<close>: commands on a host
    (\<open>connection/base.ts\<close>). \<open>Engine\<close>: \<open>backup/engine.ts\<close>, ten drivers. \<open>Restore\<close>:
    \<open>backup/restore.ts\<close>. \<open>Migration\<close>: \<open>migration/*.ts\<close>.
  \<^item> \<open>AuditLog\<close>: \<open>audit/types.ts\<close>, \<open>key-store.ts\<close>, \<open>writer.ts\<close> and the verify command of
    \<open>cli/commands/audit.ts\<close>.
  \<^item> \<open>Cidr\<close>: \<open>discovery/cidr.ts\<close> and the address functions of \<open>consent/manager.ts\<close> on 32-bit words.
    \<open>Consent\<close>: \<open>consent/*.ts\<close>. \<open>Prober\<close>: \<open>discovery/prober.ts\<close>, \<open>fingerprints.ts\<close>,
    \<open>json-path.ts\<close> and the semaphore. \<open>Admin\<close>: \<open>cli/middleware/admin-auth.ts\<close>.
  \<^item> \<open>Observation\<close>: \<open>observation/types.ts\<close>, \<open>fault-catalog.ts\<close>, \<open>dedup.ts\<close>, \<open>persistence.ts\<close>,
    \<open>promoter.ts\<close>, \<open>collector.ts\<close> and \<open>probes/base.ts\<close>.
  \<^item> \<open>Files\<close>: \<open>util/atomic-write.ts\<close> as the directories a crash may leave, \<open>util/file-mutex.ts\<close> with tasks
    in every interleaving. \<open>Graph\<close>: \<open>discovery/graph-types.ts\<close>, \<open>graph-store.ts\<close> and the schema
    \<open>schemas/inventory-graph-v2.json\<close>, with the interface \<open>merging_store\<close>. \<open>Inventory\<close>:
    \<open>discovery/inventory-types.ts\<close>, \<open>inventory.ts\<close>, the schema \<open>schemas/inventory-v1.json\<close> and
    \<open>graph-bridge.ts\<close>.
  \<^item> \<open>Topology\<close>: \<open>rules/topology.ts\<close>. \<open>Drift\<close>: \<open>rules/policy-generator.ts\<close> and
    \<open>observation/probes/policy-drift.ts\<close>. \<open>Refresh\<close>: \<open>discovery/enumerator.ts\<close>,
    \<open>deep-enumerator.ts\<close>, \<open>refresh.ts\<close>.
  \<^item> \<open>Redact\<close>: \<open>secrets/redactor.ts\<close> and \<open>audit/redact.ts\<close>, each regular expression as a matcher of its own.
    \<open>Vault\<close>: \<open>secrets/vault-resolver.ts\<close> and \<open>errors.ts\<close>. \<open>Pool\<close>: \<open>connection/pool.ts\<close>, every call a task
    that runs from one await to the next.
  \<^item> \<open>Params\<close>: \<open>deploy/validate-parameters.ts\<close>. \<open>Deploy\<close>: what the deployment backends share
    (\<open>deploy/types.ts\<close>, \<open>errors.ts\<close>, \<open>sign-record.ts\<close>, \<open>persist-record.ts\<close>, \<open>state-paths.ts\<close>,
    \<open>stateful-target.ts\<close>, the registry, \<open>backends/registry-pull.ts\<close>) and the interface
    \<open>backup_gated\<close>. \<open>Swarm\<close>, \<open>Unraid\<close>, \<open>Proxmox\<close>, \<open>K3s\<close>: \<open>deploy/backends\<close>.

  \<^bold>\<open>Conventions.\<close> A record type stands for an interface, a datatype for a union of literals, a sum
  type for a call that may throw or reject. A string is its list of bytes. An asynchronous operation
  that holds a mutex, or whose interleavings cannot be observed, is one function from state to state; where
  interleaving matters (delays, the semaphore, the connection pool, cancelling a running migration) the handlers are the
  steps of a machine. A file that holds JSON is what \<open>JSON.parse\<close> makes of it. Clock, environment
  variables, HMAC, date formatting and parsing, JSON parsing, regular expressions, HTTP, the remote host and
  the disk's failures are parameters; a theorem that relies on documented behaviour of one of them says
  so as a hypothesis. Recursion is structural or has a measure, so no fuel is needed except where a
  definition says so: the migration runs its five phases by counting the ones left. The polling loops of
  a deployment end because the clock passes their deadline.

  \<^bold>\<open>What is shown.\<close> The gate never approves without the conditions of its class and always audits
  (\<open>Gate\<close>); a delayed action fires neither early nor after a cancellation, across restarts and disk
  failures (\<open>Delay\<close>); a verified backup is in the manifest, fresh and unforged (\<open>Backup\<close>); restore
  and migration act only after approval (\<open>Restore\<close>, \<open>Migration\<close>); what the engine records can be
  restored (\<open>Engine\<close>, \<open>Restore\<close>); signatures and the audit chain bind their contents (\<open>Json\<close>,
  \<open>Signed\<close>, \<open>AuditLog\<close>); scans stay within the consent and their limit (\<open>Cidr\<close>, \<open>Consent\<close>,
  \<open>Prober\<close>); a fault is submitted at most once per window and no reported observation is unstored
  (\<open>Observation\<close>); the clock files refine a map (\<open>Clocks\<close>). Parameters of a deployment are what their
  schema says (\<open>Params\<close>), no parameter adds a command to a shell (\<open>Swarm\<close>, \<open>Proxmox\<close>), requests
  stay with one container (\<open>Unraid\<close>), a stateful deployment waits for a backup (\<open>Swarm\<close>, \<open>Unraid\<close>), and
  credentials are short-lived (\<open>K3s\<close>). An atomic write is all or nothing and no update made under a mutex
  is lost (\<open>Files\<close>), the graph never forgets an element (\<open>Graph\<close>),
  the inventory refines a map (\<open>Inventory\<close>), and the drift probe reports exactly
  the breaches of the generated policy (\<open>Drift\<close>). A sweep deletes nothing, marks exactly what its
  platforms no longer show and stores the drift it finds (\<open>Refresh\<close>). Redaction leaves no secret it knows
  and changes nothing else (\<open>Redact\<close>), a Vault token is never used past its renewal and no failure names a
  secret (\<open>Vault\<close>), and the pool never connects twice to a platform at once, hands out what was
  connected, stays near its cap and blocks no call (\<open>Pool\<close>). Lemmas also state where the code falls
  short of its documentation.
\<close>

text \<open>
  \<^bold>\<open>Not modelled.\<close> The certificate authority (drives openssl), the configuration loader (js-yaml and
  ajv), the connection clients, what the enumerator of each platform kind finds, most single probes, the observability
  onboarding, the portal, and the command-line dispatcher: mostly texts sent to, and answers parsed from, services the
  repository does not contain. Outside the theory \<open>Files\<close> an atomic write either replaces a file or
  fails, and the file mutex is the atomicity of one operation.
\<close>

end
